(* ===== verification/Prelude.thy ===== *)
theory Prelude
  imports Main "HOL-Library.Word" "HOL-Library.Char_ord" "HOL-Library.List_Lexorder"
begin

text \<open>
  Shared vocabulary of the development.

  C++ code that can throw, or whose behaviour is undefined on some inputs, returns a value of
  the sum type \<open>cpp_error + 'a\<close>: \<open>Inl\<close> carries the exception (or the reason why the
  behaviour is undefined), \<open>Inr\<close> the result.  \<open>bnd\<close> sequences such computations,
  \<open>foldM\<close> runs a loop body over a list of loop indices, and \<open>returns\<close> states total
  correctness: the computation ends normally and its result satisfies a predicate.

  The rest models the pieces of the C++ standard library the program uses: checked
  \<open>std::vector\<close> access, ordered containers searched by \<open>std::lower_bound\<close>
  (\<open>std::map\<close>, the member vectors of JSON objects), fixed width integers and
  \<open>std::to_string\<close>.
\<close>

section \<open>Errors\<close>

datatype cpp_error =
    JsonException string            \<comment> \<open>\<open>jsoncons::json_exception_0/_1\<close>\<close>
  | JsonParseException string       \<comment> \<open>\<open>jsoncons::json_parse_exception\<close>\<close>
  | RedisError string               \<comment> \<open>\<open>cpp_redis::redis_error\<close>\<close>
  | FutureError                     \<comment> \<open>\<open>std::future_error\<close> (broken promise)\<close>
  | SystemError                     \<comment> \<open>\<open>boost::system::system_error\<close>\<close>
  | ExitWith int                    \<comment> \<open>the program ends by \<open>exit\<close>\<close>
  | StdException string             \<comment> \<open>\<open>std::out_of_range\<close>, \<open>std::length_error\<close>\<close>
  | Deadlock                        \<comment> \<open>the thread waits for ever\<close>
  | Undefined string                \<comment> \<open>behaviour the C++ standard leaves undefined\<close>

type_synonym 'a result = "cpp_error + 'a"

named_theorems returns_rules \<open>introduction rules for the total correctness predicate\<close>

fun bnd :: "'a result \<Rightarrow> ('a \<Rightarrow> 'b result) \<Rightarrow> 'b result" where
  "bnd (Inl e) f = Inl e"
| "bnd (Inr x) f = f x"

text \<open>The same for computations that may not end: \<open>None\<close> is no result at all.\<close>

fun obind :: "'a result option \<Rightarrow> ('a \<Rightarrow> 'b result option) \<Rightarrow> 'b result option" where
  "obind None f = None"
| "obind (Some (Inl e)) f = Some (Inl e)"
| "obind (Some (Inr x)) f = f x"

lemma bnd_eq_Inr: "bnd r f = Inr y \<longleftrightarrow> (\<exists>x. r = Inr x \<and> f x = Inr y)"
  by (cases r) auto

lemma bnd_assoc: "bnd (bnd r f) g = bnd r (\<lambda>x. bnd (f x) g)"
  by (cases r) auto

lemma bnd_Inr_right [simp]: "bnd r Inr = r"
  by (cases r) auto

lemma bnd_cong [fundef_cong]:
  "r = r' \<Longrightarrow> (\<And>x. r' = Inr x \<Longrightarrow> f x = f' x) \<Longrightarrow> bnd r f = bnd r' f'"
  by (cases r') auto

definition returns :: "'a result \<Rightarrow> ('a \<Rightarrow> bool) \<Rightarrow> bool" where
  "returns r Q = (case r of Inl e \<Rightarrow> False | Inr x \<Rightarrow> Q x)"

lemma returns_Inr [simp]: "returns (Inr x) Q = Q x"
  by (simp add: returns_def)

lemma returns_Inl [simp]: "returns (Inl e) Q = False"
  by (simp add: returns_def)

lemma returns_iff: "returns r Q \<longleftrightarrow> (\<exists>x. r = Inr x \<and> Q x)"
  by (cases r) auto

lemma returns_bnd [simp]: "returns (bnd r f) Q = returns r (\<lambda>x. returns (f x) Q)"
  by (cases r) auto

lemma returns_mono: "returns r P \<Longrightarrow> (\<And>x. P x \<Longrightarrow> Q x) \<Longrightarrow> returns r Q"
  by (cases r) auto

lemma returns_bndI [returns_rules]:
  "returns r P \<Longrightarrow> (\<And>x. P x \<Longrightarrow> returns (f x) Q) \<Longrightarrow> returns (bnd r f) Q"
  by (cases r) auto

lemma returns_conj: "returns r P \<Longrightarrow> returns r Q \<Longrightarrow> returns r (\<lambda>x. P x \<and> Q x)"
  by (cases r) auto

section \<open>Loops\<close>

fun foldM :: "('i \<Rightarrow> 's \<Rightarrow> 's result) \<Rightarrow> 'i list \<Rightarrow> 's \<Rightarrow> 's result" where
  "foldM f [] s = Inr s"
| "foldM f (i # is) s = bnd (f i s) (foldM f is)"

lemma foldM_append: "foldM f (xs @ ys) s = bnd (foldM f xs s) (foldM f ys)"
proof (induction xs arbitrary: s)
  case (Cons a xs)
  then show ?case by (cases "f a s") auto
qed simp

text \<open>The loop rule: an invariant indexed by the iterations already done.\<close>

lemma returns_foldM_prefix:
  assumes "I [] s"
    and "\<And>pre i rest s. is = pre @ i # rest \<Longrightarrow> I pre s \<Longrightarrow> returns (f i s) (I (pre @ [i]))"
  shows "returns (foldM f is s) (I is)"
  using assms
proof (induction "is" arbitrary: I s)
  case Nil
  then show ?case by simp
next
  case (Cons a as)
  have "returns (f a s) (I [a])"
    using Cons.prems(2)[of "[]" a as s] Cons.prems(1) by simp
  then obtain t where t: "f a s = Inr t" "I [a] t" by (auto simp: returns_iff)
  have "returns (foldM f as t) ((\<lambda>xs. I (a # xs)) as)"
  proof (rule Cons.IH)
    show "I [a] t" by (rule t(2))
  next
    fix pre i rest u
    assume "as = pre @ i # rest" "I (a # pre) u"
    then show "returns (f i u) (I (a # (pre @ [i])))"
      using Cons.prems(2)[of "a # pre" i rest u] by simp
  qed
  then show ?case using t by simp
qed

lemma returns_foldM:
  assumes "I s" and "\<And>i s. i \<in> set is \<Longrightarrow> I s \<Longrightarrow> returns (f i s) I"
  shows "returns (foldM f is s) I"
  using returns_foldM_prefix[of "\<lambda>_. I" s "is" f] assms by auto

text \<open>A counting loop.\<close>

lemma returns_foldM_upt:
  assumes "I 0 s" and "\<And>i s. i < n \<Longrightarrow> I i s \<Longrightarrow> returns (f i s) (I (Suc i))"
  shows "returns (foldM f [0..<n] s) (I n)"
  using assms
proof (induction n)
  case (Suc n)
  then have "returns (foldM f [0..<n] s) (I n)" by simp
  then show ?case using Suc.prems by (auto simp: foldM_append elim: returns_mono)
qed simp

lemma foldM_invariant:
  assumes "foldM f is s = Inr t" "I s"
    and "\<And>i s s'. i \<in> set is \<Longrightarrow> I s \<Longrightarrow> f i s = Inr s' \<Longrightarrow> I s'"
  shows "I t"
  using assms by (induction "is" arbitrary: s) (auto simp: bnd_eq_Inr)

section \<open>Vectors\<close>

text \<open>\<open>std::vector::operator[]\<close>: out of range access is undefined, so it is an error here.\<close>

definition vec_at :: "'a list \<Rightarrow> int \<Rightarrow> 'a result" where
  "vec_at xs i = (if 0 \<le> i \<and> i < int (length xs) then Inr (xs ! nat i)
                  else Inl (Undefined ''vector index''))"

definition vec_set :: "'a list \<Rightarrow> int \<Rightarrow> 'a \<Rightarrow> 'a list result" where
  "vec_set xs i v = (if 0 \<le> i \<and> i < int (length xs) then Inr (xs[nat i := v])
                     else Inl (Undefined ''vector index''))"

lemma vec_at_in [simp]: "0 \<le> i \<Longrightarrow> i < int (length xs) \<Longrightarrow> vec_at xs i = Inr (xs ! nat i)"
  by (simp add: vec_at_def)

lemma vec_at_of_nat [simp]: "i < length xs \<Longrightarrow> vec_at xs (int i) = Inr (xs ! i)"
  by (simp add: vec_at_def)

lemma vec_set_in [simp]:
  "0 \<le> i \<Longrightarrow> i < int (length xs) \<Longrightarrow> vec_set xs i v = Inr (xs[nat i := v])"
  by (simp add: vec_set_def)

lemma vec_set_of_nat [simp]: "i < length xs \<Longrightarrow> vec_set xs (int i) v = Inr (xs[i := v])"
  by (simp add: vec_set_def)

lemma vec_at_Inr: "vec_at xs i = Inr x \<longleftrightarrow> 0 \<le> i \<and> i < int (length xs) \<and> x = xs ! nat i"
  by (auto simp: vec_at_def)


section \<open>Ordered containers\<close>

text \<open>
  \<open>std::map\<close> and the sorted member vector of \<open>jsoncons::json_object\<close> are association
  lists in strictly increasing key order, searched with \<open>std::lower_bound\<close>: the first
  entry whose key is not smaller.
\<close>

type_synonym ('k, 'v) ordmap = "('k \<times> 'v) list"

definition ord_inv :: "('k::linorder, 'v) ordmap \<Rightarrow> bool" where
  "ord_inv m = sorted_wrt (<) (map fst m)"

fun lower_bound :: "'k::linorder \<Rightarrow> ('k, 'v) ordmap \<Rightarrow> ('k, 'v) ordmap \<times> ('k, 'v) ordmap" where
  "lower_bound k [] = ([], [])"
| "lower_bound k (e # m) =
     (if fst e < k then (let (l, r) = lower_bound k m in (e # l, r)) else ([], e # m))"

definition ord_find :: "'k::linorder \<Rightarrow> ('k, 'v) ordmap \<Rightarrow> 'v option" where
  "ord_find k m = (case snd (lower_bound k m) of
     [] \<Rightarrow> None | (k', v) # _ \<Rightarrow> if k' = k then Some v else None)"

definition ord_set :: "'k::linorder \<Rightarrow> 'v \<Rightarrow> ('k, 'v) ordmap \<Rightarrow> ('k, 'v) ordmap" where
  "ord_set k v m = (let (l, r) = lower_bound k m in
     case r of [] \<Rightarrow> l @ [(k, v)]
     | (k', v') # r' \<Rightarrow> if k' = k then l @ (k, v) # r' else l @ (k, v) # (k', v') # r')"

definition ord_erase :: "'k::linorder \<Rightarrow> ('k, 'v) ordmap \<Rightarrow> ('k, 'v) ordmap" where
  "ord_erase k m = (let (l, r) = lower_bound k m in
     case r of [] \<Rightarrow> l
     | (k', v') # r' \<Rightarrow> if k' = k then l @ r' else l @ (k', v') # r')"

lemma lower_bound_append: "fst (lower_bound k m) @ snd (lower_bound k m) = m"
  by (induction m) (auto simp: case_prod_unfold Let_def)

lemma ord_inv_Nil [simp]: "ord_inv []"
  by (simp add: ord_inv_def)

lemma ord_inv_Cons: "ord_inv ((k, v) # m) \<longleftrightarrow> (\<forall>x \<in> set m. k < fst x) \<and> ord_inv m"
  by (auto simp: ord_inv_def)

text \<open>Recursive characterisations, easier to induct on than the definitions.\<close>

lemma ord_find_simps [simp]:
  "ord_find k [] = None"
  "ord_find k ((k', v) # m) =
     (if k' < k then ord_find k m else if k' = k then Some v else None)"
  by (auto simp: ord_find_def case_prod_unfold Let_def)

lemma ord_set_simps [simp]:
  "ord_set k v [] = [(k, v)]"
  "ord_set k v ((k', v') # m) =
     (if k' < k then (k', v') # ord_set k v m
      else if k' = k then (k, v) # m else (k, v) # (k', v') # m)"
  by (auto simp: ord_set_def case_prod_unfold Let_def split: list.splits)

lemma ord_erase_simps [simp]:
  "ord_erase k [] = []"
  "ord_erase k ((k', v') # m) =
     (if k' < k then (k', v') # ord_erase k m else if k' = k then m else (k', v') # m)"
  by (auto simp: ord_erase_def case_prod_unfold Let_def split: list.splits)

lemma ord_find_map_of: "ord_inv m \<Longrightarrow> ord_find k m = map_of m k"
proof (induction m)
  case (Cons e m)
  obtain k' v where e: "e = (k', v)" by (cases e)
  have "map_of m k = None" if "k < k'"
    using that Cons.prems e by (fastforce simp: ord_inv_Cons map_of_eq_None_iff)
  then show ?case
    using Cons e by (auto simp: ord_inv_Cons)
qed simp

lemma set_ord_set_subset: "set (ord_set k v m) \<subseteq> insert (k, v) (set m)"
  by (induction m) (auto split: if_splits)

lemma set_ord_erase_subset: "set (ord_erase k m) \<subseteq> set m"
  by (induction m) (auto split: if_splits)

lemma ord_inv_set: "ord_inv m \<Longrightarrow> ord_inv (ord_set k v m)"
proof (induction m)
  case (Cons e m)
  obtain k' v' where e: "e = (k', v')" by (cases e)
  then show ?case
    using Cons set_ord_set_subset[of k v m] by (fastforce simp: ord_inv_Cons)
qed (simp add: ord_inv_Cons)

lemma ord_inv_erase: "ord_inv m \<Longrightarrow> ord_inv (ord_erase k m)"
proof (induction m)
  case (Cons e m)
  obtain k' v' where e: "e = (k', v')" by (cases e)
  then show ?case
    using Cons set_ord_erase_subset[of k m] by (fastforce simp: ord_inv_Cons)
qed simp

lemma ord_find_set: "ord_find k' (ord_set k v m) = (if k' = k then Some v else ord_find k' m)"
  if "ord_inv m"
  using that by (induction m) (auto simp: ord_inv_Cons)

lemma ord_find_None_less: "ord_inv m \<Longrightarrow> \<forall>x \<in> set m. k < fst x \<Longrightarrow> ord_find k m = None"
  by (induction m) (auto simp: ord_inv_Cons)

lemma ord_find_erase: "ord_find k' (ord_erase k m) = (if k' = k then None else ord_find k' m)"
  if "ord_inv m"
  using that
proof (induction m)
  case (Cons e m)
  obtain a b where e: "e = (a, b)" by (cases e)
  show ?case
  proof (cases "a = k \<and> k' < k")
    case True
    then have "ord_find k' m = None"
      using Cons.prems e by (intro ord_find_None_less) (auto simp: ord_inv_Cons)
    then show ?thesis using True e by simp
  next
    case False
    then show ?thesis using Cons e by (auto simp: ord_inv_Cons ord_find_None_less)
  qed
qed simp

lemma ord_find_member: "ord_find k m = Some v \<Longrightarrow> (k, v) \<in> set m"
  by (induction m) (auto split: if_splits)

lemma ord_find_in_set: "ord_inv m \<Longrightarrow> (k, v) \<in> set m \<longleftrightarrow> ord_find k m = Some v"
  by (auto simp: ord_find_map_of ord_inv_def strict_sorted_iff)

text \<open>
  The contract of a finite map, as the components use it; the ordered vector provides it.
\<close>

locale finite_map =
  fixes empty :: 'm
    and put :: "'k \<Rightarrow> 'v \<Rightarrow> 'm \<Rightarrow> 'm"
    and get :: "'k \<Rightarrow> 'm \<Rightarrow> 'v option"
    and erase :: "'k \<Rightarrow> 'm \<Rightarrow> 'm"
    and inv :: "'m \<Rightarrow> bool"
  assumes inv_empty: "inv empty"
    and inv_put: "inv m \<Longrightarrow> inv (put k v m)"
    and inv_erase: "inv m \<Longrightarrow> inv (erase k m)"
    and get_empty: "get k empty = None"
    and get_put: "inv m \<Longrightarrow> get k' (put k v m) = (if k' = k then Some v else get k' m)"
    and get_erase: "inv m \<Longrightarrow> get k' (erase k m) = (if k' = k then None else get k' m)"
begin

lemma get_put_same: "inv m \<Longrightarrow> get k (put k v m) = Some v"
  by (simp add: get_put)

lemma get_put_other: "inv m \<Longrightarrow> k' \<noteq> k \<Longrightarrow> get k' (put k v m) = get k' m"
  by (simp add: get_put)

lemma dom_put: "inv m \<Longrightarrow> {x. get x (put k v m) \<noteq> None} = insert k {x. get x m \<noteq> None}"
  by (auto simp: get_put)

lemma dom_erase: "inv m \<Longrightarrow> {x. get x (erase k m) \<noteq> None} = {x. get x m \<noteq> None} - {k}"
  by (auto simp: get_erase)

lemma put_erase: "inv m \<Longrightarrow> get x (put k v (erase k m)) = get x (put k v m)"
  by (simp add: get_put get_erase inv_erase)

end

interpretation om: finite_map "[]" ord_set ord_find ord_erase ord_inv
  by unfold_locales (simp_all add: ord_inv_set ord_inv_erase ord_find_set ord_find_erase)

section \<open>Fixed width integers and decimal output\<close>

text \<open>A C++ \<open>int\<close> is an Isabelle \<open>int\<close> in the range of 32-bit two's complement.\<close>

definition int_range :: "int \<Rightarrow> bool" where
  "int_range i = (-(2^31) \<le> i \<and> i < 2^31)"

text \<open>Conversion of a 64-bit value to \<open>int\<close> keeps the low 32 bits.\<close>

definition to_int32 :: "64 word \<Rightarrow> int" where
  "to_int32 w = sint (ucast w :: 32 word)"

lemma to_int32_range: "int_range (to_int32 w)"
  using sint_range_size[of "ucast w :: 32 word"]
  by (simp add: int_range_def to_int32_def word_size sint_lt sint_ge[of "ucast w :: 32 word", simplified])

definition digit_char :: "nat \<Rightarrow> char" where
  "digit_char d = char_of (48 + d)"

definition is_digit :: "char \<Rightarrow> bool" where
  "is_digit c = (48 \<le> (of_char c :: nat) \<and> (of_char c :: nat) \<le> 57)"

definition digit_val :: "char \<Rightarrow> nat" where
  "digit_val c = of_char c - 48"

text \<open>\<open>std::to_string\<close> on unsigned and signed integers.\<close>

fun nat_to_string :: "nat \<Rightarrow> string" where
  "nat_to_string n = (if n < 10 then [digit_char n]
                      else nat_to_string (n div 10) @ [digit_char (n mod 10)])"

declare nat_to_string.simps [simp del]

definition int_to_string :: "int \<Rightarrow> string" where
  "int_to_string i = (if i < 0 then CHR ''-'' # nat_to_string (nat (- i)) else nat_to_string (nat i))"

lemma of_char_digit_char [simp]: "d < 10 \<Longrightarrow> of_char (digit_char d) = 48 + d"
  by (simp add: digit_char_def)

lemma is_digit_digit_char [simp]: "d < 10 \<Longrightarrow> is_digit (digit_char d)"
  by (simp add: is_digit_def)

lemma digit_val_digit_char [simp]: "d < 10 \<Longrightarrow> digit_val (digit_char d) = d"
  by (simp add: digit_val_def)

lemma nat_to_string_digits: "\<forall>c \<in> set (nat_to_string n). is_digit c"
proof (induction n rule: nat_to_string.induct)
  case (1 n)
  then show ?case by (subst nat_to_string.simps) auto
qed

lemma nat_to_string_nonempty [simp]: "nat_to_string n \<noteq> []"
  by (subst nat_to_string.simps) simp

text \<open>Reading the digits back, most significant first, gives the number.\<close>

definition digits_val :: "nat \<Rightarrow> string \<Rightarrow> nat" where
  "digits_val a s = foldl (\<lambda>n c. 10 * n + digit_val c) a s"

lemma digits_val_simps [simp]:
  "digits_val a [] = a"
  "digits_val a (c # s) = digits_val (10 * a + digit_val c) s"
  by (simp_all add: digits_val_def)

lemma digits_val_append [simp]: "digits_val a (s @ t) = digits_val (digits_val a s) t"
  by (simp add: digits_val_def)

lemma digits_val_nat_to_string: "digits_val 0 (nat_to_string n) = n"
proof (induction n rule: nat_to_string.induct)
  case (1 n)
  then show ?case by (subst nat_to_string.simps) auto
qed

lemma digits_val_ge: "a \<le> digits_val a s"
proof (induction s arbitrary: a)
  case (Cons c s)
  have "a \<le> 10 * a + digit_val c" by simp
  also have "\<dots> \<le> digits_val (10 * a + digit_val c) s" by (rule Cons.IH)
  finally show ?case by simp
qed simp

section \<open>std::string helpers\<close>

abbreviation CR :: char where "CR \<equiv> CHR 0x0D"
abbreviation LF :: char where "LF \<equiv> CHR 0x0A"

definition crlf :: string where "crlf = [CR, LF]"

text \<open>\<open>s.find("\r\n")\<close>\<close>

fun find_crlf :: "string \<Rightarrow> nat option" where
  "find_crlf (a # b # s) =
     (if a = CR \<and> b = LF then Some 0 else map_option Suc (find_crlf (b # s)))"
| "find_crlf _ = None"

lemma find_crlf_bound: "find_crlf s = Some n \<Longrightarrow> n + 2 \<le> length s"
  by (induction s arbitrary: n rule: find_crlf.induct) (auto split: if_splits)

lemma find_crlf_append: "find_crlf s = Some n \<Longrightarrow> find_crlf (s @ t) = Some n"
  by (induction s arbitrary: n rule: find_crlf.induct) (auto split: if_splits)

lemma find_crlf_no_CR: "CR \<notin> set s \<Longrightarrow> find_crlf (s @ CR # LF # t) = Some (length s)"
proof (induction s)
  case (Cons c s)
  then show ?case by (cases s) auto
qed simp

end
