(* ===== verification/JsonValue.thy ===== *)
theory JsonValue
  imports Prelude
begin

text \<open>
  The JSON value of jsoncons (\<open>basic_json<char>\<close> in json1.hpp and json2.hpp, with
  \<open>json_object\<close> and \<open>json_array\<close> of json_structures.hpp): its tagged union and the
  operations of it that the server uses.  A \<open>double\<close> is its 64-bit IEEE 754 pattern, a
  \<open>long long\<close> or \<open>unsigned long long\<close> the 64-bit word.  The \<open>custom_t\<close> alternative
  (user types wrapped by templates) is not modelled: the server never creates one.
\<close>

section \<open>Doubles as bit patterns\<close>

type_synonym double = "64 word"

definition dbl_neg_bit :: "double \<Rightarrow> bool" where
  "dbl_neg_bit d = (2^63 \<le> uint d)"

definition dbl_exponent :: "double \<Rightarrow> int" where
  "dbl_exponent d = (uint d div 2^52) mod 2^11"

definition dbl_fraction :: "double \<Rightarrow> int" where
  "dbl_fraction d = uint d mod 2^52"

definition is_nan :: "double \<Rightarrow> bool" where
  "is_nan d = (dbl_exponent d = 2047 \<and> dbl_fraction d \<noteq> 0)"

definition is_inf_bits :: "double \<Rightarrow> bool" where
  "is_inf_bits d = (dbl_exponent d = 2047 \<and> dbl_fraction d = 0)"

text \<open>\<open>x > 0\<close> for a value that is not a NaN.\<close>

definition dbl_positive :: "double \<Rightarrow> bool" where
  "dbl_positive d = (\<not> is_nan d \<and> \<not> dbl_neg_bit d \<and> d \<noteq> 0)"

definition is_pos_inf :: "double \<Rightarrow> bool" where
  "is_pos_inf x = (is_inf_bits x \<and> dbl_positive x)"

text \<open>The source tests \<open>x > 0\<close> here as well.\<close>

definition is_neg_inf :: "double \<Rightarrow> bool" where
  "is_neg_inf x = (is_inf_bits x \<and> dbl_positive x)"

text \<open>Unary minus flips the sign bit.\<close>

definition dbl_neg :: "double \<Rightarrow> double" where
  "dbl_neg d = d + 2^63"

text \<open>
  The integer part of a finite double, truncated towards zero, and the conversion to an
  integer type: undefined unless the truncated value fits.
\<close>

definition dbl_trunc :: "double \<Rightarrow> int" where
  "dbl_trunc d =
     (let e = dbl_exponent d; m = dbl_fraction d;
          a = (if e = 0 then 0
               else if 1075 \<le> e then (2^52 + m) * 2^nat (e - 1075)
               else (2^52 + m) div 2^nat (1075 - e))
      in if dbl_neg_bit d then - a else a)"

definition dbl_to_integral :: "int \<Rightarrow> int \<Rightarrow> double \<Rightarrow> int result" where
  "dbl_to_integral lo hi d =
     (if dbl_exponent d \<noteq> 2047 \<and> lo \<le> dbl_trunc d \<and> dbl_trunc d < hi then Inr (dbl_trunc d)
      else Inl (Undefined ''floating-integral conversion''))"

text \<open>Conversion of an integer to \<open>double\<close>, rounding to nearest, ties to even.\<close>

fun bit_length :: "nat \<Rightarrow> nat" where
  "bit_length n = (if n = 0 then 0 else Suc (bit_length (n div 2)))"

declare bit_length.simps [simp del]

definition dbl_of_nat :: "nat \<Rightarrow> double" where
  "dbl_of_nat n =
     (if n = 0 then 0
      else let k = bit_length n - 1 in
        if k \<le> 52 then of_nat ((k + 1023) * 2^52 + (n * 2^(52 - k) - 2^52))
        else let s = k - 52; q = n div 2^s; r = n mod 2^s;
                 q' = (if 2 * r > 2^s \<or> (2 * r = 2^s \<and> odd q) then Suc q else q)
             in of_nat ((k + 1023) * 2^52 + (q' - 2^52)))"

definition dbl_of_int :: "int \<Rightarrow> double" where
  "dbl_of_int i = (if i < 0 then dbl_neg (dbl_of_nat (nat (- i))) else dbl_of_nat (nat i))"

definition dbl_eq :: "double \<Rightarrow> double \<Rightarrow> bool" where
  "dbl_eq a b = (\<not> is_nan a \<and> \<not> is_nan b \<and>
     (a = b \<or> (a = 0 \<or> a = 2^63) \<and> (b = 0 \<or> b = 2^63)))"

section \<open>The value\<close>

datatype json =
    EmptyObject                       \<comment> \<open>\<open>empty_object_t\<close>\<close>
  | JObject "(string \<times> json) list"    \<comment> \<open>\<open>object_t\<close>, the member vector\<close>
  | JArray "json list"
  | JString string
  | JDouble double
  | JLongLong "64 word"
  | JULongLong "64 word"
  | JBool bool
  | JNull

type_synonym members = "(string \<times> json) list"

text \<open>Constructors of the class from C++ values.\<close>

definition json_of_int :: "int \<Rightarrow> json" where
  "json_of_int i = JLongLong (word_of_int i)"

definition make_array :: json where
  "make_array = JArray []"

section \<open>Type tests\<close>

fun is_object :: "json \<Rightarrow> bool" where
  "is_object (JObject _) = True"
| "is_object EmptyObject = True"
| "is_object _ = False"

fun is_array :: "json \<Rightarrow> bool" where
  "is_array (JArray _) = True"
| "is_array _ = False"

fun is_string :: "json \<Rightarrow> bool" where
  "is_string (JString _) = True"
| "is_string _ = False"

fun is_null :: "json \<Rightarrow> bool" where
  "is_null JNull = True"
| "is_null _ = False"

fun is_bool :: "json \<Rightarrow> bool" where
  "is_bool (JBool _) = True"
| "is_bool _ = False"

fun is_numeric :: "json \<Rightarrow> bool" where
  "is_numeric (JDouble _) = True"
| "is_numeric (JLongLong _) = True"
| "is_numeric (JULongLong _) = True"
| "is_numeric _ = False"

fun is_empty :: "json \<Rightarrow> bool" where
  "is_empty (JString s) = (length s = 0)"
| "is_empty (JArray xs) = (length xs = 0)"
| "is_empty EmptyObject = False"
| "is_empty (JObject ms) = (length ms = 0)"
| "is_empty _ = False"

fun json_size :: "json \<Rightarrow> nat" where
  "json_size EmptyObject = 0"
| "json_size (JObject ms) = length ms"
| "json_size (JArray xs) = length xs"
| "json_size _ = 0"

section \<open>Member access\<close>

definition not_object :: "string \<Rightarrow> string \<Rightarrow> cpp_error" where
  "not_object what name = JsonException (''Attempting to '' @ what @ '' '' @ name)"

text \<open>\<open>get(name)\<close>: \<open>null\<close> when there is no such member.\<close>

fun json_get :: "string \<Rightarrow> json \<Rightarrow> json result" where
  "json_get name EmptyObject = Inr JNull"
| "json_get name (JObject ms) =
     Inr (case ord_find name ms of Some v \<Rightarrow> v | None \<Rightarrow> JNull)"
| "json_get name _ = Inl (not_object ''get'' name)"

text \<open>\<open>get(name, default_val)\<close>\<close>

fun json_get_default :: "string \<Rightarrow> json \<Rightarrow> json \<Rightarrow> json result" where
  "json_get_default name d EmptyObject = Inr d"
| "json_get_default name d (JObject ms) =
     Inr (case ord_find name ms of Some v \<Rightarrow> v | None \<Rightarrow> d)"
| "json_get_default name d _ = Inl (not_object ''get'' name)"

text \<open>\<open>at(name)\<close>\<close>

fun json_at :: "string \<Rightarrow> json \<Rightarrow> json result" where
  "json_at name EmptyObject = Inl (JsonException (name @ '' not found''))"
| "json_at name (JObject ms) =
     (case ord_find name ms of
        Some v \<Rightarrow> Inr v
      | None \<Rightarrow> Inl (JsonException (''Member '' @ name @ '' not found.'')))"
| "json_at name _ = Inl (not_object ''get'' name)"

fun has_member :: "string \<Rightarrow> json \<Rightarrow> bool" where
  "has_member name (JObject ms) = (ord_find name ms \<noteq> None)"
| "has_member name _ = False"

text \<open>\<open>set(name, value)\<close>, also reached through \<open>json[name] = value\<close>.\<close>

fun json_set :: "string \<Rightarrow> json \<Rightarrow> json \<Rightarrow> json result" where
  "json_set name v EmptyObject = Inr (JObject (ord_set name v []))"
| "json_set name v (JObject ms) = Inr (JObject (ord_set name v ms))"
| "json_set name v _ = Inl (not_object ''set'' name)"

text \<open>\<open>add(value)\<close> and \<open>add(index, value)\<close>\<close>

fun json_add :: "json \<Rightarrow> json \<Rightarrow> json result" where
  "json_add v (JArray xs) = Inr (JArray (xs @ [v]))"
| "json_add v _ = Inl (JsonException ''Attempting to insert into a value that is not an array'')"

fun json_add_at :: "nat \<Rightarrow> json \<Rightarrow> json \<Rightarrow> json result" where
  "json_add_at i v (JArray xs) = Inr (JArray (take i xs @ v # drop i xs))"
| "json_add_at i v _ = Inl (JsonException ''Attempting to insert into a value that is not an array'')"

text \<open>\<open>at(i)\<close>: an index past the end reads outside the vector.\<close>

fun json_at_index :: "nat \<Rightarrow> json \<Rightarrow> json result" where
  "json_at_index i EmptyObject = Inl (JsonException ''Out of range'')"
| "json_at_index i (JObject ms) = vec_at (map snd ms) (int i)"
| "json_at_index i (JArray xs) = vec_at xs (int i)"
| "json_at_index i _ = Inl (JsonException ''Not an array or object'')"

fun json_clear :: "json \<Rightarrow> json" where
  "json_clear (JArray _) = JArray []"
| "json_clear (JObject _) = JObject []"
| "json_clear v = v"

fun remove_member :: "string \<Rightarrow> json \<Rightarrow> json" where
  "remove_member name (JObject ms) = JObject (ord_erase name ms)"
| "remove_member name v = v"

text \<open>\<open>remove_range\<close>: the assertions of \<open>json_array::remove_range\<close> abort the program.\<close>

fun remove_range :: "nat \<Rightarrow> nat \<Rightarrow> json \<Rightarrow> json result" where
  "remove_range i j (JArray xs) =
     (if i \<le> j \<and> j \<le> length xs then Inr (JArray (take i xs @ drop j xs))
      else Inl (Undefined ''assertion failed''))"
| "remove_range i j v = Inr v"

section \<open>Conversions\<close>

fun as_int :: "json \<Rightarrow> int result" where
  "as_int (JDouble d) = dbl_to_integral (-(2^31)) (2^31) d"
| "as_int (JLongLong w) = Inr (to_int32 w)"
| "as_int (JULongLong w) = Inr (to_int32 w)"
| "as_int (JBool b) = Inr (if b then 1 else 0)"
| "as_int _ = Inl (JsonException ''Not a int'')"

fun as_uint :: "json \<Rightarrow> int result" where
  "as_uint (JDouble d) = dbl_to_integral 0 (2^32) d"
| "as_uint (JLongLong w) = Inr (uint (ucast w :: 32 word))"
| "as_uint (JULongLong w) = Inr (uint (ucast w :: 32 word))"
| "as_uint (JBool b) = Inr (if b then 1 else 0)"
| "as_uint _ = Inl (JsonException ''Not a unsigned int'')"

fun as_longlong :: "json \<Rightarrow> int result" where
  "as_longlong (JDouble d) = dbl_to_integral (-(2^63)) (2^63) d"
| "as_longlong (JLongLong w) = Inr (sint w)"
| "as_longlong (JULongLong w) = Inr (sint w)"
| "as_longlong (JBool b) = Inr (if b then 1 else 0)"
| "as_longlong _ = Inl (JsonException ''Not a long long'')"

fun as_ulonglong :: "json \<Rightarrow> int result" where
  "as_ulonglong (JDouble d) = dbl_to_integral 0 (2^64) d"
| "as_ulonglong (JLongLong w) = Inr (uint w)"
| "as_ulonglong (JULongLong w) = Inr (uint w)"
| "as_ulonglong (JBool b) = Inr (if b then 1 else 0)"
| "as_ulonglong _ = Inl (JsonException ''Not a unsigned long long'')"

fun as_bool :: "json \<Rightarrow> bool result" where
  "as_bool (JBool b) = Inr b"
| "as_bool _ = Inl (JsonException ''Not a int'')"

fun as_double :: "double \<Rightarrow> json \<Rightarrow> double result" where
  \<comment> \<open>the first argument is the platform's quiet NaN\<close>
  "as_double qnan (JDouble d) = Inr d"
| "as_double qnan (JLongLong w) = Inr (dbl_of_int (sint w))"
| "as_double qnan (JULongLong w) = Inr (dbl_of_int (uint w))"
| "as_double qnan JNull = Inr qnan"
| "as_double qnan _ = Inl (JsonException ''Not a double'')"

section \<open>Equality\<close>

text \<open>\<open>std::binary_search\<close> with \<open>member_compare\<close>, which looks at the names only.\<close>

definition binary_search_name :: "string \<Rightarrow> members \<Rightarrow> bool" where
  "binary_search_name name ms =
     (case snd (lower_bound name ms) of [] \<Rightarrow> False | (n, _) # _ \<Rightarrow> \<not> name < n)"

definition json_object_eq :: "members \<Rightarrow> members \<Rightarrow> bool" where
  "json_object_eq ms rs =
     (length ms = length rs \<and> list_all (\<lambda>m. binary_search_name (fst m) rs) ms)"

fun number_eq :: "json \<Rightarrow> json \<Rightarrow> bool" where
  "number_eq (JLongLong a) (JLongLong b) = (a = b)"
| "number_eq (JLongLong a) (JULongLong b) = (a = b)"
| "number_eq (JLongLong a) (JDouble b) = dbl_eq (dbl_of_int (sint a)) b"
| "number_eq (JULongLong a) (JLongLong b) = (a = b)"
| "number_eq (JULongLong a) (JULongLong b) = (a = b)"
| "number_eq (JULongLong a) (JDouble b) = dbl_eq (dbl_of_int (uint a)) b"
| "number_eq (JDouble a) (JLongLong b) = dbl_eq a (dbl_of_int (sint b))"
| "number_eq (JDouble a) (JULongLong b) = dbl_eq a (dbl_of_int (uint b))"
| "number_eq (JDouble a) (JDouble b) = dbl_eq a b"
| "number_eq _ _ = False"

text \<open>
  \<open>operator==\<close> of the value and of \<open>json_array\<close>, whose loop compares the sizes first
  and then the elements one by one.
\<close>

fun json_eq :: "json \<Rightarrow> json \<Rightarrow> bool"
and json_array_eq :: "json list \<Rightarrow> json list \<Rightarrow> bool" where
  "json_eq (JBool a) (JBool b) = (a = b)"
| "json_eq JNull JNull = True"
| "json_eq EmptyObject EmptyObject = True"
| "json_eq (JString a) (JString b) = (a = b)"
| "json_eq (JArray a) (JArray b) = (length a = length b \<and> json_array_eq a b)"
| "json_eq (JObject a) (JObject b) = json_object_eq a b"
| "json_eq x y = number_eq x y"
| "json_array_eq (a # as) (b # bs) = (json_eq a b \<and> json_array_eq as bs)"
| "json_array_eq _ _ = True"

text \<open>\<open>operator!=\<close>\<close>

definition json_neq :: "json \<Rightarrow> json \<Rightarrow> bool" where
  "json_neq x y = (\<not> json_eq x y)"

section \<open>Lemmas\<close>

named_theorems json_simps \<open>evaluation of member access\<close>

lemma json_get_of_ord_find [json_simps]:
  "ord_find name ms = Some v \<Longrightarrow> json_get name (JObject ms) = Inr v"
  "ord_find name ms = Some v \<Longrightarrow> json_get_default name d (JObject ms) = Inr v"
  "ord_find name ms = None \<Longrightarrow> json_get name (JObject ms) = Inr JNull"
  "ord_find name ms = None \<Longrightarrow> json_get_default name d (JObject ms) = Inr d"
  by auto

text \<open>Every conversion to \<open>int\<close> yields a value of the type.\<close>

lemma as_int_range: "as_int v = Inr i \<Longrightarrow> int_range i"
  using to_int32_range
  by (cases v) (auto simp: dbl_to_integral_def int_range_def split: if_splits)

text \<open>
  Well-formed values: every member vector, at any depth, is strictly sorted by name.  The
  lookups by \<open>std::lower_bound\<close> rely on it; \<open>set\<close> and \<open>add\<close> keep it.
\<close>

inductive json_wf :: "json \<Rightarrow> bool" where
  "json_wf EmptyObject"
| "ord_inv ms \<Longrightarrow> (\<And>n v. (n, v) \<in> set ms \<Longrightarrow> json_wf v) \<Longrightarrow> json_wf (JObject ms)"
| "(\<And>v. v \<in> set xs \<Longrightarrow> json_wf v) \<Longrightarrow> json_wf (JArray xs)"
| "json_wf (JString s)"
| "json_wf (JDouble d)"
| "json_wf (JLongLong w)"
| "json_wf (JULongLong w)"
| "json_wf (JBool b)"
| "json_wf JNull"

inductive_simps json_wf_simps [simp]:
  "json_wf EmptyObject" "json_wf (JObject ms)" "json_wf (JArray xs)" "json_wf (JString s)"
  "json_wf (JDouble d)" "json_wf (JLongLong w)" "json_wf (JULongLong w)" "json_wf (JBool b)"
  "json_wf JNull"

lemma json_set_wf: "json_wf j \<Longrightarrow> json_wf v \<Longrightarrow> json_set name v j = Inr j' \<Longrightarrow> json_wf j'"
  using set_ord_set_subset[of name v] by (cases j) (fastforce simp: ord_inv_Cons intro: ord_inv_set)+

lemma json_add_wf: "json_wf j \<Longrightarrow> json_wf v \<Longrightarrow> json_add v j = Inr j' \<Longrightarrow> json_wf j'"
  by (cases j) auto

text \<open>Reading a member back after setting it, and the frame.\<close>

lemma json_get_set:
  assumes "json_wf j" "json_set name v j = Inr j'"
  shows "json_get name j' = Inr v" "has_member name j'"
    "name' \<noteq> name \<Longrightarrow> json_get name' j' = json_get name' j"
  using assms by (cases j; force simp: ord_find_set)+

lemma json_set_total: "is_object j \<longleftrightarrow> (\<exists>j'. json_set name v j = Inr j')"
  by (cases j) auto

lemma json_get_total: "is_object j \<longleftrightarrow> (\<exists>v. json_get name j = Inr v)"
  by (cases j) auto

text \<open>Two objects with the same member names compare equal, whatever their values.\<close>

lemma binary_search_name_find: "ord_inv ms \<Longrightarrow> binary_search_name n ms \<longleftrightarrow> n \<in> fst ` set ms"
proof (induction ms)
  case (Cons e ms)
  obtain k v where e: "e = (k, v)" by (cases e)
  show ?case
    using Cons e
    by (force simp: binary_search_name_def ord_inv_Cons Let_def case_prod_unfold split: if_splits)
qed (simp add: binary_search_name_def)

lemma json_object_eq_names:
  assumes "ord_inv ms" "ord_inv rs"
  shows "json_object_eq ms rs \<longleftrightarrow> map fst ms = map fst rs"
proof
  assume eq: "json_object_eq ms rs"
  then have sub: "fst ` set ms \<subseteq> fst ` set rs" and len: "length ms = length rs"
    using assms(2) by (auto simp: json_object_eq_def list_all_iff binary_search_name_find)
  have d: "distinct (map fst ms)" "distinct (map fst rs)"
    using assms by (auto simp: ord_inv_def strict_sorted_iff)
  have "card (fst ` set ms) = card (fst ` set rs)"
    using d len distinct_card[of "map fst ms"] distinct_card[of "map fst rs"] by simp
  then have "fst ` set ms = fst ` set rs"
    using sub by (simp add: card_subset_eq)
  then show "map fst ms = map fst rs"
    using assms by (intro sorted_distinct_set_unique) (auto simp: ord_inv_def strict_sorted_iff)
next
  assume eq: "map fst ms = map fst rs"
  then have "length ms = length rs" by (metis length_map)
  moreover have "fst ` set ms = fst ` set rs" by (metis eq list.set_map)
  ultimately show "json_object_eq ms rs"
    using assms(2) by (auto simp: json_object_eq_def list_all_iff binary_search_name_find)
qed

end
