(* ===== verification/JsonWriter.thy ===== *)
theory JsonWriter
  imports JsonValue
begin

text \<open>
  Writing a JSON value as text: \<open>basic_output_format\<close> (output_format.hpp), the escaping of
  strings and \<open>to_stream\<close> (json2.hpp), \<open>basic_json_serializer\<close> (json_serializer.hpp) and
  \<open>double_to_string\<close> (jsoncons_config.hpp).  The digits \<open>std::ostream\<close> prints for a
  \<open>double\<close> and \<open>operator>>\<close> reads back are the platform's: they are fields of the record
  \<open>stdio\<close> that every function printing or parsing a \<open>double\<close> takes.
\<close>

record stdio =
  fmt_showpoint :: "nat \<Rightarrow> double \<Rightarrow> string"   \<comment> \<open>\<open>os << showpoint << setprecision(p) << d\<close>\<close>
  fmt_floatfield :: "nat \<Rightarrow> nat \<Rightarrow> double \<Rightarrow> string"  \<comment> \<open>the same with \<open>setf(floatfield)\<close>\<close>
  read_double :: "string \<Rightarrow> double option"     \<comment> \<open>\<open>is >> d\<close>, \<open>None\<close> on failure\<close>

section \<open>Output format\<close>

record output_format =
  fmt_indent :: nat
  precision :: nat
  floatfield :: nat
  replace_nan :: bool
  replace_pos_inf :: bool
  replace_neg_inf :: bool
  nan_replacement :: string
  pos_inf_replacement :: string
  neg_inf_replacement :: string
  escape_all_non_ascii :: bool
  escape_solidus :: bool

definition default_output_format :: output_format where
  "default_output_format = \<lparr>fmt_indent = 4, precision = 16, floatfield = 0,
     replace_nan = True, replace_pos_inf = True, replace_neg_inf = True,
     nan_replacement = ''null'', pos_inf_replacement = ''null'', neg_inf_replacement = ''null'',
     escape_all_non_ascii = False, escape_solidus = False\<rparr>"

section \<open>Strings\<close>

abbreviation byte :: "char \<Rightarrow> nat" where "byte c \<equiv> of_char c"

definition is_control_character :: "nat \<Rightarrow> bool" where
  "is_control_character c = (c \<le> 0x1F \<or> c = 0x7F)"

definition is_non_ascii_character :: "nat \<Rightarrow> bool" where
  "is_non_ascii_character c = (0x80 \<le> c)"

definition to_hex_character :: "nat \<Rightarrow> char" where
  "to_hex_character c = (if c < 10 then char_of (48 + c) else char_of (65 - 10 + c))"

text \<open>
  \<open>convert_char_to_codepoint\<close> decodes the UTF-8 sequence at the iterator and leaves it on
  the last byte read.  The model takes the bytes from the iterator on and returns the code
  point with the bytes after it; advancing past the end of the string is undefined.
\<close>

fun convert_char_to_codepoint :: "string \<Rightarrow> (nat \<times> string) result" where
  "convert_char_to_codepoint [] = Inl (Undefined ''past the end iterator'')"
| "convert_char_to_codepoint (c # s) =
     (let u = byte c in
      if u < 0x80 then Inr (u, s)
      else if u div 2^5 = 0x6 then
        (case s of
           c1 # s' \<Rightarrow> Inr ((u * 2^6) mod 0x800 + byte c1 mod 0x40, s')
         | _ \<Rightarrow> Inl (Undefined ''past the end iterator''))
      else if u div 2^4 = 0xE then
        (case s of
           c1 # c2 # s' \<Rightarrow>
             Inr ((u * 2^12) mod 0x10000 + (byte c1 * 2^6) mod 0x1000 + byte c2 mod 0x40, s')
         | _ \<Rightarrow> Inl (Undefined ''past the end iterator''))
      else if u div 2^3 = 0x1E then
        (case s of
           c1 # c2 # c3 # s' \<Rightarrow>
             Inr ((u * 2^18) mod 0x200000 + (byte c1 * 2^12) mod 0x40000
                  + (byte c2 * 2^6) mod 0x1000 + byte c3 mod 0x40, s')
         | _ \<Rightarrow> Inl (Undefined ''past the end iterator''))
      else Inr (u, s))"

lemma convert_char_to_codepoint_length:
  "convert_char_to_codepoint s = Inr (cp, r) \<Longrightarrow> length r < length s"
  by (induction s rule: convert_char_to_codepoint.induct)
    (auto simp: Let_def split: if_splits list.splits)

definition hex4 :: "nat \<Rightarrow> string" where
  "hex4 n = [CHR 0x5C, CHR ''u'',
     to_hex_character (n div 2^12 mod 16), to_hex_character (n div 2^8 mod 16),
     to_hex_character (n div 2^4 mod 16), to_hex_character (n mod 16)]"

definition escape_codepoint :: "nat \<Rightarrow> string" where
  "escape_codepoint cp =
     (if 0xFFFF < cp then
        (let c = cp - 0x10000 in hex4 (c div 2^10 + 0xD800) @ hex4 (c mod 0x400 + 0xDC00))
      else hex4 cp)"

declare convert_char_to_codepoint.simps [simp del]

function escape_string :: "string \<Rightarrow> output_format \<Rightarrow> string result" where
  "escape_string [] fmt = Inr []"
| "escape_string (c # s) fmt =
     (if c = CHR 0x5C then bnd (escape_string s fmt) (\<lambda>r. Inr (CHR 0x5C # r))
      else if c = CHR 0x22 then bnd (escape_string s fmt) (\<lambda>r. Inr ([CHR 0x5C, CHR 0x22] @ r))
      else if c = CHR 0x08 then bnd (escape_string s fmt) (\<lambda>r. Inr ([CHR 0x5C, CHR ''b''] @ r))
      else if c = CHR 0x0C then bnd (escape_string s fmt) (\<lambda>r. Inr ([CHR 0x5C, CHR ''f''] @ r))
      else if c = CHR 0x0A then bnd (escape_string s fmt) (\<lambda>r. Inr ([CHR 0x5C, CHR ''n''] @ r))
      else if c = CHR 0x0D then bnd (escape_string s fmt) (\<lambda>r. Inr ([CHR 0x5C, CHR ''r''] @ r))
      else if c = CHR 0x09 then bnd (escape_string s fmt) (\<lambda>r. Inr ([CHR 0x5C, CHR ''t''] @ r))
      else if escape_solidus fmt \<and> c = CHR ''/'' then
        bnd (escape_string s fmt) (\<lambda>r. Inr ([CHR 0x5C, CHR ''/''] @ r))
      else if is_control_character (byte c) \<or> escape_all_non_ascii fmt then
        (case convert_char_to_codepoint (c # s) of
           Inl e \<Rightarrow> Inl e
         | Inr (cp, s') \<Rightarrow>
             if is_non_ascii_character cp \<or> is_control_character (byte c) then
               bnd (escape_string s' fmt) (\<lambda>r. Inr (escape_codepoint cp @ r))
             else bnd (escape_string s' fmt) (\<lambda>r. Inr (c # r)))
      else bnd (escape_string s fmt) (\<lambda>r. Inr (c # r)))"
  by pat_completeness auto
termination
  by (relation "measure (\<lambda>(s, fmt). length s)")
    (auto dest: convert_char_to_codepoint_length)

section \<open>Doubles\<close>

fun trim_zeros :: "string \<Rightarrow> string" where
  \<comment> \<open>on the reversed text\<close>
  "trim_zeros (a # b # s) = (if a = CHR ''0'' \<and> b \<noteq> CHR ''.'' then trim_zeros (b # s) else a # b # s)"
| "trim_zeros s = s"

definition double_to_string :: "stdio \<Rightarrow> double \<Rightarrow> nat \<Rightarrow> string" where
  "double_to_string io d prec =
     (let t = fmt_showpoint io prec d;
          s = takeWhile (\<lambda>c. c \<noteq> CHR ''e'') t; e = dropWhile (\<lambda>c. c \<noteq> CHR ''e'') t
      in rev (trim_zeros (rev s)) @ e)"

section \<open>The serializer\<close>

record ser_item =
  si_is_object :: bool
  si_count :: nat
  si_content_indented :: bool

definition new_ser_item :: "bool \<Rightarrow> ser_item" where
  "new_ser_item b = \<lparr>si_is_object = b, si_count = 0, si_content_indented = False\<rparr>"

record serializer =
  ser_os :: string
  ser_format :: output_format
  ser_stack :: "ser_item list"     \<comment> \<open>the back of the vector is the head\<close>
  ser_indent :: int
  ser_indenting :: bool

definition new_serializer :: "output_format \<Rightarrow> bool \<Rightarrow> serializer" where
  "new_serializer fmt ind = \<lparr>ser_os = [], ser_format = fmt, ser_stack = [], ser_indent = 0, ser_indenting = ind\<rparr>"

definition os_put :: "string \<Rightarrow> serializer \<Rightarrow> serializer" where
  "os_put t z = z\<lparr>ser_os := ser_os z @ t\<rparr>"

fun update_back :: "('a \<Rightarrow> 'a) \<Rightarrow> 'a list \<Rightarrow> 'a list" where
  "update_back f [] = []"
| "update_back f (x # xs) = f x # xs"

definition write_indent :: "serializer \<Rightarrow> serializer" where
  "write_indent z =
     os_put (LF # replicate (nat (ser_indent z)) CHR '' '')
       (z\<lparr>ser_stack := update_back (\<lambda>i. i\<lparr>si_content_indented := True\<rparr>) (ser_stack z)\<rparr>)"

definition begin_element :: "serializer \<Rightarrow> serializer" where
  "begin_element z = (case ser_stack z of
     [] \<Rightarrow> z
   | i # _ \<Rightarrow>
      (let z1 = (if si_count i > 0 then os_put '','' z else z)
       in if ser_indenting z1 then write_indent z1 else z1))"

definition begin_value :: "serializer \<Rightarrow> serializer" where
  "begin_value z = (case ser_stack z of
     [] \<Rightarrow> z
   | i # _ \<Rightarrow> if \<not> si_is_object i \<and> si_count i > 0 then os_put '','' z else z)"

definition end_value :: "serializer \<Rightarrow> serializer" where
  "end_value z = z\<lparr>ser_stack := update_back (\<lambda>i. i\<lparr>si_count := Suc (si_count i)\<rparr>) (ser_stack z)\<rparr>"

definition begin_structure :: "serializer \<Rightarrow> serializer" where
  "begin_structure z = (case ser_stack z of
     [] \<Rightarrow> z
   | i # _ \<Rightarrow> if \<not> si_is_object i then begin_element z else z)"

definition open_structure :: "bool \<Rightarrow> string \<Rightarrow> serializer \<Rightarrow> serializer" where
  \<comment> \<open>the common body of \<open>begin_object\<close> and \<open>begin_array\<close>\<close>
  "open_structure isobj bracket z =
     (let z1 = begin_structure z;
          z2 = (case ser_stack z1 of i # _ \<Rightarrow> if ser_indenting z1 \<and> si_is_object i then write_indent z1 else z1
                               | [] \<Rightarrow> z1);
          z3 = os_put bracket (z2\<lparr>ser_stack := new_ser_item isobj # ser_stack z2\<rparr>)
      in z3\<lparr>ser_indent := ser_indent z3 + int (fmt_indent (ser_format z3))\<rparr>)"

definition begin_object :: "serializer \<Rightarrow> serializer" where
  "begin_object = open_structure True ''{''"

definition begin_array :: "serializer \<Rightarrow> serializer" where
  "begin_array = open_structure False ''[''"

definition end_object :: "serializer \<Rightarrow> serializer" where
  "end_object z =
     (let z1 = z\<lparr>ser_indent := ser_indent z - int (fmt_indent (ser_format z))\<rparr>;
          z2 = (if ser_indenting z1 \<and> ser_stack z1 \<noteq> [] then write_indent z1 else z1)
      in end_value (os_put ''}'' (z2\<lparr>ser_stack := tl (ser_stack z2)\<rparr>)))"

definition end_array :: "serializer \<Rightarrow> serializer" where
  "end_array z =
     (let z1 = z\<lparr>ser_indent := ser_indent z - int (fmt_indent (ser_format z))\<rparr>;
          z2 = (case ser_stack z1 of
                  i # _ \<Rightarrow> if ser_indenting z1 \<and> si_content_indented i then write_indent z1 else z1
                | [] \<Rightarrow> z1)
      in end_value (os_put '']'' (z2\<lparr>ser_stack := tl (ser_stack z2)\<rparr>)))"

definition write_quoted :: "string \<Rightarrow> serializer \<Rightarrow> serializer result" where
  "write_quoted s z = bnd (escape_string s (ser_format z)) (\<lambda>e.
     Inr (os_put (CHR 0x22 # e @ [CHR 0x22]) z))"

definition write_name :: "string \<Rightarrow> serializer \<Rightarrow> serializer result" where
  "write_name s z = bnd (write_quoted s (begin_element z)) (\<lambda>z1. Inr (os_put '':'' z1))"

definition null_value :: "serializer \<Rightarrow> serializer" where
  "null_value z = end_value (os_put ''null'' (begin_value z))"

definition string_value :: "string \<Rightarrow> serializer \<Rightarrow> serializer result" where
  "string_value s z = bnd (write_quoted s (begin_value z)) (\<lambda>z1. Inr (end_value z1))"

definition double_text :: "stdio \<Rightarrow> output_format \<Rightarrow> double \<Rightarrow> string" where
  "double_text io f d =
     (if is_nan d \<and> replace_nan f then nan_replacement f
      else if is_pos_inf d \<and> replace_pos_inf f then pos_inf_replacement f
      else if is_neg_inf d \<and> replace_neg_inf f then neg_inf_replacement f
      else if floatfield f \<noteq> 0 then fmt_floatfield io (floatfield f) (precision f) d
      else double_to_string io d (precision f))"

definition double_value :: "stdio \<Rightarrow> double \<Rightarrow> serializer \<Rightarrow> serializer" where
  "double_value io d z = end_value (os_put (double_text io (ser_format z) d) (begin_value z))"

definition longlong_value :: "64 word \<Rightarrow> serializer \<Rightarrow> serializer" where
  "longlong_value w z = end_value (os_put (int_to_string (sint w)) (begin_value z))"

definition ulonglong_value :: "64 word \<Rightarrow> serializer \<Rightarrow> serializer" where
  "ulonglong_value w z = end_value (os_put (nat_to_string (unat w)) (begin_value z))"

definition bool_value :: "bool \<Rightarrow> serializer \<Rightarrow> serializer" where
  "bool_value b z = end_value (os_put (if b then ''true'' else ''false'') (begin_value z))"

section \<open>Traversal of a value\<close>

fun to_stream :: "stdio \<Rightarrow> json \<Rightarrow> serializer \<Rightarrow> serializer result"
and members_to_stream :: "stdio \<Rightarrow> members \<Rightarrow> serializer \<Rightarrow> serializer result"
and elements_to_stream :: "stdio \<Rightarrow> json list \<Rightarrow> serializer \<Rightarrow> serializer result" where
  "to_stream io (JString s) z = string_value s z"
| "to_stream io (JDouble d) z = Inr (double_value io d z)"
| "to_stream io (JLongLong w) z = Inr (longlong_value w z)"
| "to_stream io (JULongLong w) z = Inr (ulonglong_value w z)"
| "to_stream io (JBool b) z = Inr (bool_value b z)"
| "to_stream io JNull z = Inr (null_value z)"
| "to_stream io EmptyObject z = Inr (end_object (begin_object z))"
| "to_stream io (JObject ms) z =
     bnd (members_to_stream io ms (begin_object z)) (\<lambda>z1. Inr (end_object z1))"
| "to_stream io (JArray xs) z =
     bnd (elements_to_stream io xs (begin_array z)) (\<lambda>z1. Inr (end_array z1))"
| "members_to_stream io [] z = Inr z"
| "members_to_stream io ((n, v) # ms) z =
     bnd (write_name n z) (\<lambda>z1. bnd (to_stream io v z1) (\<lambda>z2. members_to_stream io ms z2))"
| "elements_to_stream io [] z = Inr z"
| "elements_to_stream io (v # xs) z = bnd (to_stream io v z) (\<lambda>z1. elements_to_stream io xs z1)"

definition to_string :: "stdio \<Rightarrow> json \<Rightarrow> string result" where
  "to_string io v = bnd (to_stream io v (new_serializer default_output_format False)) (\<lambda>z. Inr (ser_os z))"

text \<open>\<open>as_string\<close>: a string is returned as it is, anything else is serialized.\<close>

fun as_string :: "stdio \<Rightarrow> json \<Rightarrow> string result" where
  "as_string io (JString s) = Inr s"
| "as_string io v = to_string io v"


section \<open>The serializer writes the compact text of the value\<close>

text \<open>
  A recursive description of the text a non-indenting serializer produces, and the proof that
  the event driven serializer produces it.
\<close>

definition quoted :: "output_format \<Rightarrow> string \<Rightarrow> string result" where
  "quoted fmt s = bnd (escape_string s fmt) (\<lambda>e. Inr (CHR 0x22 # e @ [CHR 0x22]))"

fun json_text :: "stdio \<Rightarrow> output_format \<Rightarrow> json \<Rightarrow> string result"
and members_text :: "stdio \<Rightarrow> output_format \<Rightarrow> bool \<Rightarrow> members \<Rightarrow> string result"
and elements_text :: "stdio \<Rightarrow> output_format \<Rightarrow> bool \<Rightarrow> json list \<Rightarrow> string result" where
  "json_text io fmt (JString s) = quoted fmt s"
| "json_text io fmt (JDouble d) = Inr (double_text io fmt d)"
| "json_text io fmt (JLongLong w) = Inr (int_to_string (sint w))"
| "json_text io fmt (JULongLong w) = Inr (nat_to_string (unat w))"
| "json_text io fmt (JBool b) = Inr (if b then ''true'' else ''false'')"
| "json_text io fmt JNull = Inr ''null''"
| "json_text io fmt EmptyObject = Inr ''{}''"
| "json_text io fmt (JObject ms) =
     bnd (members_text io fmt True ms) (\<lambda>t. Inr (''{'' @ t @ ''}''))"
| "json_text io fmt (JArray xs) =
     bnd (elements_text io fmt True xs) (\<lambda>t. Inr (''['' @ t @ '']''))"
| "members_text io fmt first [] = Inr []"
| "members_text io fmt first ((n, v) # ms) =
     bnd (quoted fmt n) (\<lambda>q. bnd (json_text io fmt v) (\<lambda>t.
     bnd (members_text io fmt False ms) (\<lambda>r.
       Inr ((if first then [] else '','') @ q @ '':'' @ t @ r))))"
| "elements_text io fmt first [] = Inr []"
| "elements_text io fmt first (v # xs) =
     bnd (json_text io fmt v) (\<lambda>t. bnd (elements_text io fmt False xs) (\<lambda>r.
       Inr ((if first then [] else '','') @ t @ r)))"

text \<open>
  What writing a value does to a serializer: a comma where the enclosing structure is an array
  that already has elements, the text, and one more in the enclosing structure's count.
\<close>

definition sep :: "serializer \<Rightarrow> string" where
  "sep z = (case ser_stack z of i # _ \<Rightarrow> if \<not> si_is_object i \<and> si_count i > 0 then '','' else [] | [] \<Rightarrow> [])"

definition wrote :: "string \<Rightarrow> serializer \<Rightarrow> serializer" where
  "wrote t z = end_value (os_put (sep z @ t) z)"

lemma ser_fields [simp]:
  "ser_stack (os_put t z) = ser_stack z" "ser_format (os_put t z) = ser_format z"
  "ser_indenting (os_put t z) = ser_indenting z" "ser_indent (os_put t z) = ser_indent z"
  "ser_os (os_put t z) = ser_os z @ t"
  by (simp_all add: os_put_def)

lemma begin_value_eq: "begin_value z = os_put (sep z) z"
  by (auto simp: begin_value_def sep_def os_put_def split: list.splits)

lemma os_put_os_put [simp]: "os_put b (os_put a z) = os_put (a @ b) z"
  by (simp add: os_put_def)

lemma end_value_os_put: "end_value (os_put t z) = os_put t (end_value z)"
  by (simp add: end_value_def os_put_def)

definition plain :: "serializer \<Rightarrow> bool" where
  "plain z = (\<not> ser_indenting z)"

lemma plain_os_put [simp]: "plain (os_put t z) = plain z"
  by (simp add: plain_def)

lemma begin_structure_eq: "plain z \<Longrightarrow> begin_structure z = os_put (sep z) z"
  by (auto simp: begin_structure_def begin_element_def sep_def plain_def os_put_def split: list.splits)

definition push_struct :: "bool \<Rightarrow> string \<Rightarrow> nat \<Rightarrow> serializer \<Rightarrow> serializer" where
  "push_struct isobj t n z = os_put t (z\<lparr>
     ser_stack := \<lparr>si_is_object = isobj, si_count = n, si_content_indented = False\<rparr> # ser_stack z,
     ser_indent := ser_indent z + int (fmt_indent (ser_format z))\<rparr>)"

lemma open_structure_eq:
  "plain z \<Longrightarrow> open_structure isobj b z = push_struct isobj (sep z @ b) 0 z"
  by (auto simp: open_structure_def begin_structure_eq push_struct_def new_ser_item_def os_put_def
      plain_def Let_def split: list.splits)

lemma plain_push_struct [simp]: "plain (push_struct isobj t n z) = plain z"
  by (simp add: push_struct_def plain_def os_put_def)

lemma ser_format_push_struct [simp]: "ser_format (push_struct isobj t n z) = ser_format z"
  by (simp add: push_struct_def os_put_def)

lemma wrote_push_struct:
  "wrote t (push_struct isobj u n z) =
     push_struct isobj (u @ (if \<not> isobj \<and> n > 0 then '','' else []) @ t) (Suc n) z"
  by (auto simp: wrote_def push_struct_def sep_def end_value_def os_put_def)

lemma os_put_push_struct: "os_put t (push_struct isobj u n z) = push_struct isobj (u @ t) n z"
  by (simp add: push_struct_def)

lemma end_structure_eq:
  "plain z \<Longrightarrow> end_object (push_struct isobj (sep z @ t) n z) = wrote (t @ ''}'') z"
  "plain z \<Longrightarrow> end_array (push_struct isobj (sep z @ t) n z) = wrote (t @ '']'') z"
  by (auto simp: end_object_def end_array_def push_struct_def wrote_def os_put_def end_value_def
      plain_def Let_def split: list.splits)

lemma plain_wrote [simp]: "plain (wrote t z) = plain z"
  by (simp add: wrote_def plain_def end_value_def os_put_def)

lemma begin_element_push_struct:
  "plain z \<Longrightarrow> begin_element (push_struct True u n z) =
     push_struct True (u @ (if n > 0 then '','' else [])) n z"
  by (auto simp: begin_element_def push_struct_def plain_def os_put_def Let_def)

lemma write_quoted_eq:
  "write_quoted s z = bnd (quoted (ser_format z) s) (\<lambda>q. Inr (os_put q z))"
  by (cases "escape_string s (ser_format z)") (simp_all add: write_quoted_def quoted_def)

lemma write_name_push_struct:
  "plain z \<Longrightarrow> write_name s (push_struct True u n z) =
     bnd (quoted (ser_format z) s) (\<lambda>q.
       Inr (push_struct True (u @ (if n > 0 then '','' else []) @ q @ '':'') n z))"
  by (cases "quoted (ser_format z) s")
    (simp_all add: write_name_def begin_element_push_struct write_quoted_eq os_put_push_struct)

lemmas ser_value_defs = string_value_def double_value_def longlong_value_def ulonglong_value_def
  bool_value_def null_value_def

lemma to_stream_eq_aux:
  shows "plain z \<Longrightarrow> to_stream io v z = bnd (json_text io (ser_format z) v) (\<lambda>t. Inr (wrote t z))"
    and "plain z \<Longrightarrow> y = push_struct True u n z \<Longrightarrow> members_to_stream io ms y =
      bnd (members_text io (ser_format z) (n = 0) ms)
        (\<lambda>t. Inr (push_struct True (u @ t) (n + length ms) z))"
    and "plain z \<Longrightarrow> y = push_struct False u n z \<Longrightarrow> elements_to_stream io xs y =
      bnd (elements_text io (ser_format z) (n = 0) xs)
        (\<lambda>t. Inr (push_struct False (u @ t) (n + length xs) z))"
proof (induction io v z and io ms y and io xs y arbitrary: and z u n and z u n
    rule: to_stream_members_to_stream_elements_to_stream.induct)
  case (1 io s z)
  then show ?case
    by (cases "quoted (ser_format z) s")
      (simp_all add: string_value_def begin_value_eq write_quoted_eq wrote_def)
next
  case (7 io z)
  have "begin_object z = push_struct True (sep z @ ''{'') 0 z"
    using 7 by (simp add: begin_object_def open_structure_eq)
  then show ?case
    using 7 by (simp add: end_structure_eq)
next
  case (8 io ms z)
  have "begin_object z = push_struct True (sep z @ ''{'') 0 z"
    using 8 by (simp add: begin_object_def open_structure_eq)
  then show ?case
    using 8(2) 8(1)[OF 8(2), of "sep z @ ''{''" 0]
    by (cases "members_text io (ser_format z) True ms") (simp_all add: end_structure_eq)
next
  case (9 io xs z)
  have "begin_array z = push_struct False (sep z @ ''['') 0 z"
    using 9 by (simp add: begin_array_def open_structure_eq)
  then show ?case
    using 9(2) 9(1)[OF 9(2), of "sep z @ ''[''" 0]
    by (cases "elements_text io (ser_format z) True xs") (simp_all add: end_structure_eq)
next
  case (11 io nm v ms y)
  show ?case
  proof (cases "quoted (ser_format z) nm")
    case (Inr q)
    define y1 where "y1 = push_struct True (u @ (if n > 0 then '','' else []) @ q @ '':'') n z"
    have w: "write_name nm y = Inr y1"
      using 11(3,4) Inr by (simp add: write_name_push_struct y1_def)
    have fy1: "plain y1" "ser_format y1 = ser_format z"
      using 11(3) by (simp_all add: y1_def)
    have "to_stream io v y1 = bnd (json_text io (ser_format z) v) (\<lambda>t. Inr (wrote t y1))"
      using 11(1)[OF w fy1(1)] fy1(2) by simp
    then show ?thesis
    proof (cases "json_text io (ser_format z) v")
      case t: (Inr t)
      have ts: "to_stream io v y1 = Inr (wrote t y1)"
        using t \<open>to_stream io v y1 = _\<close> by simp
      have "wrote t y1 = push_struct True
          (u @ (if n > 0 then '','' else []) @ q @ '':'' @ t) (Suc n) z"
        by (simp add: y1_def wrote_push_struct)
      from 11(2)[OF w ts 11(3) this] show ?thesis
        using w ts t Inr by (cases "members_text io (ser_format z) False ms") auto
    qed (use w Inr in auto)
  qed (use 11 in \<open>simp add: write_name_push_struct\<close>)
next
  case (13 io v xs y)
  have py: "plain y" "ser_format y = ser_format z"
    using 13(3,4) by simp_all
  have ts: "to_stream io v y = bnd (json_text io (ser_format z) v) (\<lambda>t. Inr (wrote t y))"
    using 13(1)[OF py(1)] py(2) by simp
  show ?case
  proof (cases "json_text io (ser_format z) v")
    case t: (Inr t)
    then have ts': "to_stream io v y = Inr (wrote t y)" using ts by simp
    have "wrote t y = push_struct False (u @ (if n > 0 then '','' else []) @ t) (Suc n) z"
      using 13(4) by (simp add: wrote_push_struct)
    from 13(2)[OF ts' 13(3) this] show ?thesis
      using ts' t by (cases "elements_text io (ser_format z) False xs") auto
  qed (use ts in simp)
qed (simp_all add: ser_value_defs begin_value_eq wrote_def)

text \<open>The text \<open>to_string\<close> returns.\<close>

theorem to_string_eq: "to_string io v = json_text io default_output_format v"
proof -
  define z where "z = new_serializer default_output_format False"
  have "plain z" "ser_format z = default_output_format" "ser_os (wrote t z) = t" for t
    by (simp_all add: z_def plain_def new_serializer_def wrote_def end_value_def os_put_def sep_def)
  then show ?thesis
    using to_stream_eq_aux(1)[of z io v]
    by (cases "json_text io default_output_format v") (simp_all add: to_string_def flip: z_def)
qed

section \<open>Writing with the default format never fails\<close>

lemma escape_string_default: "\<exists>r. escape_string s default_output_format = Inr r"
proof (induction s)
  case (Cons c s)
  then obtain r where r: "escape_string s default_output_format = Inr r" by blast
  have fmt: "\<not> escape_solidus default_output_format" "\<not> escape_all_non_ascii default_output_format"
    by (simp_all add: default_output_format_def)
  show ?case
  proof (cases "is_control_character (byte c)")
    case True
    then have "byte c < 0x80" by (auto simp: is_control_character_def)
    then have "convert_char_to_codepoint (c # s) = Inr (byte c, s)"
      by (simp add: convert_char_to_codepoint.simps Let_def)
    then show ?thesis
      by (simp only: escape_string.simps(2) r fmt True bnd.simps sum.case prod.case simp_thms
          if_True if_False split: if_split) blast
  next
    case False
    then show ?thesis
      by (simp only: escape_string.simps(2) r fmt bnd.simps simp_thms
          if_True if_False split: if_split) blast
  qed
qed simp

lemma json_text_default:
  "\<exists>t. json_text io default_output_format v = Inr t"
  "\<exists>t. members_text io default_output_format first ms = Inr t"
  "\<exists>t. elements_text io default_output_format first xs = Inr t"
proof (induction io "default_output_format" v and io "default_output_format" first ms
    and io "default_output_format" first xs
    rule: json_text_members_text_elements_text.induct)
  case (1 io s)
  then show ?case using escape_string_default[of s] by (auto simp: quoted_def)
next
  case (11 io first n v ms)
  obtain q where "quoted default_output_format n = Inr q"
    using escape_string_default[of n] by (auto simp: quoted_def)
  moreover from this obtain t where "json_text io default_output_format v = Inr t" using 11(1) by blast
  moreover have "\<exists>r. members_text io default_output_format False ms = Inr r"
    using 11(2) calculation by blast
  ultimately show ?case by auto
qed auto

lemma as_string_returns: "\<exists>s. as_string io v = Inr s"
  using json_text_default(1)[of io v] by (cases v) (auto simp: to_string_eq)

end
