(* ===== verification/JsonReader.thy ===== *)
theory JsonReader
  imports JsonWriter
begin

text \<open>
  Reading JSON text: \<open>basic_json_deserializer\<close> (json_deserializer.hpp), which builds the value
  from parse events, and \<open>basic_json_reader\<close> (json_reader.hpp), the buffered character
  machine that produces the events.  \<open>parse_string\<close> (json2.hpp) runs one on the other.

  Every loop of the reader is a \<open>partial_function\<close> in the option monad: \<open>None\<close> would be a loop
  that never ends, \<open>Some (Inl e)\<close> an exception (the default error handler throws on both
  \<open>error\<close> and \<open>fatal_error\<close>), \<open>Some (Inr st)\<close> a normal end.  The capacity estimates
  (\<open>estimate_minimum_*\<close>, \<open>skip_*\<close>) only choose how much memory a vector reserves; they are
  in the theory JsonEstimate.
\<close>

section \<open>The deserializer\<close>

record ditem =
  d_name :: string
  d_is_object :: bool
  d_object :: members
  d_array :: "json list"

record deserializer =
  d_root :: json
  d_stack :: "ditem list"      \<comment> \<open>the back of the vector is the head\<close>

definition new_deserializer :: deserializer where
  "new_deserializer = \<lparr>d_root = EmptyObject, d_stack = []\<rparr>"

definition d_push :: "bool \<Rightarrow> deserializer \<Rightarrow> deserializer" where
  "d_push isobj d =
     d\<lparr>d_stack := \<lparr>d_name = [], d_is_object = isobj, d_object = [], d_array = []\<rparr> # d_stack d\<rparr>"

text \<open>
  Every value event appends to the structure on top of the stack; a moved-from name is left
  empty.
\<close>

definition d_value :: "json \<Rightarrow> deserializer \<Rightarrow> deserializer result" where
  "d_value v d = (case d_stack d of
     [] \<Rightarrow> Inl (Undefined ''back of an empty vector'')
   | i # is \<Rightarrow> Inr (d\<lparr>d_stack :=
       (if d_is_object i then i\<lparr>d_object := d_object i @ [(d_name i, v)], d_name := []\<rparr>
        else i\<lparr>d_array := d_array i @ [v]\<rparr>) # is\<rparr>))"

definition d_begin_object :: "deserializer \<Rightarrow> deserializer" where
  "d_begin_object = d_push True"

definition d_begin_array :: "deserializer \<Rightarrow> deserializer" where
  "d_begin_array = d_push False"

text \<open>A closed structure goes to the enclosing one, or becomes the root.\<close>

definition d_close :: "json \<Rightarrow> deserializer \<Rightarrow> deserializer result" where
  "d_close v d = (let d1 = d\<lparr>d_stack := tl (d_stack d)\<rparr> in
     if d_stack d1 = [] then Inr (d1\<lparr>d_root := v\<rparr>) else d_value v d1)"

definition sort_members :: "members \<Rightarrow> members" where
  "sort_members ms = sort_key fst ms"

definition d_end_object :: "deserializer \<Rightarrow> deserializer result" where
  "d_end_object d = (case d_stack d of
     [] \<Rightarrow> Inl (Undefined ''back of an empty vector'')
   | i # _ \<Rightarrow> d_close (JObject (sort_members (d_object i))) d)"

definition d_end_array :: "deserializer \<Rightarrow> deserializer result" where
  "d_end_array d = (case d_stack d of
     [] \<Rightarrow> Inl (Undefined ''back of an empty vector'')
   | i # _ \<Rightarrow> d_close (JArray (d_array i)) d)"

definition d_set_name :: "string \<Rightarrow> deserializer \<Rightarrow> deserializer result" where
  "d_set_name s d = (case d_stack d of
     [] \<Rightarrow> Inl (Undefined ''back of an empty vector'')
   | i # is \<Rightarrow> Inr (d\<lparr>d_stack := i\<lparr>d_name := s\<rparr> # is\<rparr>))"

section \<open>The reader's state\<close>

record stack_item =
  value_count :: nat
  item_is_object :: bool
  comma :: bool
  name_count :: nat

definition new_stack_item :: "bool \<Rightarrow> stack_item" where
  "new_stack_item t = \<lparr>value_count = 0, item_is_object = t, comma = False, name_count = 0\<rparr>"

record reader =
  rd_column :: nat
  rd_line :: nat
  string_buffer :: string
  rd_stack :: "stack_item list"     \<comment> \<open>the back of the vector is the head\<close>
  buffer :: string
  buffer_capacity :: nat
  buffer_position :: nat
  buffer_length :: nat
  hard_buffer_length :: nat
  bof :: bool
  eof :: bool
  input :: string                \<comment> \<open>what is left of the input stream\<close>
  input_eof :: bool              \<comment> \<open>the stream's eof flag\<close>
  handler :: deserializer

definition read_ahead_length :: nat where "read_ahead_length = 12"
definition default_max_buffer_length :: nat where "default_max_buffer_length = 16384"

definition new_reader :: "string \<Rightarrow> deserializer \<Rightarrow> reader" where
  "new_reader s d =
     \<lparr>rd_column = 0, rd_line = 0, string_buffer = [], rd_stack = [], buffer = [],
      buffer_capacity = default_max_buffer_length, buffer_position = 0, buffer_length = 0,
      hard_buffer_length = 0, bof = True, eof = False, input = s, input_eof = False,
      handler = d\<rparr>"

text \<open>\<open>buffer_[buffer_position_ + k]\<close>\<close>

definition peek :: "nat \<Rightarrow> reader \<Rightarrow> char result" where
  "peek k st = vec_at (buffer st) (int (buffer_position st + k))"

definition skip_chars :: "nat \<Rightarrow> reader \<Rightarrow> reader" where
  "skip_chars n st = st\<lparr>buffer_position := buffer_position st + n\<rparr>"

definition skip_col :: "nat \<Rightarrow> reader \<Rightarrow> reader" where
  "skip_col n st = st\<lparr>buffer_position := buffer_position st + n, rd_column := rd_column st + n\<rparr>"

definition new_line :: "reader \<Rightarrow> reader" where
  "new_line st = st\<lparr>rd_line := Suc (rd_line st), rd_column := 0\<rparr>"

definition push_char :: "char \<Rightarrow> reader \<Rightarrow> reader" where
  "push_char c st = st\<lparr>string_buffer := string_buffer st @ [c]\<rparr>"

text \<open>\<open>Char c = buffer_[buffer_position_++]; ++column_;\<close>\<close>

definition next_char :: "reader \<Rightarrow> (char \<times> reader) result" where
  "next_char st = bnd (peek 0 st) (\<lambda>c. Inr (c, skip_col 1 st))"

text \<open>\<open>is.read(p, n)\<close> on a string stream: the bytes, what is left, and the eof flag.\<close>

definition stream_read :: "nat \<Rightarrow> reader \<Rightarrow> string \<times> reader" where
  "stream_read n st =
     (let got = take n (input st) in
      (got, st\<lparr>input := drop n (input st), input_eof := length (input st) < n\<rparr>))"

definition overwrite :: "string \<Rightarrow> nat \<Rightarrow> string \<Rightarrow> string" where
  "overwrite xs i ys = take i xs @ ys @ drop (i + length ys) xs"

definition read_some :: "reader \<Rightarrow> reader result" where
  "read_some st =
     (if buffer_position st < buffer_length st then Inr st
      else if \<not> (buffer_position st \<le> hard_buffer_length st
               \<and> buffer_position st - buffer_length st < read_ahead_length)
      then Inl (Undefined ''assertion failed'')
      else
       (let extra = buffer_position st - buffer_length st;
            st = st\<lparr>buffer_position := 0\<rparr>
        in if input_eof st then Inr (st\<lparr>buffer_length := 0, hard_buffer_length := 0, eof := True\<rparr>)
        else if bof st then
          (let (got, st) = stream_read (buffer_capacity st) st;
               n = length got;
               st = st\<lparr>buffer := overwrite (buffer st) 0 got, buffer_length := n, bof := False\<rparr>
           in if n = 0 then Inr (st\<lparr>hard_buffer_length := 0, eof := True\<rparr>)
              else if n = buffer_capacity st then
                Inr (st\<lparr>hard_buffer_length := n, buffer_length := n - read_ahead_length\<rparr>)
              else Inr (st\<lparr>hard_buffer_length := n\<rparr>))
        else
          (let unread = read_ahead_length - extra;
               real = buffer_length st + extra;
               st = st\<lparr>buffer := overwrite (buffer st) 0 (take unread (drop real (buffer st)))\<rparr>;
               (got, st) = stream_read (buffer_capacity st) st;
               n = length got;
               st = st\<lparr>buffer := overwrite (buffer st) unread got\<rparr>
           in if \<not> input_eof st then
                Inr (st\<lparr>buffer_length := n - extra,
                        hard_buffer_length := n - extra + read_ahead_length\<rparr>)
              else
                Inr (st\<lparr>buffer_length := n + unread, hard_buffer_length := n + unread,
                        buffer := overwrite (buffer st) (n + unread)
                                    (replicate read_ahead_length CHR 0x00)\<rparr>))))"

section \<open>Errors and events\<close>

definition fatal_error :: "string \<Rightarrow> 'a result" where
  "fatal_error msg = Inl (JsonParseException msg)"

definition on_handler :: "(deserializer \<Rightarrow> deserializer result) \<Rightarrow> reader \<Rightarrow> reader result" where
  "on_handler f st = bnd (f (handler st)) (\<lambda>d. Inr (st\<lparr>handler := d\<rparr>))"

text \<open>After a value: \<open>stack_.back().comma_ = false; ++stack_.back().value_count_;\<close>\<close>

definition count_value :: "reader \<Rightarrow> reader" where
  "count_value st = st\<lparr>rd_stack :=
     update_back (\<lambda>i. i\<lparr>comma := False, value_count := Suc (value_count i)\<rparr>) (rd_stack st)\<rparr>"

definition count_name :: "reader \<Rightarrow> reader" where
  "count_name st = st\<lparr>rd_stack :=
     update_back (\<lambda>i. i\<lparr>name_count := Suc (name_count i)\<rparr>) (rd_stack st)\<rparr>"

definition emit :: "json \<Rightarrow> reader \<Rightarrow> reader result" where
  "emit v = on_handler (d_value v)"

section \<open>Loops\<close>

text \<open>
  All loops have the shape \<open>while (!done) { while (!done & pos < len) body; if (!done) refill }\<close>:
  take a character if the buffer has one, otherwise read more and fail at the end of the input.
\<close>

definition refill :: "reader \<Rightarrow> reader result" where
  "refill st = bnd (read_some st) (\<lambda>st. if eof st then fatal_error ''Unexpected EOF'' else Inr st)"

definition skip_lf :: "reader \<Rightarrow> reader result" where
  \<comment> \<open>the second half of a CR LF pair\<close>
  "skip_lf st = bnd (peek 0 st) (\<lambda>c. Inr (if c = LF then skip_chars 1 st else st))"

partial_function (option) scan_loop ::
  "(reader \<Rightarrow> (bool \<times> reader) result option) \<Rightarrow> reader \<Rightarrow> reader result option" where
  "scan_loop body st =
     (if buffer_position st < buffer_length st then
        (case body st of
           None \<Rightarrow> None
         | Some (Inl e) \<Rightarrow> Some (Inl e)
         | Some (Inr (done, st')) \<Rightarrow> if done then Some (Inr st') else scan_loop body st')
      else (case refill st of Inl e \<Rightarrow> Some (Inl e) | Inr st' \<Rightarrow> scan_loop body st'))"

definition single_line_body :: "reader \<Rightarrow> (bool \<times> reader) result option" where
  "single_line_body st = Some (bnd (next_char st) (\<lambda>(c, st).
     if c = CR then bnd (skip_lf st) (\<lambda>st. Inr (True, new_line st))
     else if c = LF then Inr (True, new_line st)
     else Inr (False, st)))"

definition ignore_single_line_comment :: "reader \<Rightarrow> reader result option" where
  "ignore_single_line_comment = scan_loop single_line_body"

definition multi_line_body :: "reader \<Rightarrow> (bool \<times> reader) result option" where
  "multi_line_body st = Some (bnd (next_char st) (\<lambda>(c, st).
     if c = CR then bnd (skip_lf st) (\<lambda>st. Inr (False, new_line st))
     else if c = LF then Inr (False, new_line st)
     else if c = CHR ''*'' then bnd (peek 0 st) (\<lambda>next.
       if next = CHR ''/'' then Inr (True, skip_col 1 st) else Inr (False, st))
     else Inr (False, st)))"

definition ignore_multi_line_comment :: "reader \<Rightarrow> reader result option" where
  "ignore_multi_line_comment = scan_loop multi_line_body"

definition is_blank :: "char \<Rightarrow> bool" where
  "is_blank c = (c \<in> {CHR 0x09, CHR 0x0B, CHR 0x0C, CHR '' ''})"

text \<open>The two consecutive tests on \<open>next\<close> of the comment cases; \<open>n\<close> characters are skipped first.\<close>

definition maybe_comment :: "nat \<Rightarrow> reader \<Rightarrow> reader result option" where
  "maybe_comment n st = obind (Some (peek 0 st)) (\<lambda>next.
     if next = CHR ''/'' then ignore_single_line_comment (skip_chars n st)
     else if next = CHR ''*'' then ignore_multi_line_comment (skip_chars n st)
     else Some (Inr st))"

definition separator_body :: "reader \<Rightarrow> (bool \<times> reader) result option" where
  "separator_body st = obind (Some (next_char st)) (\<lambda>(c, st).
     if c = CR then Some (bnd (skip_lf st) (\<lambda>st. Inr (False, new_line st)))
     else if c = LF then Some (Inr (False, new_line st))
     else if is_blank c then Some (Inr (False, st))
     else if c = CHR ''/'' then obind (maybe_comment 0 st) (\<lambda>st. Some (Inr (False, st)))
     else if c = CHR '':'' then Some (Inr (True, st))
     else Some (fatal_error ''Expected :''))"

definition parse_separator :: "reader \<Rightarrow> reader result option" where
  "parse_separator = scan_loop separator_body"

section \<open>Numbers\<close>

text \<open>\<open>string_to_ulonglong\<close>; \<open>None\<close> is \<open>std::overflow_error\<close>.\<close>

fun string_to_ulonglong :: "string \<Rightarrow> nat \<Rightarrow> nat \<Rightarrow> nat option" where
  "string_to_ulonglong [] hi n = Some n"
| "string_to_ulonglong (c # s) hi n =
     (if is_digit c then
        (if n > hi div 10 then None
         else if n * 10 > hi - digit_val c then None
         else string_to_ulonglong s hi (n * 10 + digit_val c))
      else string_to_ulonglong s hi n)"

text \<open>The value a number token denotes, as the three branches of \<open>parse_number\<close> compute it.\<close>

definition number_value :: "stdio \<Rightarrow> bool \<Rightarrow> bool \<Rightarrow> string \<Rightarrow> json result" where
  "number_value io has_frac_or_exp has_neg s =
     (if has_frac_or_exp then
        (case read_double io s of
           Some d \<Rightarrow> Inr (JDouble (if has_neg then dbl_neg d else d))
         | None \<Rightarrow> fatal_error ''Invalid double value'')
      else if has_neg then
        (case string_to_ulonglong s (2^63 - 1) 0 of
           Some n \<Rightarrow> Inr (JLongLong (- of_nat n))
         | None \<Rightarrow>
            (case read_double io s of
               Some d \<Rightarrow> Inr (JDouble (dbl_neg d))
             | None \<Rightarrow> fatal_error ''Invalid integer value''))
      else
        (case string_to_ulonglong s (2^64 - 1) 0 of
           Some n \<Rightarrow> Inr (JULongLong (of_nat n))
         | None \<Rightarrow>
            (case read_double io s of
               Some d \<Rightarrow> Inr (JDouble d)
             | None \<Rightarrow> fatal_error ''Invalid integer value'')))"

partial_function (option) number_loop ::
  "stdio \<Rightarrow> bool \<Rightarrow> bool \<Rightarrow> reader \<Rightarrow> reader result option" where
  "number_loop io has_neg has_frac_or_exp st =
     (if buffer_position st < buffer_length st then
        (case next_char st of
           Inl e \<Rightarrow> Some (Inl e)
         | Inr (c, st') \<Rightarrow>
             if is_digit c then number_loop io has_neg has_frac_or_exp (push_char c st')
             else if c \<in> set ''-+.eE'' then number_loop io has_neg True (push_char c st')
             else Some (bnd (number_value io has_frac_or_exp has_neg (string_buffer st'))
               (\<lambda>v. emit v (st'\<lparr>buffer_position := buffer_position st' - 1\<rparr>))))
      else (case refill st of
              Inl e \<Rightarrow> Some (Inl e)
            | Inr st' \<Rightarrow> number_loop io has_neg has_frac_or_exp st'))"

definition parse_number :: "stdio \<Rightarrow> char \<Rightarrow> reader \<Rightarrow> reader result option" where
  "parse_number io c st =
     number_loop io (c = CHR ''-'') False
       (st\<lparr>string_buffer := (if c = CHR ''-'' then [] else [c])\<rparr>)"

section \<open>Strings\<close>

definition hex_digit :: "char \<Rightarrow> nat option" where
  "hex_digit c = (let u = byte c in
     if 48 \<le> u \<and> u \<le> 57 then Some (u - 48)
     else if 97 \<le> u \<and> u \<le> 102 then Some (u - 97 + 10)
     else if 65 \<le> u \<and> u \<le> 70 then Some (u - 65 + 10)
     else None)"

fun hex_digits :: "nat \<Rightarrow> nat \<Rightarrow> reader \<Rightarrow> (nat \<times> reader) result" where
  "hex_digits 0 cp st = Inr (cp, st)"
| "hex_digits (Suc n) cp st = bnd (next_char st) (\<lambda>(c, st).
     case hex_digit c of
       Some d \<Rightarrow> hex_digits n (cp * 16 + d) st
     | None \<Rightarrow> fatal_error ''Expected hexadecimal digit'')"

text \<open>\<open>hard_buffer_length_ - buffer_position_ < n\<close> on \<open>size_t\<close>, which wraps below zero.\<close>

definition hard_left_less :: "nat \<Rightarrow> reader \<Rightarrow> bool" where
  "hard_left_less n st =
     (buffer_position st \<le> hard_buffer_length st \<and> hard_buffer_length st - buffer_position st < n)"

definition decode_unicode_escape_sequence :: "reader \<Rightarrow> (nat \<times> reader) result" where
  "decode_unicode_escape_sequence st =
     (if hard_left_less 4 st then fatal_error ''Unexpected EOF'' else hex_digits 4 0 st)"

definition decode_unicode_codepoint :: "reader \<Rightarrow> (nat \<times> reader) result" where
  "decode_unicode_codepoint st = bnd (decode_unicode_escape_sequence st) (\<lambda>(cp, st).
     if hard_left_less 2 st then fatal_error ''Unexpected EOF''
     else if 0xD800 \<le> cp \<and> cp \<le> 0xDBFF then
       bnd (peek 0 st) (\<lambda>c0. bnd (peek 1 st) (\<lambda>c1.
         if c0 = CHR 0x5C \<and> c1 = CHR ''u'' then
           bnd (decode_unicode_escape_sequence (skip_col 2 st)) (\<lambda>(sp, st).
             Inr (0x10000 + (cp mod 0x400) * 2^10 + sp mod 0x400, st))
         else fatal_error ''expecting another token to begin the second half of a surrogate pair''))
     else Inr (cp, st))"

definition append_codepoint_to_string :: "nat \<Rightarrow> string \<Rightarrow> string" where
  "append_codepoint_to_string cp s =
     (if cp \<le> 0x7F then s @ [char_of cp]
      else if cp \<le> 0x7FF then s @ [char_of (0xC0 + cp div 2^6 mod 0x20), char_of (0x80 + cp mod 0x40)]
      else if cp \<le> 0xFFFF then
        s @ [char_of (0xE0 + cp div 2^12 mod 0x10), char_of (0x80 + cp div 2^6 mod 0x40),
             char_of (0x80 + cp mod 0x40)]
      else if cp \<le> 0x10FFFF then
        s @ [char_of (0xF0 + cp div 2^18 mod 0x8), char_of (0x80 + cp div 2^12 mod 0x40),
             char_of (0x80 + cp div 2^6 mod 0x40), char_of (0x80 + cp mod 0x40)]
      else s)"

text \<open>The character after a backslash.\<close>

definition simple_escape :: "char \<Rightarrow> char option" where
  "simple_escape c =
     (if c = CHR 0x22 then Some CHR 0x22
      else if c = CHR 0x5C then Some CHR 0x5C
      else if c = CHR ''/'' then Some CHR ''/''
      else if c = CHR ''n'' then Some LF
      else if c = CHR ''b'' then Some CHR 0x08
      else if c = CHR ''f'' then Some CHR 0x0C
      else if c = CHR ''r'' then Some CR
      else if c = CHR ''t'' then Some CHR 0x09
      else None)"

definition escape_body :: "reader \<Rightarrow> reader result" where
  "escape_body st = bnd (peek 0 st) (\<lambda>next.
     case simple_escape next of
       Some c \<Rightarrow> Inr (push_char c (skip_chars 1 st))
     | None \<Rightarrow>
         if next = CHR ''u'' then
           bnd (decode_unicode_codepoint (skip_chars 1 st)) (\<lambda>(cp, st).
             Inr (st\<lparr>string_buffer := append_codepoint_to_string cp (string_buffer st)\<rparr>))
         else fatal_error ''Invalid character following backslash'')"

definition string_body :: "reader \<Rightarrow> (bool \<times> reader) result option" where
  "string_body st = Some (bnd (next_char st) (\<lambda>(c, st).
     if byte c < 0x20 then fatal_error ''Illegal control character in string''
     else if c = CHR 0x5C then bnd (escape_body st) (\<lambda>st. Inr (False, st))
     else if c = CHR 0x22 then Inr (True, st)
     else Inr (False, push_char c st)))"

definition parse_quoted :: "reader \<Rightarrow> reader result option" where
  "parse_quoted st = scan_loop string_body (st\<lparr>string_buffer := []\<rparr>)"


section \<open>The main loop\<close>

text \<open>Blanks: up to three following spaces are skipped at once.\<close>

definition skip_blanks :: "reader \<Rightarrow> reader result" where
  "skip_blanks st = bnd (peek 0 st) (\<lambda>c0. bnd (peek 1 st) (\<lambda>c1. bnd (peek 2 st) (\<lambda>c2.
     let sp = CHR '' '';
         count = (if c0 = sp then 1 else 0) + (if c0 = sp \<and> c1 = sp then 1 else 0)
                 + (if c0 = sp \<and> c1 = sp \<and> c2 = sp then 1 else 0)
     in Inr (skip_col count st))))"

definition open_item :: "bool \<Rightarrow> reader \<Rightarrow> reader" where
  "open_item isobj st = st\<lparr>rd_stack := new_stack_item isobj # rd_stack st,
     handler := (if isobj then d_begin_object (handler st) else d_begin_array (handler st))\<rparr>"

text \<open>
  The characters after a member name: an immediate colon, a space and a colon, or anything
  \<open>parse_separator\<close> accepts.
\<close>

definition after_name :: "reader \<Rightarrow> reader result option" where
  "after_name st = obind (Some (peek 0 st)) (\<lambda>c0. obind (Some (peek 1 st)) (\<lambda>c1.
     let count1 = (if c0 = CHR '':'' then 1 else 0) + (if c0 = CHR '' '' \<and> c1 = CHR '':'' then 2 else 0);
         st = skip_col count1 st
     in if count1 = 0 then parse_separator st else Some (Inr st)))"

definition read_quoted :: "stack_item \<Rightarrow> reader \<Rightarrow> reader result option" where
  "read_quoted i st =
     (if value_count i > 0 \<and> \<not> comma i then Some (fatal_error ''Expected comma'')
      else obind (parse_quoted st) (\<lambda>st.
        if item_is_object i \<and> name_count i = value_count i then
          obind (Some (on_handler (d_set_name (string_buffer st)) st)) (\<lambda>st.
          obind (after_name st) (\<lambda>st. Some (Inr (count_name st))))
        else Some (bnd (emit (JString (string_buffer st)) st) (\<lambda>st. Inr (count_value st)))))"

text \<open>
  Closing brackets.  The result says whether the outermost structure was closed, in which case
  \<open>read\<close> returns and ignores the rest of the input.
\<close>

definition close_structure :: "bool \<Rightarrow> stack_item \<Rightarrow> reader \<Rightarrow> (bool \<times> reader) result" where
  "close_structure isobj i st =
     (if item_is_object i \<noteq> isobj then
        fatal_error (if isobj then ''Unexpected }'' else ''Unexpected ]'')
      else if comma i then fatal_error ''Unexpected comma''
      else if isobj \<and> name_count i \<noteq> value_count i then fatal_error ''Value not found''
      else bnd (on_handler (if isobj then d_end_object else d_end_array) st) (\<lambda>st.
        let st = st\<lparr>rd_stack := tl (rd_stack st)\<rparr>
        in if rd_stack st \<noteq> [] then Inr (False, count_value st) else Inr (True, st)))"

text \<open>The remaining characters of the literals \<open>true\<close>, \<open>false\<close> and \<open>null\<close>.\<close>

fun match_ahead :: "nat \<Rightarrow> string \<Rightarrow> reader \<Rightarrow> bool result" where
  "match_ahead k [] st = Inr True"
| "match_ahead k (c # cs) st = bnd (peek k st) (\<lambda>d. bnd (match_ahead (Suc k) cs st) (\<lambda>r. Inr (c = d \<and> r)))"

definition read_literal :: "string \<Rightarrow> json \<Rightarrow> reader \<Rightarrow> reader result" where
  "read_literal cs v st = bnd (match_ahead 0 cs st) (\<lambda>ok.
     if \<not> ok then fatal_error ''Unrecognized value''
     else bnd (emit v (skip_col (length cs) st)) (\<lambda>st. Inr (count_value st)))"

definition read_value_char :: "stdio \<Rightarrow> char \<Rightarrow> stack_item \<Rightarrow> reader \<Rightarrow> (bool \<times> reader) result option" where
  "read_value_char io c i st =
     (if c = CHR '','' then
        Some (if value_count i = 0 then fatal_error ''Unexpected comma''
              else Inr (False, st\<lparr>rd_stack := update_back (\<lambda>i. i\<lparr>comma := True\<rparr>) (rd_stack st)\<rparr>))
      else if c = CHR 0x22 then obind (read_quoted i st) (\<lambda>st. Some (Inr (False, st)))
      else if c = CHR ''}'' then Some (close_structure True i st)
      else if c = CHR '']'' then Some (close_structure False i st)
      else if c = CHR ''t'' then obind (Some (read_literal ''rue'' (JBool True) st)) (\<lambda>st. Some (Inr (False, st)))
      else if c = CHR ''f'' then obind (Some (read_literal ''alse'' (JBool False) st)) (\<lambda>st. Some (Inr (False, st)))
      else if c = CHR ''n'' then obind (Some (read_literal ''ull'' JNull st)) (\<lambda>st. Some (Inr (False, st)))
      else if is_digit c \<or> c = CHR ''-'' then
        obind (parse_number io c st) (\<lambda>st. Some (Inr (False, count_value st)))
      else Some (fatal_error ''Unrecognized value''))"

definition read_body :: "stdio \<Rightarrow> reader \<Rightarrow> (bool \<times> reader) result option" where
  "read_body io st = obind (Some (next_char st)) (\<lambda>(c, st).
     if c = CR then
       Some (bnd (skip_lf (new_line st)) (\<lambda>st. Inr (False, st)))
     else if c = LF then Some (Inr (False, new_line st))
     else if is_blank c then Some (bnd (skip_blanks st) (\<lambda>st. Inr (False, st)))
     else if c = CHR ''/'' then obind (maybe_comment 1 st) (\<lambda>st. Some (Inr (False, st)))
     else if c = CHR ''{'' then Some (Inr (False, open_item True st))
     else if c = CHR ''['' then Some (Inr (False, open_item False st))
     else case rd_stack st of
       [] \<Rightarrow> Some (Inr (False, st))          \<comment> \<open>ignored outside any structure\<close>
     | i # _ \<Rightarrow> read_value_char io c i st)"

partial_function (option) read_loop :: "stdio \<Rightarrow> reader \<Rightarrow> reader result option" where
  "read_loop io st =
     (if eof st then
        Some (if rd_stack st \<noteq> [] then fatal_error ''End of file'' else Inr st)
      else if buffer_position st < buffer_length st then
        (case read_body io st of
           None \<Rightarrow> None
         | Some (Inl e) \<Rightarrow> Some (Inl e)
         | Some (Inr (done, st')) \<Rightarrow> if done then Some (Inr st') else read_loop io st')
      else (case read_some st of Inl e \<Rightarrow> Some (Inl e) | Inr st' \<Rightarrow> read_loop io st'))"

declare scan_loop.simps [code] number_loop.simps [code] read_loop.simps [code]

text \<open>\<open>read(is)\<close>: reset the buffer, read a first block, run the loop.\<close>

definition reader_read :: "stdio \<Rightarrow> reader \<Rightarrow> reader result option" where
  "reader_read io st =
     (let st = st\<lparr>buffer := take (buffer_capacity st + 2 * read_ahead_length)
                     (buffer st @ replicate (buffer_capacity st + 2 * read_ahead_length) CHR 0x00),
                  buffer_position := 0, buffer_length := 0, hard_buffer_length := 0,
                  bof := True, eof := False, rd_line := 1, rd_column := 0\<rparr>
      in obind (Some (read_some st)) (read_loop io))"

definition parse_string :: "stdio \<Rightarrow> string \<Rightarrow> json result option" where
  "parse_string io s = obind (reader_read io (new_reader s new_deserializer)) (\<lambda>st.
     Some (Inr (d_root (handler st))))"

end
