(* ===== verification/Message.thy ===== *)
theory Message
  imports JsonReader
begin

text \<open>
  Messages exchanged with the players (communication/message.h, message.cpp): a JSON value,
  made from a value or parsed from a line of text, and written back as one line.
\<close>

datatype message = Message (content: json)

text \<open>\<open>Message(const string&)\<close>; parsing throws on malformed text.\<close>

definition message_of_string :: "stdio \<Rightarrow> string \<Rightarrow> message result" where
  "message_of_string io s = (case parse_string io s of
     None \<Rightarrow> Inl (Undefined ''does not return'')
   | Some r \<Rightarrow> bnd r (\<lambda>j. Inr (Message j)))"

definition ToString :: "stdio \<Rightarrow> message \<Rightarrow> string result" where
  "ToString io m = bnd (as_string io (content m)) (\<lambda>s. Inr (s @ [LF]))"

text \<open>\<open>type()\<close>\<close>

definition message_type :: "stdio \<Rightarrow> message \<Rightarrow> string result" where
  "message_type io m = bnd (json_get_default ''type'' (JString []) (content m)) (as_string io)"

end
