(* ===== verification/Connection.thy ===== *)
theory Connection
  imports Message
begin

text \<open>
  A player's connection (communication/connection.h, tcp_connection.h, tcp_connection.cpp).
  The state is that of \<open>TcpConnection\<close>: the two queues, the flags, the stream buffer, plus
  the bytes written to the socket and whether an asynchronous read is outstanding.

  Callbacks are values of a type \<open>'cb\<close>.  An operation that calls one returns it together with
  the message, and the caller runs it: this is the order of the code, where the callback runs
  after the queue mutex is released.  The mutexes make every operation atomic.
\<close>

section \<open>State\<close>

record 'cb tcp_connection =
  sent :: string                     \<comment> \<open>bytes written to \<open>socket_\<close>\<close>
  stream_buffer :: string            \<comment> \<open>\<open>buffer_\<close>: received, not yet consumed\<close>
  observers :: "'cb list"
  messages :: "message list"
  should_continue_reading :: bool
  disconnected :: bool
  reading :: bool                    \<comment> \<open>an \<open>async_read_until\<close> is outstanding\<close>

section \<open>Operations\<close>

definition ReadMessage :: "'cb tcp_connection \<Rightarrow> 'cb tcp_connection" where
  "ReadMessage c = c\<lparr>reading := True\<rparr>"

definition TcpConnection :: "'cb tcp_connection" where
  "TcpConnection = ReadMessage
     \<lparr>sent = [], stream_buffer = [], observers = [], messages = [],
      should_continue_reading = True, disconnected = False, reading = False\<rparr>"

text \<open>\<open>boost::asio::write\<close> throws when the socket fails; \<open>ok\<close> is the socket's answer.\<close>

definition Write :: "stdio \<Rightarrow> bool \<Rightarrow> message \<Rightarrow> 'cb tcp_connection \<Rightarrow> 'cb tcp_connection result" where
  "Write io ok m c = bnd (ToString io m) (\<lambda>s.
     if ok then Inr (c\<lparr>sent := sent c @ s\<rparr>) else Inl SystemError)"

definition Read :: "'cb tcp_connection \<Rightarrow> 'cb tcp_connection \<times> message option" where
  "Read c = (case messages c of
     [] \<Rightarrow> (c, None)
   | m # ms \<Rightarrow> (c\<lparr>messages := ms\<rparr>, Some m))"

text \<open>The callback is called with the earliest waiting message, or queued.\<close>

definition ReadMessageAsync ::
  "'cb \<Rightarrow> 'cb tcp_connection \<Rightarrow> 'cb tcp_connection \<times> message option" where
  "ReadMessageAsync cb c = (case messages c of
     m # ms \<Rightarrow> (c\<lparr>messages := ms\<rparr>, Some m)
   | [] \<Rightarrow> (c\<lparr>observers := observers c @ [cb]\<rparr>, None))"

text \<open>A received message goes to the first observer, or is queued.\<close>

definition ProcessMessage ::
  "message \<Rightarrow> 'cb tcp_connection \<Rightarrow> 'cb tcp_connection \<times> 'cb option" where
  "ProcessMessage m c = (case observers c of
     cb # cbs \<Rightarrow> (c\<lparr>observers := cbs\<rparr>, Some cb)
   | [] \<Rightarrow> (c\<lparr>messages := messages c @ [m]\<rparr>, None))"

definition active :: "'cb tcp_connection \<Rightarrow> bool" where
  "active c = (\<not> disconnected c)"

text \<open>\<open>std::getline\<close>: the text up to the newline, which is removed.\<close>

definition getline :: "string \<Rightarrow> string \<times> string" where
  "getline s = (takeWhile (\<lambda>c. c \<noteq> LF) s, tl (dropWhile (\<lambda>c. c \<noteq> LF) s))"

text \<open>Bytes from the peer are appended to the stream buffer.\<close>

definition receive_bytes :: "string \<Rightarrow> 'cb tcp_connection \<Rightarrow> 'cb tcp_connection" where
  "receive_bytes bs c = c\<lparr>stream_buffer := stream_buffer c @ bs\<rparr>"

text \<open>
  \<open>HandleRead\<close>, the completion handler of the read.  It works on a world \<open>'w\<close> that contains
  the connection (\<open>get\<close>, \<open>upd\<close>), because the callback it runs between taking the line and
  starting the next read changes more than the connection; \<open>run\<close> runs a callback.
  A line that is not JSON throws out of the handler.
\<close>

definition HandleRead ::
  "stdio \<Rightarrow> bool \<Rightarrow> ('w \<Rightarrow> 'cb tcp_connection)
   \<Rightarrow> (('cb tcp_connection \<Rightarrow> 'cb tcp_connection) \<Rightarrow> 'w \<Rightarrow> 'w)
   \<Rightarrow> ('cb \<Rightarrow> message \<Rightarrow> 'w \<Rightarrow> 'w result) \<Rightarrow> 'w \<Rightarrow> 'w result" where
  "HandleRead io error get upd run w =
     (let w = upd (\<lambda>c. c\<lparr>reading := False\<rparr>) w in
      if \<not> error then
        (let (line, rest) = getline (stream_buffer (get w));
             w = upd (\<lambda>c. c\<lparr>stream_buffer := rest\<rparr>) w
         in bnd (message_of_string io line) (\<lambda>m.
            let (c, cb) = ProcessMessage m (get w);
                w = upd (\<lambda>_. c) w
            in bnd (case cb of Some f \<Rightarrow> run f m w | None \<Rightarrow> Inr w) (\<lambda>w.
               Inr (if should_continue_reading (get w) then upd ReadMessage w else w))))
      else Inr (upd (\<lambda>c. c\<lparr>disconnected := True\<rparr>) w))"

text \<open>
  The destructor cancels the socket and waits for a completion handler to notify it; the
  cancelled read completes with an error, a read that was already complete without one.
\<close>

definition destroy_begin :: "'cb tcp_connection \<Rightarrow> 'cb tcp_connection" where
  "destroy_begin c = (if \<not> disconnected c then c\<lparr>should_continue_reading := False\<rparr> else c)"

definition destroy_waits :: "'cb tcp_connection \<Rightarrow> bool" where
  "destroy_waits c = (\<not> disconnected c)"

section \<open>Delivery of messages to observers\<close>

text \<open>
  The sequences of queue operations of a connection, and the deliveries they cause: an
  \<open>Observe\<close> is a call of \<open>ReadMessageAsync\<close>, a \<open>Deliver\<close> of \<open>ProcessMessage\<close>.
\<close>

datatype 'cb mail_event = Observe 'cb | Deliver message

fun mail_run :: "('cb \<Rightarrow> 'c \<Rightarrow> 'c \<times> message option) \<Rightarrow> (message \<Rightarrow> 'c \<Rightarrow> 'c \<times> 'cb option)
    \<Rightarrow> 'cb mail_event list \<Rightarrow> 'c \<Rightarrow> 'c \<times> ('cb \<times> message) list" where
  "mail_run obs del [] c = (c, [])"
| "mail_run obs del (Observe cb # es) c =
     (let (c1, m) = obs cb c; (c2, ds) = mail_run obs del es c1
      in (c2, (case m of Some m \<Rightarrow> [(cb, m)] | None \<Rightarrow> []) @ ds))"
| "mail_run obs del (Deliver m # es) c =
     (let (c1, cb) = del m c; (c2, ds) = mail_run obs del es c1
      in (c2, (case cb of Some cb \<Rightarrow> [(cb, m)] | None \<Rightarrow> []) @ ds))"

fun observed :: "'cb mail_event list \<Rightarrow> 'cb list" where
  "observed [] = []"
| "observed (Observe cb # es) = cb # observed es"
| "observed (Deliver m # es) = observed es"

fun delivered :: "'cb mail_event list \<Rightarrow> message list" where
  "delivered [] = []"
| "delivered (Observe cb # es) = delivered es"
| "delivered (Deliver m # es) = m # delivered es"

text \<open>
  The contract of a connection's queues.  The client registers callbacks and the network
  delivers messages; at no time is a message waiting together with an observer.
\<close>

locale mailbox =
  fixes observe :: "'cb \<Rightarrow> 'c \<Rightarrow> 'c \<times> message option"
    and deliver :: "message \<Rightarrow> 'c \<Rightarrow> 'c \<times> 'cb option"
    and pending :: "'c \<Rightarrow> message list"
    and waiting :: "'c \<Rightarrow> 'cb list"
    and inv :: "'c \<Rightarrow> bool"
  assumes exclusive: "inv c \<Longrightarrow> pending c = [] \<or> waiting c = []"
    and observe_inv: "inv c \<Longrightarrow> inv (fst (observe cb c))"
    and deliver_inv: "inv c \<Longrightarrow> inv (fst (deliver m c))"
    and observe_pending: "inv c \<Longrightarrow> pending c = m # ms \<Longrightarrow>
      snd (observe cb c) = Some m \<and> pending (fst (observe cb c)) = ms \<and> waiting (fst (observe cb c)) = []"
    and observe_empty: "inv c \<Longrightarrow> pending c = [] \<Longrightarrow>
      snd (observe cb c) = None \<and> pending (fst (observe cb c)) = [] \<and>
      waiting (fst (observe cb c)) = waiting c @ [cb]"
    and deliver_waiting: "inv c \<Longrightarrow> waiting c = cb # cbs \<Longrightarrow>
      snd (deliver m c) = Some cb \<and> waiting (fst (deliver m c)) = cbs \<and> pending (fst (deliver m c)) = []"
    and deliver_empty: "inv c \<Longrightarrow> waiting c = [] \<Longrightarrow>
      snd (deliver m c) = None \<and> waiting (fst (deliver m c)) = [] \<and>
      pending (fst (deliver m c)) = pending c @ [m]"
begin

text \<open>
  The callbacks still waiting followed by those registered later are matched, in order, with
  the messages still pending followed by those delivered later.
\<close>

lemma mail_run_zip:
  assumes "inv c" "mail_run observe deliver es c = (c', ds)"
  shows "ds = zip (waiting c @ observed es) (pending c @ delivered es) \<and> inv c' \<and>
    waiting c' = drop (length (pending c @ delivered es)) (waiting c @ observed es) \<and>
    pending c' = drop (length (waiting c @ observed es)) (pending c @ delivered es)"
  using assms
proof (induction es arbitrary: c c' ds)
  case Nil
  then show ?case using exclusive[OF Nil(1)] by auto
next
  case (Cons e es)
  show ?case
  proof (cases e)
    case (Observe cb)
    obtain c1 m ds1 where 1: "observe cb c = (c1, m)" "mail_run observe deliver es c1 = (c', ds1)"
      "ds = (case m of Some m \<Rightarrow> [(cb, m)] | None \<Rightarrow> []) @ ds1"
      using Cons.prems(2) Observe by (auto split: prod.splits)
    have i1: "inv c1" using observe_inv[OF Cons.prems(1), of cb] 1(1) by simp
    note IH = Cons.IH[OF i1 1(2)]
    show ?thesis
    proof (cases "pending c")
      case Nil
      then show ?thesis using observe_empty[OF Cons.prems(1) Nil, of cb] IH 1 Observe by auto
    next
      case (Cons m' ms)
      then have "waiting c = []" using exclusive[OF Cons.prems(1)] by auto
      then show ?thesis
        using observe_pending[OF Cons.prems(1) Cons, of cb] IH 1 Observe Cons by auto
    qed
  next
    case (Deliver m)
    obtain c1 cb ds1 where 1: "deliver m c = (c1, cb)" "mail_run observe deliver es c1 = (c', ds1)"
      "ds = (case cb of Some cb \<Rightarrow> [(cb, m)] | None \<Rightarrow> []) @ ds1"
      using Cons.prems(2) Deliver by (auto split: prod.splits)
    have i1: "inv c1" using deliver_inv[OF Cons.prems(1), of m] 1(1) by simp
    note IH = Cons.IH[OF i1 1(2)]
    show ?thesis
    proof (cases "waiting c")
      case Nil
      then show ?thesis using deliver_empty[OF Cons.prems(1) Nil, of m] IH 1 Deliver by auto
    next
      case (Cons cb' cbs)
      then have "pending c = []" using exclusive[OF Cons.prems(1)] by auto
      then show ?thesis
        using deliver_waiting[OF Cons.prems(1) Cons, of m] IH 1 Deliver Cons by auto
    qed
  qed
qed

end

text \<open>The invariant of \<open>TcpConnection\<close>'s queues and of its read loop.\<close>

definition tcp_inv :: "'cb tcp_connection \<Rightarrow> bool" where
  "tcp_inv c = (messages c = [] \<or> observers c = [])"

definition tcp_reading_inv :: "'cb tcp_connection \<Rightarrow> bool" where
  "tcp_reading_inv c =
     ((reading c \<longrightarrow> \<not> disconnected c) \<and>
      (should_continue_reading c \<and> \<not> disconnected c \<longrightarrow> reading c))"

interpretation tcp: mailbox ReadMessageAsync ProcessMessage messages observers tcp_inv
  by unfold_locales
    (auto simp: tcp_inv_def ReadMessageAsync_def ProcessMessage_def split: list.splits)

end
