(* ===== verification/RoundPlayer.thy ===== *)
theory RoundPlayer
  imports Connection
begin

text \<open>
  A player of a round based match (games/round_based/player.h, player.cpp): it keeps observing
  its connection and hands each message to the future of the message's round.

  A \<open>std::promise\<close> and its \<open>std::future\<close> share a state; the shared states of a player live in
  the list \<open>shared\<close>, and a promise or a future is an index into it.
\<close>

section \<open>State\<close>

text \<open>The functions bound to a connection: a lobby's \<open>JoinRequest\<close>, or a player's \<open>ProcessMessage\<close>.\<close>

datatype callback = OnJoin int | OnRound

datatype shared_state = Pending | Ready message | Broken

record round_player =
  waiting_rounds :: "(int, nat) ordmap"
  waiting_messages :: "message list"
  shared :: "shared_state list"
  connection :: "callback tcp_connection option"

section \<open>Operations\<close>

text \<open>\<open>connection_->Write(m)\<close>; the pointer is null only while the player is destroyed.\<close>

definition player_Write :: "stdio \<Rightarrow> bool \<Rightarrow> message \<Rightarrow> round_player \<Rightarrow> round_player result" where
  "player_Write io ok m p = (case connection p of
     None \<Rightarrow> Inl (Undefined ''null pointer'')
   | Some c \<Rightarrow> bnd (Write io ok m c) (\<lambda>c. Inr (p\<lparr>connection := Some c\<rparr>)))"

text \<open>A promise that is destroyed or overwritten before it has a value breaks its future.\<close>

definition abandon :: "nat option \<Rightarrow> shared_state list \<Rightarrow> shared_state list" where
  "abandon k fs = (case k of
     None \<Rightarrow> fs
   | Some i \<Rightarrow> if i < length fs \<and> fs ! i = Pending then fs[i := Broken] else fs)"

definition GetRoundMessageAsync :: "int \<Rightarrow> round_player \<Rightarrow> nat \<times> round_player" where
  "GetRoundMessageAsync r p =
     (let n = length (shared p);
          fs = abandon (ord_find r (waiting_rounds p)) (shared p) @ [Pending]
      in (n, p\<lparr>shared := fs, waiting_rounds := ord_set r n (waiting_rounds p)\<rparr>))"

text \<open>\<open>ProcessMessage\<close> up to the call of \<open>WaitForMessageAsync\<close>.\<close>

definition process_body :: "message \<Rightarrow> round_player \<Rightarrow> round_player result" where
  "process_body m p =
     (if has_member ''round'' (content m) then
        bnd (json_get ''round'' (content m)) (\<lambda>j. bnd (as_int j) (\<lambda>r.
          case ord_find r (waiting_rounds p) of
            Some k \<Rightarrow> Inr (p\<lparr>shared := (shared p)[k := Ready m],
                             waiting_rounds := ord_erase r (waiting_rounds p)\<rparr>)
          | None \<Rightarrow> Inr (p\<lparr>waiting_messages := waiting_messages p @ [m]\<rparr>)))
      else Inr p)"

lemma process_body_connection: "process_body m p = Inr p' \<Longrightarrow> connection p' = connection p"
  by (auto simp: process_body_def bnd_eq_Inr split: if_splits option.splits)

text \<open>
  \<open>WaitForMessageAsync\<close> asks the connection for the next message.  If one is waiting, the
  callback runs at once: it processes the message and calls \<open>WaitForMessageAsync\<close> again.
\<close>

function (domintros) WaitForMessageAsync :: "round_player \<Rightarrow> round_player result" where
  "WaitForMessageAsync p = (case connection p of
     None \<Rightarrow> Inr p
   | Some c \<Rightarrow>
      (case ReadMessageAsync OnRound c of
         (c', None) \<Rightarrow> Inr (p\<lparr>connection := Some c'\<rparr>)
       | (c', Some m) \<Rightarrow> bnd (process_body m (p\<lparr>connection := Some c'\<rparr>)) WaitForMessageAsync))"
  by pat_completeness auto
termination
proof (relation "measure (\<lambda>p. case connection p of Some c \<Rightarrow> length (messages c) | None \<Rightarrow> 0)",
    goal_cases)
  case (2 p c c' m p')
  then show ?case
    by (auto simp: ReadMessageAsync_def dest!: process_body_connection split: list.splits)
qed simp

declare WaitForMessageAsync.simps [simp del]

definition player_ProcessMessage :: "message \<Rightarrow> round_player \<Rightarrow> round_player result" where
  "player_ProcessMessage m p = bnd (process_body m p) WaitForMessageAsync"

definition RoundBasedPlayer :: "callback tcp_connection option \<Rightarrow> round_player result" where
  "RoundBasedPlayer c = WaitForMessageAsync
     \<lparr>waiting_rounds = [], waiting_messages = [], shared = [], connection = c\<rparr>"

text \<open>A completed read on the connection of a player.\<close>

definition player_HandleRead :: "stdio \<Rightarrow> bool \<Rightarrow> round_player \<Rightarrow> round_player result" where
  "player_HandleRead io error = HandleRead io error (\<lambda>p. the (connection p))
     (\<lambda>f p. p\<lparr>connection := map_option f (connection p)\<rparr>) (\<lambda>cb m p. player_ProcessMessage m p)"

text \<open>\<open>connection_.reset()\<close> runs the connection's destructor.\<close>

definition destroy_player :: "round_player \<Rightarrow> round_player" where
  "destroy_player p = p\<lparr>connection := map_option destroy_begin (connection p)\<rparr>"

section \<open>Invariant\<close>

text \<open>
  A connected player has drained its connection and observes it exactly once; every promise it
  holds belongs to a future that is still pending, and to one round only.
\<close>

definition promises_inv :: "round_player \<Rightarrow> bool" where
  "promises_inv p =
     (ord_inv (waiting_rounds p) \<and> distinct (map snd (waiting_rounds p)) \<and>
      (\<forall>(r, k) \<in> set (waiting_rounds p). k < length (shared p) \<and> shared p ! k = Pending))"

definition player_inv :: "round_player \<Rightarrow> bool" where
  "player_inv p =
     (promises_inv p \<and>
      (case connection p of
         None \<Rightarrow> True
       | Some c \<Rightarrow> messages c = [] \<and> observers c = [OnRound]))"


lemma ord_erase_filter: "ord_inv m \<Longrightarrow> ord_erase k m = filter (\<lambda>e. fst e \<noteq> k) m"
proof (induction m)
  case (Cons e m)
  obtain a b where e: "e = (a, b)" by (cases e)
  have "filter (\<lambda>e. fst e \<noteq> k) m = m" if "k \<le> a"
    using that Cons.prems e by (intro filter_True) (auto simp: ord_inv_Cons)
  then show ?case using Cons e by (auto simp: ord_inv_Cons)
qed simp

lemma distinct_snd_unique:
  "distinct (map snd m) \<Longrightarrow> (r, k) \<in> set m \<Longrightarrow> (r', k) \<in> set m \<Longrightarrow> r = r'"
  by (fastforce simp: distinct_map inj_on_def)

lemma distinct_snd_erase:
  "ord_inv m \<Longrightarrow> distinct (map snd m) \<Longrightarrow> distinct (map snd (ord_erase k m))"
  by (simp add: ord_erase_filter distinct_map_filter)

lemma distinct_snd_set:
  "distinct (map snd m) \<Longrightarrow> v \<notin> snd ` set m \<Longrightarrow> distinct (map snd (ord_set k v m))"
proof (induction m)
  case (Cons e m)
  obtain a b where e: "e = (a, b)" by (cases e)
  have "b \<notin> snd ` set (ord_set k v m)"
    using Cons.prems e set_ord_set_subset[of k v m] by force
  then show ?case using Cons e by auto
qed simp

lemma promises_inv_connection [simp]: "promises_inv (p\<lparr>connection := c\<rparr>) = promises_inv p"
  by (simp add: promises_inv_def)

lemma promises_inv_waiting [simp]: "promises_inv (p\<lparr>waiting_messages := ms\<rparr>) = promises_inv p"
  by (simp add: promises_inv_def)

text \<open>Keeping a promise: its round is no longer waited for, the other promises are untouched.\<close>

lemma promises_inv_fulfil:
  assumes "promises_inv p" "ord_find r (waiting_rounds p) = Some k"
  shows "promises_inv (p\<lparr>shared := (shared p)[k := s], waiting_rounds := ord_erase r (waiting_rounds p)\<rparr>)"
proof -
  have oi: "ord_inv (waiting_rounds p)" and d: "distinct (map snd (waiting_rounds p))"
    using assms(1) by (auto simp: promises_inv_def)
  have rk: "(r, k) \<in> set (waiting_rounds p)" using assms(2) oi by (simp add: ord_find_in_set)
  have "k' \<noteq> k" if "(r', k') \<in> set (ord_erase r (waiting_rounds p))" for r' k'
  proof
    assume "k' = k"
    then have "(r', k) \<in> set (waiting_rounds p)" "r' \<noteq> r"
      using that oi by (auto simp: ord_erase_filter)
    then show False using rk distinct_snd_unique[OF d] by blast
  qed
  then show ?thesis
    using assms oi d set_ord_erase_subset[of r "waiting_rounds p"]
    by (fastforce simp: promises_inv_def ord_inv_erase distinct_snd_erase)
qed

lemma process_body_promises: "promises_inv p \<Longrightarrow> process_body m p = Inr p' \<Longrightarrow> promises_inv p'"
  using promises_inv_fulfil
  by (fastforce simp: process_body_def bnd_eq_Inr split: if_splits option.splits)

lemma GetRoundMessageAsync_promises:
  assumes "promises_inv p" "GetRoundMessageAsync r p = (n, p')"
  shows "promises_inv p'" "ord_find r (waiting_rounds p') = Some n" "shared p' ! n = Pending"
    "connection p' = connection p"
proof -
  have oi: "ord_inv (waiting_rounds p)" using assms(1) by (simp add: promises_inv_def)
  define fs where "fs = abandon (ord_find r (waiting_rounds p)) (shared p)"
  have len: "length fs = length (shared p)"
    by (auto simp: fs_def abandon_def split: option.splits)
  have n: "n = length fs" and p': "p' = p\<lparr>shared := fs @ [Pending],
      waiting_rounds := ord_set r n (waiting_rounds p)\<rparr>"
    using assms(2) len by (auto simp: GetRoundMessageAsync_def fs_def Let_def)
  show "ord_find r (waiting_rounds p') = Some n" "shared p' ! n = Pending"
      "connection p' = connection p"
    using p' n oi by (simp_all add: ord_find_set)
  have old: "k < length (shared p) \<and> shared p ! k = Pending" if "(r', k) \<in> set (waiting_rounds p)" for r' k
    using assms(1) that by (auto simp: promises_inv_def)
  have keep: "k < length fs \<and> fs ! k = Pending"
    if "(r', k) \<in> set (waiting_rounds p)" "r' \<noteq> r" for r' k
  proof (cases "ord_find r (waiting_rounds p)")
    case (Some j)
    then have "(r, j) \<in> set (waiting_rounds p)" using oi by (simp add: ord_find_in_set)
    then have "j \<noteq> k"
      using that assms(1) distinct_snd_unique[of "waiting_rounds p"]
      by (auto simp: promises_inv_def)
    then show ?thesis using old[OF that(1)] Some len by (auto simp: fs_def abandon_def)
  qed (use old[OF that(1)] in \<open>simp add: fs_def abandon_def\<close>)
  have "n \<notin> snd ` set (waiting_rounds p)" using old len n by force
  then have "distinct (map snd (ord_set r n (waiting_rounds p)))"
    using assms(1) by (intro distinct_snd_set) (auto simp: promises_inv_def)
  moreover have "k < length (fs @ [Pending]) \<and> (fs @ [Pending]) ! k = Pending"
    if "(r', k) \<in> set (ord_set r n (waiting_rounds p))" for r' k
  proof (cases "r' = r")
    case True
    have "ord_inv (ord_set r n (waiting_rounds p))" using oi by (rule ord_inv_set)
    then have "k = n" using that True oi by (auto simp: ord_find_in_set ord_find_set)
    then show ?thesis using n by simp
  next
    case False
    then have "(r', k) \<in> set (waiting_rounds p)"
      using that set_ord_set_subset[of r n "waiting_rounds p"] by auto
    then show ?thesis using keep[of r' k] False by (simp add: nth_append)
  qed
  ultimately show "promises_inv p'"
    using p' oi by (auto simp: promises_inv_def ord_inv_set)
qed

section \<open>The callback recursion is a loop over the waiting messages\<close>

lemma process_body_upd_connection:
  "process_body m (p\<lparr>connection := c\<rparr>) = bnd (process_body m p) (\<lambda>p. Inr (p\<lparr>connection := c\<rparr>))"
proof (cases "json_get ''round'' (content m)")
  case (Inr j)
  then show ?thesis
    by (cases "as_int j") (simp_all add: process_body_def split: option.split)
qed (simp add: process_body_def)

lemma WaitForMessageAsync_loop:
  assumes "connection p = Some c"
  shows "WaitForMessageAsync p = bnd (foldM process_body (messages c) p)
    (\<lambda>p. Inr (p\<lparr>connection := Some (c\<lparr>messages := [], observers := observers c @ [OnRound]\<rparr>)\<rparr>))"
  using assms
proof (induction "messages c" arbitrary: c p)
  case Nil
  then show ?case
    by (subst WaitForMessageAsync.simps) (auto simp: ReadMessageAsync_def)
next
  case (Cons m ms)
  define c1 where "c1 = c\<lparr>messages := ms\<rparr>"
  have c1: "ms = messages c1" "observers c1 = observers c" by (simp_all add: c1_def)
  have "WaitForMessageAsync p = bnd (process_body m (p\<lparr>connection := Some c1\<rparr>)) WaitForMessageAsync"
    using Cons(2,3)
    by (subst WaitForMessageAsync.simps) (auto simp: ReadMessageAsync_def c1_def split: list.splits)
  also have "\<dots> = bnd (process_body m p) (\<lambda>p. WaitForMessageAsync (p\<lparr>connection := Some c1\<rparr>))"
    by (simp add: process_body_upd_connection bnd_assoc)
  also have "\<dots> = bnd (process_body m p) (\<lambda>p. bnd (foldM process_body ms p)
      (\<lambda>p. Inr (p\<lparr>connection := Some (c\<lparr>messages := [], observers := observers c @ [OnRound]\<rparr>)\<rparr>)))"
  proof (intro bnd_cong refl)
    fix p1
    have F: "foldM process_body ms (p1\<lparr>connection := x\<rparr>) =
        bnd (foldM process_body ms p1) (\<lambda>p. Inr (p\<lparr>connection := x\<rparr>))" for x
    proof (induction ms arbitrary: p1)
      case (Cons a ms)
      then show ?case
        by (cases "process_body a p1") (simp_all add: process_body_upd_connection)
    qed simp
    show "WaitForMessageAsync (p1\<lparr>connection := Some c1\<rparr>) = bnd (foldM process_body ms p1)
        (\<lambda>p. Inr (p\<lparr>connection := Some (c\<lparr>messages := [], observers := observers c @ [OnRound]\<rparr>)\<rparr>))"
      using Cons(1)[OF c1(1), of "p1\<lparr>connection := Some c1\<rparr>"]
      by (simp add: F bnd_assoc c1_def)
  qed
  finally show ?case by (simp add: bnd_assoc flip: Cons(2))
qed

lemma foldM_process_body_promises:
  "promises_inv p \<Longrightarrow> foldM process_body ms p = Inr p' \<Longrightarrow> promises_inv p'"
  by (rule foldM_invariant) (auto intro: process_body_promises)

lemma foldM_process_body_connection:
  "foldM process_body ms p = Inr p' \<Longrightarrow> connection p' = connection p"
  by (rule foldM_invariant[of process_body ms p]) (auto dest: process_body_connection)

text \<open>Constructing a player drains the connection and registers exactly one observer.\<close>

lemma WaitForMessageAsync_inv:
  assumes "promises_inv p" "connection p = Some c" "observers c = []"
    "WaitForMessageAsync p = Inr p'"
  shows "player_inv p'"
  using assms
  by (auto simp: WaitForMessageAsync_loop bnd_eq_Inr player_inv_def dest: foldM_process_body_promises)

section \<open>Messages and rounds\<close>

text \<open>The round a message is for, if it names one.\<close>

definition msg_round :: "message \<Rightarrow> int option" where
  "msg_round m = (if has_member ''round'' (content m) then
     (case json_get ''round'' (content m) of
        Inr j \<Rightarrow> (case as_int j of Inr r \<Rightarrow> Some r | Inl e \<Rightarrow> None)
      | Inl e \<Rightarrow> None)
   else None)"

text \<open>A message is acceptable unless it has a round that is not a number.\<close>

definition acceptable :: "message \<Rightarrow> bool" where
  "acceptable m = (has_member ''round'' (content m) \<longrightarrow> msg_round m \<noteq> None)"

lemma process_body_cases:
  "acceptable m \<Longrightarrow> process_body m p = (case msg_round m of
     None \<Rightarrow> Inr p
   | Some r \<Rightarrow>
      (case ord_find r (waiting_rounds p) of
         Some k \<Rightarrow> Inr (p\<lparr>shared := (shared p)[k := Ready m],
                          waiting_rounds := ord_erase r (waiting_rounds p)\<rparr>)
       | None \<Rightarrow> Inr (p\<lparr>waiting_messages := waiting_messages p @ [m]\<rparr>)))"
  by (auto simp: process_body_def acceptable_def msg_round_def split: sum.splits option.splits if_splits)

lemma process_body_defined: "(\<exists>p'. process_body m p = Inr p') \<longleftrightarrow> acceptable m"
proof
  assume "acceptable m"
  then show "\<exists>p'. process_body m p = Inr p'"
    by (auto simp: process_body_cases split: option.splits)
next
  assume "\<exists>p'. process_body m p = Inr p'"
  then show "acceptable m"
    by (auto simp: process_body_def acceptable_def msg_round_def bnd_eq_Inr split: if_splits)
qed

lemma foldM_process_body_defined:
  "(\<exists>p'. foldM process_body ms p = Inr p') \<longleftrightarrow> (\<forall>m \<in> set ms. acceptable m)"
proof (induction ms arbitrary: p)
  case (Cons m ms)
  then show ?case
    using process_body_defined[of m p] by (auto simp: bnd_eq_Inr)
qed simp

text \<open>
  The promise of round \<open>r\<close> is kept by the first message of that round, whatever else arrives.
\<close>

lemma foldM_process_body_unwaited:
  assumes "promises_inv p" "n \<notin> snd ` set (waiting_rounds p)" "foldM process_body ms p = Inr p'"
  shows "shared p' ! n = shared p ! n \<and> n \<notin> snd ` set (waiting_rounds p')"
  using assms
proof (induction ms arbitrary: p)
  case (Cons m ms)
  obtain p1 where p1: "process_body m p = Inr p1" "foldM process_body ms p1 = Inr p'"
    using Cons.prems(3) by (auto simp: bnd_eq_Inr)
  have acc: "acceptable m" using p1(1) process_body_defined by blast
  have oi: "ord_inv (waiting_rounds p)" using Cons.prems(1) by (simp add: promises_inv_def)
  have "shared p1 ! n = shared p ! n \<and> n \<notin> snd ` set (waiting_rounds p1)"
  proof (cases "msg_round m")
    case (Some r)
    show ?thesis
    proof (cases "ord_find r (waiting_rounds p)")
      case s: (Some k)
      then have "(r, k) \<in> set (waiting_rounds p)" using oi by (simp add: ord_find_in_set)
      then have "k \<noteq> n" using Cons.prems(2) by force
      then show ?thesis
        using p1(1) Some s acc Cons.prems(2) set_ord_erase_subset[of r "waiting_rounds p"]
        by (auto simp: process_body_cases)
    qed (use p1(1) Some acc Cons.prems(2) in \<open>auto simp: process_body_cases\<close>)
  qed (use p1(1) acc Cons.prems(2) in \<open>auto simp: process_body_cases\<close>)
  then show ?case
    using Cons.IH[OF process_body_promises[OF Cons.prems(1) p1(1)] _ p1(2)] by auto
qed auto

lemma foldM_process_body_future:
  assumes "promises_inv p" "ord_find r (waiting_rounds p) = Some n"
    "foldM process_body ms p = Inr p'"
  shows "shared p' ! n =
    (case find (\<lambda>m. msg_round m = Some r) ms of Some m \<Rightarrow> Ready m | None \<Rightarrow> Pending)"
  using assms
proof (induction ms arbitrary: p)
  case Nil
  then have "(r, n) \<in> set (waiting_rounds p)" by (simp add: ord_find_in_set promises_inv_def)
  then show ?case using Nil by (auto simp: promises_inv_def)
next
  case (Cons m ms)
  obtain p1 where p1: "process_body m p = Inr p1" "foldM process_body ms p1 = Inr p'"
    using Cons.prems(3) by (auto simp: bnd_eq_Inr)
  have acc: "acceptable m" using p1(1) process_body_defined by blast
  have oi: "ord_inv (waiting_rounds p)" using Cons.prems(1) by (simp add: promises_inv_def)
  have P1: "promises_inv p1" using process_body_promises[OF Cons.prems(1) p1(1)] .
  show ?case
  proof (cases "msg_round m = Some r")
    case True
    have rn: "(r, n) \<in> set (waiting_rounds p)" using Cons.prems(2) oi by (simp add: ord_find_in_set)
    then have n: "n < length (shared p)" using Cons.prems(1) by (auto simp: promises_inv_def)
    have p1': "p1 = p\<lparr>shared := (shared p)[n := Ready m], waiting_rounds := ord_erase r (waiting_rounds p)\<rparr>"
      using p1(1) acc True Cons.prems(2) by (simp add: process_body_cases)
    have "n \<notin> snd ` set (waiting_rounds p1)"
    proof
      assume "n \<in> snd ` set (waiting_rounds p1)"
      then obtain r' where "(r', n) \<in> set (waiting_rounds p)" "r' \<noteq> r"
        using p1' oi by (auto simp: ord_erase_filter)
      then show False
        using rn Cons.prems(1) distinct_snd_unique[of "waiting_rounds p"]
        by (auto simp: promises_inv_def)
    qed
    then show ?thesis
      using foldM_process_body_unwaited[OF P1 _ p1(2)] True p1' n by simp
  next
    case False
    have "ord_find r (waiting_rounds p1) = Some n"
      using p1(1) acc False Cons.prems(2) oi
      by (auto simp: process_body_cases ord_find_erase split: option.splits)
    then show ?thesis using Cons.IH[OF P1 _ p1(2)] False by simp
  qed
qed


section \<open>A line arriving at a connected player\<close>

lemma getline_line [simp]: "LF \<notin> set line \<Longrightarrow> getline (line @ LF # rest) = (line, rest)"
  by (auto simp: getline_def takeWhile_append dropWhile_append)

lemma player_HandleRead_line:
  assumes inv: "player_inv p" and c: "connection p = Some c"
    and buf: "stream_buffer c = line @ LF # rest" "LF \<notin> set line"
    and m: "message_of_string io line = Inr m"
  shows "player_HandleRead io False p = bnd (process_body m p) (\<lambda>p.
    Inr (p\<lparr>connection := Some (c\<lparr>stream_buffer := rest, reading := should_continue_reading c\<rparr>)\<rparr>))"
proof -
  define c1 where "c1 = c\<lparr>reading := False, stream_buffer := rest\<rparr>"
  have q: "messages c1 = []" "observers c1 = [OnRound]"
    using inv c by (auto simp: player_inv_def c1_def)
  define p1 where "p1 = p\<lparr>connection := Some (c1\<lparr>observers := []\<rparr>)\<rparr>"
  have pm: "player_ProcessMessage m p1 = bnd (process_body m p) (\<lambda>p. Inr (p\<lparr>connection := Some c1\<rparr>))"
  proof (cases "process_body m p")
    case (Inr p2)
    have e: "WaitForMessageAsync (p2\<lparr>connection := Some (c1\<lparr>observers := []\<rparr>)\<rparr>) =
        Inr (p2\<lparr>connection := Some c1\<rparr>)"
      using q by (simp add: WaitForMessageAsync_loop)
    show ?thesis
      using Inr e by (simp add: player_ProcessMessage_def p1_def process_body_upd_connection)
  qed (simp add: player_ProcessMessage_def p1_def process_body_upd_connection)
  have "player_HandleRead io False p = bnd (player_ProcessMessage m p1) (\<lambda>p.
      Inr (if should_continue_reading (the (connection p))
           then p\<lparr>connection := map_option ReadMessage (connection p)\<rparr> else p))"
    using c buf m q
    by (simp add: player_HandleRead_def HandleRead_def Let_def ProcessMessage_def c1_def p1_def
        split: list.splits)
  then show ?thesis
    by (cases "process_body m p") (auto simp: pm c1_def ReadMessage_def)
qed

lemma player_HandleRead_error:
  "connection p = Some c \<Longrightarrow> player_HandleRead io True p =
     Inr (p\<lparr>connection := Some (c\<lparr>reading := False, disconnected := True\<rparr>)\<rparr>)"
  by (simp add: player_HandleRead_def HandleRead_def)

text \<open>A line that is not JSON is an uncaught exception of the handler.\<close>

lemma player_HandleRead_malformed:
  assumes "connection p = Some c" "stream_buffer c = line @ LF # rest" "LF \<notin> set line"
    "message_of_string io line = Inl e"
  shows "player_HandleRead io False p = Inl e"
  using assms by (simp add: player_HandleRead_def HandleRead_def Let_def)

end
