(* ===== verification/RoundMatch.thy ===== *)
theory RoundMatch
  imports RoundPlayer
begin

text \<open>
  Matches (games/match.h, match.cpp) and round based matches (games/round_based/match.h,
  match.cpp).  \<open>Match\<close> keeps the logger, \<open>RoundBasedMatch\<close> the players; a concrete game
  extends the record as the class extends the base class.

  A logger is the list of the messages its \<open>Log\<close> has published (a null pointer is \<open>None\<close>);
  \<open>RedisGameLogger::Log\<close> (theory \<open>RedisClient\<close>) throws \<open>redis_error\<close> when its client is not
  connected, so \<open>Log\<close> takes whether it is.

  While a match waits, the network threads deliver input to the players.  The model gets this
  as a schedule: \<open>sched k\<close> is the input handled just before the \<open>k\<close>-th step of the wait.
\<close>

section \<open>State\<close>

record round_match =
  num_players :: int
  players :: "round_player list"
  logger :: "message list option"

section \<open>Operations\<close>

definition AddLogger :: "message list \<Rightarrow> 'a round_match_scheme \<Rightarrow> 'a round_match_scheme" where
  "AddLogger l M = M\<lparr>logger := Some l\<rparr>"

definition Log :: "bool \<Rightarrow> message \<Rightarrow> 'a round_match_scheme \<Rightarrow> 'a round_match_scheme result" where
  "Log ok m M = (case logger M of
     None \<Rightarrow> Inr M
   | Some l \<Rightarrow> if ok then Inr (M\<lparr>logger := Some (l @ [m])\<rparr>) else Inl (RedisError ''Not connected''))"

definition RoundBasedMatch :: "int \<Rightarrow> round_match" where
  "RoundBasedMatch n = \<lparr>num_players = n, players = [], logger = None\<rparr>"

definition AddPlayer ::
  "callback tcp_connection option \<Rightarrow> 'a round_match_scheme \<Rightarrow> 'a round_match_scheme result" where
  "AddPlayer c M = bnd (RoundBasedPlayer c) (\<lambda>p. Inr (M\<lparr>players := players M @ [p]\<rparr>))"

text \<open>The comparison is between a \<open>size_t\<close> and an \<open>int\<close>, which is converted.\<close>

definition is_full :: "'a round_match_scheme \<Rightarrow> bool" where
  "is_full M = (int (length (players M)) = num_players M mod 2 ^ 64)"

definition Broadcast :: "stdio \<Rightarrow> (nat \<Rightarrow> bool) \<Rightarrow> message \<Rightarrow> 'a round_match_scheme
    \<Rightarrow> 'a round_match_scheme result" where
  "Broadcast io ok m M =
     bnd (foldM (\<lambda>i ps. bnd (player_Write io (ok i) m (ps ! i)) (\<lambda>p. Inr (ps[i := p])))
            [0..<length (players M)] (players M))
         (\<lambda>ps. Inr (M\<lparr>players := ps\<rparr>))"

section \<open>Network input\<close>

datatype net_input = NetLine string | NetError

definition receive_input :: "stdio \<Rightarrow> net_input \<Rightarrow> round_player \<Rightarrow> round_player result" where
  "receive_input io e p = (case connection p of
     None \<Rightarrow> Inr p
   | Some c \<Rightarrow>
      if \<not> reading c then Inr p
      else (case e of
              NetLine s \<Rightarrow> player_HandleRead io False
                 (p\<lparr>connection := Some (receive_bytes (s @ [LF]) c)\<rparr>)
            | NetError \<Rightarrow> player_HandleRead io True p))"

definition apply_event ::
  "stdio \<Rightarrow> nat \<times> net_input \<Rightarrow> round_player list \<Rightarrow> round_player list result" where
  "apply_event io e ps =
     (if fst e < length ps
      then bnd (receive_input io (snd e) (ps ! fst e)) (\<lambda>p. Inr (ps[fst e := p]))
      else Inr ps)"

text \<open>
  \<open>WaitForMessages\<close>: a future for the round from every player, in order, then one timed wait
  for each.  A wait that finds its future pending has reached the timeout.
\<close>

definition register_step :: "stdio \<Rightarrow> int \<Rightarrow> (nat \<Rightarrow> (nat \<times> net_input) list) \<Rightarrow> nat
    \<Rightarrow> round_player list \<times> nat list \<Rightarrow> (round_player list \<times> nat list) result" where
  "register_step io r sched i = (\<lambda>(ps, fs).
     bnd (foldM (apply_event io) (sched i) ps) (\<lambda>ps.
     let (k, p) = GetRoundMessageAsync r (ps ! i) in Inr (ps[i := p], fs @ [k])))"

definition await_step :: "stdio \<Rightarrow> nat list \<Rightarrow> (nat \<Rightarrow> (nat \<times> net_input) list) \<Rightarrow> nat
    \<Rightarrow> round_player list \<times> message option list
    \<Rightarrow> (round_player list \<times> message option list) result" where
  "await_step io fs sched i = (\<lambda>(ps, ms).
     bnd (foldM (apply_event io) (sched (length fs + i)) ps) (\<lambda>ps.
     case shared (ps ! i) ! (fs ! i) of
       Pending \<Rightarrow> Inr (ps, ms @ [None])
     | Ready m \<Rightarrow> Inr (ps, ms @ [Some m])
     | Broken \<Rightarrow> Inl FutureError))"

definition WaitForMessages :: "stdio \<Rightarrow> int \<Rightarrow> (nat \<Rightarrow> (nat \<times> net_input) list)
    \<Rightarrow> 'a round_match_scheme \<Rightarrow> (message option list \<times> 'a round_match_scheme) result" where
  "WaitForMessages io r sched M =
     (let n = length (players M) in
      bnd (foldM (register_step io r sched) [0..<n] (players M, [])) (\<lambda>(ps, fs).
      bnd (foldM (await_step io fs sched) [0..<n] (ps, [])) (\<lambda>(ps, ms).
      Inr (ms, M\<lparr>players := ps\<rparr>))))"

section \<open>What a player hears\<close>

text \<open>The input of one player, and the messages in it: reading stops at an error.\<close>

definition input_of :: "nat \<Rightarrow> (nat \<times> net_input) list \<Rightarrow> net_input list" where
  "input_of i es = map snd (filter (\<lambda>e. fst e = i) es)"

fun heard :: "stdio \<Rightarrow> net_input list \<Rightarrow> message list" where
  "heard io [] = []"
| "heard io (NetError # es) = []"
| "heard io (NetLine s # es) = (case message_of_string io s of
     Inr m \<Rightarrow> m # heard io es | Inl e \<Rightarrow> heard io es)"

text \<open>A line the server survives: one line of JSON whose round, if any, is a number.\<close>

definition good_line :: "stdio \<Rightarrow> string \<Rightarrow> bool" where
  "good_line io s = (LF \<notin> set s \<and>
     (case message_of_string io s of Inr m \<Rightarrow> acceptable m | Inl e \<Rightarrow> False))"

definition good_input :: "stdio \<Rightarrow> net_input list \<Rightarrow> bool" where
  "good_input io es = (\<forall>e \<in> set es. case e of NetLine s \<Rightarrow> good_line io s | NetError \<Rightarrow> True)"

definition good_sched :: "stdio \<Rightarrow> (nat \<Rightarrow> (nat \<times> net_input) list) \<Rightarrow> bool" where
  "good_sched io sched = (\<forall>k. good_input io (map snd (sched k)))"

text \<open>A player in play: connected, drained, and listening unless the peer has gone.\<close>

definition listening :: "round_player \<Rightarrow> bool" where
  "listening p = (case connection p of None \<Rightarrow> False | Some c \<Rightarrow> reading c)"

definition in_play :: "round_player \<Rightarrow> bool" where
  "in_play p = (player_inv p \<and> (case connection p of None \<Rightarrow> False
     | Some c \<Rightarrow> stream_buffer c = [] \<and> should_continue_reading c \<and> (reading c \<longleftrightarrow> \<not> disconnected c)))"

lemma same_connection [simp]: "connection p = Some c \<Longrightarrow> p\<lparr>connection := Some c\<rparr> = p"
  by (cases p) simp

lemma input_of_simps [simp]:
  "input_of i [] = []"
  "input_of i ((j, e) # es) = (if j = i then e # input_of i es else input_of i es)"
  "input_of i (es @ es') = input_of i es @ input_of i es'"
  by (simp_all add: input_of_def)

lemma good_input_simps [simp]:
  "good_input io []"
  "good_input io (e # es) \<longleftrightarrow> good_input io [e] \<and> good_input io es"
  "good_input io (es @ es') \<longleftrightarrow> good_input io es \<and> good_input io es'"
  by (auto simp: good_input_def)

lemma good_input_of: "good_input io (map snd es) \<Longrightarrow> good_input io (input_of i es)"
  by (auto simp: good_input_def input_of_def)

lemma foldM_process_body_upd_connection:
  "foldM process_body ms (p\<lparr>connection := x\<rparr>) =
     bnd (foldM process_body ms p) (\<lambda>p. Inr (p\<lparr>connection := x\<rparr>))"
proof (induction ms arbitrary: p)
  case (Cons a ms)
  then show ?case by (cases "process_body a p") (simp_all add: process_body_upd_connection)
qed simp

text \<open>One input: the player processes the message in it and stays in play.\<close>

lemma receive_input_step:
  assumes "in_play p" "good_input io [e]"
  obtains p1 c where "foldM process_body (if listening p then heard io [e] else []) p = Inr p1"
    "receive_input io e p = Inr (p1\<lparr>connection := Some c\<rparr>)" "in_play (p1\<lparr>connection := Some c\<rparr>)"
    "reading c \<longleftrightarrow> listening p \<and> e \<noteq> NetError"
proof -
  obtain c where c: "connection p = Some c" "stream_buffer c = []" "should_continue_reading c"
      "reading c \<longleftrightarrow> \<not> disconnected c" "player_inv p"
    using assms(1) by (auto simp: in_play_def split: option.splits)
  consider "\<not> reading c" | "reading c" "e = NetError" | s where "reading c" "e = NetLine s"
    by (cases e) auto
  then show ?thesis
  proof cases
    case 1
    then show ?thesis
      using that[of p c] c assms(1) by (simp add: listening_def receive_input_def)
  next
    case 2
    define c' where "c' = c\<lparr>reading := False, disconnected := True\<rparr>"
    have "in_play (p\<lparr>connection := Some c'\<rparr>)"
      using c by (simp add: in_play_def player_inv_def c'_def)
    then show ?thesis
      using that[of p c'] 2 c
      by (simp add: receive_input_def player_HandleRead_error listening_def c'_def)
  next
    case 3
    then obtain m where m: "message_of_string io s = Inr m" "acceptable m" "LF \<notin> set s"
      using assms(2) by (auto simp: good_input_def good_line_def split: sum.splits)
    obtain p1 where p1: "process_body m p = Inr p1" using m(2) process_body_defined by blast
    define q where "q = p\<lparr>connection := Some (receive_bytes (s @ [LF]) c)\<rparr>"
    have q: "player_inv q" "connection q = Some (receive_bytes (s @ [LF]) c)"
      using c by (auto simp: q_def player_inv_def receive_bytes_def)
    have cc: "c\<lparr>stream_buffer := [], reading := True\<rparr> = c" using c 3 by (cases c) simp
    have "player_HandleRead io False q = bnd (process_body m q) (\<lambda>p. Inr (p\<lparr>connection := Some c\<rparr>))"
      using player_HandleRead_line[OF q, of s "[]", OF _ m(3) m(1)] c cc
      by (simp add: receive_bytes_def)
    then have "receive_input io e p = Inr (p1\<lparr>connection := Some c\<rparr>)"
      using 3 c p1 by (simp add: receive_input_def q_def process_body_upd_connection)
    moreover have "in_play (p1\<lparr>connection := Some c\<rparr>)"
      using process_body_promises[OF _ p1] c by (simp add: in_play_def player_inv_def)
    ultimately show ?thesis
      using that[of p1 c] 3 m p1 c by (simp add: listening_def)
  qed
qed

lemma heard_append:
  "heard io (es @ es') = heard io es @ (if NetError \<in> set es then [] else heard io es')"
  by (induction io es rule: heard.induct) (auto split: sum.split)

lemma receive_inputs:
  assumes "in_play p" "good_input io es"
  shows "\<exists>p1 c. foldM process_body (if listening p then heard io es else []) p = Inr p1 \<and>
    foldM (receive_input io) es p = Inr (p1\<lparr>connection := Some c\<rparr>) \<and>
    in_play (p1\<lparr>connection := Some c\<rparr>) \<and> (reading c \<longleftrightarrow> listening p \<and> NetError \<notin> set es)"
  using assms
proof (induction es arbitrary: p)
  case Nil
  then obtain c where "connection p = Some c" by (auto simp: in_play_def split: option.splits)
  then show ?case using Nil by (auto simp: listening_def intro!: exI[of _ p] exI[of _ c])
next
  case (Cons e es)
  have g: "good_input io [e]" "good_input io es"
    using Cons.prems(2) good_input_simps(2)[of io e es] by blast+
  obtain p1 c where 1: "foldM process_body (if listening p then heard io [e] else []) p = Inr p1"
    "receive_input io e p = Inr (p1\<lparr>connection := Some c\<rparr>)" "in_play (p1\<lparr>connection := Some c\<rparr>)"
    "reading c \<longleftrightarrow> listening p \<and> e \<noteq> NetError"
    using receive_input_step[OF Cons.prems(1) g(1)] by metis
  have l1: "listening (p1\<lparr>connection := Some c\<rparr>) = reading c" by (simp add: listening_def)
  obtain p2 c2 where 2: "foldM process_body (if reading c then heard io es else [])
      (p1\<lparr>connection := Some c\<rparr>) = Inr p2"
    "foldM (receive_input io) es (p1\<lparr>connection := Some c\<rparr>) = Inr (p2\<lparr>connection := Some c2\<rparr>)"
    "in_play (p2\<lparr>connection := Some c2\<rparr>)"
    "reading c2 \<longleftrightarrow> reading c \<and> NetError \<notin> set es"
    using Cons.IH[OF 1(3) g(2)] l1 by auto
  obtain p3 where 3: "foldM process_body (if reading c then heard io es else []) p1 = Inr p3"
    "p2 = p3\<lparr>connection := Some c\<rparr>"
    using 2(1) by (auto simp: foldM_process_body_upd_connection bnd_eq_Inr)
  have "foldM process_body (if listening p then heard io (e # es) else []) p = Inr p3"
    using 1(1,4) 3(1) heard_append[of io "[e]" es]
    by (auto simp: foldM_append split: if_splits)
  then show ?case using 1 2 3 by (intro exI[of _ p3] exI[of _ c2]) auto
qed

text \<open>The inputs of a whole table of players act on each player separately.\<close>

lemma apply_events_split:
  assumes "\<And>j. j < length ps \<Longrightarrow> \<exists>p. foldM (receive_input io) (input_of j es) (ps ! j) = Inr p"
  shows "\<exists>ps'. foldM (apply_event io) es ps = Inr ps' \<and> length ps' = length ps \<and>
    (\<forall>j < length ps. foldM (receive_input io) (input_of j es) (ps ! j) = Inr (ps' ! j))"
  using assms
proof (induction es arbitrary: ps)
  case (Cons x es)
  obtain i e where x: "x = (i, e)" by (cases x)
  show ?case
  proof (cases "i < length ps")
    case True
    obtain p where p: "receive_input io e (ps ! i) = Inr p"
      using Cons.prems[OF True] x by (auto simp: bnd_eq_Inr)
    have "\<exists>q. foldM (receive_input io) (input_of j es) (ps[i := p] ! j) = Inr q"
      if "j < length (ps[i := p])" for j
      using Cons.prems[of j] that x p by (cases "j = i") (auto simp: nth_list_update)
    from Cons.IH[OF this] show ?thesis
      using x p True by (auto simp: apply_event_def nth_list_update split: if_splits)
  next
    case False
    have "\<exists>q. foldM (receive_input io) (input_of j es) (ps ! j) = Inr q" if "j < length ps" for j
      using Cons.prems[OF that] that False x by auto
    from Cons.IH[OF this] show ?thesis using x False by (auto simp: apply_event_def)
  qed
qed simp

section \<open>The result of a wait\<close>

text \<open>
  The messages player \<open>j\<close> of \<open>n\<close> can answer with: heard after its future was made (step \<open>j\<close>)
  and before its timed wait ends (step \<open>n + j\<close>), unless the peer left earlier.
\<close>

definition heard_until :: "stdio \<Rightarrow> (nat \<Rightarrow> (nat \<times> net_input) list) \<Rightarrow> nat \<Rightarrow> nat \<Rightarrow> round_player
    \<Rightarrow> message list" where
  "heard_until io sched j k p =
     (if listening p \<and> NetError \<notin> set (input_of j (concat (map sched [0..<Suc j])))
      then heard io (input_of j (concat (map sched [Suc j..<k]))) else [])"

text \<open>A player with a future for round \<open>r\<close>, made before the messages \<open>ms\<close> arrived.\<close>

definition tracked :: "int \<Rightarrow> nat \<Rightarrow> message list \<Rightarrow> round_player \<Rightarrow> bool" where
  "tracked r k ms p = (in_play p \<and> (\<exists>q. promises_inv q \<and> ord_find r (waiting_rounds q) = Some k \<and>
     foldM process_body ms q = Inr p))"

lemma tracked_future:
  "tracked r k ms p \<Longrightarrow> shared p ! k =
     (case find (\<lambda>m. msg_round m = Some r) ms of Some m \<Rightarrow> Ready m | None \<Rightarrow> Pending)"
  by (auto simp: tracked_def intro: foldM_process_body_future)

lemma tracked_register:
  assumes "in_play p" "GetRoundMessageAsync r p = (k, p')"
  shows "tracked r k [] p'" "listening p' = listening p"
proof -
  have pi: "promises_inv p" using assms(1) by (simp add: in_play_def player_inv_def)
  note G = GetRoundMessageAsync_promises[OF pi assms(2)]
  show "listening p' = listening p" using G(4) by (simp add: listening_def)
  have "in_play p'" using assms(1) G(1,4) by (auto simp: in_play_def player_inv_def split: option.splits)
  then show "tracked r k [] p'" using G by (auto simp: tracked_def)
qed

lemma in_play_inputs:
  assumes "in_play p" "good_input io es"
  shows "\<exists>p'. foldM (receive_input io) es p = Inr p' \<and> in_play p' \<and>
    (listening p' \<longleftrightarrow> listening p \<and> NetError \<notin> set es)"
  using receive_inputs[OF assms] by (fastforce simp: listening_def)

lemma tracked_inputs:
  assumes "tracked r k ms p" "good_input io es"
  shows "\<exists>p'. foldM (receive_input io) es p = Inr p' \<and>
    tracked r k (ms @ (if listening p then heard io es else [])) p' \<and>
    (listening p' \<longleftrightarrow> listening p \<and> NetError \<notin> set es)"
proof -
  obtain q where q: "promises_inv q" "ord_find r (waiting_rounds q) = Some k"
      "foldM process_body ms q = Inr p" "in_play p"
    using assms(1) by (auto simp: tracked_def)
  obtain p1 c where 1: "foldM process_body (if listening p then heard io es else []) p = Inr p1"
    "foldM (receive_input io) es p = Inr (p1\<lparr>connection := Some c\<rparr>)"
    "in_play (p1\<lparr>connection := Some c\<rparr>)" "reading c \<longleftrightarrow> listening p \<and> NetError \<notin> set es"
    using receive_inputs[OF q(4) assms(2)] by blast
  have "foldM process_body (ms @ (if listening p then heard io es else [])) (q\<lparr>connection := Some c\<rparr>) =
      Inr (p1\<lparr>connection := Some c\<rparr>)"
    using q(3) 1(1) by (simp only: foldM_process_body_upd_connection foldM_append bnd.simps)
  then have "tracked r k (ms @ (if listening p then heard io es else [])) (p1\<lparr>connection := Some c\<rparr>)"
    unfolding tracked_def using 1(3) q by (intro conjI exI[of _ "q\<lparr>connection := Some c\<rparr>"]) auto
  then show ?thesis using 1 by (auto simp: listening_def)
qed

text \<open>The table of players while step \<open>k\<close> is reached; the first \<open>i\<close> players are registered.\<close>

definition wait_inv where
  "wait_inv io r sched ps0 i k ps fs = (length ps = length ps0 \<and> length fs = i \<and>
     (\<forall>j < length ps0.
        (listening (ps ! j) \<longleftrightarrow> listening (ps0 ! j) \<and>
           NetError \<notin> set (input_of j (concat (map sched [0..<k])))) \<and>
        (if j < i then tracked r (fs ! j) (heard_until io sched j k (ps0 ! j)) (ps ! j)
         else in_play (ps ! j))))"

lemma input_of_upt_Suc:
  "a \<le> k \<Longrightarrow> input_of j (concat (map sched [a..<Suc k])) =
     input_of j (concat (map sched [a..<k])) @ input_of j (sched k)"
  by simp

lemma heard_until_Suc:
  assumes "j < k"
  shows "heard_until io sched j (Suc k) p = heard_until io sched j k p @
    (if listening p \<and> NetError \<notin> set (input_of j (concat (map sched [0..<k])))
     then heard io (input_of j (sched k)) else [])"
proof -
  have "[0..<k] = [0..<Suc j] @ [Suc j..<k]" using assms upt_add_eq_append[of 0 "Suc j" "k - Suc j"] by simp
  then have e: "concat (map sched [0..<k]) =
      concat (map sched [0..<Suc j]) @ concat (map sched [Suc j..<k])" by simp
  show ?thesis
    using assms by (auto simp: heard_until_def input_of_upt_Suc heard_append e simp del: upt_Suc)
qed

text \<open>The input before a step keeps the invariant.\<close>

lemma wait_inv_events:
  assumes "wait_inv io r sched ps0 i k ps fs" "good_sched io sched" "i \<le> k"
  shows "\<exists>ps'. foldM (apply_event io) (sched k) ps = Inr ps' \<and>
    wait_inv io r sched ps0 i (Suc k) ps' fs"
proof -
  have len: "length ps = length ps0" using assms(1) by (simp add: wait_inv_def)
  define es where "es j = input_of j (sched k)" for j
  have g: "good_input io (es j)" for j
    using assms(2) by (simp add: es_def good_sched_def good_input_of)
  have run: "\<exists>p'. foldM (receive_input io) (es j) (ps ! j) = Inr p' \<and>
      (listening p' \<longleftrightarrow> listening (ps ! j) \<and> NetError \<notin> set (es j)) \<and>
      (if j < i then tracked r (fs ! j) (heard_until io sched j (Suc k) (ps0 ! j)) p' else in_play p')"
    if "j < length ps0" for j
  proof (cases "j < i")
    case True
    then have t: "tracked r (fs ! j) (heard_until io sched j k (ps0 ! j)) (ps ! j)"
      using assms(1) that by (simp add: wait_inv_def)
    have "heard_until io sched j (Suc k) (ps0 ! j) = heard_until io sched j k (ps0 ! j) @
        (if listening (ps ! j) then heard io (es j) else [])"
      using heard_until_Suc[of j k] assms(1,3) that True by (simp add: wait_inv_def es_def)
    then show ?thesis using tracked_inputs[OF t g[of j]] True by auto
  next
    case False
    then have "in_play (ps ! j)" using assms(1) that by (simp add: wait_inv_def)
    then show ?thesis using in_play_inputs[OF _ g[of j]] False by auto
  qed
  obtain ps' where ps': "foldM (apply_event io) (sched k) ps = Inr ps'" "length ps' = length ps"
    "\<forall>j < length ps. foldM (receive_input io) (es j) (ps ! j) = Inr (ps' ! j)"
    using apply_events_split[of ps io "sched k"] run len unfolding es_def by metis
  have "wait_inv io r sched ps0 i (Suc k) ps' fs"
    unfolding wait_inv_def
  proof (intro conjI allI impI)
    fix j assume j: "j < length ps0"
    obtain p' where p': "foldM (receive_input io) (es j) (ps ! j) = Inr p'"
      "listening p' \<longleftrightarrow> listening (ps ! j) \<and> NetError \<notin> set (es j)"
      "if j < i then tracked r (fs ! j) (heard_until io sched j (Suc k) (ps0 ! j)) p' else in_play p'"
      using run[OF j] by blast
    have e: "ps' ! j = p'" using p'(1) ps'(3) j len by simp
    show "listening (ps' ! j) \<longleftrightarrow> listening (ps0 ! j) \<and>
        NetError \<notin> set (input_of j (concat (map sched [0..<Suc k])))"
      using e p'(2) assms(1) j by (auto simp: wait_inv_def es_def)
    show "if j < i then tracked r (fs ! j) (heard_until io sched j (Suc k) (ps0 ! j)) (ps' ! j)
        else in_play (ps' ! j)" using e p'(3) by simp
  qed (use ps' len assms(1) in \<open>auto simp: wait_inv_def\<close>)
  then show ?thesis using ps'(1) by blast
qed

lemma register_step_inv:
  assumes "wait_inv io r sched ps0 i i ps fs" "good_sched io sched" "i < length ps0"
  shows "returns (register_step io r sched i (ps, fs))
    (\<lambda>(ps, fs). wait_inv io r sched ps0 (Suc i) (Suc i) ps fs)"
proof -
  obtain ps' where ps': "foldM (apply_event io) (sched i) ps = Inr ps'"
    "wait_inv io r sched ps0 i (Suc i) ps' fs"
    using wait_inv_events[OF assms(1,2)] by auto
  obtain k p where kp: "GetRoundMessageAsync r (ps' ! i) = (k, p)" by fastforce
  have ip: "in_play (ps' ! i)" using ps'(2) assms(3) by (simp add: wait_inv_def)
  note T = tracked_register[OF ip kp]
  have "heard_until io sched i (Suc i) (ps0 ! i) = []" by (simp add: heard_until_def)
  then have "wait_inv io r sched ps0 (Suc i) (Suc i) (ps'[i := p]) (fs @ [k])"
    using ps'(2) assms(3) T
    by (auto simp: wait_inv_def nth_list_update nth_append less_Suc_eq simp del: upt_Suc)
  then show ?thesis using ps'(1) kp by (simp add: register_step_def)
qed

lemma await_step_inv:
  assumes "wait_inv io r sched ps0 n (n + i) ps fs" "good_sched io sched" "i < n" "n = length ps0"
    and ms: "length ms = i" "\<forall>j < i. ms ! j =
      find (\<lambda>m. msg_round m = Some r) (heard_until io sched j (Suc (n + j)) (ps0 ! j))"
  shows "returns (await_step io fs sched i (ps, ms))
    (\<lambda>(ps, ms). wait_inv io r sched ps0 n (Suc (n + i)) ps fs \<and> length ms = Suc i \<and>
      (\<forall>j < Suc i. ms ! j =
        find (\<lambda>m. msg_round m = Some r) (heard_until io sched j (Suc (n + j)) (ps0 ! j))))"
proof -
  obtain ps' where ps': "foldM (apply_event io) (sched (n + i)) ps = Inr ps'"
    "wait_inv io r sched ps0 n (Suc (n + i)) ps' fs"
    using wait_inv_events[OF assms(1,2)] by auto
  have lf: "length fs = n" using assms(1) by (simp add: wait_inv_def)
  have "tracked r (fs ! i) (heard_until io sched i (Suc (n + i)) (ps0 ! i)) (ps' ! i)"
    using ps'(2) assms(3,4) by (simp add: wait_inv_def)
  from tracked_future[OF this] show ?thesis
    using ps' ms lf
    by (auto simp: await_step_def nth_append less_Suc_eq simp del: upt_Suc split: option.splits)
qed

text \<open>
  From a table of players in play, and for any schedule of input the server survives, a wait
  ends normally; entry \<open>j\<close> of its result is the first message of round \<open>r\<close> from player \<open>j\<close> in
  its window, or nothing if there is none.
\<close>

lemma WaitForMessages_returns:
  assumes "\<forall>p \<in> set (players M). in_play p" "good_sched io sched"
  shows "returns (WaitForMessages io r sched M) (\<lambda>(ms, M').
    length ms = length (players M) \<and>
    (\<forall>j < length (players M). ms ! j = find (\<lambda>m. msg_round m = Some r)
       (heard_until io sched j (Suc (length (players M) + j)) (players M ! j))) \<and>
    (\<exists>ps. M' = M\<lparr>players := ps\<rparr> \<and> length ps = length (players M) \<and> (\<forall>p \<in> set ps. in_play p)))"
proof -
  define n ps0 where "n = length (players M)" and "ps0 = players M"
  have n: "n = length ps0" by (simp add: n_def ps0_def)
  have "returns (foldM (register_step io r sched) [0..<n] (ps0, []))
      ((\<lambda>i (ps, fs). wait_inv io r sched ps0 i i ps fs) n)"
  proof (rule returns_foldM_upt)
    fix i s assume "i < n" "(\<lambda>i (ps, fs). wait_inv io r sched ps0 i i ps fs) i s"
    then show "returns (register_step io r sched i s)
        ((\<lambda>i (ps, fs). wait_inv io r sched ps0 i i ps fs) (Suc i))"
      using register_step_inv[OF _ assms(2)] n by (cases s) auto
  qed (use assms in \<open>auto simp: wait_inv_def ps0_def\<close>)
  then obtain ps fs where 1: "foldM (register_step io r sched) [0..<n] (ps0, []) = Inr (ps, fs)"
      "wait_inv io r sched ps0 n (n + 0) ps fs"
    by (auto simp: returns_iff)
  define R where "R = (\<lambda>i (ps, ms). wait_inv io r sched ps0 n (n + i) ps fs \<and> length ms = i \<and>
      (\<forall>j < i. ms ! j =
        find (\<lambda>m. msg_round m = Some r) (heard_until io sched j (Suc (n + j)) (ps0 ! j))))"
  have "returns (foldM (await_step io fs sched) [0..<n] (ps, [])) (R n)"
  proof (rule returns_foldM_upt)
    fix i s assume "i < n" "R i s"
    then show "returns (await_step io fs sched i s) (R (Suc i))"
      using await_step_inv[OF _ assms(2) _ n] by (cases s) (auto simp: R_def)
  qed (use 1 in \<open>simp add: R_def\<close>)
  then obtain ps' ms where 2: "foldM (await_step io fs sched) [0..<n] (ps, []) = Inr (ps', ms)"
      "R n (ps', ms)"
    by (auto simp: returns_iff)
  have "\<forall>p \<in> set ps'. in_play p" "length ps' = n"
    using 2(2) n by (auto simp: R_def wait_inv_def tracked_def in_set_conv_nth)
  then show ?thesis
    using 1(1) 2 n by (auto simp: WaitForMessages_def Let_def n_def ps0_def R_def)
qed

section \<open>Broadcasts\<close>

definition write_line :: "string \<Rightarrow> round_player \<Rightarrow> round_player" where
  "write_line s p = p\<lparr>connection := map_option (\<lambda>c. c\<lparr>sent := sent c @ s\<rparr>) (connection p)\<rparr>"

lemma ToString_returns: "\<exists>s. ToString io m = Inr s"
  using as_string_returns[of io "content m"] by (auto simp: ToString_def)

lemma in_play_write_line [simp]: "in_play (write_line s p) = in_play p"
  by (auto simp: in_play_def write_line_def player_inv_def split: option.splits)

lemma player_Write_in_play:
  "in_play p \<Longrightarrow> ToString io m = Inr s \<Longrightarrow> player_Write io True m p = Inr (write_line s p)"
  by (auto simp: in_play_def player_Write_def Write_def write_line_def split: option.splits)

text \<open>While the sockets work, every player is sent the same line, in order.\<close>

lemma Broadcast_eq:
  assumes "\<forall>p \<in> set (players M). in_play p" "\<And>i. ok i" "ToString io m = Inr s"
  shows "Broadcast io ok m M = Inr (M\<lparr>players := map (write_line s) (players M)\<rparr>)"
proof -
  define ps0 where "ps0 = players M"
  have "returns (foldM (\<lambda>i ps. bnd (player_Write io (ok i) m (ps ! i)) (\<lambda>p. Inr (ps[i := p])))
      [0..<length ps0] ps0)
      ((\<lambda>i ps. ps = map (write_line s) (take i ps0) @ drop i ps0) (length ps0))"
  proof (rule returns_foldM_upt)
    fix i ps assume i: "i < length ps0" "ps = map (write_line s) (take i ps0) @ drop i ps0"
    have "ps ! i = ps0 ! i" using i by (simp add: nth_append)
    then have "player_Write io (ok i) m (ps ! i) = Inr (write_line s (ps0 ! i))"
      using assms i by (auto intro!: player_Write_in_play simp: ps0_def)
    moreover have "ps[i := write_line s (ps0 ! i)] =
        map (write_line s) (take (Suc i) ps0) @ drop (Suc i) ps0"
      using i by (simp add: list_update_append take_Suc_conv_app_nth flip: Cons_nth_drop_Suc)
    ultimately show "returns (bnd (player_Write io (ok i) m (ps ! i)) (\<lambda>p. Inr (ps[i := p])))
        (\<lambda>ps. ps = map (write_line s) (take (Suc i) ps0) @ drop (Suc i) ps0)"
      by simp
  qed simp
  then show ?thesis by (auto simp: Broadcast_def ps0_def returns_iff)
qed

section \<open>Bytes sent to the players\<close>

definition sent_of :: "round_player \<Rightarrow> string" where
  "sent_of p = (case connection p of None \<Rightarrow> [] | Some c \<Rightarrow> sent c)"

lemma sent_of_write_line: "in_play p \<Longrightarrow> sent_of (write_line s p) = sent_of p @ s"
  by (auto simp: sent_of_def write_line_def in_play_def split: option.splits)

lemma sent_of_connection [simp]: "sent_of (p\<lparr>connection := Some c\<rparr>) = sent c"
  by (simp add: sent_of_def)

lemma WaitForMessageAsync_sent:
  assumes "WaitForMessageAsync p = Inr p'"
  shows "sent_of p' = sent_of p"
proof (cases "connection p")
  case None
  then show ?thesis using assms by (subst (asm) WaitForMessageAsync.simps) simp
next
  case (Some c)
  then show ?thesis
    using assms by (auto simp: WaitForMessageAsync_loop bnd_eq_Inr sent_of_def)
qed

lemma player_ProcessMessage_sent:
  assumes "player_ProcessMessage m p = Inr p'"
  shows "sent_of p' = sent_of p"
proof -
  obtain q where q: "process_body m p = Inr q" "WaitForMessageAsync q = Inr p'"
    using assms by (auto simp: player_ProcessMessage_def bnd_eq_Inr)
  show ?thesis
    using WaitForMessageAsync_sent[OF q(2)] process_body_connection[OF q(1)] by (simp add: sent_of_def)
qed

lemma player_HandleRead_sent:
  assumes "connection p = Some c" "player_HandleRead io err p = Inr p'"
  shows "sent_of p' = sent_of p"
proof -
  have upd: "sent_of (q\<lparr>connection := map_option ReadMessage (connection q)\<rparr>) = sent_of q" for q
    by (auto simp: sent_of_def ReadMessage_def split: option.splits)
  have rd [simp]: "sent (ReadMessage d) = sent d" for d :: "callback tcp_connection"
    by (simp add: ReadMessage_def)
  show ?thesis
    using assms
    by (auto simp: player_HandleRead_def HandleRead_def Let_def bnd_eq_Inr ProcessMessage_def upd
        sent_of_def[of p] dest!: player_ProcessMessage_sent split: if_splits prod.splits list.splits)
qed

lemma receive_input_sent:
  assumes "receive_input io e p = Inr p'"
  shows "sent_of p' = sent_of p"
proof (cases "\<exists>c. connection p = Some c \<and> reading c")
  case True
  then obtain c where c: "connection p = Some c" "reading c" by blast
  show ?thesis
  proof (cases e)
    case (NetLine s)
    then have "player_HandleRead io False (p\<lparr>connection := Some (receive_bytes (s @ [LF]) c)\<rparr>) = Inr p'"
      using assms c by (simp add: receive_input_def)
    from player_HandleRead_sent[OF _ this] show ?thesis
      using c by (simp add: receive_bytes_def sent_of_def[of p])
  next
    case NetError
    then show ?thesis
      using assms c player_HandleRead_sent[OF c(1)] by (simp add: receive_input_def)
  qed
next
  case False
  then show ?thesis using assms by (auto simp: receive_input_def split: option.splits if_splits)
qed

lemma map_update_same: "i < length xs \<Longrightarrow> f y = f (xs ! i) \<Longrightarrow> map f (xs[i := y]) = map f xs"
  by (metis list_update_id map_update)

lemma apply_event_sent: "apply_event io e ps = Inr ps' \<Longrightarrow> map sent_of ps' = map sent_of ps"
  by (auto simp: apply_event_def bnd_eq_Inr map_update_same receive_input_sent split: if_splits)

lemma apply_events_sent: "foldM (apply_event io) es ps = Inr ps' \<Longrightarrow> map sent_of ps' = map sent_of ps"
  by (rule foldM_invariant) (auto dest: apply_event_sent)

lemma GetRoundMessageAsync_sent: "GetRoundMessageAsync r p = (k, p') \<Longrightarrow> sent_of p' = sent_of p"
  by (auto simp: GetRoundMessageAsync_def Let_def sent_of_def)

lemma register_step_sent:
  assumes "register_step io r sched i s = Inr s'" "i < length (fst s)"
  shows "map sent_of (fst s') = map sent_of (fst s)"
proof -
  obtain ps1 k p where 1: "foldM (apply_event io) (sched i) (fst s) = Inr ps1"
    "GetRoundMessageAsync r (ps1 ! i) = (k, p)" "fst s' = ps1[i := p]"
    using assms(1) by (cases s)
      (fastforce simp: register_step_def bnd_eq_Inr case_prod_unfold Let_def intro: prod_eqI)
  have m: "map sent_of ps1 = map sent_of (fst s)" using apply_events_sent[OF 1(1)] .
  have "i < length ps1" using assms(2) map_eq_imp_length_eq[OF m] by simp
  then show ?thesis using m 1(3) GetRoundMessageAsync_sent[OF 1(2)] by (simp add: map_update_same)
qed

lemma await_step_sent:
  assumes "await_step io fs sched i s = Inr s'"
  shows "map sent_of (fst s') = map sent_of (fst s)"
proof (cases "foldM (apply_event io) (sched (length fs + i)) (fst s)")
  case (Inr ps1)
  then have "fst s' = ps1"
    using assms by (cases s; cases "shared (ps1 ! i) ! (fs ! i)") (auto simp: await_step_def)
  then show ?thesis using apply_events_sent[OF Inr] by simp
qed (use assms in \<open>cases s, simp add: await_step_def\<close>)

lemma WaitForMessages_sent:
  assumes "WaitForMessages io r sched M = Inr (ms, M')"
  shows "map sent_of (players M') = map sent_of (players M)"
proof -
  obtain ps fs ps' where 1: "foldM (register_step io r sched) [0..<length (players M)] (players M, []) = Inr (ps, fs)"
    "foldM (await_step io fs sched) [0..<length (players M)] (ps, []) = Inr (ps', ms)"
    "M' = M\<lparr>players := ps'\<rparr>"
    using assms by (auto simp: WaitForMessages_def Let_def bnd_eq_Inr)
  have "map sent_of (fst (ps, fs)) = map sent_of (players M)"
    using 1(1)
  proof (rule foldM_invariant)
    fix i s s' assume "i \<in> set [0..<length (players M)]" "map sent_of (fst s) = map sent_of (players M)"
      "register_step io r sched i s = Inr s'"
    then show "map sent_of (fst s') = map sent_of (players M)"
      using register_step_sent[of io r sched i s s'] map_eq_imp_length_eq[of sent_of "fst s" sent_of "players M"]
      by simp
  qed simp
  moreover have "map sent_of (fst (ps', ms)) = map sent_of ps"
    using 1(2) by (rule foldM_invariant) (auto dest: await_step_sent)
  ultimately show ?thesis using 1(3) by simp
qed

end
