(* ===== verification/Grid.thy ===== *)
theory Grid
  imports Prelude
begin

text \<open>
  Points and the two-dimensional board (common/grid.h).  \<open>Grid\<close> keeps the rows of the board
  in a vector of vectors; \<open>operator[]\<close> and \<open>at\<close> index it unchecked, so an access outside
  it is an error value here.
\<close>

section \<open>Points\<close>

record point =
  px :: int
  py :: int

definition Point :: "int \<Rightarrow> int \<Rightarrow> point" where
  "Point x y = \<lparr>px = x, py = y\<rparr>"

definition point_add :: "point \<Rightarrow> point \<Rightarrow> point" where
  "point_add p q = Point (px p + px q) (py p + py q)"

definition point_sub :: "point \<Rightarrow> point \<Rightarrow> point" where
  "point_sub p q = Point (px p - px q) (py p - py q)"

text \<open>\<open>operator<\<close> compares \<open>std::tie(x, y)\<close>, \<open>operator==\<close> is equality of the fields.\<close>

definition point_less :: "point \<Rightarrow> point \<Rightarrow> bool" where
  "point_less p q = (px p < px q \<or> px p = px q \<and> py p < py q)"

text \<open>\<open>y = -y; std::swap(x, y);\<close>\<close>

definition RotateLeft :: "point \<Rightarrow> point" where
  "RotateLeft p = (let p = p\<lparr>py := - py p\<rparr> in \<lparr>px = py p, py = px p\<rparr>)"

text \<open>\<open>x = -x; std::swap(x, y);\<close>\<close>

definition RotateRight :: "point \<Rightarrow> point" where
  "RotateRight p = (let p = p\<lparr>px := - px p\<rparr> in \<lparr>px = py p, py = px p\<rparr>)"

lemma point_sel [simp]: "px (Point x y) = x" "py (Point x y) = y"
  by (simp_all add: Point_def)

lemma point_eq_iff: "p = q \<longleftrightarrow> px p = px q \<and> py p = py q" for p q :: point
  by (cases p; cases q) simp

lemma rotate_coords [simp]:
  "px (RotateLeft p) = - py p" "py (RotateLeft p) = px p"
  "px (RotateRight p) = py p" "py (RotateRight p) = - px p"
  by (simp_all add: RotateLeft_def RotateRight_def Let_def)

lemma point_add_coords [simp]:
  "px (point_add p q) = px p + px q" "py (point_add p q) = py p + py q"
  "px (point_sub p q) = px p - px q" "py (point_sub p q) = py p - py q"
  by (simp_all add: point_add_def point_sub_def)

lemma rotate_inverse [simp]: "RotateLeft (RotateRight p) = p" "RotateRight (RotateLeft p) = p"
  by (simp_all add: point_eq_iff)

lemma rotate_four: "RotateLeft (RotateLeft (RotateLeft (RotateLeft p))) = p"
  by (simp add: point_eq_iff)

definition norm1 :: "point \<Rightarrow> int" where
  "norm1 p = \<bar>px p\<bar> + \<bar>py p\<bar>"

lemma norm1_rotate [simp]: "norm1 (RotateLeft p) = norm1 p" "norm1 (RotateRight p) = norm1 p"
  by (simp_all add: norm1_def)

section \<open>Grids\<close>

record 'a grid =
  grid_x :: int
  grid_y :: int
  grid_cells :: "'a list list"

definition Grid :: "int \<Rightarrow> int \<Rightarrow> 'a \<Rightarrow> 'a grid" where
  "Grid x y v = \<lparr>grid_x = x, grid_y = y, grid_cells = replicate (nat y) (replicate (nat x) v)\<rparr>"

text \<open>\<open>grid_[p.y][p.x]\<close>, read and written.\<close>

definition grid_at :: "'a grid \<Rightarrow> point \<Rightarrow> 'a result" where
  "grid_at g p = bnd (vec_at (grid_cells g) (py p)) (\<lambda>row. vec_at row (px p))"

definition grid_set :: "'a grid \<Rightarrow> point \<Rightarrow> 'a \<Rightarrow> 'a grid result" where
  "grid_set g p v =
     bnd (vec_at (grid_cells g) (py p)) (\<lambda>row.
     bnd (vec_set row (px p) v) (\<lambda>row'.
     bnd (vec_set (grid_cells g) (py p) row') (\<lambda>cells. Inr (g\<lparr>grid_cells := cells\<rparr>))))"

definition Inside :: "'a grid \<Rightarrow> point \<Rightarrow> bool" where
  "Inside g p = (0 \<le> px p \<and> px p < grid_x g \<and> 0 \<le> py p \<and> py p < grid_y g)"

text \<open>The class invariant: the vectors have the announced sizes.\<close>

definition grid_wf :: "'a grid \<Rightarrow> bool" where
  "grid_wf g = (int (length (grid_cells g)) = grid_y g \<and>
     (\<forall>row \<in> set (grid_cells g). int (length row) = grid_x g))"

lemma grid_wf_Grid: "0 \<le> x \<Longrightarrow> 0 \<le> y \<Longrightarrow> grid_wf (Grid x y v)"
  by (auto simp: grid_wf_def Grid_def)

lemma Inside_Grid: "Inside (Grid x y v) p = (0 \<le> px p \<and> px p < x \<and> 0 \<le> py p \<and> py p < y)"
  by (simp add: Inside_def Grid_def)

text \<open>The cell at a point inside the board.\<close>

definition cell :: "'a grid \<Rightarrow> point \<Rightarrow> 'a" where
  "cell g p = grid_cells g ! nat (py p) ! nat (px p)"

lemma grid_row_length:
  assumes "grid_wf g" "Inside g p"
  shows "nat (py p) < length (grid_cells g)"
    and "int (length (grid_cells g ! nat (py p))) = grid_x g"
proof -
  show *: "nat (py p) < length (grid_cells g)"
    using assms by (auto simp: grid_wf_def Inside_def)
  then show "int (length (grid_cells g ! nat (py p))) = grid_x g"
    using assms(1) by (auto simp: grid_wf_def)
qed

lemma grid_at_inside: "grid_wf g \<Longrightarrow> Inside g p \<Longrightarrow> grid_at g p = Inr (cell g p)"
  using grid_row_length[of g p] by (auto simp: grid_at_def cell_def Inside_def)

text \<open>Outside, the access is undefined: the bounds test \<open>Inside\<close> is exact.\<close>

lemma grid_at_outside: "grid_wf g \<Longrightarrow> \<not> Inside g p \<Longrightarrow> \<exists>e. grid_at g p = Inl e"
proof -
  assume a: "grid_wf g" "\<not> Inside g p"
  show ?thesis
  proof (cases "0 \<le> py p \<and> py p < grid_y g")
    case True
    then have "nat (py p) < length (grid_cells g)" using a by (auto simp: grid_wf_def)
    then have "int (length (grid_cells g ! nat (py p))) = grid_x g"
      using a(1) by (auto simp: grid_wf_def)
    then show ?thesis using a True by (auto simp: grid_at_def vec_at_def Inside_def)
  next
    case False
    then show ?thesis using a by (auto simp: grid_at_def vec_at_def grid_wf_def)
  qed
qed

definition cell_update :: "'a grid \<Rightarrow> point \<Rightarrow> 'a \<Rightarrow> 'a grid" where
  "cell_update g p v = g\<lparr>grid_cells := (grid_cells g)[nat (py p) :=
     (grid_cells g ! nat (py p))[nat (px p) := v]]\<rparr>"

lemma grid_set_inside: "grid_wf g \<Longrightarrow> Inside g p \<Longrightarrow> grid_set g p v = Inr (cell_update g p v)"
  using grid_row_length[of g p] by (auto simp: grid_set_def cell_update_def Inside_def)

lemma grid_wf_cell_update: "grid_wf g \<Longrightarrow> Inside g p \<Longrightarrow> grid_wf (cell_update g p v)"
  using grid_row_length[of g p]
  by (auto simp: grid_wf_def cell_update_def dest!: set_update_subset_insert[THEN subsetD])

lemma Inside_cell_update [simp]: "Inside (cell_update g p v) q = Inside g q"
  by (simp add: Inside_def cell_update_def)

lemma grid_dims_cell_update [simp]:
  "grid_x (cell_update g p v) = grid_x g" "grid_y (cell_update g p v) = grid_y g"
  by (simp_all add: cell_update_def)

lemma cell_cell_update:
  assumes "grid_wf g" "Inside g p" "Inside g q"
  shows "cell (cell_update g p v) q = (if p = q then v else cell g q)"
proof -
  have "nat (px p) < length (grid_cells g ! nat (py p))"
    using grid_row_length[OF assms(1,2)] assms(2) by (auto simp: Inside_def)
  then show ?thesis
    using assms grid_row_length[OF assms(1,2)]
    by (auto simp: cell_def cell_update_def Inside_def point_eq_iff nth_list_update)
qed

lemma cell_Grid: "Inside (Grid x y v) p \<Longrightarrow> cell (Grid x y v) p = v"
  by (auto simp: cell_def Grid_def Inside_def)

text \<open>
  The contract of a board with unchecked access: inside the announced rectangle reads and
  writes are defined and behave as on a function from points to cells.
\<close>

locale board_store =
  fixes rd :: "'g \<Rightarrow> point \<Rightarrow> 'a result"
    and wr :: "'g \<Rightarrow> point \<Rightarrow> 'a \<Rightarrow> 'g result"
    and inside :: "'g \<Rightarrow> point \<Rightarrow> bool"
    and wf :: "'g \<Rightarrow> bool"
  assumes rd_defined: "wf g \<Longrightarrow> inside g p \<Longrightarrow> \<exists>v. rd g p = Inr v"
    and wr_defined: "wf g \<Longrightarrow> inside g p \<Longrightarrow> \<exists>g'. wr g p v = Inr g'"
    and wr_wf: "wf g \<Longrightarrow> inside g p \<Longrightarrow> wr g p v = Inr g' \<Longrightarrow> wf g'"
    and wr_inside: "wf g \<Longrightarrow> inside g p \<Longrightarrow> wr g p v = Inr g' \<Longrightarrow> inside g' q = inside g q"
    and rd_wr: "wf g \<Longrightarrow> inside g p \<Longrightarrow> inside g q \<Longrightarrow> wr g p v = Inr g' \<Longrightarrow>
      rd g' q = (if q = p then Inr v else rd g q)"
begin

text \<open>Writing one value along a path inside the board succeeds and changes the path only.\<close>

lemma write_path:
  assumes "wf g" "\<forall>p \<in> set ps. inside g p"
  shows "returns (foldM (\<lambda>p g. wr g p v) ps g)
    (\<lambda>g'. wf g' \<and> (\<forall>q. inside g' q = inside g q) \<and>
      (\<forall>q. inside g q \<longrightarrow> rd g' q = (if q \<in> set ps then Inr v else rd g q)))"
proof -
  have "returns (foldM (\<lambda>p g. wr g p v) ps g)
    ((\<lambda>pre g'. wf g' \<and> (\<forall>q. inside g' q = inside g q) \<and>
      (\<forall>q. inside g q \<longrightarrow> rd g' q = (if q \<in> set pre then Inr v else rd g q))) ps)"
  proof (rule returns_foldM_prefix)
    fix pre p rest h
    assume split: "ps = pre @ p # rest"
      and inv: "wf h \<and> (\<forall>q. inside h q = inside g q) \<and>
        (\<forall>q. inside g q \<longrightarrow> rd h q = (if q \<in> set pre then Inr v else rd g q))"
    then have p: "inside h p" using assms(2) by auto
    then obtain h' where h': "wr h p v = Inr h'" using wr_defined inv by blast
    have "\<forall>q. inside h' q = inside g q" using wr_inside[OF _ p h'] inv by simp
    moreover have "wf h'" using wr_wf[OF _ p h'] inv by simp
    moreover have "\<forall>q. inside g q \<longrightarrow> rd h' q = (if q \<in> set (pre @ [p]) then Inr v else rd g q)"
      using rd_wr[OF _ p _ h'] inv by auto
    ultimately show "returns (wr h p v) (\<lambda>g'. wf g' \<and> (\<forall>q. inside g' q = inside g q) \<and>
        (\<forall>q. inside g q \<longrightarrow> rd g' q = (if q \<in> set (pre @ [p]) then Inr v else rd g q)))"
      using h' by simp
  qed (use assms in auto)
  then show ?thesis .
qed

end

interpretation grid: board_store grid_at grid_set Inside grid_wf
proof unfold_locales
  fix g g' :: "'a grid" and p q and v :: 'a
  assume g: "grid_wf g" "Inside g p"
  show "\<exists>v. grid_at g p = Inr v" using grid_at_inside[OF g] by simp
  show "\<exists>h. grid_set g p v = Inr h" using grid_set_inside[OF g, of v] by simp
  assume w: "grid_set g p v = Inr g'"
  then have g': "g' = cell_update g p v" using grid_set_inside[OF g, of v] by simp
  then show "grid_wf g'" using grid_wf_cell_update[OF g, of v] by simp
  show "Inside g' q = Inside g q" using g' by simp
  assume q: "Inside g q"
  have "grid_at g' q = Inr (cell g' q)"
    using g g' q by (intro grid_at_inside) (auto simp: grid_wf_cell_update)
  then show "grid_at g' q = (if q = p then Inr v else grid_at g q)"
    using g q g' by (auto simp: cell_cell_update grid_at_inside)
qed

end
