(* ===== verification/SnakeMatch.thy ===== *)
theory SnakeMatch
  imports RoundMatch Grid
begin

text \<open>
  The snake game (games/snake/match.h, match.cpp): options, the turn, the game loop and the
  messages it sends.  Every access to the board or to a vector is the unchecked one of the
  code, so a turn is a computation that may fail; theory \<open>SnakeTurn\<close> proves that it does not.
\<close>

section \<open>Options\<close>

record options =
  opt_num_players :: int
  opt_x :: int
  opt_y :: int
  starting_length :: int
  max_turns :: int
  turns_to_starve :: int
  action_time :: int

text \<open>The initializers of the class; \<open>num_players\<close> has none and is set by \<open>ParseFromJson\<close>.\<close>

definition Options :: "int \<Rightarrow> options" where
  "Options n = \<lparr>opt_num_players = n, opt_x = 15, opt_y = 15, starting_length = 4,
     max_turns = 40, turns_to_starve = 0, action_time = 1000\<rparr>"

definition ParseFromJson :: "json \<Rightarrow> options \<Rightarrow> (int \<times> options) result" where
  "ParseFromJson j opts =
     bnd (json_get_default ''num_players'' (json_of_int 0) j) (\<lambda>v.
     bnd (as_int v) (\<lambda>n.
     let opts = opts\<lparr>opt_num_players := n\<rparr>
     in if n < 1 \<or> n > 4 then Inr (1, opts) else Inr (0, opts)))"

definition IsCompatible :: "options \<Rightarrow> options \<Rightarrow> bool" where
  "IsCompatible opts rhs = (opt_num_players opts = opt_num_players rhs)"

section \<open>Snakes\<close>

text \<open>The front of the deque, the head of the list, is the snake's head.\<close>

record snake =
  sid :: int
  dead :: bool
  points :: "point list"
  direction :: point
  recently_removed_point :: "point option"

definition deque_front :: "'a list \<Rightarrow> 'a result" where
  "deque_front xs = (case xs of [] \<Rightarrow> Inl (Undefined ''front of an empty deque'') | x # _ \<Rightarrow> Inr x)"

definition deque_back :: "'a list \<Rightarrow> 'a result" where
  "deque_back xs = (if xs = [] then Inl (Undefined ''back of an empty deque'') else Inr (last xs))"

definition ShortenTail :: "snake \<Rightarrow> snake result" where
  "ShortenTail s = bnd (deque_back (points s)) (\<lambda>p.
     Inr (s\<lparr>recently_removed_point := Some p, points := butlast (points s)\<rparr>))"

definition RestoreTail :: "snake \<Rightarrow> snake result" where
  "RestoreTail s = (case recently_removed_point s of
     None \<Rightarrow> Inl (Undefined ''uninitialized point'')
   | Some p \<Rightarrow> Inr (s\<lparr>points := points s @ [p]\<rparr>))"

section \<open>The match\<close>

datatype action = kLeft | kRight | kForward

definition kEmpty :: int where "kEmpty = -1"
definition kApple :: int where "kApple = -2"

record snake_match = round_match +
  current_turn :: int
  board :: "int grid"
  snakes :: "snake list"
  apples :: "point list"
  events :: "json list"
  game_log :: "message list"
  match_options :: options

definition SnakeMatch :: "options \<Rightarrow> snake_match" where
  "SnakeMatch opts = round_match.extend (RoundBasedMatch (opt_num_players opts))
     \<lparr>current_turn = 1, board = Grid (opt_x opts) (opt_y opts) kEmpty, snakes = [], apples = [],
      events = [], game_log = [], match_options = opts\<rparr>"

text \<open>The factory returns a null pointer for options it rejects.\<close>

definition CreateMatch :: "json \<Rightarrow> snake_match option result" where
  "CreateMatch params = bnd (ParseFromJson params (Options 0)) (\<lambda>(err, opts).
     if err \<noteq> 0 then Inr None else Inr (Some (SnakeMatch opts)))"

definition CheckOptionsCompatibility :: "json \<Rightarrow> snake_match \<Rightarrow> bool result" where
  "CheckOptionsCompatibility params M = bnd (ParseFromJson params (Options 0)) (\<lambda>(err, opts).
     if err \<noteq> 0 then Inr False else Inr (IsCompatible (match_options M) opts))"

section \<open>Actions\<close>

definition ParseAction :: "stdio \<Rightarrow> message \<Rightarrow> action result" where
  "ParseAction io m =
     bnd (json_get_default ''data'' (JString []) (content m)) (\<lambda>data.
     bnd (json_get_default ''direction'' (JString []) data) (\<lambda>d.
     bnd (as_string io d) (\<lambda>direction.
     Inr (if direction = ''left'' then kLeft
          else if direction = ''right'' then kRight else kForward))))"

definition ParseActions :: "stdio \<Rightarrow> message option list \<Rightarrow> action list result" where
  "ParseActions io msgs = foldM (\<lambda>msg actions. case msg of
       None \<Rightarrow> Inr (actions @ [kForward])
     | Some m \<Rightarrow> bnd (ParseAction io m) (\<lambda>a. Inr (actions @ [a]))) msgs []"

section \<open>JSON building blocks\<close>

text \<open>\<open>Json res; res["k"] = v; ...\<close>\<close>

definition make_json :: "(string \<times> json) list \<Rightarrow> json result" where
  "make_json kvs = foldM (\<lambda>(k, v) j. json_set k v j) kvs EmptyObject"

definition MakeDeath :: "int \<Rightarrow> json result" where
  "MakeDeath player_id = make_json [(''type'', JString ''death''), (''player'', json_of_int player_id)]"

definition MakeBase :: "string \<Rightarrow> json \<Rightarrow> json result" where
  "MakeBase mtype data = make_json [(''type'', JString mtype), (''data'', data)]"

definition PointToJson :: "point \<Rightarrow> json result" where
  "PointToJson p = make_json [(''x'', json_of_int (px p)), (''y'', json_of_int (py p))]"

section \<open>Spawning\<close>

definition starting_positions :: "int \<Rightarrow> int \<Rightarrow> point list" where
  "starting_positions x y = [Point 1 1, Point (x - 1) (y - 1), Point (x - 1) 1, Point 1 (y - 1)]"

definition starting_directions :: "point list" where
  "starting_directions = [Point 1 0, Point (-1) 0, Point 0 1, Point 0 (-1)]"

text \<open>The counters of \<open>for (int p = 0; p < n; p++)\<close>.\<close>

definition counters :: "int \<Rightarrow> int list" where
  "counters n = map int [0..<nat n]"

definition spawn_snake :: "options \<Rightarrow> int \<Rightarrow> snake list \<Rightarrow> snake list result" where
  "spawn_snake opts p ss =
     bnd (vec_at (starting_positions (opt_x opts) (opt_y opts)) p) (\<lambda>start.
     bnd (vec_at starting_directions p) (\<lambda>dir.
     bnd (foldM (\<lambda>i s. bnd (deque_front (points s)) (\<lambda>h.
              Inr (s\<lparr>points := point_add h (direction s) # points s\<rparr>)))
            (counters (starting_length opts - 1))
            \<lparr>sid = p, dead = False, points = [start], direction = dir,
             recently_removed_point = None\<rparr>) (\<lambda>s.
     Inr (ss @ [s]))))"

text \<open>Every point of a snake is marked with its id on the board.\<close>

definition mark_snake :: "snake \<Rightarrow> int grid \<Rightarrow> int grid result" where
  "mark_snake s b = foldM (\<lambda>p b. grid_set b p (sid s)) (points s) b"

definition SpawnSnakes :: "snake_match \<Rightarrow> snake_match result" where
  "SpawnSnakes M =
     bnd (foldM (spawn_snake (match_options M)) (counters (num_players M)) []) (\<lambda>ss.
     bnd (foldM mark_snake ss (board M)) (\<lambda>b.
     Inr (M\<lparr>snakes := ss, board := b\<rparr>)))"

section \<open>A turn\<close>

definition IsGameFinished :: "snake_match \<Rightarrow> bool" where
  "IsGameFinished M = list_all dead (snakes M)"

definition AppleEaten :: "int \<Rightarrow> snake_match \<Rightarrow> snake_match" where
  "AppleEaten snake_id M = M"

text \<open>The loop body of \<open>KillSnake\<close>: a point inside the board that is no apple is erased.\<close>

definition erase_point :: "point \<Rightarrow> int grid \<Rightarrow> int grid result" where
  "erase_point p b =
     (if Inside b p
      then bnd (grid_at b p) (\<lambda>v. if v \<noteq> kApple then grid_set b p kEmpty else Inr b)
      else Inr b)"

definition KillSnake :: "int \<Rightarrow> snake_match \<Rightarrow> snake_match result" where
  "KillSnake snake_id M =
     bnd (vec_at (snakes M) snake_id) (\<lambda>s.
     bnd (vec_set (snakes M) snake_id (s\<lparr>dead := True\<rparr>)) (\<lambda>ss.
     bnd (foldM erase_point (points s) (board M)) (\<lambda>b.
     bnd (MakeDeath snake_id) (\<lambda>e.
     Inr (M\<lparr>snakes := ss, board := b, events := events M @ [e]\<rparr>)))))"

definition turn_snake :: "action \<Rightarrow> snake \<Rightarrow> snake" where
  "turn_snake a s =
     (let s = (if a = kLeft then s\<lparr>direction := RotateLeft (direction s)\<rparr> else s)
      in (if a = kRight then s\<lparr>direction := RotateRight (direction s)\<rparr> else s))"

definition execute_action :: "action list \<Rightarrow> int \<Rightarrow> snake_match \<Rightarrow> snake_match result" where
  "execute_action actions p M =
     bnd (vec_at (snakes M) p) (\<lambda>s.
     if dead s then Inr M
     else bnd (vec_at actions p) (\<lambda>a.
          bnd (vec_set (snakes M) p (turn_snake a s)) (\<lambda>ss. Inr (M\<lparr>snakes := ss\<rparr>))))"

text \<open>The tail's cell is emptied, the head advances, the tail is removed.\<close>

definition process_move :: "int \<Rightarrow> snake_match \<Rightarrow> snake_match result" where
  "process_move p M =
     bnd (vec_at (snakes M) p) (\<lambda>s.
     if dead s then Inr M
     else bnd (deque_back (points s)) (\<lambda>tail.
          bnd (grid_set (board M) tail kEmpty) (\<lambda>b.
          bnd (deque_front (points s)) (\<lambda>head.
          bnd (ShortenTail (s\<lparr>points := point_add head (direction s) # points s\<rparr>)) (\<lambda>s.
          bnd (vec_set (snakes M) p s) (\<lambda>ss. Inr (M\<lparr>board := b, snakes := ss\<rparr>)))))))"

definition hits_something :: "int grid \<Rightarrow> point \<Rightarrow> bool result" where
  "hits_something b head =
     (if \<not> Inside b head then Inr True
      else bnd (grid_at b head) (\<lambda>v. Inr (v \<noteq> kApple \<and> v \<noteq> kEmpty)))"

text \<open>The live snakes whose head is at a point, in the order of their numbers.\<close>

definition same_heads :: "point \<Rightarrow> snake_match \<Rightarrow> int list result" where
  "same_heads head M = foldM (\<lambda>h hs.
       bnd (vec_at (snakes M) h) (\<lambda>s.
       if dead s then Inr hs
       else bnd (deque_front (points s)) (\<lambda>q. Inr (if q = head then hs @ [h] else hs))))
     (counters (num_players M)) []"

definition check_collision :: "int \<Rightarrow> snake_match \<Rightarrow> snake_match result" where
  "check_collision p M =
     bnd (vec_at (snakes M) p) (\<lambda>s.
     if dead s then Inr M
     else bnd (deque_front (points s)) (\<lambda>head.
          bnd (hits_something (board M) head) (\<lambda>hit.
          bnd (if hit then KillSnake p M else Inr M) (\<lambda>M.
          bnd (same_heads head M) (\<lambda>hs.
          if length hs > 1 then foldM KillSnake hs M else Inr M)))))"

definition check_apple :: "int \<Rightarrow> snake_match \<Rightarrow> snake_match result" where
  "check_apple p M =
     bnd (vec_at (snakes M) p) (\<lambda>s.
     if dead s then Inr M
     else bnd (deque_front (points s)) (\<lambda>head.
          bnd (grid_at (board M) head) (\<lambda>v.
          if v = kApple then
            bnd (RestoreTail s) (\<lambda>s.
            bnd (vec_set (snakes M) p s) (\<lambda>ss. Inr (AppleEaten p (M\<lparr>snakes := ss\<rparr>))))
          else Inr M)))"

definition mark_head :: "int \<Rightarrow> snake_match \<Rightarrow> snake_match result" where
  "mark_head p M =
     bnd (vec_at (snakes M) p) (\<lambda>s.
     if dead s then Inr M
     else bnd (deque_front (points s)) (\<lambda>head.
          bnd (grid_set (board M) head (sid s)) (\<lambda>b. Inr (M\<lparr>board := b\<rparr>))))"

text \<open>The loops over \<open>snakes_\<close> run over its indices.\<close>

definition snake_indices :: "snake_match \<Rightarrow> int list" where
  "snake_indices M = counters (int (length (snakes M)))"

definition ProcessTurn :: "action list \<Rightarrow> snake_match \<Rightarrow> snake_match result" where
  "ProcessTurn actions M =
     bnd (foldM (execute_action actions) (counters (num_players M)) (M\<lparr>events := []\<rparr>)) (\<lambda>M.
     bnd (foldM process_move (snake_indices M) M) (\<lambda>M.
     bnd (foldM check_collision (counters (num_players M)) M) (\<lambda>M.
     bnd (foldM check_apple (counters (num_players M)) M) (\<lambda>M.
     bnd (foldM mark_head (snake_indices M) M) (\<lambda>M.
     Inr (M\<lparr>current_turn := current_turn M + 1\<rparr>))))))"

section \<open>Messages\<close>

text \<open>Elements are appended one by one: \<open>arr.add(...)\<close>.\<close>

definition add_all :: "json result list \<Rightarrow> json \<Rightarrow> json result" where
  "add_all es arr = foldM (\<lambda>e arr. bnd e (\<lambda>v. json_add v arr)) es arr"

text \<open>\<open>player_info["placement"].add(v)\<close> appends to the member's value.\<close>

definition add_to_member :: "string \<Rightarrow> json \<Rightarrow> json \<Rightarrow> json result" where
  "add_to_member name v j = bnd (json_at name j) (\<lambda>a. bnd (json_add v a) (\<lambda>a. json_set name a j))"

definition player_info :: "int \<Rightarrow> snake_match \<Rightarrow> json result" where
  "player_info p M =
     bnd (json_set ''name'' (JString (''player'' @ int_to_string p)) EmptyObject) (\<lambda>info.
     bnd (json_set ''placement'' make_array info) (\<lambda>info.
     bnd (vec_at (snakes M) p) (\<lambda>s.
     foldM (\<lambda>q info. bnd (PointToJson q) (\<lambda>v. add_to_member ''placement'' v info))
       (rev (points s)) info)))"

definition MakeGameStart :: "snake_match \<Rightarrow> message result" where
  "MakeGameStart M = (let opts = match_options M in
     bnd (make_json [(''action_time'', json_of_int (action_time opts)),
                     (''turns'', json_of_int (max_turns opts)),
                     (''turns_to_starve'', json_of_int (turns_to_starve opts))]) (\<lambda>general.
     bnd (PointToJson (Point (opt_x opts) (opt_y opts))) (\<lambda>dims.
     bnd (make_json [(''dimensions'', dims)]) (\<lambda>brd.
     bnd (add_all (map (\<lambda>p. player_info p M) (counters (num_players M))) make_array) (\<lambda>pls.
     bnd (add_all (map PointToJson (apples M)) make_array) (\<lambda>aps.
     bnd (make_json [(''general'', general), (''board'', brd), (''players'', pls),
                     (''apples'', aps)]) (\<lambda>data.
     bnd (MakeBase ''game_start'' data) (\<lambda>j. Inr (Message j)))))))))"

definition MakeGameEnd :: "message result" where
  "MakeGameEnd = bnd (MakeBase ''game_end'' EmptyObject) (\<lambda>j. Inr (Message j))"

definition head_position :: "snake_match \<Rightarrow> int \<Rightarrow> json result" where
  "head_position M p = bnd (vec_at (snakes M) p) (\<lambda>s. bnd (deque_front (points s)) PointToJson)"

definition MakeGameStatus :: "snake_match \<Rightarrow> message result" where
  "MakeGameStatus M =
     bnd (add_all (map (head_position M) (counters (num_players M))) make_array) (\<lambda>positions.
     bnd (add_all (map Inr (events M)) make_array) (\<lambda>evs.
     bnd (make_json [(''positions'', positions), (''events'', evs)]) (\<lambda>data.
     bnd (MakeBase ''game_status'' data) (\<lambda>base.
     bnd (json_set ''round'' (json_of_int (current_turn M)) base) (\<lambda>base.
     Inr (Message base))))))"

section \<open>The game\<close>

text \<open>
  The environment of a game: the network input during the wait of each turn, and for the start
  (0), each turn and the end (the turn limit plus one) whether the write of the broadcast
  succeeds for each player, and whether the logger's client is connected.
\<close>

record environment =
  env_io :: stdio
  env_sched :: "int \<Rightarrow> nat \<Rightarrow> (nat \<times> net_input) list"
  env_ok :: "int \<Rightarrow> nat \<Rightarrow> bool"
  env_log :: "int \<Rightarrow> bool"

definition play_turn :: "environment \<Rightarrow> int \<Rightarrow> snake_match \<Rightarrow> snake_match result" where
  "play_turn env turn M =
     bnd (WaitForMessages (env_io env) turn (env_sched env turn) M) (\<lambda>(msgs, M).
     bnd (ParseActions (env_io env) msgs) (\<lambda>actions.
     bnd (ProcessTurn actions M) (\<lambda>M.
     bnd (MakeGameStatus M) (\<lambda>game_status.
     bnd (Log (env_log env turn) game_status M) (\<lambda>M.
     if \<not> IsGameFinished M \<and> turn \<noteq> max_turns (match_options M)
     then Broadcast (env_io env) (env_ok env turn) game_status M else Inr M)))))"

fun game_loop :: "environment \<Rightarrow> int list \<Rightarrow> snake_match \<Rightarrow> snake_match result" where
  "game_loop env [] M = Inr M"
| "game_loop env (turn # turns) M =
     (if \<not> IsGameFinished M then bnd (play_turn env turn M) (game_loop env turns) else Inr M)"

text \<open>\<open>StartGame\<close> before and after its loop.\<close>

definition begin_game :: "environment \<Rightarrow> snake_match \<Rightarrow> snake_match result" where
  "begin_game env M =
     bnd (SpawnSnakes M) (\<lambda>M.
     bnd (MakeGameStart M) (\<lambda>start.
     bnd (Broadcast (env_io env) (env_ok env 0) start M) (\<lambda>M.
     Log (env_log env 0) start M)))"

definition end_game :: "environment \<Rightarrow> snake_match \<Rightarrow> snake_match result" where
  "end_game env M = (let last = max_turns (match_options M) + 1 in
     bnd MakeGameEnd (\<lambda>end_message.
     bnd (Broadcast (env_io env) (env_ok env last) end_message M) (\<lambda>M.
     Log (env_log env last) end_message M)))"

text \<open>The callback is a function on the state \<open>w\<close> of its owner.\<close>

definition StartGame ::
  "environment \<Rightarrow> ('w \<Rightarrow> 'w) \<Rightarrow> snake_match \<times> 'w \<Rightarrow> (snake_match \<times> 'w) result" where
  "StartGame env finish_callback = (\<lambda>(M, w).
     bnd (begin_game env M) (\<lambda>M.
     bnd (game_loop env (map (\<lambda>i. i + 1) (counters (max_turns (match_options M)))) M) (\<lambda>M.
     bnd (end_game env M) (\<lambda>M.
     Inr (M, finish_callback w)))))"

end
