(* ===== verification/SnakeTurn.thy ===== *)
theory SnakeTurn
  imports SnakeMatch
begin

text \<open>
  What a turn does, and the invariant of a match.

  The specification of a turn is pure: every live snake advances by its action, the cells of
  the old tails are free, and a list of deaths is computed by looking at the heads in the
  order of the players.  \<open>ProcessTurn_spec\<close> proves that the code's five loops over the mutable
  board compute exactly this, and in particular never access a vector or the board out of
  range.
\<close>

section \<open>Specification of a turn\<close>

definition advance :: "action \<Rightarrow> snake \<Rightarrow> snake" where
  "advance a s =
     (if dead s then s
      else (let s = turn_snake a s
            in s\<lparr>recently_removed_point := Some (last (points s)),
                 points := point_add (hd (points s)) (direction s) # butlast (points s)\<rparr>))"

definition moved :: "action list \<Rightarrow> snake list \<Rightarrow> snake list" where
  "moved actions ss = map (\<lambda>i. advance (actions ! i) (ss ! i)) [0..<length ss]"

definition vacated :: "snake list \<Rightarrow> point list" where
  "vacated ss = map (\<lambda>s. last (points s)) (filter (\<lambda>s. \<not> dead s) ss)"

text \<open>The board after the moves, as a function.\<close>

definition free_tails :: "snake_match \<Rightarrow> point \<Rightarrow> int" where
  "free_tails M q = (if q \<in> set (vacated (snakes M)) then kEmpty else cell (board M) q)"

text \<open>
  Player \<open>p\<close>'s check, given the players \<open>ks\<close> killed so far: their bodies are gone from the
  board, their heads are no obstacle.
\<close>

definition collide :: "(point \<Rightarrow> bool) \<Rightarrow> (point \<Rightarrow> int) \<Rightarrow> snake list \<Rightarrow> nat \<Rightarrow> nat list \<Rightarrow> nat list" where
  "collide inside field ss p ks =
     (if dead (ss ! p) \<or> p \<in> set ks then ks
      else (let q = hd (points (ss ! p));
                ks = (if \<not> inside q \<or> (field q \<noteq> kEmpty \<and> (\<forall>k \<in> set ks. q \<notin> set (points (ss ! k))))
                      then ks @ [p] else ks);
                hs = filter (\<lambda>h. \<not> dead (ss ! h) \<and> h \<notin> set ks \<and> hd (points (ss ! h)) = q) [0..<length ss]
            in if length hs > 1 then ks @ hs else ks))"

definition deaths :: "(point \<Rightarrow> bool) \<Rightarrow> (point \<Rightarrow> int) \<Rightarrow> snake list \<Rightarrow> nat \<Rightarrow> nat list" where
  "deaths inside field ss n = fold (collide inside field ss) [0..<n] []"

definition turn_deaths :: "action list \<Rightarrow> snake_match \<Rightarrow> nat list" where
  "turn_deaths actions M =
     deaths (Inside (board M)) (free_tails M) (moved actions (snakes M)) (length (snakes M))"

definition kill_all :: "nat list \<Rightarrow> snake list \<Rightarrow> snake list" where
  "kill_all ks ss = map (\<lambda>i. if i \<in> set ks then (ss ! i)\<lparr>dead := True\<rparr> else ss ! i) [0..<length ss]"

definition death_event :: "nat \<Rightarrow> json" where
  "death_event i = JObject [(''player'', json_of_int (int i)), (''type'', JString ''death'')]"

section \<open>Invariant\<close>

text \<open>A snake of a match whose snakes have length \<open>n\<close>.\<close>

definition adjacent :: "point list \<Rightarrow> bool" where
  "adjacent ps = (\<forall>i. Suc i < length ps \<longrightarrow> norm1 (point_sub (ps ! i) (ps ! Suc i)) = 1)"

definition snake_ok :: "nat \<Rightarrow> nat \<Rightarrow> snake \<Rightarrow> bool" where
  "snake_ok n i s = (sid s = int i \<and> length (points s) = n \<and> adjacent (points s) \<and>
     norm1 (direction s) = 1)"

text \<open>
  A live snake lies on the board, and every marked cell is part of a live snake's body.
\<close>

definition match_inv :: "nat \<Rightarrow> snake_match \<Rightarrow> bool" where
  "match_inv n M =
     (0 < n \<and> grid_wf (board M) \<and> num_players M = int (length (snakes M)) \<and>
      (\<forall>i < length (snakes M). snake_ok n i (snakes M ! i)) \<and>
      (\<forall>i < length (snakes M). \<not> dead (snakes M ! i) \<longrightarrow>
         (\<forall>p \<in> set (points (snakes M ! i)). Inside (board M) p)) \<and>
      (\<forall>p. Inside (board M) p \<longrightarrow> cell (board M) p = kEmpty \<or>
         (\<exists>i < length (snakes M). cell (board M) p = int i \<and> \<not> dead (snakes M ! i) \<and>
            p \<in> set (points (snakes M ! i)))))"

section \<open>Lemmas on the pieces\<close>

lemma foldM_map: "foldM f (map g xs) s = foldM (\<lambda>x. f (g x)) xs s"
  by (induction xs arbitrary: s) (auto intro: bnd_cong)

lemma foldM_counters: "foldM f (counters (int n)) s = foldM (\<lambda>i. f (int i)) [0..<n] s"
  by (simp add: counters_def foldM_map)

lemma deque_nonempty [simp]:
  "xs \<noteq> [] \<Longrightarrow> deque_front xs = Inr (hd xs)"
  "xs \<noteq> [] \<Longrightarrow> deque_back xs = Inr (last xs)"
  by (auto simp: deque_front_def deque_back_def split: list.splits)

lemma turn_snake_simps [simp]:
  "sid (turn_snake a s) = sid s" "dead (turn_snake a s) = dead s"
  "points (turn_snake a s) = points s" "norm1 (direction (turn_snake a s)) = norm1 (direction s)"
  by (auto simp: turn_snake_def Let_def)

lemma advance_simps [simp]:
  "sid (advance a s) = sid s" "dead (advance a s) = dead s"
  "norm1 (direction (advance a s)) = norm1 (direction s)"
  by (auto simp: advance_def Let_def)

lemma advance_dead [simp]: "dead s \<Longrightarrow> advance a s = s"
  by (simp add: advance_def)

lemma advance_points: "\<not> dead s \<Longrightarrow> points (advance a s) =
    point_add (hd (points s)) (direction (advance a s)) # butlast (points s)"
  by (simp add: advance_def Let_def)

lemma adjacent_Cons: "adjacent (p # ps) \<longleftrightarrow>
    (ps = [] \<or> norm1 (point_sub p (hd ps)) = 1) \<and> adjacent ps"
  unfolding adjacent_def
proof (intro iffI conjI)
  assume a: "\<forall>i. Suc i < length (p # ps) \<longrightarrow> norm1 (point_sub ((p # ps) ! i) ((p # ps) ! Suc i)) = 1"
  show "ps = [] \<or> norm1 (point_sub p (hd ps)) = 1"
    using a[rule_format, of 0] by (cases ps) auto
  show "\<forall>i. Suc i < length ps \<longrightarrow> norm1 (point_sub (ps ! i) (ps ! Suc i)) = 1"
    using a by auto
next
  assume a: "(ps = [] \<or> norm1 (point_sub p (hd ps)) = 1) \<and>
    (\<forall>i. Suc i < length ps \<longrightarrow> norm1 (point_sub (ps ! i) (ps ! Suc i)) = 1)"
  show "\<forall>i. Suc i < length (p # ps) \<longrightarrow> norm1 (point_sub ((p # ps) ! i) ((p # ps) ! Suc i)) = 1"
  proof (intro allI impI)
    fix i assume "Suc i < length (p # ps)"
    then show "norm1 (point_sub ((p # ps) ! i) ((p # ps) ! Suc i)) = 1"
      using a by (cases i) (auto simp: hd_conv_nth)
  qed
qed

lemma adjacent_butlast: "adjacent ps \<Longrightarrow> adjacent (butlast ps)"
  by (auto simp: adjacent_def nth_butlast)

lemma norm1_add_sub: "norm1 (point_sub (point_add p d) p) = norm1 d"
  by (simp add: norm1_def)

lemma snake_ok_advance:
  assumes "snake_ok n i s" "0 < n"
  shows "snake_ok n i (advance a s)"
proof (cases "dead s")
  case False
  have ne: "points s \<noteq> []" using assms by (auto simp: snake_ok_def)
  have "butlast (points s) = [] \<or> hd (butlast (points s)) = hd (points s)"
    using ne by (cases "points s") auto
  then have "adjacent (points (advance a s))"
    using assms False
    by (auto simp: advance_points snake_ok_def adjacent_Cons adjacent_butlast norm1_add_sub)
  then show ?thesis using assms False ne by (simp add: snake_ok_def advance_points)
qed (use assms in simp)

lemma length_moved [simp]: "length (moved actions ss) = length ss"
  by (simp add: moved_def)

lemma nth_moved [simp]: "i < length ss \<Longrightarrow> moved actions ss ! i = advance (actions ! i) (ss ! i)"
  by (simp add: moved_def)

lemma length_kill_all [simp]: "length (kill_all ks ss) = length ss"
  by (simp add: kill_all_def)

lemma nth_kill_all [simp]: "i < length ss \<Longrightarrow>
    kill_all ks ss ! i = (if i \<in> set ks then (ss ! i)\<lparr>dead := True\<rparr> else ss ! i)"
  by (simp add: kill_all_def)

lemma kill_all_Nil [simp]: "kill_all [] ss = ss"
  by (simp add: kill_all_def map_nth)

lemma kill_all_snoc: "k < length ss \<Longrightarrow>
    (kill_all ks ss)[k := (kill_all ks ss ! k)\<lparr>dead := True\<rparr>] = kill_all (ks @ [k]) ss"
  by (rule nth_equalityI) (auto simp: nth_list_update)

lemma set_vacated: "q \<in> set (vacated ss) \<longleftrightarrow>
    (\<exists>j < length ss. \<not> dead (ss ! j) \<and> q = last (points (ss ! j)))"
  by (auto simp: vacated_def in_set_conv_nth image_iff)

lemma MakeDeath_eq: "MakeDeath (int i) = Inr (death_event i)"
  by (simp add: MakeDeath_def make_json_def death_event_def)

lemma PointToJson_eq:
  "PointToJson p = Inr (JObject [(''x'', json_of_int (px p)), (''y'', json_of_int (py p))])"
  by (simp add: PointToJson_def make_json_def)

section \<open>The loops of \<open>ProcessTurn\<close>\<close>

text \<open>A loop that replaces the elements of a list one after the other.\<close>

definition done_upto :: "nat \<Rightarrow> (nat \<Rightarrow> 'a) \<Rightarrow> 'a list \<Rightarrow> 'a list" where
  "done_upto i f xs = map (\<lambda>j. if j < i then f j else xs ! j) [0..<length xs]"

lemma done_upto_simps [simp]:
  "length (done_upto i f xs) = length xs"
  "j < length xs \<Longrightarrow> done_upto i f xs ! j = (if j < i then f j else xs ! j)"
  "done_upto 0 f xs = xs"
  by (simp_all add: done_upto_def map_nth)

lemma done_upto_update: "i < length xs \<Longrightarrow> (done_upto i f xs)[i := f i] = done_upto (Suc i) f xs"
  by (rule nth_equalityI) (auto simp: nth_list_update)

lemma done_upto_skip: "i < length xs \<Longrightarrow> f i = xs ! i \<Longrightarrow> done_upto i f xs = done_upto (Suc i) f xs"
  by (rule nth_equalityI) (auto simp: less_Suc_eq)

lemma done_upto_all: "done_upto (length xs) f xs = map f [0..<length xs]"
  by (rule nth_equalityI) auto

definition turned :: "action list \<Rightarrow> snake list \<Rightarrow> nat \<Rightarrow> snake" where
  "turned actions ss i = (if dead (ss ! i) then ss ! i else turn_snake (actions ! i) (ss ! i))"

lemma actions_loop:
  assumes "length actions = length (snakes M)"
  shows "foldM (\<lambda>i. execute_action actions (int i)) [0..<length (snakes M)] M =
    Inr (M\<lparr>snakes := map (turned actions (snakes M)) [0..<length (snakes M)]\<rparr>)"
proof -
  define S where "S = snakes M"
  have "returns (foldM (\<lambda>i. execute_action actions (int i)) [0..<length S] M)
      ((\<lambda>i M'. M' = M\<lparr>snakes := done_upto i (turned actions S) S\<rparr>) (length S))"
  proof (rule returns_foldM_upt)
    fix i M' assume i: "i < length S" "M' = M\<lparr>snakes := done_upto i (turned actions S) S\<rparr>"
    show "returns (execute_action actions (int i) M')
        (\<lambda>M'. M' = M\<lparr>snakes := done_upto (Suc i) (turned actions S) S\<rparr>)"
    proof (cases "dead (S ! i)")
      case True
      then have "done_upto i (turned actions S) S = done_upto (Suc i) (turned actions S) S"
        using i by (intro done_upto_skip) (simp_all add: turned_def)
      moreover have "execute_action actions (int i) M' = Inr M'"
        using i True by (simp add: execute_action_def)
      ultimately show ?thesis using i by simp
    next
      case False
      then have "turn_snake (actions ! i) (S ! i) = turned actions S i" by (simp add: turned_def)
      then show ?thesis
        using i False assms by (simp add: execute_action_def S_def done_upto_update)
    qed
  qed (simp add: S_def)
  then show ?thesis by (simp add: returns_iff done_upto_all S_def)
qed

definition slide :: "snake \<Rightarrow> snake" where
  "slide s = (if dead s then s
     else s\<lparr>recently_removed_point := Some (last (points s)),
            points := point_add (hd (points s)) (direction s) # butlast (points s)\<rparr>)"

lemma dead_slide [simp]: "dead (slide s) = dead s"
  by (simp add: slide_def)

lemma slide_turned: "i < length ss \<Longrightarrow> slide (turned actions ss i) = advance (actions ! i) (ss ! i)"
  by (simp add: slide_def turned_def advance_def Let_def)

lemma process_move_live:
  assumes "i < length (snakes M)" "\<not> dead (snakes M ! i)" "points (snakes M ! i) \<noteq> []"
    "grid_wf (board M)" "Inside (board M) (last (points (snakes M ! i)))"
  shows "process_move (int i) M = Inr (M\<lparr>
    board := cell_update (board M) (last (points (snakes M ! i))) kEmpty,
    snakes := (snakes M)[i := slide (snakes M ! i)]\<rparr>)"
  using assms by (simp add: process_move_def ShortenTail_def slide_def grid_set_inside)

lemma moves_loop:
  assumes "grid_wf (board M)"
    and "\<And>i. i < length (snakes M) \<Longrightarrow> \<not> dead (snakes M ! i) \<Longrightarrow>
      points (snakes M ! i) \<noteq> [] \<and> Inside (board M) (last (points (snakes M ! i)))"
  shows "returns (foldM (\<lambda>i. process_move (int i)) [0..<length (snakes M)] M) (\<lambda>M'.
    \<exists>b. M' = M\<lparr>snakes := map (\<lambda>i. slide (snakes M ! i)) [0..<length (snakes M)], board := b\<rparr> \<and>
      grid_wf b \<and> Inside b = Inside (board M) \<and>
      (\<forall>q. Inside (board M) q \<longrightarrow> cell b q =
         (if q \<in> set (vacated (snakes M)) then kEmpty else cell (board M) q)))"
proof -
  define S where "S = snakes M"
  define I where "I i M' \<longleftrightarrow> (\<exists>b. M' = M\<lparr>snakes := done_upto i (\<lambda>i. slide (S ! i)) S, board := b\<rparr> \<and>
      grid_wf b \<and> Inside b = Inside (board M) \<and>
      (\<forall>q. Inside (board M) q \<longrightarrow> cell b q =
         (if \<exists>j < i. \<not> dead (S ! j) \<and> q = last (points (S ! j)) then kEmpty else cell (board M) q)))"
    for i M'
  have "returns (foldM (\<lambda>i. process_move (int i)) [0..<length S] M) (I (length S))"
  proof (rule returns_foldM_upt)
    fix i M' assume i: "i < length S" and M': "I i M'"
    then obtain b where b: "M' = M\<lparr>snakes := done_upto i (\<lambda>i. slide (S ! i)) S, board := b\<rparr>"
      "grid_wf b" "Inside b = Inside (board M)"
      "\<forall>q. Inside (board M) q \<longrightarrow> cell b q =
         (if \<exists>j < i. \<not> dead (S ! j) \<and> q = last (points (S ! j)) then kEmpty else cell (board M) q)"
      by (auto simp: I_def)
    show "returns (process_move (int i) M') (I (Suc i))"
    proof (cases "dead (S ! i)")
      case True
      then have "done_upto i (\<lambda>i. slide (S ! i)) S = done_upto (Suc i) (\<lambda>i. slide (S ! i)) S"
        using i by (intro done_upto_skip) (auto simp: slide_def)
      moreover have "process_move (int i) M' = Inr M'"
        using True b(1) i by (simp add: process_move_def)
      ultimately show ?thesis
        using True b by (simp add: I_def less_Suc_eq) (intro exI[of _ b], auto)
    next
      case False
      define t where "t = last (points (S ! i))"
      have t: "points (S ! i) \<noteq> []" "Inside (board M) t"
        using assms(2)[of i] i False by (auto simp: S_def t_def)
      have "process_move (int i) M' = Inr (M\<lparr>snakes := done_upto (Suc i) (\<lambda>i. slide (S ! i)) S,
          board := cell_update b t kEmpty\<rparr>)"
        using process_move_live[of i M'] i b t False
          done_upto_update[of i S "\<lambda>i. slide (S ! i)"] by (simp add: t_def)
      moreover have "I (Suc i) (M\<lparr>snakes := done_upto (Suc i) (\<lambda>i. slide (S ! i)) S,
          board := cell_update b t kEmpty\<rparr>)"
        unfolding I_def
      proof (intro exI[of _ "cell_update b t kEmpty"] conjI allI impI)
        show "grid_wf (cell_update b t kEmpty)" using b(2,3) t(2) by (simp add: grid_wf_cell_update)
        show "Inside (cell_update b t kEmpty) = Inside (board M)" using b(3) by auto
        fix q assume q: "Inside (board M) q"
        show "cell (cell_update b t kEmpty) q =
            (if \<exists>j < Suc i. \<not> dead (S ! j) \<and> q = last (points (S ! j)) then kEmpty else cell (board M) q)"
          using b(2-4) t(2) q False by (auto simp: cell_cell_update less_Suc_eq t_def)
      qed simp
      ultimately show ?thesis by simp
    qed
  qed (use assms(1) in \<open>simp add: I_def S_def exI[of _ "board M"]\<close>)
  then show ?thesis
    unfolding S_def[symmetric] by (auto simp: I_def done_upto_all set_vacated returns_iff)
qed

section \<open>Collisions\<close>

text \<open>No apple is ever placed on the board; then erasing a body frees its cells.\<close>

definition no_apples :: "int grid \<Rightarrow> bool" where
  "no_apples b = (\<forall>q. Inside b q \<longrightarrow> cell b q \<noteq> kApple)"

lemma kApple_kEmpty [simp]: "kApple \<noteq> kEmpty" "kEmpty \<noteq> kApple" "int i \<noteq> kApple" "int i \<noteq> kEmpty"
  by (simp_all add: kApple_def kEmpty_def)

lemma erase_points:
  assumes "grid_wf b" "no_apples b"
  shows "\<exists>b'. foldM erase_point ps b = Inr b' \<and> grid_wf b' \<and> Inside b' = Inside b \<and>
    (\<forall>q. Inside b q \<longrightarrow> cell b' q = (if q \<in> set ps then kEmpty else cell b q))"
  using assms
proof (induction ps arbitrary: b)
  case (Cons p ps)
  show ?case
  proof (cases "Inside b p")
    case True
    define b1 where "b1 = cell_update b p kEmpty"
    have "erase_point p b = Inr b1"
      using True Cons.prems by (simp add: erase_point_def grid_at_inside grid_set_inside no_apples_def b1_def)
    moreover have b1: "grid_wf b1" "Inside b1 = Inside b"
      using True Cons.prems by (auto simp: b1_def grid_wf_cell_update)
    moreover have c1: "cell b1 q = (if q = p then kEmpty else cell b q)" if "Inside b q" for q
      using True Cons.prems that by (auto simp: b1_def cell_cell_update)
    moreover have "no_apples b1" using c1 b1 Cons.prems(2) by (auto simp: no_apples_def)
    ultimately show ?thesis using Cons.IH[of b1] by (auto simp: c1)
  next
    case False
    then have "erase_point p b = Inr b" by (simp add: erase_point_def)
    then show ?thesis using Cons.IH[OF Cons.prems] False by auto
  qed
qed simp

text \<open>The match during the collision loop, after the deaths \<open>ks\<close>.\<close>

definition killed_state :: "snake_match \<Rightarrow> nat list \<Rightarrow> snake_match \<Rightarrow> bool" where
  "killed_state M1 ks M = (\<exists>b.
     M = M1\<lparr>snakes := kill_all ks (snakes M1), board := b,
            events := events M1 @ map death_event ks\<rparr> \<and>
     grid_wf b \<and> Inside b = Inside (board M1) \<and>
     (\<forall>q. Inside (board M1) q \<longrightarrow> cell b q =
        (if \<exists>k \<in> set ks. q \<in> set (points (snakes M1 ! k)) then kEmpty else cell (board M1) q)))"

lemma killed_state_start: "grid_wf (board M) \<Longrightarrow> killed_state M [] M"
  by (simp add: killed_state_def exI[of _ "board M"])

lemma KillSnake_step:
  assumes "killed_state M1 ks M" "no_apples (board M1)" "k < length (snakes M1)"
  shows "returns (KillSnake (int k) M) (killed_state M1 (ks @ [k]))"
proof -
  obtain b where b: "M = M1\<lparr>snakes := kill_all ks (snakes M1), board := b,
      events := events M1 @ map death_event ks\<rparr>" "grid_wf b" "Inside b = Inside (board M1)"
    "\<forall>q. Inside (board M1) q \<longrightarrow> cell b q =
        (if \<exists>k \<in> set ks. q \<in> set (points (snakes M1 ! k)) then kEmpty else cell (board M1) q)"
    using assms(1) by (auto simp: killed_state_def)
  define ps where "ps = points (snakes M1 ! k)"
  have ps: "points (kill_all ks (snakes M1) ! k) = ps" using assms(3) by (simp add: ps_def)
  have "no_apples b" using b(3,4) assms(2) by (auto simp: no_apples_def)
  then obtain b' where b': "foldM erase_point ps b = Inr b'" "grid_wf b'" "Inside b' = Inside b"
    "\<forall>q. Inside b q \<longrightarrow> cell b' q = (if q \<in> set ps then kEmpty else cell b q)"
    using erase_points[OF b(2)] by blast
  have "KillSnake (int k) M = Inr (M1\<lparr>snakes := kill_all (ks @ [k]) (snakes M1), board := b',
      events := events M1 @ map death_event (ks @ [k])\<rparr>)"
    using b(1) b'(1) assms(3) ps
    by (simp add: KillSnake_def MakeDeath_eq kill_all_snoc del: nth_kill_all)
  moreover have "killed_state M1 (ks @ [k]) (M1\<lparr>snakes := kill_all (ks @ [k]) (snakes M1), board := b',
      events := events M1 @ map death_event (ks @ [k])\<rparr>)"
    unfolding killed_state_def using b b' by (intro exI[of _ b']) (auto simp: ps_def)
  ultimately show ?thesis by simp
qed

lemma KillSnake_list:
  assumes "killed_state M1 ks M" "no_apples (board M1)" "set hs \<subseteq> {..<length (snakes M1)}"
  shows "returns (foldM KillSnake (map int hs) M) (killed_state M1 (ks @ hs))"
  using assms
proof (induction hs arbitrary: ks M)
  case (Cons h hs)
  then have "returns (KillSnake (int h) M) (killed_state M1 (ks @ [h]))"
    by (intro KillSnake_step) auto
  then obtain M' where M': "KillSnake (int h) M = Inr M'" "killed_state M1 (ks @ [h]) M'"
    by (auto simp: returns_iff)
  then show ?case using Cons.IH[OF M'(2)] Cons.prems by simp
qed simp

lemma same_heads_eq:
  assumes "num_players M = int (length (snakes M))" "\<forall>s \<in> set (snakes M). points s \<noteq> []"
  shows "same_heads q M = Inr (map int (filter (\<lambda>h. \<not> dead (snakes M ! h) \<and>
    hd (points (snakes M ! h)) = q) [0..<length (snakes M)]))"
proof -
  define n where "n = length (snakes M)"
  define P where "P h \<longleftrightarrow> \<not> dead (snakes M ! h) \<and> hd (points (snakes M ! h)) = q" for h
  have "foldM (\<lambda>i hs. bnd (vec_at (snakes M) (int i)) (\<lambda>s. if dead s then Inr hs
      else bnd (deque_front (points s)) (\<lambda>q'. Inr (if q' = q then hs @ [int i] else hs))))
      [0..<k] [] = Inr (map int (filter P [0..<k]))" if "k \<le> n" for k
    using that
  proof (induction k)
    case (Suc k)
    then have "points (snakes M ! k) \<noteq> []" using assms(2) by (simp add: n_def)
    then show ?case using Suc by (auto simp: foldM_append P_def n_def)
  qed simp
  then show ?thesis
    using assms(1) by (simp add: same_heads_def foldM_counters n_def P_def[abs_def])
qed

lemma hits_something_eq:
  assumes "killed_state M1 ks M" "no_apples (board M1)"
  shows "hits_something (board M) q = Inr (\<not> Inside (board M1) q \<or>
    (cell (board M1) q \<noteq> kEmpty \<and> (\<forall>k \<in> set ks. q \<notin> set (points (snakes M1 ! k)))))"
proof -
  obtain b where "board M = b" "grid_wf b" "Inside b = Inside (board M1)"
    "\<forall>q. Inside (board M1) q \<longrightarrow> cell b q =
        (if \<exists>k \<in> set ks. q \<in> set (points (snakes M1 ! k)) then kEmpty else cell (board M1) q)"
    using assms(1) by (auto simp: killed_state_def)
  then show ?thesis
    using assms(2) by (auto simp: hits_something_def grid_at_inside no_apples_def)
qed

text \<open>One check of the code is one step of the specification.\<close>

lemma check_collision_step:
  assumes st: "killed_state M1 ks M" and na: "no_apples (board M1)" and p: "p < length (snakes M1)"
    and n: "num_players M1 = int (length (snakes M1))" and ne: "\<forall>s \<in> set (snakes M1). points s \<noteq> []"
  shows "returns (check_collision (int p) M)
    (killed_state M1 (collide (Inside (board M1)) (cell (board M1)) (snakes M1) p ks))"
proof (cases "dead (snakes M1 ! p) \<or> p \<in> set ks")
  case True
  have "check_collision (int p) M = Inr M"
    using True st p by (auto simp: check_collision_def killed_state_def)
  then show ?thesis using True st by (simp add: collide_def)
next
  case False
  define q where "q = hd (points (snakes M1 ! p))"
  define hit where "hit \<longleftrightarrow> \<not> Inside (board M1) q \<or>
    (cell (board M1) q \<noteq> kEmpty \<and> (\<forall>k \<in> set ks. q \<notin> set (points (snakes M1 ! k))))"
  define ks1 where "ks1 = (if hit then ks @ [p] else ks)"
  define hs where "hs = filter (\<lambda>h. \<not> dead (snakes M1 ! h) \<and> h \<notin> set ks1 \<and>
    hd (points (snakes M1 ! h)) = q) [0..<length (snakes M1)]"
  have sM: "snakes M = kill_all ks (snakes M1)" using st by (auto simp: killed_state_def)
  have pne: "points (snakes M1 ! p) \<noteq> []" using ne p by simp
  have "returns (if hit then KillSnake (int p) M else Inr M) (killed_state M1 ks1)"
    using KillSnake_step[OF st na p] st by (simp add: ks1_def)
  then obtain M2 where M2: "(if hit then KillSnake (int p) M else Inr M) = Inr M2"
      "killed_state M1 ks1 M2"
    by (auto simp: returns_iff)
  have s2: "snakes M2 = kill_all ks1 (snakes M1)" "num_players M2 = num_players M1"
    using M2(2) by (auto simp: killed_state_def)
  have "same_heads q M2 = Inr (map int (filter (\<lambda>h. \<not> dead (snakes M2 ! h) \<and>
      hd (points (snakes M2 ! h)) = q) [0..<length (snakes M2)]))"
    using s2 n ne by (intro same_heads_eq) (auto simp: kill_all_def)
  also have "filter (\<lambda>h. \<not> dead (snakes M2 ! h) \<and> hd (points (snakes M2 ! h)) = q)
      [0..<length (snakes M2)] = hs"
    unfolding hs_def using s2 by (intro filter_cong) auto
  finally have sh: "same_heads q M2 = Inr (map int hs)" .
  have "check_collision (int p) M =
      (if length hs > 1 then foldM KillSnake (map int hs) M2 else Inr M2)"
    using False p pne M2(1) sh hits_something_eq[OF st na]
    by (simp add: check_collision_def sM q_def hit_def)
  moreover have "collide (Inside (board M1)) (cell (board M1)) (snakes M1) p ks =
      (if length hs > 1 then ks1 @ hs else ks1)"
    using False by (simp add: collide_def q_def hit_def ks1_def hs_def Let_def)
  moreover have "set hs \<subseteq> {..<length (snakes M1)}" by (auto simp: hs_def)
  ultimately show ?thesis using KillSnake_list[OF M2(2) na] M2(2) by simp
qed

lemma collisions_loop:
  assumes "grid_wf (board M)" "no_apples (board M)" "num_players M = int (length (snakes M))"
    "\<forall>s \<in> set (snakes M). points s \<noteq> []"
  shows "returns (foldM (\<lambda>i. check_collision (int i)) [0..<length (snakes M)] M)
    (killed_state M (deaths (Inside (board M)) (cell (board M)) (snakes M) (length (snakes M))))"
proof -
  have "returns (foldM (\<lambda>i. check_collision (int i)) [0..<length (snakes M)] M)
    ((\<lambda>i. killed_state M (deaths (Inside (board M)) (cell (board M)) (snakes M) i)) (length (snakes M)))"
  proof (rule returns_foldM_upt)
    fix i M' assume "i < length (snakes M)"
      "killed_state M (deaths (Inside (board M)) (cell (board M)) (snakes M) i) M'"
    then show "returns (check_collision (int i) M')
        (killed_state M (deaths (Inside (board M)) (cell (board M)) (snakes M) (Suc i)))"
      using check_collision_step[OF _ assms(2) _ assms(3,4)] by (simp add: deaths_def)
  qed (use assms in \<open>simp add: deaths_def killed_state_start\<close>)
  then show ?thesis .
qed

section \<open>Who dies\<close>

lemma collide_mono: "set ks \<subseteq> set (collide ins field ss p ks)"
  by (auto simp: collide_def Let_def)

lemma collide_wf:
  assumes "distinct ks" "\<forall>k \<in> set ks. k < length ss \<and> \<not> dead (ss ! k)" "p < length ss"
  shows "distinct (collide ins field ss p ks) \<and>
    (\<forall>k \<in> set (collide ins field ss p ks). k < length ss \<and> \<not> dead (ss ! k))"
  using assms by (auto simp: collide_def Let_def)

lemma length_filter_upt: "length (filter P [0..<n]) = card {i. i < n \<and> P i}"
  using distinct_card[of "filter P [0..<n]"] by simp

lemma two_in_filter:
  assumes "a \<noteq> b" "a < n" "b < n" "P a" "P b"
  shows "1 < length (filter P [0..<n])"
proof -
  have "card {a, b} \<le> card {i. i < n \<and> P i}"
    using assms by (intro card_mono) auto
  then show ?thesis using assms(1) by (simp add: length_filter_upt)
qed

lemma collide_survivor:
  assumes "p < length ss" "\<not> dead (ss ! p)" "p \<notin> set (collide ins field ss p ks)"
  shows "ins (hd (points (ss ! p)))"
    and "field (hd (points (ss ! p))) = kEmpty \<or>
      (\<exists>k \<in> set (collide ins field ss p ks). hd (points (ss ! p)) \<in> set (points (ss ! k)))"
    and "h < length ss \<Longrightarrow> \<not> dead (ss ! h) \<Longrightarrow> h \<noteq> p \<Longrightarrow>
      hd (points (ss ! h)) = hd (points (ss ! p)) \<Longrightarrow> h \<in> set (collide ins field ss p ks)"
proof -
  define q where "q = hd (points (ss ! p))"
  define hs where "hs = filter (\<lambda>h. \<not> dead (ss ! h) \<and> h \<notin> set ks \<and> hd (points (ss ! h)) = q)
    [0..<length ss]"
  have pk: "p \<notin> set ks" using assms(3) collide_mono by blast
  have nohit: "ins q \<and> (field q = kEmpty \<or> (\<exists>k \<in> set ks. q \<in> set (points (ss ! k))))"
    using assms pk by (auto simp: collide_def Let_def q_def split: if_splits)
  then show "ins (hd (points (ss ! p)))" by (simp add: q_def)
  have c: "collide ins field ss p ks = (if length hs > 1 then ks @ hs else ks)"
    using nohit pk assms(2) by (auto simp: collide_def Let_def hs_def q_def)
  show "field (hd (points (ss ! p))) = kEmpty \<or>
      (\<exists>k \<in> set (collide ins field ss p ks). hd (points (ss ! p)) \<in> set (points (ss ! k)))"
    using nohit collide_mono[of ks ins field ss p] by (auto simp: q_def)
  have "p \<in> set hs" using assms(1,2) pk by (simp add: hs_def q_def)
  then have l: "\<not> 1 < length hs" using assms(3) c by auto
  assume h: "h < length ss" "\<not> dead (ss ! h)" "h \<noteq> p" "hd (points (ss ! h)) = hd (points (ss ! p))"
  show "h \<in> set (collide ins field ss p ks)"
  proof (rule ccontr)
    assume "h \<notin> set (collide ins field ss p ks)"
    then have "h \<notin> set ks" using collide_mono by blast
    then have "1 < length hs"
      unfolding hs_def using two_in_filter[OF h(3)] h assms(1,2) pk by (simp add: q_def)
    then show False using l by simp
  qed
qed

lemma deaths_Suc: "deaths ins field ss (Suc n) = collide ins field ss n (deaths ins field ss n)"
  by (simp add: deaths_def)

lemma deaths_mono: "m \<le> n \<Longrightarrow> set (deaths ins field ss m) \<subseteq> set (deaths ins field ss n)"
  by (induction n) (auto simp: deaths_Suc le_Suc_eq dest: subsetD[OF collide_mono])

lemma deaths_wf:
  "n \<le> length ss \<Longrightarrow> distinct (deaths ins field ss n) \<and>
     (\<forall>k \<in> set (deaths ins field ss n). k < length ss \<and> \<not> dead (ss ! k))"
proof (induction n)
  case (Suc n)
  then show ?case using collide_wf[of "deaths ins field ss n" ss n] by (simp add: deaths_Suc)
qed (simp add: deaths_def)

lemma deaths_survivor:
  assumes "p < length ss" "\<not> dead (ss ! p)" "p \<notin> set (deaths ins field ss (length ss))"
  shows "ins (hd (points (ss ! p)))"
    and "field (hd (points (ss ! p))) = kEmpty \<or>
      (\<exists>k \<in> set (deaths ins field ss (length ss)). hd (points (ss ! p)) \<in> set (points (ss ! k)))"
    and "h < length ss \<Longrightarrow> \<not> dead (ss ! h) \<Longrightarrow> h \<noteq> p \<Longrightarrow>
      hd (points (ss ! h)) = hd (points (ss ! p)) \<Longrightarrow> h \<in> set (deaths ins field ss (length ss))"
proof -
  have sub: "set (collide ins field ss p (deaths ins field ss p)) \<subseteq> set (deaths ins field ss (length ss))"
    using deaths_mono[of "Suc p" "length ss" ins field ss] assms(1) by (simp add: deaths_Suc)
  then have np: "p \<notin> set (collide ins field ss p (deaths ins field ss p))" using assms(3) by blast
  note C = collide_survivor[OF assms(1,2) np]
  show "ins (hd (points (ss ! p)))" by (rule C(1))
  show "field (hd (points (ss ! p))) = kEmpty \<or>
      (\<exists>k \<in> set (deaths ins field ss (length ss)). hd (points (ss ! p)) \<in> set (points (ss ! k)))"
    using C(2) sub by blast
  show "h \<in> set (deaths ins field ss (length ss))" if "h < length ss" "\<not> dead (ss ! h)" "h \<noteq> p"
      "hd (points (ss ! h)) = hd (points (ss ! p))"
    using C(3)[OF that] sub by blast
qed

text \<open>A head on a free cell that no other live head reaches is safe.\<close>

lemma deaths_safe:
  assumes "p < length ss" "\<not> dead (ss ! p)" "n \<le> length ss"
    and safe: "ins (hd (points (ss ! p)))" "field (hd (points (ss ! p))) = kEmpty"
    and alone: "\<And>h. h < length ss \<Longrightarrow> \<not> dead (ss ! h) \<Longrightarrow> h \<noteq> p \<Longrightarrow>
      hd (points (ss ! h)) \<noteq> hd (points (ss ! p))"
  shows "p \<notin> set (deaths ins field ss n)"
  using assms(3)
proof (induction n)
  case (Suc n)
  then have IH: "p \<notin> set (deaths ins field ss n)" by simp
  show ?case
  proof
    assume "p \<in> set (deaths ins field ss (Suc n))"
    then have in_c: "p \<in> set (collide ins field ss n (deaths ins field ss n))" by (simp add: deaths_Suc)
    show False
    proof (cases "n = p")
      case True
      define hs where "hs = filter (\<lambda>h. \<not> dead (ss ! h) \<and> h \<notin> set (deaths ins field ss n) \<and>
        hd (points (ss ! h)) = hd (points (ss ! p))) [0..<length ss]"
      have "length hs \<le> card {p}"
        unfolding hs_def length_filter_upt using alone by (intro card_mono) auto
      then show False using in_c IH True safe assms(2) by (auto simp: collide_def Let_def hs_def)
    next
      case False
      then have "hd (points (ss ! p)) \<noteq> hd (points (ss ! n)) \<or> dead (ss ! n)"
        using alone[of n] Suc.prems False by (cases "dead (ss ! n)") auto
      then show False using in_c IH False by (auto simp: collide_def Let_def split: if_splits)
    qed
  qed
qed (simp add: deaths_def)

text \<open>A head off the board, or one that meets another live head on a free cell, is fatal.\<close>

lemma deaths_outside:
  "p < length ss \<Longrightarrow> \<not> dead (ss ! p) \<Longrightarrow> \<not> ins (hd (points (ss ! p))) \<Longrightarrow>
    p \<in> set (deaths ins field ss (length ss))"
  using deaths_survivor(1)[of p ss ins field] by blast

section \<open>The turn\<close>

lemma apples_loop:
  assumes "no_apples (board M)" "grid_wf (board M)"
    "\<And>i. i < length (snakes M) \<Longrightarrow> \<not> dead (snakes M ! i) \<Longrightarrow>
       points (snakes M ! i) \<noteq> [] \<and> Inside (board M) (hd (points (snakes M ! i)))"
  shows "n \<le> length (snakes M) \<Longrightarrow> foldM (\<lambda>i. check_apple (int i)) [0..<n] M = Inr M"
proof (induction n)
  case (Suc n)
  have "check_apple (int n) M = Inr M"
    using assms(1,2) assms(3)[of n] Suc.prems
    by (cases "dead (snakes M ! n)") (auto simp: check_apple_def grid_at_inside no_apples_def)
  then show ?case using Suc by (simp add: foldM_append)
qed simp

lemma marks_loop:
  assumes wf: "grid_wf (board M)"
    and hd: "\<And>i. i < length (snakes M) \<Longrightarrow> \<not> dead (snakes M ! i) \<Longrightarrow>
       points (snakes M ! i) \<noteq> [] \<and> Inside (board M) (hd (points (snakes M ! i)))"
    and inj: "\<And>i j. i < length (snakes M) \<Longrightarrow> j < length (snakes M) \<Longrightarrow> \<not> dead (snakes M ! i) \<Longrightarrow>
       \<not> dead (snakes M ! j) \<Longrightarrow> hd (points (snakes M ! i)) = hd (points (snakes M ! j)) \<Longrightarrow> i = j"
  shows "returns (foldM (\<lambda>i. mark_head (int i)) [0..<length (snakes M)] M) (\<lambda>M'.
    \<exists>b. M' = M\<lparr>board := b\<rparr> \<and> grid_wf b \<and> Inside b = Inside (board M) \<and>
      (\<forall>i < length (snakes M). \<not> dead (snakes M ! i) \<longrightarrow>
         cell b (hd (points (snakes M ! i))) = sid (snakes M ! i)) \<and>
      (\<forall>q. Inside (board M) q \<longrightarrow>
         (\<forall>i < length (snakes M). \<not> dead (snakes M ! i) \<longrightarrow> hd (points (snakes M ! i)) \<noteq> q) \<longrightarrow>
         cell b q = cell (board M) q))"
proof -
  define S where "S = snakes M"
  define I where "I n M' \<longleftrightarrow> (\<exists>b. M' = M\<lparr>board := b\<rparr> \<and> grid_wf b \<and> Inside b = Inside (board M) \<and>
      (\<forall>i < n. \<not> dead (S ! i) \<longrightarrow> cell b (hd (points (S ! i))) = sid (S ! i)) \<and>
      (\<forall>q. Inside (board M) q \<longrightarrow> (\<forall>i < n. \<not> dead (S ! i) \<longrightarrow> hd (points (S ! i)) \<noteq> q) \<longrightarrow>
         cell b q = cell (board M) q))" for n M'
  have "returns (foldM (\<lambda>i. mark_head (int i)) [0..<length S] M) (I (length S))"
  proof (rule returns_foldM_upt)
    fix n M' assume n: "n < length S" and "I n M'"
    then obtain b where b: "M' = M\<lparr>board := b\<rparr>" "grid_wf b" "Inside b = Inside (board M)"
      "\<forall>i < n. \<not> dead (S ! i) \<longrightarrow> cell b (hd (points (S ! i))) = sid (S ! i)"
      "\<forall>q. Inside (board M) q \<longrightarrow> (\<forall>i < n. \<not> dead (S ! i) \<longrightarrow> hd (points (S ! i)) \<noteq> q) \<longrightarrow>
         cell b q = cell (board M) q"
      unfolding I_def by blast
    show "returns (mark_head (int n) M') (I (Suc n))"
    proof (cases "dead (S ! n)")
      case True
      then have "mark_head (int n) M' = Inr M'" using b(1) n by (simp add: mark_head_def S_def)
      moreover have "I (Suc n) M'" unfolding I_def using b True by (intro exI[of _ b]) (auto simp: less_Suc_eq)
      ultimately show ?thesis by simp
    next
      case False
      define h where "h = hd (points (S ! n))"
      have h: "points (S ! n) \<noteq> []" "Inside (board M) h"
        using hd[of n] n False by (auto simp: S_def h_def)
      define b' where "b' = cell_update b h (sid (S ! n))"
      have "mark_head (int n) M' = Inr (M\<lparr>board := b'\<rparr>)"
        using b(1-3) n False h by (simp add: mark_head_def S_def h_def b'_def grid_set_inside)
      moreover have "I (Suc n) (M\<lparr>board := b'\<rparr>)"
        unfolding I_def
      proof (intro exI[of _ b'] conjI allI impI)
        show "grid_wf b'" "Inside b' = Inside (board M)"
          using b(2,3) h(2) by (auto simp: b'_def grid_wf_cell_update)
        have upd: "cell b' q = (if q = h then sid (S ! n) else cell b q)" if "Inside (board M) q" for q
          using b(2,3) h(2) that by (auto simp: b'_def cell_cell_update)
        show "cell b' (hd (points (S ! i))) = sid (S ! i)" if "i < Suc n" "\<not> dead (S ! i)" for i
          using that n hd[of i] b(4) upd inj[of i n] False by (auto simp: S_def h_def less_Suc_eq)
        show "cell b' q = cell (board M) q"
          if "Inside (board M) q" "\<forall>i < Suc n. \<not> dead (S ! i) \<longrightarrow> hd (points (S ! i)) \<noteq> q" for q
          using that b(5) upd False by (auto simp: h_def)
      qed simp
      ultimately show ?thesis by simp
    qed
  qed (use wf in \<open>simp add: I_def exI[of _ "board M"]\<close>)
  then show ?thesis unfolding S_def[symmetric] I_def .
qed

lemma deaths_cong:
  assumes "\<And>q. ins q \<Longrightarrow> f q = g q"
  shows "deaths ins f ss n = deaths ins g ss n"
proof -
  have "collide ins f ss = collide ins g ss"
    using assms by (intro ext) (auto simp: collide_def Let_def)
  then show ?thesis by (simp add: deaths_def)
qed

lemma match_inv_no_apples: "match_inv n M \<Longrightarrow> no_apples (board M)"
  unfolding match_inv_def no_apples_def using kApple_kEmpty by metis

lemma match_inv_points:
  "match_inv n M \<Longrightarrow> i < length (snakes M) \<Longrightarrow> points (snakes M ! i) \<noteq> []"
  by (auto simp: match_inv_def snake_ok_def)

lemma moved_eq:
  "map (\<lambda>i. slide (map (turned actions ss) [0..<length ss] ! i)) [0..<length ss] = moved actions ss"
  by (rule nth_equalityI) (auto simp: slide_turned)

lemma vacated_turned: "vacated (map (turned actions ss) [0..<length ss]) = vacated ss"
proof -
  have *: "vacated (map f xs) = vacated (map g xs)"
    if "\<And>i. i \<in> set xs \<Longrightarrow> dead (f i) = dead (g i) \<and> points (f i) = points (g i)" for f g and xs :: "nat list"
    using that by (induction xs) (auto simp: vacated_def)
  have "vacated (map (turned actions ss) [0..<length ss]) = vacated (map ((!) ss) [0..<length ss])"
    by (rule *) (simp add: turned_def)
  then show ?thesis by (simp add: map_nth)
qed

text \<open>The first two loops.\<close>

lemma advance_phase:
  assumes inv: "match_inv n M" and len: "length actions = length (snakes M)"
  shows "\<exists>b. bnd (foldM (execute_action actions) (counters (num_players M)) (M\<lparr>events := []\<rparr>))
      (\<lambda>M. foldM process_move (snake_indices M) M) =
      Inr (M\<lparr>events := [], snakes := moved actions (snakes M), board := b\<rparr>) \<and>
    grid_wf b \<and> Inside b = Inside (board M) \<and> (\<forall>q. Inside (board M) q \<longrightarrow> cell b q = free_tails M q)"
proof -
  define S where "S = snakes M"
  define M1 where "M1 = M\<lparr>events := [], snakes := map (turned actions S) [0..<length S]\<rparr>"
  have np: "num_players M = int (length S)" using inv by (simp add: match_inv_def S_def)
  have 1: "foldM (execute_action actions) (counters (num_players M)) (M\<lparr>events := []\<rparr>) = Inr M1"
    using actions_loop[of actions "M\<lparr>events := []\<rparr>"] len np
    by (simp add: foldM_counters M1_def S_def)
  have "points (snakes M1 ! i) \<noteq> [] \<and> Inside (board M1) (last (points (snakes M1 ! i)))"
    if "i < length (snakes M1)" "\<not> dead (snakes M1 ! i)" for i
  proof -
    have i: "i < length (snakes M)" "\<not> dead (snakes M ! i)" "points (snakes M1 ! i) = points (snakes M ! i)"
      using that by (auto simp: M1_def S_def turned_def split: if_splits)
    have "points (snakes M ! i) \<noteq> []" by (rule match_inv_points[OF inv i(1)])
    then show ?thesis using i inv by (auto simp: M1_def match_inv_def)
  qed
  from moves_loop[of M1, OF _ this] inv
  obtain b where b: "foldM (\<lambda>i. process_move (int i)) [0..<length S] M1 =
      Inr (M1\<lparr>snakes := map (\<lambda>i. slide (snakes M1 ! i)) [0..<length S], board := b\<rparr>)"
    "grid_wf b" "Inside b = Inside (board M)"
    "\<forall>q. Inside (board M) q \<longrightarrow> cell b q =
         (if q \<in> set (vacated (snakes M1)) then kEmpty else cell (board M) q)"
    by (auto simp: M1_def match_inv_def returns_iff)
  have m: "map (\<lambda>i. slide (snakes M1 ! i)) [0..<length S] = moved actions S"
    using moved_eq[of actions S] by (simp add: M1_def)
  have "foldM process_move (snake_indices M1) M1 =
      Inr (M\<lparr>events := [], snakes := moved actions S, board := b\<rparr>)"
    using b(1) unfolding m by (simp add: snake_indices_def foldM_counters M1_def)
  moreover have "vacated (snakes M1) = vacated S" by (simp add: M1_def vacated_turned)
  ultimately show ?thesis
    using 1 b by (intro exI[of _ b]) (simp add: free_tails_def S_def)
qed

lemma ProcessTurn_spec:
  assumes inv: "match_inv n M" and len: "length actions = length (snakes M)"
  defines "ks \<equiv> turn_deaths actions M" and "ms \<equiv> moved actions (snakes M)"
  shows "\<exists>b. ProcessTurn actions M = Inr (M\<lparr>snakes := kill_all ks ms, board := b,
      events := map death_event ks, current_turn := current_turn M + 1\<rparr>) \<and>
    grid_wf b \<and> Inside b = Inside (board M) \<and>
    (\<forall>i < length ms. \<not> dead (ms ! i) \<longrightarrow> i \<notin> set ks \<longrightarrow> cell b (hd (points (ms ! i))) = int i) \<and>
    (\<forall>q. Inside (board M) q \<longrightarrow>
       (\<forall>i < length ms. \<not> dead (ms ! i) \<longrightarrow> i \<notin> set ks \<longrightarrow> hd (points (ms ! i)) \<noteq> q) \<longrightarrow>
       cell b q = (if \<exists>k \<in> set ks. q \<in> set (points (ms ! k)) then kEmpty else free_tails M q))"
proof -
  have np: "num_players M = int (length ms)" using inv by (simp add: match_inv_def ms_def)
  have lm: "length ms = length (snakes M)" by (simp add: ms_def)
  obtain b where b: "bnd (foldM (execute_action actions) (counters (num_players M)) (M\<lparr>events := []\<rparr>))
      (\<lambda>M. foldM process_move (snake_indices M) M) = Inr (M\<lparr>events := [], snakes := ms, board := b\<rparr>)"
    "grid_wf b" "Inside b = Inside (board M)"
    "\<forall>q. Inside (board M) q \<longrightarrow> cell b q = free_tails M q"
    using advance_phase[OF inv len] unfolding ms_def by blast
  define M1 where "M1 = M\<lparr>events := [], snakes := ms, board := b\<rparr>"
  have ok: "snake_ok n i (ms ! i)" if "i < length ms" for i
    using inv that by (auto simp: match_inv_def ms_def snake_ok_advance)
  have ne: "points (ms ! i) \<noteq> []" if "i < length ms" for i
    using ok[OF that] inv by (auto simp: snake_ok_def match_inv_def)
  have na: "no_apples (board M1)"
    using match_inv_no_apples[OF inv] b(3,4) by (auto simp: M1_def no_apples_def free_tails_def)
  have dk: "deaths (Inside (board M1)) (cell (board M1)) (snakes M1) (length (snakes M1)) = ks"
    using deaths_cong[of "Inside (board M)" "cell b" "free_tails M" ms] b(3,4)
    by (simp add: ks_def turn_deaths_def M1_def lm flip: ms_def)
  have "returns (foldM (\<lambda>i. check_collision (int i)) [0..<length (snakes M1)] M1) (killed_state M1 ks)"
    unfolding dk[symmetric]
    using na b(2) np ne by (intro collisions_loop) (auto simp: M1_def in_set_conv_nth)
  then obtain M2 where M2: "foldM (\<lambda>i. check_collision (int i)) [0..<length ms] M1 = Inr M2"
      "killed_state M1 ks M2"
    by (auto simp: M1_def returns_iff)
  then obtain b2 where b2: "M2 = M\<lparr>snakes := kill_all ks ms, board := b2, events := map death_event ks\<rparr>"
    "grid_wf b2" "Inside b2 = Inside (board M)"
    "\<forall>q. Inside (board M) q \<longrightarrow> cell b2 q =
        (if \<exists>k \<in> set ks. q \<in> set (points (ms ! k)) then kEmpty else free_tails M q)"
    using b(3,4) unfolding killed_state_def M1_def by auto
  have ks: "ks = deaths (Inside (board M)) (free_tails M) ms (length ms)"
    by (simp add: ks_def turn_deaths_def ms_def)
  have live: "points (snakes M2 ! i) \<noteq> [] \<and> Inside (board M2) (hd (points (snakes M2 ! i)))"
    if "i < length (snakes M2)" "\<not> dead (snakes M2 ! i)" for i
  proof -
    have i: "i < length ms" "\<not> dead (ms ! i)" "i \<notin> set ks" using that b2(1) by (auto split: if_splits)
    have "Inside (board M) (hd (points (ms ! i)))"
      using deaths_survivor(1)[OF i(1,2), of "Inside (board M)" "free_tails M"] i(3) by (simp add: ks)
    then show ?thesis using i ne b2(1,3) by simp
  qed
  have inj: "i = j" if "i < length (snakes M2)" "j < length (snakes M2)" "\<not> dead (snakes M2 ! i)"
      "\<not> dead (snakes M2 ! j)" "hd (points (snakes M2 ! i)) = hd (points (snakes M2 ! j))" for i j
  proof (rule ccontr)
    assume "i \<noteq> j"
    moreover have "i < length ms" "\<not> dead (ms ! i)" "i \<notin> set ks" "j < length ms" "\<not> dead (ms ! j)"
        "j \<notin> set ks" "hd (points (ms ! i)) = hd (points (ms ! j))"
      using that b2(1) by (auto split: if_splits)
    ultimately show False
      using deaths_survivor(3)[of i ms "Inside (board M)" "free_tails M" j] by (simp add: ks)
  qed
  have na2: "no_apples (board M2)"
    using match_inv_no_apples[OF inv] b2 by (auto simp: no_apples_def free_tails_def)
  have 3: "foldM (\<lambda>i. check_apple (int i)) [0..<length ms] M2 = Inr M2"
    using apples_loop[OF na2 _ live] b2(1,2) by simp
  obtain b3 where b3: "foldM (\<lambda>i. mark_head (int i)) [0..<length ms] M2 = Inr (M2\<lparr>board := b3\<rparr>)"
    "grid_wf b3" "Inside b3 = Inside (board M)"
    "\<forall>i < length ms. \<not> dead (kill_all ks ms ! i) \<longrightarrow>
       cell b3 (hd (points (kill_all ks ms ! i))) = sid (kill_all ks ms ! i)"
    "\<forall>q. Inside (board M) q \<longrightarrow>
         (\<forall>i < length ms. \<not> dead (kill_all ks ms ! i) \<longrightarrow> hd (points (kill_all ks ms ! i)) \<noteq> q) \<longrightarrow>
         cell b3 q = cell b2 q"
    using marks_loop[OF _ live inj] b2(1-3) by (auto simp: returns_iff)
  have "ProcessTurn actions M = Inr (M\<lparr>snakes := kill_all ks ms, board := b3,
      events := map death_event ks, current_turn := current_turn M + 1\<rparr>)"
    using b(1) M2(1) 3 b3(1) b2(1) np
    unfolding ProcessTurn_def bnd_assoc[symmetric] M1_def
    by (simp add: foldM_counters snake_indices_def)
  moreover have "cell b3 (hd (points (ms ! i))) = int i"
    if "i < length ms" "\<not> dead (ms ! i)" "i \<notin> set ks" for i
    using b3(4) that ok[of i] by (auto simp: snake_ok_def)
  moreover have "cell b3 q = (if \<exists>k \<in> set ks. q \<in> set (points (ms ! k)) then kEmpty else free_tails M q)"
    if "Inside (board M) q"
      "\<forall>i < length ms. \<not> dead (ms ! i) \<longrightarrow> i \<notin> set ks \<longrightarrow> hd (points (ms ! i)) \<noteq> q" for q
    using b3(5) b2(4) that by simp
  ultimately show ?thesis using b3(2,3) by blast
qed

section \<open>The invariant is preserved\<close>

lemma hd_last_moved:
  fixes actions :: "action list"
  assumes "match_inv n M" "i < length (snakes M)" "\<not> dead (snakes M ! i)"
  defines "s \<equiv> snakes M ! i" and "s' \<equiv> moved actions (snakes M) ! i"
  shows "points s' = point_add (hd (points s)) (direction s') # butlast (points s)"
    and "set (butlast (points s)) \<subseteq> set (points s)"
    and "q \<in> set (points s) \<Longrightarrow> q \<noteq> last (points s) \<Longrightarrow> q \<in> set (points s')"
proof -
  show p: "points s' = point_add (hd (points s)) (direction s') # butlast (points s)"
    using assms by (simp add: advance_points)
  show "set (butlast (points s)) \<subseteq> set (points s)" by (auto dest: in_set_butlastD)
  show "q \<in> set (points s')" if "q \<in> set (points s)" "q \<noteq> last (points s)"
    using that p append_butlast_last_id[of "points s"]
    by (metis empty_iff empty_set in_set_conv_decomp last_snoc list.set_intros(2) set_ConsD
        rotate1.simps(2) set_rotate1)
qed

lemma match_inv_turn:
  assumes inv: "match_inv n M" and len: "length actions = length (snakes M)"
    and step: "ProcessTurn actions M = Inr M'"
  shows "match_inv n M'"
proof -
  define ks ms where "ks = turn_deaths actions M" and "ms = moved actions (snakes M)"
  obtain b where b: "M' = M\<lparr>snakes := kill_all ks ms, board := b, events := map death_event ks,
      current_turn := current_turn M + 1\<rparr>" "grid_wf b" "Inside b = Inside (board M)"
    "\<forall>i < length ms. \<not> dead (ms ! i) \<longrightarrow> i \<notin> set ks \<longrightarrow> cell b (hd (points (ms ! i))) = int i"
    "\<forall>q. Inside (board M) q \<longrightarrow>
       (\<forall>i < length ms. \<not> dead (ms ! i) \<longrightarrow> i \<notin> set ks \<longrightarrow> hd (points (ms ! i)) \<noteq> q) \<longrightarrow>
       cell b q = (if \<exists>k \<in> set ks. q \<in> set (points (ms ! k)) then kEmpty else free_tails M q)"
    using ProcessTurn_spec[OF inv len] step unfolding ks_def ms_def by auto
  have lm: "length ms = length (snakes M)" by (simp add: ms_def)
  have ok: "snake_ok n i (kill_all ks ms ! i)" if "i < length ms" for i
  proof -
    have "snake_ok n i (ms ! i)" using inv that by (auto simp: match_inv_def ms_def snake_ok_advance)
    then show ?thesis using that by (auto simp: snake_ok_def)
  qed
  have inside: "Inside (board M) p"
    if "i < length ms" "\<not> dead (ms ! i)" "i \<notin> set ks" "p \<in> set (points (ms ! i))" for i p
  proof -
    have i: "i < length (snakes M)" "\<not> dead (snakes M ! i)" using that(1,2) lm by (auto simp: ms_def)
    note H = hd_last_moved[OF inv i]
    have old: "Inside (board M) r" if "r \<in> set (butlast (points (snakes M ! i)))" for r
      using inv i that H(2) by (auto simp: match_inv_def)
    have "Inside (board M) (hd (points (ms ! i)))"
      using deaths_survivor(1)[OF that(1,2), of "Inside (board M)" "free_tails M"] that(3)
      by (simp add: ks_def turn_deaths_def ms_def)
    then show ?thesis using that(4) H(1)[of actions] old by (auto simp: ms_def)
  qed
  have cells: "cell b p = kEmpty \<or> (\<exists>i < length ms. cell b p = int i \<and> \<not> dead (kill_all ks ms ! i) \<and>
      p \<in> set (points (kill_all ks ms ! i)))" if p: "Inside (board M) p" for p
  proof (cases "\<exists>i < length ms. \<not> dead (ms ! i) \<and> i \<notin> set ks \<and> hd (points (ms ! i)) = p")
    case True
    then obtain i where i: "i < length ms" "\<not> dead (ms ! i)" "i \<notin> set ks" "hd (points (ms ! i)) = p"
      by blast
    have "points (ms ! i) \<noteq> []" using ok[OF i(1)] i inv by (auto simp: snake_ok_def match_inv_def)
    then show ?thesis using i b(4) by (auto intro!: exI[of _ i])
  next
    case False
    then have c: "cell b p = (if \<exists>k \<in> set ks. p \<in> set (points (ms ! k)) then kEmpty else free_tails M p)"
      using b(5) p by blast
    show ?thesis
    proof (cases "cell b p = kEmpty")
      case False
      then have f: "\<not> (\<exists>k \<in> set ks. p \<in> set (points (ms ! k)))" "cell b p = cell (board M) p"
          "p \<notin> set (vacated (snakes M))" "cell (board M) p \<noteq> kEmpty"
        using c by (auto simp: free_tails_def split: if_splits)
      then obtain i where i: "i < length (snakes M)" "cell (board M) p = int i"
          "\<not> dead (snakes M ! i)" "p \<in> set (points (snakes M ! i))"
        using inv p by (auto simp: match_inv_def)
      have "p \<noteq> last (points (snakes M ! i))" using f(3) i by (auto simp: set_vacated)
      then have "p \<in> set (points (ms ! i))"
        using hd_last_moved(3)[OF inv i(1,3,4)] by (simp add: ms_def)
      then show ?thesis using i f lm by (intro disjI2 exI[of _ i]) (auto simp: ms_def)
    qed simp
  qed
  show ?thesis
    unfolding match_inv_def
  proof (intro conjI allI impI)
    fix p assume "Inside (board M') p"
    then show "cell (board M') p = kEmpty \<or> (\<exists>i < length (snakes M'). cell (board M') p = int i \<and>
        \<not> dead (snakes M' ! i) \<and> p \<in> set (points (snakes M' ! i)))"
      using cells[of p] b(1,3) by simp
  qed (use inv b ok inside lm in \<open>auto simp: match_inv_def split: if_splits\<close>)
qed

text \<open>A turn from a state of the invariant never fails.\<close>

lemma ProcessTurn_returns:
  assumes "match_inv n M" "length actions = length (snakes M)"
  shows "returns (ProcessTurn actions M) (match_inv n)"
  using ProcessTurn_spec[OF assms] match_inv_turn[OF assms] by (auto simp: returns_iff)

end
