(* ===== verification/SnakeGame.thy ===== *)
theory SnakeGame
  imports SnakeTurn
begin

text \<open>
  Whole games: spawning establishes the invariant of theory \<open>SnakeTurn\<close>, the parsing of the
  players' messages, the messages of the server, and the game loop, which ends normally for
  every schedule of input that the server survives.
\<close>

section \<open>Spawning\<close>

definition spawned :: "snake list" where
  "spawned = map (\<lambda>(i, ps, d). \<lparr>sid = i, dead = False, points = map (\<lambda>(x, y). Point x y) ps,
       direction = d, recently_removed_point = None\<rparr>)
     [(0, [(4, 1), (3, 1), (2, 1), (1, 1)], Point 1 0),
      (1, [(11, 14), (12, 14), (13, 14), (14, 14)], Point (-1) 0),
      (2, [(14, 4), (14, 3), (14, 2), (14, 1)], Point 0 1),
      (3, [(1, 11), (1, 12), (1, 13), (1, 14)], Point 0 (-1))]"

lemma spawn_list:
  assumes "1 \<le> n" "n \<le> 4"
  shows "foldM (spawn_snake (Options n)) (counters n) [] = Inr (take (nat n) spawned)"
proof -
  have "n \<in> {1, 2, 3, 4}" using assms by auto
  then show ?thesis
    by (auto simp: counters_def spawn_snake_def Options_def starting_positions_def upt_rec
        starting_directions_def vec_at_def spawned_def Point_def point_add_def deque_front_def
        eval_nat_numeral)
qed

text \<open>Marking disjoint snakes inside the board.\<close>

lemma mark_snake_inside:
  assumes "grid_wf b" "\<forall>p \<in> set (points s). Inside b p"
  shows "returns (mark_snake s b) (\<lambda>b'. grid_wf b' \<and> Inside b' = Inside b \<and>
    (\<forall>q. Inside b q \<longrightarrow> cell b' q = (if q \<in> set (points s) then sid s else cell b q)))"
proof -
  from grid.write_path[OF assms, of "sid s"]
  obtain b' where b': "mark_snake s b = Inr b'" "grid_wf b'" "\<forall>q. Inside b' q = Inside b q"
    "\<forall>q. Inside b q \<longrightarrow> grid_at b' q = (if q \<in> set (points s) then Inr (sid s) else grid_at b q)"
    by (auto simp: returns_iff mark_snake_def)
  have "cell b' q = (if q \<in> set (points s) then sid s else cell b q)" if "Inside b q" for q
    using b'(2,3) b'(4)[rule_format, OF that] that assms(1)
    by (auto simp: grid_at_inside split: if_splits)
  then show ?thesis using b' by (auto simp: returns_iff)
qed

lemma mark_snakes:
  assumes "grid_wf b" "\<forall>s \<in> set ss. \<forall>p \<in> set (points s). Inside b p"
    and "\<And>i j. i < length ss \<Longrightarrow> j < length ss \<Longrightarrow> i \<noteq> j \<Longrightarrow>
      set (points (ss ! i)) \<inter> set (points (ss ! j)) = {}"
  shows "returns (foldM mark_snake ss b) (\<lambda>b'. grid_wf b' \<and> Inside b' = Inside b \<and>
    (\<forall>i < length ss. \<forall>p \<in> set (points (ss ! i)). cell b' p = sid (ss ! i)) \<and>
    (\<forall>q. Inside b q \<longrightarrow> (\<forall>s \<in> set ss. q \<notin> set (points s)) \<longrightarrow> cell b' q = cell b q))"
proof -
  have "returns (foldM mark_snake ss b) ((\<lambda>pre b'. grid_wf b' \<and> Inside b' = Inside b \<and>
    (\<forall>i < length pre. \<forall>p \<in> set (points (pre ! i)). cell b' p = sid (pre ! i)) \<and>
    (\<forall>q. Inside b q \<longrightarrow> (\<forall>s \<in> set pre. q \<notin> set (points s)) \<longrightarrow> cell b' q = cell b q)) ss)"
  proof (rule returns_foldM_prefix)
    fix pre s rest h
    assume split: "ss = pre @ s # rest"
      and inv: "grid_wf h \<and> Inside h = Inside b \<and>
        (\<forall>i < length pre. \<forall>p \<in> set (points (pre ! i)). cell h p = sid (pre ! i)) \<and>
        (\<forall>q. Inside b q \<longrightarrow> (\<forall>s \<in> set pre. q \<notin> set (points s)) \<longrightarrow> cell h q = cell b q)"
    have ins: "\<forall>p \<in> set (points s). Inside h p" using assms(2) split inv by simp
    have dis: "set (points (pre ! i)) \<inter> set (points s) = {}" if "i < length pre" for i
      using assms(3)[of i "length pre"] that split by (simp add: nth_append)
    have pin: "\<forall>i < length pre. \<forall>p \<in> set (points (pre ! i)). Inside b p"
      using assms(2) split by (auto dest: nth_mem)
    show "returns (mark_snake s h) (\<lambda>b'. grid_wf b' \<and> Inside b' = Inside b \<and>
        (\<forall>i < length (pre @ [s]). \<forall>p \<in> set (points ((pre @ [s]) ! i)). cell b' p = sid ((pre @ [s]) ! i)) \<and>
        (\<forall>q. Inside b q \<longrightarrow> (\<forall>s \<in> set (pre @ [s]). q \<notin> set (points s)) \<longrightarrow> cell b' q = cell b q))"
    proof (rule returns_mono[OF mark_snake_inside[OF _ ins]])
      show "grid_wf h" using inv by simp
    next
      fix b' assume b': "grid_wf b' \<and> Inside b' = Inside h \<and>
        (\<forall>q. Inside h q \<longrightarrow> cell b' q = (if q \<in> set (points s) then sid s else cell h q))"
      have "cell b' p = sid ((pre @ [s]) ! i)"
        if "i < length (pre @ [s])" "p \<in> set (points ((pre @ [s]) ! i))" for i p
      proof (cases "i < length pre")
        case True
        then have "p \<notin> set (points s)" using that dis by (auto simp: nth_append)
        then show ?thesis using True that b' inv pin by (auto simp: nth_append)
      next
        case False
        then show ?thesis using that b' inv ins by (auto simp: nth_append)
      qed
      then show "grid_wf b' \<and> Inside b' = Inside b \<and>
        (\<forall>i < length (pre @ [s]). \<forall>p \<in> set (points ((pre @ [s]) ! i)). cell b' p = sid ((pre @ [s]) ! i)) \<and>
        (\<forall>q. Inside b q \<longrightarrow> (\<forall>s \<in> set (pre @ [s]). q \<notin> set (points s)) \<longrightarrow> cell b' q = cell b q)"
        using b' inv by auto
    qed
  qed (use assms(1) in auto)
  then show ?thesis .
qed

lemma length_spawned [simp]: "length spawned = 4"
  by (simp add: spawned_def)

lemma spawned_facts:
  assumes "i < 4"
  shows "snake_ok 4 i (spawned ! i)" "\<not> dead (spawned ! i)"
    "\<forall>p \<in> set (points (spawned ! i)). Inside (Grid 15 15 v) p"
proof -
  have "i \<in> {0, 1, 2, 3}" using assms by auto
  then show "snake_ok 4 i (spawned ! i)" "\<not> dead (spawned ! i)"
    "\<forall>p \<in> set (points (spawned ! i)). Inside (Grid 15 15 v) p"
    by (auto simp: spawned_def snake_ok_def adjacent_Cons norm1_def Inside_Grid adjacent_def[of "[]"])
qed

lemma spawned_disjoint:
  assumes "i < 4" "j < 4" "i \<noteq> j"
  shows "set (points (spawned ! i)) \<inter> set (points (spawned ! j)) = {}"
proof -
  have "i \<in> {0, 1, 2, 3}" "j \<in> {0, 1, 2, 3}" using assms by auto
  then show ?thesis using assms(3) by (auto simp: spawned_def Point_def)
qed

text \<open>
  A match of one to four players starts with disjoint snakes on the board, each fully marked,
  and nothing else marked.
\<close>

lemma SpawnSnakes_spec:
  assumes n: "1 \<le> n" "n \<le> 4"
    and M: "num_players M = n" "match_options M = Options n" "board M = Grid 15 15 kEmpty"
  shows "\<exists>b. SpawnSnakes M = Inr (M\<lparr>snakes := take (nat n) spawned, board := b\<rparr>) \<and>
    match_inv 4 (M\<lparr>snakes := take (nat n) spawned, board := b\<rparr>) \<and>
    (\<forall>i < nat n. \<forall>p \<in> set (points (spawned ! i)). cell b p = int i) \<and>
    Inside b = Inside (board M) \<and>
    (\<forall>q. Inside (board M) q \<longrightarrow> (\<forall>i < nat n. q \<notin> set (points (spawned ! i))) \<longrightarrow> cell b q = kEmpty)"
proof -
  define ss where "ss = take (nat n) spawned"
  have l: "length ss = nat n" "nat n \<le> 4" using n by (auto simp: ss_def)
  have nth: "ss ! i = spawned ! i" if "i < nat n" for i using that by (simp add: ss_def)
  have sp: "foldM (spawn_snake (match_options M)) (counters (num_players M)) [] = Inr ss"
    using spawn_list[OF n] M by (simp add: ss_def)
  have wf: "grid_wf (board M)" using M(3) by (simp add: grid_wf_Grid)
  have ins: "\<forall>s \<in> set ss. \<forall>p \<in> set (points s). Inside (board M) p"
  proof
    fix s assume "s \<in> set ss"
    then obtain i where "i < nat n" "s = spawned ! i" using l nth by (auto simp: in_set_conv_nth)
    then show "\<forall>p \<in> set (points s). Inside (board M) p"
      using spawned_facts(3)[of i kEmpty] l M(3) by auto
  qed
  have dis: "set (points (ss ! i)) \<inter> set (points (ss ! j)) = {}"
    if "i < length ss" "j < length ss" "i \<noteq> j" for i j
    using that l spawned_disjoint[of i j] by (simp add: nth)
  obtain b where b: "foldM mark_snake ss (board M) = Inr b" "grid_wf b" "Inside b = Inside (board M)"
    "\<forall>i < length ss. \<forall>p \<in> set (points (ss ! i)). cell b p = sid (ss ! i)"
    "\<forall>q. Inside (board M) q \<longrightarrow> (\<forall>s \<in> set ss. q \<notin> set (points s)) \<longrightarrow> cell b q = cell (board M) q"
    using mark_snakes[OF wf ins dis] by (auto simp: returns_iff)
  have ids: "sid (ss ! i) = int i" if "i < nat n" for i
    using spawned_facts(1)[of i] that l by (simp add: nth snake_ok_def)
  have ins': "Inside (board M) p" if "i < nat n" "p \<in> set (points (spawned ! i))" for i p
    using spawned_facts(3)[of i kEmpty] that l M(3) by auto
  have empty: "cell (board M) q = kEmpty" if "Inside (board M) q" for q
    using that M(3) by (simp add: cell_Grid)
  have "match_inv 4 (M\<lparr>snakes := ss, board := b\<rparr>)"
    unfolding match_inv_def
  proof (intro conjI allI impI)
    fix p assume p: "Inside (board (M\<lparr>snakes := ss, board := b\<rparr>)) p"
    show "cell (board (M\<lparr>snakes := ss, board := b\<rparr>)) p = kEmpty \<or>
        (\<exists>i < length (snakes (M\<lparr>snakes := ss, board := b\<rparr>)).
           cell (board (M\<lparr>snakes := ss, board := b\<rparr>)) p = int i \<and>
           \<not> dead (snakes (M\<lparr>snakes := ss, board := b\<rparr>) ! i) \<and>
           p \<in> set (points (snakes (M\<lparr>snakes := ss, board := b\<rparr>) ! i)))"
    proof (cases "\<exists>i < nat n. p \<in> set (points (ss ! i))")
      case True
      then obtain i where "i < nat n" "p \<in> set (points (ss ! i))" by blast
      then show ?thesis using b(4) l ids spawned_facts(2)[of i] by (auto simp: nth)
    next
      case False
      then have "\<forall>s \<in> set ss. p \<notin> set (points s)" using l(1) by (metis in_set_conv_nth)
      then show ?thesis using b(3,5) p empty by simp
    qed
  qed (use b l M n spawned_facts(1,2) ins' in \<open>auto simp: nth\<close>)
  moreover have "\<forall>i < nat n. \<forall>p \<in> set (points (spawned ! i)). cell b p = int i"
    using b(4) l ids by (simp add: nth)
  moreover have "cell b q = kEmpty"
    if "Inside (board M) q" "\<forall>i < nat n. q \<notin> set (points (spawned ! i))" for q
  proof -
    have "\<forall>s \<in> set ss. q \<notin> set (points s)" using that(2) l(1) nth by (metis in_set_conv_nth)
    then show ?thesis using b(5) that(1) empty by simp
  qed
  ultimately show ?thesis
    using sp b(1,3) unfolding ss_def[symmetric] by (intro exI[of _ b]) (simp add: SpawnSnakes_def)
qed

section \<open>Reachable states\<close>

text \<open>The states a match of \<open>n\<close> players goes through, for any sequence of actions.\<close>

inductive reachable :: "int \<Rightarrow> snake_match \<Rightarrow> bool" for n where
  spawn: "SpawnSnakes (SnakeMatch (Options n)) = Inr M \<Longrightarrow> 1 \<le> n \<Longrightarrow> n \<le> 4 \<Longrightarrow> reachable n M"
| turn: "reachable n M \<Longrightarrow> length actions = nat n \<Longrightarrow> ProcessTurn actions M = Inr M' \<Longrightarrow> reachable n M'"

lemma SnakeMatch_simps [simp]:
  "num_players (SnakeMatch opts) = opt_num_players opts" "match_options (SnakeMatch opts) = opts"
  "board (SnakeMatch opts) = Grid (opt_x opts) (opt_y opts) kEmpty" "snakes (SnakeMatch opts) = []"
  "players (SnakeMatch opts) = []" "logger (SnakeMatch opts) = None" "events (SnakeMatch opts) = []"
  "apples (SnakeMatch opts) = []" "current_turn (SnakeMatch opts) = 1"
  by (simp_all add: SnakeMatch_def round_match.defs RoundBasedMatch_def)

lemma Options_simps [simp]:
  "opt_num_players (Options n) = n" "opt_x (Options n) = 15" "opt_y (Options n) = 15"
  "starting_length (Options n) = 4" "max_turns (Options n) = 40" "action_time (Options n) = 1000"
  "turns_to_starve (Options n) = 0"
  by (simp_all add: Options_def)

lemma reachable_inv: "reachable n M \<Longrightarrow> match_inv 4 M \<and> length (snakes M) = nat n"
proof (induction rule: reachable.induct)
  case (spawn M)
  obtain b where "SpawnSnakes (SnakeMatch (Options n)) =
      Inr ((SnakeMatch (Options n))\<lparr>snakes := take (nat n) spawned, board := b\<rparr>)"
    "match_inv 4 ((SnakeMatch (Options n))\<lparr>snakes := take (nat n) spawned, board := b\<rparr>)"
    using SpawnSnakes_spec[of n "SnakeMatch (Options n)"] spawn(2,3) by auto
  then show ?case using spawn by auto
next
  case (turn M actions M')
  then have "length (snakes M') = length (snakes M)"
    using ProcessTurn_spec[of 4 M actions] by auto
  then show ?case using turn match_inv_turn[of 4 M actions M'] by auto
qed

section \<open>Messages\<close>

text \<open>The values of the messages, written out; object members are in the order of their names.\<close>

definition point_json :: "point \<Rightarrow> json" where
  "point_json p = JObject [(''x'', json_of_int (px p)), (''y'', json_of_int (py p))]"

definition player_json :: "int \<Rightarrow> snake \<Rightarrow> json" where
  "player_json p s = JObject [(''name'', JString (''player'' @ int_to_string p)),
     (''placement'', JArray (map point_json (rev (points s))))]"

definition start_json :: "snake_match \<Rightarrow> json" where
  "start_json M = JObject
     [(''data'', JObject
        [(''apples'', JArray (map point_json (apples M))),
         (''board'', JObject [(''dimensions'',
            point_json (Point (opt_x (match_options M)) (opt_y (match_options M))))]),
         (''general'', JObject
            [(''action_time'', json_of_int (action_time (match_options M))),
             (''turns'', json_of_int (max_turns (match_options M))),
             (''turns_to_starve'', json_of_int (turns_to_starve (match_options M)))]),
         (''players'', JArray (map (\<lambda>i. player_json (int i) (snakes M ! i)) [0..<length (snakes M)]))]),
      (''type'', JString ''game_start'')]"

definition status_json :: "int \<Rightarrow> snake list \<Rightarrow> json list \<Rightarrow> json" where
  "status_json round ss es = JObject
     [(''data'', JObject
        [(''events'', JArray es), (''positions'', JArray (map (\<lambda>s. point_json (hd (points s))) ss))]),
      (''round'', json_of_int round), (''type'', JString ''game_status'')]"

definition end_json :: json where
  "end_json = JObject [(''data'', EmptyObject), (''type'', JString ''game_end'')]"

lemma add_all_eq: "add_all (map (\<lambda>x. Inr (f x)) xs) (JArray as) = Inr (JArray (as @ map f xs))"
  by (induction xs arbitrary: as) (simp_all add: add_all_def)

lemma add_all_map:
  assumes "\<And>x. x \<in> set xs \<Longrightarrow> g x = Inr (f x)"
  shows "add_all (map g xs) make_array = Inr (JArray (map f xs))"
proof -
  have "map g xs = map (\<lambda>x. Inr (f x)) xs" using assms by simp
  then show ?thesis by (simp only: add_all_eq make_array_def append_Nil)
qed

lemma player_info_eq:
  assumes "i < length (snakes M)"
  shows "player_info (int i) M = Inr (player_json (int i) (snakes M ! i))"
proof -
  have "foldM (\<lambda>q info. bnd (PointToJson q) (\<lambda>v. add_to_member ''placement'' v info)) qs
      (JObject [(''name'', nm), (''placement'', JArray as)]) =
    Inr (JObject [(''name'', nm), (''placement'', JArray (as @ map point_json qs))])" for qs nm as
    by (induction qs arbitrary: as) (simp_all add: PointToJson_eq add_to_member_def point_json_def)
  then show ?thesis using assms by (simp add: player_info_def make_array_def player_json_def)
qed

lemma MakeGameStart_eq:
  assumes "num_players M = int (length (snakes M))"
  shows "MakeGameStart M = Inr (Message (start_json M))"
proof -
  have pl: "add_all (map (\<lambda>p. player_info p M) (counters (num_players M))) make_array =
      Inr (JArray (map (\<lambda>i. player_json (int i) (snakes M ! i)) [0..<length (snakes M)]))"
    using add_all_map[of "[0..<length (snakes M)]" "\<lambda>i. player_info (int i) M"] assms
    by (simp add: counters_def player_info_eq comp_def)
  have ap: "add_all (map PointToJson (apples M)) make_array = Inr (JArray (map point_json (apples M)))"
    by (rule add_all_map) (simp add: PointToJson_eq point_json_def)
  show ?thesis
    by (simp add: MakeGameStart_def Let_def pl ap make_json_def PointToJson_eq MakeBase_def
        start_json_def point_json_def)
qed

lemma MakeGameStatus_eq:
  assumes "match_inv n M"
  shows "MakeGameStatus M = Inr (Message (status_json (current_turn M) (snakes M) (events M)))"
proof -
  have np: "num_players M = int (length (snakes M))" using assms by (simp add: match_inv_def)
  have "add_all (map (head_position M) (counters (num_players M))) make_array =
      Inr (JArray (map (\<lambda>i. point_json (hd (points (snakes M ! i)))) [0..<length (snakes M)]))"
    using add_all_map[of "[0..<length (snakes M)]" "\<lambda>i. head_position M (int i)"] np
    by (simp add: counters_def head_position_def match_inv_points[OF assms] PointToJson_eq
        point_json_def comp_def)
  also have "map (\<lambda>i. point_json (hd (points (snakes M ! i)))) [0..<length (snakes M)] =
      map (\<lambda>s. point_json (hd (points s))) (snakes M)"
    by (rule nth_equalityI) auto
  finally have pos: "add_all (map (head_position M) (counters (num_players M))) make_array =
      Inr (JArray (map (\<lambda>s. point_json (hd (points s))) (snakes M)))" .
  have ev: "add_all (map Inr (events M)) make_array = Inr (JArray (events M))"
    using add_all_map[of "events M" Inr "\<lambda>x. x"] by simp
  show ?thesis
    by (simp add: MakeGameStatus_def pos ev make_json_def MakeBase_def status_json_def)
qed

lemma MakeGameEnd_eq: "MakeGameEnd = Inr (Message end_json)"
  by (simp add: MakeGameEnd_def MakeBase_def make_json_def end_json_def)

section \<open>Actions\<close>

text \<open>A message can be turned into an action iff it is an object whose data is an object.\<close>

definition has_action :: "message \<Rightarrow> bool" where
  "has_action m = (case json_get_default ''data'' (JString []) (content m) of
     Inl e \<Rightarrow> False | Inr d \<Rightarrow> is_object d)"

lemma is_object_get_default: "is_object d \<longleftrightarrow> (\<exists>v. json_get_default name def d = Inr v)"
  by (cases d) auto

lemma ParseAction_defined: "(\<exists>a. ParseAction io m = Inr a) \<longleftrightarrow> has_action m"
proof
  assume "\<exists>a. ParseAction io m = Inr a"
  then show "has_action m"
    by (auto simp: ParseAction_def has_action_def bnd_eq_Inr is_object_get_default[of _ "''direction''" "JString []"])
next
  assume "has_action m"
  then obtain d v where "json_get_default ''data'' (JString []) (content m) = Inr d"
    "json_get_default ''direction'' (JString []) d = Inr v"
    by (auto simp: has_action_def is_object_get_default[of _ "''direction''" "JString []"] split: sum.splits)
  then show "\<exists>a. ParseAction io m = Inr a"
    using as_string_returns[of io v] by (auto simp: ParseAction_def)
qed

definition action_of :: "stdio \<Rightarrow> message option \<Rightarrow> action" where
  "action_of io msg = (case msg of None \<Rightarrow> kForward
     | Some m \<Rightarrow> (case ParseAction io m of Inr a \<Rightarrow> a | Inl e \<Rightarrow> kForward))"

lemma ParseActions_eq:
  assumes "\<And>m. Some m \<in> set msgs \<Longrightarrow> has_action m"
  shows "ParseActions io msgs = Inr (map (action_of io) msgs)"
proof -
  have "foldM (\<lambda>msg actions. case msg of None \<Rightarrow> Inr (actions @ [kForward])
      | Some m \<Rightarrow> bnd (ParseAction io m) (\<lambda>a. Inr (actions @ [a]))) msgs as =
    Inr (as @ map (action_of io) msgs)" for as
    using assms
  proof (induction msgs arbitrary: as)
    case (Cons msg msgs)
    show ?case
    proof (cases msg)
      case (Some m)
      then obtain a where "ParseAction io m = Inr a"
        using Cons.prems[of m] ParseAction_defined[of io m] by auto
      then show ?thesis using Cons Some by (simp add: action_of_def)
    qed (use Cons in \<open>simp add: action_of_def\<close>)
  qed simp
  from this[of "[]"] show ?thesis by (simp add: ParseActions_def)
qed

section \<open>The game loop\<close>

text \<open>A line the game survives: if it is for a round, it also carries an action.\<close>

definition good_move :: "stdio \<Rightarrow> string \<Rightarrow> bool" where
  "good_move io s = (good_line io s \<and> (case message_of_string io s of
     Inl e \<Rightarrow> False | Inr m \<Rightarrow> msg_round m \<noteq> None \<longrightarrow> has_action m))"

definition good_env :: "environment \<Rightarrow> bool" where
  "good_env env = ((\<forall>t i. env_ok env t i) \<and> (\<forall>t. env_log env t) \<and>
     (\<forall>t k. \<forall>e \<in> set (env_sched env t k). case snd e of
        NetLine s \<Rightarrow> good_move (env_io env) s | NetError \<Rightarrow> True))"

text \<open>A match under way: the invariant of the game and a player in play for every snake.\<close>

definition game_inv :: "int \<Rightarrow> snake_match \<Rightarrow> bool" where
  "game_inv n M = (match_inv 4 M \<and> 1 \<le> n \<and> n \<le> 4 \<and> length (snakes M) = nat n \<and>
     length (players M) = nat n \<and> (\<forall>p \<in> set (players M). in_play p) \<and> match_options M = Options n)"

definition line_of :: "environment \<Rightarrow> message \<Rightarrow> string" where
  "line_of env m = (case ToString (env_io env) m of Inr s \<Rightarrow> s | Inl e \<Rightarrow> [])"

definition sent_list :: "snake_match \<Rightarrow> string list" where
  "sent_list M = map sent_of (players M)"

lemma good_sched_env: "good_env env \<Longrightarrow> good_sched (env_io env) (env_sched env t)"
  by (fastforce simp: good_env_def good_sched_def good_input_def good_move_def split: net_input.splits)

lemma heard_line: "m \<in> set (heard io es) \<Longrightarrow> \<exists>s. NetLine s \<in> set es \<and> message_of_string io s = Inr m"
  by (induction io es rule: heard.induct) (auto split: sum.splits)

lemma answer_has_action:
  assumes "good_env env"
    "find (\<lambda>m. msg_round m = Some r) (heard_until (env_io env) (env_sched env t) j k p) = Some m"
  shows "has_action m"
proof -
  have m: "m \<in> set (heard_until (env_io env) (env_sched env t) j k p)" "msg_round m = Some r"
    using assms(2) by (auto simp: find_Some_iff)
  then obtain s where s: "NetLine s \<in> set (input_of j (concat (map (env_sched env t) [Suc j..<k])))"
      "message_of_string (env_io env) s = Inr m"
    by (auto simp: heard_until_def split: if_splits dest: heard_line)
  then obtain k' where "(j, NetLine s) \<in> set (env_sched env t k')" by (auto simp: input_of_def)
  then have "good_move (env_io env) s" using assms(1) by (fastforce simp: good_env_def)
  then show ?thesis using s m by (simp add: good_move_def)
qed

lemma match_inv_upd [simp]:
  "match_inv k (M\<lparr>players := ps\<rparr>) = match_inv k M" "match_inv k (M\<lparr>logger := l\<rparr>) = match_inv k M"
  by (simp_all add: match_inv_def)

lemma IsGameFinished_upd [simp]:
  "IsGameFinished (M\<lparr>players := ps\<rparr>) = IsGameFinished M"
  "IsGameFinished (M\<lparr>logger := l\<rparr>) = IsGameFinished M"
  by (simp_all add: IsGameFinished_def)

text \<open>What a match is after a message has been logged.\<close>

definition logged :: "message \<Rightarrow> snake_match \<Rightarrow> snake_match" where
  "logged m M = M\<lparr>logger := map_option (\<lambda>l. l @ [m]) (logger M)\<rparr>"

lemma Log_good [simp]: "good_env env \<Longrightarrow> Log (env_log env t) m M = Inr (logged m M)"
proof -
  have "logger M = None \<Longrightarrow> M\<lparr>logger := None\<rparr> = M" by (cases M) simp
  then show "good_env env \<Longrightarrow> Log (env_log env t) m M = Inr (logged m M)"
    by (simp add: good_env_def Log_def logged_def split: option.splits)
qed

lemma logged_simps [simp]:
  "logger (logged m M) = map_option (\<lambda>l. l @ [m]) (logger M)" "players (logged m M) = players M"
  "snakes (logged m M) = snakes M" "current_turn (logged m M) = current_turn M"
  "match_options (logged m M) = match_options M" "match_inv k (logged m M) = match_inv k M"
  "IsGameFinished (logged m M) = IsGameFinished M" "sent_list (logged m M) = sent_list M"
  "num_players (logged m M) = num_players M" "events (logged m M) = events M" "board (logged m M) = board M"
  by (simp_all add: logged_def sent_list_def)

lemma game_inv_logged [simp]: "game_inv n (logged m M) = game_inv n M"
  by (simp add: game_inv_def)

lemma sent_list_upd [simp]: "sent_list (M\<lparr>players := ps\<rparr>) = map sent_of ps"
  by (simp add: sent_list_def)

lemma Broadcast_game:
  assumes "game_inv n M" "good_env env"
  obtains ps where "Broadcast (env_io env) (env_ok env t) m M = Inr (M\<lparr>players := ps\<rparr>)"
    "game_inv n (M\<lparr>players := ps\<rparr>)" "map sent_of ps = map (\<lambda>s. s @ line_of env m) (sent_list M)"
proof -
  obtain s where s: "ToString (env_io env) m = Inr s" using ToString_returns by blast
  have ip: "\<forall>p \<in> set (players M). in_play p" using assms(1) by (simp add: game_inv_def)
  have "Broadcast (env_io env) (env_ok env t) m M = Inr (M\<lparr>players := map (write_line s) (players M)\<rparr>)"
    using assms(2) s ip by (intro Broadcast_eq) (auto simp: good_env_def)
  moreover have "game_inv n (M\<lparr>players := map (write_line s) (players M)\<rparr>)"
    using assms(1) by (auto simp: game_inv_def)
  moreover have "map sent_of (map (write_line s) (players M)) = map (\<lambda>s. s @ line_of env m) (sent_list M)"
    using ip s by (auto simp: sent_list_def line_of_def sent_of_write_line)
  ultimately show thesis using that by blast
qed

text \<open>
  A turn of the game: it takes the actions the players sent in time, makes the moves, logs the
  status and sends it to everyone unless the game is over.
\<close>

definition status_of :: "snake_match \<Rightarrow> message" where
  "status_of M = Message (status_json (current_turn M) (snakes M) (events M))"

lemma status_of_upd [simp]: "status_of (logged m M) = status_of M" "status_of (M\<lparr>players := ps\<rparr>) = status_of M"
  by (simp_all add: status_of_def)

lemma play_turn_spec:
  assumes inv: "game_inv n M" and env: "good_env env"
  shows "returns (play_turn env t M) (\<lambda>M'. game_inv n M' \<and> current_turn M' = current_turn M + 1 \<and>
    logger M' = map_option (\<lambda>l. l @ [status_of M']) (logger M) \<and>
    sent_list M' = (if \<not> IsGameFinished M' \<and> t \<noteq> 40
                    then map (\<lambda>s. s @ line_of env (status_of M')) (sent_list M) else sent_list M))"
proof -
  have ip: "\<forall>p \<in> set (players M). in_play p" using inv by (simp add: game_inv_def)
  obtain msgs ps where w: "WaitForMessages (env_io env) t (env_sched env t) M = Inr (msgs, M\<lparr>players := ps\<rparr>)"
    "length msgs = length (players M)" "length ps = length (players M)" "\<forall>p \<in> set ps. in_play p"
    "\<forall>j < length (players M). msgs ! j = find (\<lambda>m. msg_round m = Some t)
       (heard_until (env_io env) (env_sched env t) j (Suc (length (players M) + j)) (players M ! j))"
    using WaitForMessages_returns[OF ip good_sched_env[OF env], of t t] by (auto simp: returns_iff)
  have act: "has_action m" if m: "Some m \<in> set msgs" for m
  proof -
    obtain j where "j < length (players M)" "msgs ! j = Some m" using m w(2) by (auto simp: in_set_conv_nth)
    then show ?thesis using w(5) answer_has_action[OF env] by metis
  qed
  define acts where "acts = map (action_of (env_io env)) msgs"
  have pa: "ParseActions (env_io env) msgs = Inr acts" using ParseActions_eq act by (simp add: acts_def)
  define M1 where "M1 = M\<lparr>players := ps\<rparr>"
  have i1: "match_inv 4 M1" "length acts = length (snakes M1)"
    using inv w(2) by (simp_all add: M1_def game_inv_def acts_def)
  obtain M2 where M2: "ProcessTurn acts M1 = Inr M2" "match_inv 4 M2"
    using ProcessTurn_returns[OF i1] by (auto simp: returns_iff)
  have fr: "current_turn M2 = current_turn M1 + 1" "logger M2 = logger M1" "players M2 = players M1"
      "length (snakes M2) = length (snakes M1)" "match_options M2 = match_options M1"
    using ProcessTurn_spec[OF i1] M2(1) by auto
  have sl: "sent_list M2 = sent_list M"
    using WaitForMessages_sent[OF w(1)] fr by (simp add: sent_list_def M1_def)
  have st: "MakeGameStatus M2 = Inr (status_of M2)"
    using MakeGameStatus_eq[OF M2(2)] by (simp add: status_of_def)
  define M3 where "M3 = logged (status_of M2) M2"
  have g3: "game_inv n M3" using inv fr M2(2) w(3,4) by (simp add: M3_def game_inv_def M1_def)
  have mt: "max_turns (match_options M3) = 40"
    using inv fr by (simp add: M3_def game_inv_def M1_def)
  have step: "play_turn env t M = (if \<not> IsGameFinished M3 \<and> t \<noteq> 40
     then Broadcast (env_io env) (env_ok env t) (status_of M2) M3 else Inr M3)"
    using w(1) pa M2(1) st mt env by (simp add: play_turn_def M1_def M3_def)
  show ?thesis
  proof (cases "\<not> IsGameFinished M3 \<and> t \<noteq> 40")
    case True
    obtain qs where "Broadcast (env_io env) (env_ok env t) (status_of M2) M3 = Inr (M3\<lparr>players := qs\<rparr>)"
      "game_inv n (M3\<lparr>players := qs\<rparr>)"
      "map sent_of qs = map (\<lambda>s. s @ line_of env (status_of M2)) (sent_list M3)"
      using Broadcast_game[OF g3 env] .
    then show ?thesis using step True fr sl by (simp add: M3_def M1_def)
  next
    case False
    then have "play_turn env t M = Inr M3" using step by auto
    then show ?thesis using False g3 fr sl by (auto simp: M3_def M1_def)
  qed
qed

text \<open>
  What the game loop has done when it stops, if the turns before it were \<open>k\<close>: it logged one
  status for each turn, numbered by the turn to come, and broadcast all but the last.
\<close>

definition played :: "environment \<Rightarrow> int \<Rightarrow> nat \<Rightarrow> snake_match \<Rightarrow> message list \<Rightarrow> snake_match \<Rightarrow> bool" where
  "played env n k M sts M' =
     (game_inv n M' \<and> logger M' = map_option (\<lambda>l. l @ sts) (logger M) \<and>
      sent_list M' = map (\<lambda>s. s @ concat (map (line_of env) (butlast sts))) (sent_list M) \<and>
      length sts \<le> 40 - k \<and> (IsGameFinished M' \<or> length sts = 40 - k) \<and>
      (sts = [] \<longrightarrow> M' = M) \<and> (IsGameFinished M \<longrightarrow> sts = []) \<and>
      (\<forall>i < length sts. \<exists>ss es. sts ! i = Message (status_json (current_turn M + 1 + int i) ss es)))"

lemma played_Nil: "game_inv n M \<Longrightarrow> IsGameFinished M \<or> 40 \<le> k \<Longrightarrow> played env n k M [] M"
  by (auto simp: played_def option.map_ident)

lemma played_Cons:
  assumes inv: "\<not> IsGameFinished M" "k < 40"
    and M1: "current_turn M1 = current_turn M + 1"
      "logger M1 = map_option (\<lambda>l. l @ [status_of M1]) (logger M)"
      "sent_list M1 = (if \<not> IsGameFinished M1 \<and> int (Suc k) \<noteq> 40
         then map (\<lambda>s. s @ line_of env (status_of M1)) (sent_list M) else sent_list M)"
    and p: "played env n (Suc k) M1 sts M'"
  shows "played env n k M (status_of M1 # sts) M'"
proof -
  note P = p[unfolded played_def]
  have last: "sts = [] \<longleftrightarrow> IsGameFinished M1 \<or> Suc k = 40" using P inv(2) by auto
  have sl: "sent_list M' = map (\<lambda>s. s @ concat (map (line_of env) (butlast (status_of M1 # sts)))) (sent_list M)"
  proof (cases "sts = []")
    case True
    then show ?thesis using P M1(3) last by auto
  next
    case False
    then have "\<not> IsGameFinished M1 \<and> int (Suc k) \<noteq> 40" using last by auto
    then show ?thesis using P M1(3) False by simp
  qed
  have num: "\<exists>ss es. (status_of M1 # sts) ! i = Message (status_json (current_turn M + 1 + int i) ss es)"
    if "i < length (status_of M1 # sts)" for i
  proof (cases i)
    case 0
    then show ?thesis using M1(1) by (auto simp: status_of_def)
  next
    case (Suc j)
    then have "\<exists>ss es. sts ! j = Message (status_json (current_turn M1 + 1 + int j) ss es)"
      using P that by simp
    then show ?thesis using Suc M1(1) by (simp add: algebra_simps)
  qed
  have lg: "logger M' = map_option (\<lambda>l. l @ status_of M1 # sts) (logger M)"
    using P M1(2) by (simp add: option.map_comp comp_def)
  show ?thesis
    unfolding played_def
  proof (intro conjI allI)
    fix i show "i < length (status_of M1 # sts) \<longrightarrow> (\<exists>ss es. (status_of M1 # sts) ! i =
        Message (status_json (current_turn M + 1 + int i) ss es))" using num by blast
  qed (use P inv lg sl in auto)
qed

lemma game_loop_spec:
  assumes "game_inv n M" "good_env env" "k \<le> 40"
  shows "\<exists>sts M'. game_loop env (map int [Suc k..<41]) M = Inr M' \<and> played env n k M sts M'"
  using assms
proof (induction "40 - k" arbitrary: k M)
  case 0
  then show ?case by (auto intro: played_Nil)
next
  case (Suc d)
  have ts: "map int [Suc k..<41] = int (Suc k) # map int [Suc (Suc k)..<41]"
    using Suc(2) by (simp add: upt_conv_Cons)
  show ?case
  proof (cases "IsGameFinished M")
    case True
    then show ?thesis unfolding ts using Suc.prems by (auto intro: played_Nil simp del: upt_Suc)
  next
    case False
    obtain M1 where M1: "play_turn env (int (Suc k)) M = Inr M1" "game_inv n M1"
      "current_turn M1 = current_turn M + 1"
      "logger M1 = map_option (\<lambda>l. l @ [status_of M1]) (logger M)"
      "sent_list M1 = (if \<not> IsGameFinished M1 \<and> int (Suc k) \<noteq> 40
         then map (\<lambda>s. s @ line_of env (status_of M1)) (sent_list M) else sent_list M)"
      using play_turn_spec[OF Suc.prems(1,2), of "int (Suc k)"] by (auto simp: returns_iff)
    obtain sts M' where M': "game_loop env (map int [Suc (Suc k)..<41]) M1 = Inr M'"
        "played env n (Suc k) M1 sts M'"
      using Suc.hyps(1)[of "Suc k" M1] Suc.hyps(2) M1(2) Suc.prems(2) by fastforce
    have "game_loop env (map int [Suc k..<41]) M = Inr M'"
      unfolding ts using False M1(1) M'(1) by (simp del: upt_Suc)
    moreover have "played env n k M (status_of M1 # sts) M'"
      using played_Cons[OF False _ M1(3-5) M'(2)] Suc.hyps(2) by simp
    ultimately show ?thesis by blast
  qed
qed

text \<open>
  A game of full tables: it ends normally, calls the callback once, and sends and logs the
  start, the statuses and the end.
\<close>

definition ready_match :: "int \<Rightarrow> snake_match \<Rightarrow> bool" where
  "ready_match n M = (1 \<le> n \<and> n \<le> 4 \<and> num_players M = n \<and> match_options M = Options n \<and>
     board M = Grid 15 15 kEmpty \<and> current_turn M = 1 \<and> length (players M) = nat n \<and>
     (\<forall>p \<in> set (players M). in_play p))"

lemma begin_game_spec:
  assumes "ready_match n M" "good_env env"
  obtains M1 start where "begin_game env M = Inr M1" "game_inv n M1" "\<not> IsGameFinished M1"
    "current_turn M1 = 1" "logger M1 = map_option (\<lambda>l. l @ [Message start]) (logger M)"
    "sent_list M1 = map (\<lambda>s. s @ line_of env (Message start)) (sent_list M)"
    "json_get ''type'' start = Inr (JString ''game_start'')"
proof -
  obtain b where b: "SpawnSnakes M = Inr (M\<lparr>snakes := take (nat n) spawned, board := b\<rparr>)"
    "match_inv 4 (M\<lparr>snakes := take (nat n) spawned, board := b\<rparr>)"
    using SpawnSnakes_spec[of n M] assms(1) by (auto simp: ready_match_def)
  define M0 where "M0 = M\<lparr>snakes := take (nat n) spawned, board := b\<rparr>"
  have g0: "game_inv n M0"
    using b(2) assms(1) by (auto simp: game_inv_def M0_def ready_match_def min_def)
  define start where "start = start_json M0"
  have st: "MakeGameStart M0 = Inr (Message start)"
    using g0 MakeGameStart_eq by (simp add: start_def game_inv_def match_inv_def)
  obtain ps where ps: "Broadcast (env_io env) (env_ok env 0) (Message start) M0 = Inr (M0\<lparr>players := ps\<rparr>)"
    "game_inv n (M0\<lparr>players := ps\<rparr>)"
    "map sent_of ps = map (\<lambda>s. s @ line_of env (Message start)) (sent_list M0)"
    using Broadcast_game[OF g0 assms(2)] .
  define M1 where "M1 = logged (Message start) (M0\<lparr>players := ps\<rparr>)"
  have "begin_game env M = Inr M1"
    using b(1) st ps(1) assms(2) by (simp add: begin_game_def M0_def[symmetric] M1_def)
  moreover have "game_inv n M1" using ps(2) by (simp add: M1_def)
  moreover have "\<not> IsGameFinished M1"
    using spawned_facts(2)[of 0] assms(1)
    by (cases spawned) (auto simp: M1_def M0_def IsGameFinished_def ready_match_def take_Cons' spawned_def)
  moreover have "current_turn M1 = 1" using assms(1) by (simp add: M1_def M0_def ready_match_def)
  moreover have "sent_list M1 = map (\<lambda>s. s @ line_of env (Message start)) (sent_list M)"
    using ps(3) by (simp add: M1_def M0_def sent_list_def)
  moreover have "json_get ''type'' start = Inr (JString ''game_start'')"
    by (simp add: start_def start_json_def)
  ultimately show thesis using that[of M1 start] by (simp add: M1_def M0_def)
qed

lemma end_game_spec:
  assumes "game_inv n M" "good_env env"
  obtains M' where "end_game env M = Inr M'" "game_inv n M'" "IsGameFinished M' = IsGameFinished M"
    "logger M' = map_option (\<lambda>l. l @ [Message end_json]) (logger M)"
    "sent_list M' = map (\<lambda>s. s @ line_of env (Message end_json)) (sent_list M)"
proof -
  obtain qs where qs: "Broadcast (env_io env) (env_ok env 41) (Message end_json) M = Inr (M\<lparr>players := qs\<rparr>)"
    "game_inv n (M\<lparr>players := qs\<rparr>)"
    "map sent_of qs = map (\<lambda>s. s @ line_of env (Message end_json)) (sent_list M)"
    using Broadcast_game[OF assms] .
  have "max_turns (match_options M) = 40" using assms(1) by (simp add: game_inv_def)
  then have "end_game env M = Inr (logged (Message end_json) (M\<lparr>players := qs\<rparr>))"
    using qs(1) assms(2) by (simp add: end_game_def MakeGameEnd_eq)
  then show thesis using that qs by simp
qed

lemma turns_upto: "map (\<lambda>i. i + 1) (counters 40) = map int [Suc 0..<41]"
proof -
  have "[Suc 0..<Suc 40] = map Suc [0..<40]" by (simp add: map_Suc_upt del: upt_Suc)
  then show ?thesis by (simp add: counters_def del: upt_Suc)
qed

lemma StartGame_spec:
  assumes "ready_match n M" "good_env env"
  shows "\<exists>M' start sts. StartGame env cb (M, w) = Inr (M', cb w) \<and>
    logger M' = map_option (\<lambda>l. l @ [Message start] @ sts @ [Message end_json]) (logger M) \<and>
    sent_list M' = map (\<lambda>s. s @ concat (map (line_of env)
      ([Message start] @ butlast sts @ [Message end_json]))) (sent_list M) \<and>
    json_get ''type'' start = Inr (JString ''game_start'') \<and>
    1 \<le> length sts \<and> length sts \<le> 40 \<and> (IsGameFinished M' \<or> length sts = 40) \<and>
    (\<forall>i < length sts. \<exists>ss es. sts ! i = Message (status_json (int i + 2) ss es))"
proof -
  obtain M1 start where M1: "begin_game env M = Inr M1" "game_inv n M1" "\<not> IsGameFinished M1"
    "current_turn M1 = 1" "logger M1 = map_option (\<lambda>l. l @ [Message start]) (logger M)"
    "sent_list M1 = map (\<lambda>s. s @ line_of env (Message start)) (sent_list M)"
    "json_get ''type'' start = Inr (JString ''game_start'')"
    using begin_game_spec[OF assms] .
  obtain sts M2 where M2: "game_loop env (map int [Suc 0..<41]) M1 = Inr M2" "played env n 0 M1 sts M2"
    using game_loop_spec[OF M1(2) assms(2), of 0] by auto
  note P = M2(2)[unfolded played_def]
  have g2: "game_inv n M2" using P by simp
  obtain M3 where M3: "end_game env M2 = Inr M3" "IsGameFinished M3 = IsGameFinished M2"
    "logger M3 = map_option (\<lambda>l. l @ [Message end_json]) (logger M2)"
    "sent_list M3 = map (\<lambda>s. s @ line_of env (Message end_json)) (sent_list M2)"
    using end_game_spec[OF g2 assms(2)] .
  have "max_turns (match_options M1) = 40" using M1(2) by (simp add: game_inv_def)
  then have "StartGame env cb (M, w) = Inr (M3, cb w)"
    using M1(1) M2(1) M3(1) by (simp add: StartGame_def turns_upto del: upt_Suc)
  moreover have "logger M3 = map_option (\<lambda>l. l @ [Message start] @ sts @ [Message end_json]) (logger M)"
    using P M1(5) M3(3) by (simp add: option.map_comp comp_def)
  moreover have "sent_list M3 = map (\<lambda>s. s @ concat (map (line_of env)
      ([Message start] @ butlast sts @ [Message end_json]))) (sent_list M)"
    using P M1(6) M3(4) by (simp add: comp_def)
  moreover have "IsGameFinished M3 \<or> length sts = 40" "length sts \<le> 40" using P M3(2) by simp_all
  moreover have "1 \<le> length sts" using P M1(3) by (cases sts) auto
  moreover have "\<forall>i < length sts. \<exists>ss es. sts ! i = Message (status_json (int i + 2) ss es)"
  proof -
    have "current_turn M1 + 1 + int i = int i + 2" for i using M1(4) by simp
    then show ?thesis using P by (simp add: add.commute)
  qed
  ultimately show ?thesis using M1(7) by blast
qed

section \<open>A live snake can lose a cell of its body\<close>

text \<open>
  When a snake's head runs into another snake, \<open>KillSnake\<close> erases all points of the dead snake,
  its head included, although that cell belongs to the body it hit.  Four players, eight turns:
  snake 0 walks up the column x = 4, snake 3 comes down the column x = 1, turns and hits it.
\<close>

definition hole_actions :: "action list list" where
  "hole_actions = [[kLeft, kForward, kForward, kForward]] @
     replicate 4 [kForward, kForward, kForward, kForward] @
     [[kForward, kForward, kForward, kLeft]] @ replicate 2 [kForward, kForward, kForward, kForward]"

definition run_game :: "int \<Rightarrow> action list list \<Rightarrow> snake_match result" where
  "run_game n turns = bnd (SpawnSnakes (SnakeMatch (Options n))) (foldM ProcessTurn turns)"

lemma hole_run: "case run_game 4 hole_actions of Inl e \<Rightarrow> False
  | Inr M \<Rightarrow> \<not> dead (snakes M ! 0) \<and> Point 4 6 \<in> set (points (snakes M ! 0)) \<and>
      Inside (board M) (Point 4 6) \<and> cell (board M) (Point 4 6) = kEmpty"
  by code_simp

lemma run_game_reachable:
  assumes "1 \<le> n" "n \<le> 4" "\<forall>actions \<in> set turns. length actions = nat n" "run_game n turns = Inr M"
  shows "reachable n M"
proof -
  obtain M0 where M0: "SpawnSnakes (SnakeMatch (Options n)) = Inr M0" "foldM ProcessTurn turns M0 = Inr M"
    using assms(4) by (auto simp: run_game_def bnd_eq_Inr)
  have "reachable n M0" using M0(1) assms(1,2) by (rule reachable.spawn)
  show ?thesis
    using M0(2)
  proof (rule foldM_invariant)
    fix actions M M' assume "actions \<in> set turns" "reachable n M" "ProcessTurn actions M = Inr M'"
    then show "reachable n M'" using assms(3) by (auto intro: reachable.turn)
  qed fact
qed

end
