(* ===== verification/SnakeProperties.thy ===== *)
theory SnakeProperties
  imports SnakeGame
begin

text \<open>
  The properties of the snake game: what a turn does to the snakes and to the board, who dies,
  where a match starts, and how a whole game runs.
\<close>

section \<open>Instances used by the witnesses\<close>

text \<open>The state right after spawning.\<close>

definition start_match :: "int \<Rightarrow> snake_match" where
  "start_match n = (case SpawnSnakes (SnakeMatch (Options n)) of
     Inr M \<Rightarrow> M | Inl e \<Rightarrow> SnakeMatch (Options n))"

lemma start_match_spec:
  assumes "1 \<le> n" "n \<le> 4"
  shows "SpawnSnakes (SnakeMatch (Options n)) = Inr (start_match n)"
    and "reachable n (start_match n)"
    and "match_inv 4 (start_match n)"
    and "snakes (start_match n) = take (nat n) spawned"
    and "length (snakes (start_match n)) = nat n"
    and "\<forall>i < nat n. \<forall>p \<in> set (points (spawned ! i)). cell (board (start_match n)) p = int i"
proof -
  obtain b where b: "SpawnSnakes (SnakeMatch (Options n)) =
      Inr ((SnakeMatch (Options n))\<lparr>snakes := take (nat n) spawned, board := b\<rparr>)"
    "match_inv 4 ((SnakeMatch (Options n))\<lparr>snakes := take (nat n) spawned, board := b\<rparr>)"
    "\<forall>i < nat n. \<forall>p \<in> set (points (spawned ! i)). cell b p = int i"
    using SpawnSnakes_spec[of n "SnakeMatch (Options n)"] assms by auto
  have e: "start_match n = (SnakeMatch (Options n))\<lparr>snakes := take (nat n) spawned, board := b\<rparr>"
    using b(1) by (simp add: start_match_def)
  show "SpawnSnakes (SnakeMatch (Options n)) = Inr (start_match n)" using b(1) e by simp
  then show "reachable n (start_match n)" using assms by (rule reachable.spawn)
  show "match_inv 4 (start_match n)" using b(2) e by simp
  show s: "snakes (start_match n) = take (nat n) spawned" using e by simp
  show "length (snakes (start_match n)) = nat n" using s assms by simp
  show "\<forall>i < nat n. \<forall>p \<in> set (points (spawned ! i)). cell (board (start_match n)) p = int i"
    using b(3) e by simp
qed

lemma start_two: "snakes (start_match 2) ! 0 = spawned ! 0" "snakes (start_match 2) ! 1 = spawned ! 1"
  "length (snakes (start_match 2)) = 2" "reachable 2 (start_match 2)" "match_inv 4 (start_match 2)"
  using start_match_spec[of 2] by (simp_all add: nth_take)

lemma reachable_actions:
  "reachable n M \<Longrightarrow> length actions = nat n \<Longrightarrow> match_inv 4 M \<and> length actions = length (snakes M)"
  using reachable_inv by simp

lemma turn_ok:
  assumes "reachable n M" "length actions = nat n"
  shows "\<exists>M'. ProcessTurn actions M = Inr M'"
  using ProcessTurn_returns[of 4 M actions] reachable_actions[OF assms] by (auto simp: returns_iff)

text \<open>The state after some more turns.\<close>

definition state_after :: "int \<Rightarrow> action list list \<Rightarrow> snake_match" where
  "state_after n turns = (case run_game n turns of Inr M \<Rightarrow> M | Inl e \<Rightarrow> SnakeMatch (Options n))"

lemma turns_return:
  assumes "reachable n M" "\<forall>actions \<in> set turns. length actions = nat n"
  shows "\<exists>M'. foldM ProcessTurn turns M = Inr M' \<and> reachable n M'"
  using assms
proof (induction turns arbitrary: M)
  case (Cons actions turns)
  obtain M1 where M1: "ProcessTurn actions M = Inr M1"
    using turn_ok[OF Cons.prems(1)] Cons.prems(2) by auto
  moreover have "reachable n M1" using Cons.prems M1 by (auto intro: reachable.turn)
  ultimately show ?case using Cons.IH[of M1] Cons.prems(2) by auto
qed simp

lemma state_after_reachable:
  assumes "1 \<le> n" "n \<le> 4" "\<forall>actions \<in> set turns. length actions = nat n"
  shows "run_game n turns = Inr (state_after n turns)" "reachable n (state_after n turns)"
  using turns_return[OF start_match_spec(2)[OF assms(1,2)] assms(3)] start_match_spec(1)[OF assms(1,2)]
  by (auto simp: run_game_def state_after_def)

section \<open>A turn\<close>

text \<open>
  C1. The five loops of \<open>ProcessTurn\<close>, which run over the mutable board and the snakes and
  kill as they go, compute the pure specification of a turn: all live snakes advance, the
  list \<open>turn_deaths\<close> dies, the board loses the old tails and the bodies of the dead and gains
  the heads of the survivors, and the events are the deaths.  No access is out of range.
\<close>

theorem turn_refines_specification:
  assumes "match_inv n M" "length actions = length (snakes M)"
  shows "\<exists>b. ProcessTurn actions M = Inr (M\<lparr>
      snakes := kill_all (turn_deaths actions M) (moved actions (snakes M)), board := b,
      events := map death_event (turn_deaths actions M), current_turn := current_turn M + 1\<rparr>) \<and>
    grid_wf b \<and> Inside b = Inside (board M) \<and>
    (\<forall>i < length (snakes M). \<not> dead (moved actions (snakes M) ! i) \<longrightarrow> i \<notin> set (turn_deaths actions M) \<longrightarrow>
       cell b (hd (points (moved actions (snakes M) ! i))) = int i) \<and>
    (\<forall>q. Inside (board M) q \<longrightarrow>
       (\<forall>i < length (snakes M). \<not> dead (moved actions (snakes M) ! i) \<longrightarrow>
          i \<notin> set (turn_deaths actions M) \<longrightarrow> hd (points (moved actions (snakes M) ! i)) \<noteq> q) \<longrightarrow>
       cell b q = (if \<exists>k \<in> set (turn_deaths actions M). q \<in> set (points (moved actions (snakes M) ! k))
                   then kEmpty else free_tails M q))"
  using ProcessTurn_spec[OF assms] by simp

theorem turn_refines_specification_witness:
  "\<exists>b. ProcessTurn [kForward, kLeft] (start_match 2) = Inr ((start_match 2)\<lparr>
      snakes := kill_all (turn_deaths [kForward, kLeft] (start_match 2))
        (moved [kForward, kLeft] (snakes (start_match 2))), board := b,
      events := map death_event (turn_deaths [kForward, kLeft] (start_match 2)),
      current_turn := current_turn (start_match 2) + 1\<rparr>) \<and> grid_wf b"
  using turn_refines_specification[of 4 "start_match 2" "[kForward, kLeft]"] start_two by auto

text \<open>
  C2. From every state a match of one to four players can reach, a turn with one action for
  each player ends normally, and its result is again such a state and satisfies the invariant
  (snakes of length four, connected, live ones on the board, no mark on the board that is
  not a cell of a live snake).
\<close>

theorem turn_never_fails:
  assumes "reachable n M" "length actions = nat n"
  shows "\<exists>M'. ProcessTurn actions M = Inr M' \<and> reachable n M' \<and> match_inv 4 M'"
  using ProcessTurn_returns[of 4 M actions] reachable_actions[OF assms] reachable.turn[OF assms]
  by (auto simp: returns_iff)

theorem turn_never_fails_witness:
  "\<exists>M'. ProcessTurn [kRight, kLeft] (start_match 2) = Inr M' \<and> reachable 2 M' \<and> match_inv 4 M'"
  using turn_never_fails[of 2 "start_match 2" "[kRight, kLeft]"] start_two by simp

text \<open>The shape of the result of a turn, shared by the properties below.\<close>

lemma turn_shape:
  assumes "reachable n M" "length actions = nat n" "ProcessTurn actions M = Inr M'"
  shows "snakes M' = kill_all (turn_deaths actions M) (moved actions (snakes M))"
    and "events M' = map death_event (turn_deaths actions M)"
    and "current_turn M' = current_turn M + 1"
    and "length (snakes M) = nat n"
    and "match_inv 4 M" "match_inv 4 M'"
  using ProcessTurn_spec[of 4 M actions] reachable_inv[OF assms(1)] assms(2,3)
    match_inv_turn[of 4 M actions M'] by auto

lemma turn_deaths_live:
  assumes "length (snakes M) = m"
  shows "distinct (turn_deaths actions M)"
    and "k \<in> set (turn_deaths actions M) \<Longrightarrow> k < m \<and> \<not> dead (snakes M ! k)"
proof -
  note wf = deaths_wf[of "length (snakes M)" "moved actions (snakes M)" "Inside (board M)" "free_tails M"]
  show "distinct (turn_deaths actions M)" using wf by (simp add: turn_deaths_def)
  show "k < m \<and> \<not> dead (snakes M ! k)" if "k \<in> set (turn_deaths actions M)"
    using wf that assms nth_moved[of k "snakes M" actions] by (auto simp: turn_deaths_def)
qed

lemma turn_snake_at:
  assumes "reachable n M" "length actions = nat n" "ProcessTurn actions M = Inr M'" "i < nat n"
  shows "snakes M' ! i = (if i \<in> set (turn_deaths actions M)
      then (advance (actions ! i) (snakes M ! i))\<lparr>dead := True\<rparr> else advance (actions ! i) (snakes M ! i))"
  using turn_shape[OF assms(1-3)] assms(4) by simp

lemma turn_dead_at:
  assumes "reachable n M" "length actions = nat n" "ProcessTurn actions M = Inr M'" "i < nat n"
  shows "dead (snakes M' ! i) \<longleftrightarrow> dead (snakes M ! i) \<or> i \<in> set (turn_deaths actions M)"
  using turn_snake_at[OF assms] by simp

text \<open>
  C12. In every reachable state the head of each live snake is on the board and its cell holds
  the snake's own number; so no two live snakes share a head.
\<close>

theorem live_heads_own_their_cell:
  assumes "reachable n M" "i < nat n" "\<not> dead (snakes M ! i)"
  shows "Inside (board M) (hd (points (snakes M ! i))) \<and>
    cell (board M) (hd (points (snakes M ! i))) = int i \<and>
    (\<forall>j < nat n. \<not> dead (snakes M ! j) \<longrightarrow> j \<noteq> i \<longrightarrow>
       hd (points (snakes M ! j)) \<noteq> hd (points (snakes M ! i)))"
proof -
  have *: "cell (board M) (hd (points (snakes M ! j))) = int j" if j: "j < nat n" "\<not> dead (snakes M ! j)" for j
    using assms(1)
  proof cases
    case spawn
    then have M: "M = start_match n" using start_match_spec(1)[of n] by simp
    have n4: "j < 4" using j(1) spawn(3) by linarith
    have "points (spawned ! j) \<noteq> []" using spawned_facts(1)[OF n4] by (auto simp: snake_ok_def)
    then show ?thesis
      using M start_match_spec(4,6)[OF spawn(2,3)] j(1) by simp
  next
    case (turn M0 actions)
    have l: "length (snakes M0) = nat n" "length actions = length (snakes M0)" "match_inv 4 M0"
      using turn_shape(4,5)[OF turn] turn(2) by auto
    have s: "snakes M ! j = advance (actions ! j) (snakes M0 ! j)" "j \<notin> set (turn_deaths actions M0)"
      using turn_snake_at[OF turn j(1)] j(2) by (auto split: if_splits)
    obtain b where b: "board M = b"
      "\<forall>i < length (snakes M0). \<not> dead (moved actions (snakes M0) ! i) \<longrightarrow>
        i \<notin> set (turn_deaths actions M0) \<longrightarrow> cell b (hd (points (moved actions (snakes M0) ! i))) = int i"
      using ProcessTurn_spec[OF l(3,2)] turn(3) by auto
    show ?thesis using b s j l(1) by simp
  qed
  have inv: "match_inv 4 M" "length (snakes M) = nat n" using reachable_inv[OF assms(1)] by auto
  have "points (snakes M ! i) \<noteq> []" using match_inv_points inv assms(2) by simp
  then have "Inside (board M) (hd (points (snakes M ! i)))"
    using inv assms(2,3) unfolding match_inv_def by simp
  moreover have "hd (points (snakes M ! j)) \<noteq> hd (points (snakes M ! i))"
    if "j < nat n" "\<not> dead (snakes M ! j)" "j \<noteq> i" for j
    using *[OF that(1,2)] *[OF assms(2,3)] that(3) by auto
  ultimately show ?thesis using * assms(2,3) by blast
qed

theorem live_heads_own_their_cell_witness:
  "cell (board (start_match 2)) (hd (points (snakes (start_match 2) ! 1))) = 1"
  using live_heads_own_their_cell[of 2 "start_match 2" 1] start_two
  by (simp add: spawned_def)

text \<open>
  C13. A turn moves every live snake by one cell: the head advances in the direction its action
  turned it to, the last cell is dropped and remembered, and only the dead flag may change
  besides.  Dead snakes stay as they are.
\<close>

theorem turn_moves_snakes:
  assumes "reachable n M" "length actions = nat n" "ProcessTurn actions M = Inr M'" "i < nat n"
  shows "if dead (snakes M ! i) then snakes M' ! i = snakes M ! i
    else direction (snakes M' ! i) =
        (case actions ! i of kLeft \<Rightarrow> RotateLeft (direction (snakes M ! i))
         | kRight \<Rightarrow> RotateRight (direction (snakes M ! i)) | kForward \<Rightarrow> direction (snakes M ! i)) \<and>
      points (snakes M' ! i) =
        point_add (hd (points (snakes M ! i))) (direction (snakes M' ! i)) # butlast (points (snakes M ! i)) \<and>
      recently_removed_point (snakes M' ! i) = Some (last (points (snakes M ! i))) \<and>
      sid (snakes M' ! i) = sid (snakes M ! i)"
  using turn_snake_at[OF assms] turn_deaths_live(2)[OF turn_shape(4)[OF assms(1-3)], of i actions]
  by (cases "actions ! i") (auto simp: advance_def turn_snake_def Let_def)

theorem turn_moves_snakes_witness:
  "\<exists>M'. ProcessTurn [kLeft, kForward] (start_match 2) = Inr M' \<and>
     direction (snakes M' ! 0) = Point 0 1 \<and>
     points (snakes M' ! 0) = [Point 4 2, Point 4 1, Point 3 1, Point 2 1]"
proof -
  obtain M' where M': "ProcessTurn [kLeft, kForward] (start_match 2) = Inr M'"
    using turn_ok[of 2 "start_match 2" "[kLeft, kForward]"] start_two by auto
  show ?thesis
    using turn_moves_snakes[of 2 "start_match 2" "[kLeft, kForward]" M' 0] M' start_two
    by (simp add: spawned_def RotateLeft_def Point_def point_add_def)
qed

text \<open>
  The events of a turn report exactly its deaths: one event for each snake that was alive
  before and is dead after, no snake twice, nothing for the others.
\<close>

lemma turn_reports_deaths_once:
  assumes "reachable n M" "length actions = nat n" "ProcessTurn actions M = Inr M'"
  shows "\<exists>ks. distinct ks \<and> events M' = map death_event ks \<and>
    set ks = {i. i < nat n \<and> \<not> dead (snakes M ! i) \<and> dead (snakes M' ! i)}"
proof (intro exI conjI)
  note sh = turn_shape[OF assms]
  show "distinct (turn_deaths actions M)" by (rule turn_deaths_live(1)[OF sh(4)])
  show "events M' = map death_event (turn_deaths actions M)" by (rule sh(2))
  show "set (turn_deaths actions M) = {i. i < nat n \<and> \<not> dead (snakes M ! i) \<and> dead (snakes M' ! i)}"
    using turn_dead_at[OF assms] turn_deaths_live(2)[OF sh(4)] by blast
qed

section \<open>Who dies\<close>

text \<open>The cell a snake's head moves to.\<close>

definition target :: "action \<Rightarrow> snake \<Rightarrow> point" where
  "target a s = hd (points (advance a s))"

text \<open>
  Two live heads on one free cell of the board: whatever the order of the checks, either both
  snakes have been killed or none.
\<close>

lemma deaths_equal_heads:
  assumes "a < length ss" "b < length ss" "\<not> dead (ss ! a)" "\<not> dead (ss ! b)"
    and q: "hd (points (ss ! a)) = q" "hd (points (ss ! b)) = q" "ins q" "field q = kEmpty"
    and n: "n \<le> length ss"
  shows "a \<in> set (deaths ins field ss n) \<longleftrightarrow> b \<in> set (deaths ins field ss n)"
  using n
proof (induction n)
  case 0
  then show ?case by (simp add: deaths_def)
next
  case (Suc n)
  define ks where "ks = deaths ins field ss n"
  have ih: "a \<in> set ks \<longleftrightarrow> b \<in> set ks" using Suc by (simp add: ks_def)
  have "a \<in> set (collide ins field ss n ks) \<longleftrightarrow> b \<in> set (collide ins field ss n ks)"
  proof (cases "dead (ss ! n) \<or> n \<in> set ks")
    case True
    then show ?thesis using ih by (auto simp: collide_def)
  next
    case False
    define r where "r = hd (points (ss ! n))"
    define ks1 where "ks1 = (if \<not> ins r \<or> (field r \<noteq> kEmpty \<and> (\<forall>k \<in> set ks. r \<notin> set (points (ss ! k))))
      then ks @ [n] else ks)"
    have ks1: "a \<in> set ks1 \<longleftrightarrow> a \<in> set ks" "b \<in> set ks1 \<longleftrightarrow> b \<in> set ks"
      using q by (auto simp: ks1_def r_def)
    show ?thesis
      using False ih ks1 q assms(1-4) by (auto simp: collide_def Let_def ks1_def[symmetric] r_def[symmetric])
  qed
  then show ?case by (simp add: deaths_Suc ks_def)
qed

text \<open>
  C14. A move to a cell of the board that is free once the tails have moved on, and that no other
  live snake moves to in this turn, is survived.
\<close>

theorem safe_move_survives:
  assumes "reachable n M" "length actions = nat n" "ProcessTurn actions M = Inr M'"
    and "i < nat n" "\<not> dead (snakes M ! i)"
    and "Inside (board M) (target (actions ! i) (snakes M ! i))"
    and "free_tails M (target (actions ! i) (snakes M ! i)) = kEmpty"
    and "\<And>h. h < nat n \<Longrightarrow> \<not> dead (snakes M ! h) \<Longrightarrow> h \<noteq> i \<Longrightarrow>
      target (actions ! h) (snakes M ! h) \<noteq> target (actions ! i) (snakes M ! i)"
  shows "\<not> dead (snakes M' ! i)"
proof -
  note l = turn_shape(4)[OF assms(1-3)]
  have "i \<notin> set (turn_deaths actions M)"
    using deaths_safe[of i "moved actions (snakes M)" "length (snakes M)" "Inside (board M)" "free_tails M"]
      assms(4-8) l by (auto simp: turn_deaths_def target_def)
  then show ?thesis using turn_dead_at[OF assms(1-4)] assms(5) by simp
qed

theorem safe_move_survives_witness:
  "\<exists>M'. ProcessTurn [kLeft, kForward] (start_match 2) = Inr M' \<and> \<not> dead (snakes M' ! 0)"
proof -
  obtain M' where M': "ProcessTurn [kLeft, kForward] (start_match 2) = Inr M'"
    using turn_ok[of 2 "start_match 2" "[kLeft, kForward]"] start_two by auto
  have facts: "Inside (board (start_match 2)) (target kLeft (snakes (start_match 2) ! 0)) \<and>
      free_tails (start_match 2) (target kLeft (snakes (start_match 2) ! 0)) = kEmpty \<and>
      target kForward (snakes (start_match 2) ! 1) \<noteq> target kLeft (snakes (start_match 2) ! 0)"
    by code_simp
  have "\<not> dead (snakes (start_match 2) ! 0)" using start_two by (simp add: spawned_def)
  then show ?thesis
    using safe_move_survives[of 2 "start_match 2" "[kLeft, kForward]" M' 0] M' start_two facts
    by (auto simp: less_2_cases_iff)
qed

text \<open>A move off the board is fatal.\<close>

lemma leaving_the_board_kills:
  assumes "reachable n M" "length actions = nat n" "ProcessTurn actions M = Inr M'"
    and "i < nat n" "\<not> dead (snakes M ! i)"
    and "\<not> Inside (board M) (target (actions ! i) (snakes M ! i))"
  shows "dead (snakes M' ! i)"
proof -
  note l = turn_shape(4)[OF assms(1-3)]
  have "i \<in> set (turn_deaths actions M)"
    using deaths_outside[of i "moved actions (snakes M)" "Inside (board M)" "free_tails M"]
      assms(4-6) l by (auto simp: turn_deaths_def target_def)
  then show ?thesis using turn_dead_at[OF assms(1-4)] by simp
qed

text \<open>
  Two live snakes that move to the same cell of the board, free once the tails have moved
  on, both die, whoever is checked first.
\<close>

lemma head_on_collision_kills_both:
  assumes "reachable n M" "length actions = nat n" "ProcessTurn actions M = Inr M'"
    and "i < nat n" "j < nat n" "i \<noteq> j" "\<not> dead (snakes M ! i)" "\<not> dead (snakes M ! j)"
    and "target (actions ! i) (snakes M ! i) = q" "target (actions ! j) (snakes M ! j) = q"
    and "Inside (board M) q" "free_tails M q = kEmpty"
  shows "dead (snakes M' ! i) \<and> dead (snakes M' ! j)"
proof -
  note l = turn_shape(4)[OF assms(1-3)]
  define ks where "ks = deaths (Inside (board M)) (free_tails M) (moved actions (snakes M)) (length (snakes M))"
  have eq: "i \<in> set ks \<longleftrightarrow> j \<in> set ks"
    using deaths_equal_heads[of i "moved actions (snakes M)" j q "Inside (board M)" "free_tails M"
        "length (snakes M)"] assms(4-12) l by (simp add: ks_def target_def)
  have "i \<in> set ks \<or> j \<in> set ks"
    using deaths_survivor(3)[of i "moved actions (snakes M)" "Inside (board M)" "free_tails M" j]
      assms(4-12) l by (auto simp: ks_def target_def)
  then show ?thesis
    using eq turn_dead_at[OF assms(1-4)] turn_dead_at[OF assms(1-3,5)]
    by (simp add: turn_deaths_def ks_def)
qed

definition approach :: "action list list" where
  "approach = replicate 3 [kForward, kForward] @ [[kLeft, kForward], [kForward, kLeft]] @
     replicate 4 [kForward, kForward]"

lemma approach_facts:
  "(let M = state_after 2 approach in \<not> dead (snakes M ! 0) \<and> \<not> dead (snakes M ! 1) \<and>
     target kForward (snakes M ! 0) = Point 7 8 \<and> target kForward (snakes M ! 1) = Point 7 8 \<and>
     Inside (board M) (Point 7 8) \<and> free_tails M (Point 7 8) = kEmpty)"
  by code_simp

text \<open>
  On an occupied cell the order of the checks decides: snakes 0 and 1 move to the same cell
  of snake 2's body in one turn; snake 0 is checked first and dies, its death empties the
  cell, and snake 1 survives on it.
\<close>

definition two_intruders :: "action list list" where
  "two_intruders =
     [[kLeft, kForward, kForward], [kLeft, kForward, kForward], [kLeft, kForward, kLeft],
      [kLeft, kLeft, kForward], [kForward, kForward, kForward], [kForward, kForward, kForward],
      [kForward, kRight, kForward], [kLeft, kLeft, kForward], [kForward, kForward, kForward],
      [kForward, kForward, kForward], [kForward, kForward, kForward]]"

lemma two_intruders_run:
  "(let M = state_after 3 two_intruders; A = [kForward, kForward, kLeft] in
     case ProcessTurn A M of Inl e \<Rightarrow> False
     | Inr M' \<Rightarrow> target kForward (snakes M ! 0) = target kForward (snakes M ! 1) \<and>
         \<not> dead (snakes M ! 0) \<and> \<not> dead (snakes M ! 1) \<and>
         free_tails M (target kForward (snakes M ! 0)) = 2 \<and>
         dead (snakes M' ! 0) \<and> \<not> dead (snakes M' ! 1))"
  by code_simp

lemma second_intruder_survives:
  "\<exists>M M'. reachable 3 M \<and> ProcessTurn [kForward, kForward, kLeft] M = Inr M' \<and>
     target kForward (snakes M ! 0) = target kForward (snakes M ! 1) \<and>
     \<not> dead (snakes M ! 0) \<and> \<not> dead (snakes M ! 1) \<and>
     free_tails M (target kForward (snakes M ! 0)) = 2 \<and>
     dead (snakes M' ! 0) \<and> \<not> dead (snakes M' ! 1)"
proof -
  have r: "reachable 3 (state_after 3 two_intruders)"
    by (rule state_after_reachable) (auto simp: two_intruders_def)
  show ?thesis
    by (rule exI[of _ "state_after 3 two_intruders"])
      (use r two_intruders_run in \<open>auto simp: Let_def split: sum.splits\<close>)
qed

text \<open>
  A live snake can lose a cell of its body on the board: \<open>KillSnake\<close> erases the head of a
  snake that ran into another one, although that cell belongs to the snake it hit.  The
  board can show an empty cell where a live snake is.
\<close>

lemma live_snake_with_a_hole:
  "\<exists>M q. reachable 4 M \<and> \<not> dead (snakes M ! 0) \<and> q \<in> set (points (snakes M ! 0)) \<and>
     Inside (board M) q \<and> cell (board M) q = kEmpty"
proof -
  have r: "reachable 4 M" if "run_game 4 hole_actions = Inr M" for M
    by (rule run_game_reachable[OF _ _ _ that]) (auto simp: hole_actions_def)
  show ?thesis using hole_run r by (auto split: sum.splits)
qed

section \<open>Start and input of a match\<close>

text \<open>
  C15. A match of one to four players starts with snakes of four cells in the corners, alive,
  pairwise disjoint, on the board; the board is marked with their numbers exactly on their
  cells.
\<close>

theorem match_starts_with_disjoint_snakes:
  assumes "1 \<le> n" "n \<le> 4"
  shows "\<exists>M. SpawnSnakes (SnakeMatch (Options n)) = Inr M \<and> length (snakes M) = nat n \<and>
    (\<forall>i < nat n. \<not> dead (snakes M ! i) \<and> length (points (snakes M ! i)) = 4 \<and>
       (\<forall>p \<in> set (points (snakes M ! i)). Inside (board M) p) \<and>
       (\<forall>j < nat n. j \<noteq> i \<longrightarrow> set (points (snakes M ! i)) \<inter> set (points (snakes M ! j)) = {})) \<and>
    (\<forall>p i. Inside (board M) p \<longrightarrow> i < nat n \<longrightarrow>
       (cell (board M) p = int i \<longleftrightarrow> p \<in> set (points (snakes M ! i))))"
proof (intro exI conjI)
  note st = start_match_spec[OF assms]
  have nth: "snakes (start_match n) ! i = spawned ! i" if "i < nat n" for i
    using st(4) that by (simp add: nth_take)
  have n4: "i < 4" if "i < nat n" for i using that assms by linarith
  show "SpawnSnakes (SnakeMatch (Options n)) = Inr (start_match n)" by (rule st(1))
  show "length (snakes (start_match n)) = nat n" by (rule st(5))
  show "\<forall>i < nat n. \<not> dead (snakes (start_match n) ! i) \<and> length (points (snakes (start_match n) ! i)) = 4 \<and>
       (\<forall>p \<in> set (points (snakes (start_match n) ! i)). Inside (board (start_match n)) p) \<and>
       (\<forall>j < nat n. j \<noteq> i \<longrightarrow>
          set (points (snakes (start_match n) ! i)) \<inter> set (points (snakes (start_match n) ! j)) = {})"
  proof (intro allI impI conjI)
    fix i assume i: "i < nat n"
    have inv: "match_inv 4 (start_match n)" by (rule st(3))
    show d: "\<not> dead (snakes (start_match n) ! i)" using nth[OF i] spawned_facts(2)[OF n4[OF i]] by simp
    show "length (points (snakes (start_match n) ! i)) = 4"
      using nth[OF i] spawned_facts(1)[OF n4[OF i]] by (simp add: snake_ok_def)
    show "\<forall>p \<in> set (points (snakes (start_match n) ! i)). Inside (board (start_match n)) p"
      using inv d i st(5) unfolding match_inv_def by simp
    show "set (points (snakes (start_match n) ! i)) \<inter> set (points (snakes (start_match n) ! j)) = {}"
      if "j < nat n" "j \<noteq> i" for j
      using spawned_disjoint[OF n4[OF i] n4[OF that(1)]] that nth[OF i] nth[OF that(1)] by simp
  qed
  show "\<forall>p i. Inside (board (start_match n)) p \<longrightarrow> i < nat n \<longrightarrow>
       (cell (board (start_match n)) p = int i \<longleftrightarrow> p \<in> set (points (snakes (start_match n) ! i)))"
  proof (intro allI impI)
    fix p i assume p: "Inside (board (start_match n)) p" and i: "i < nat n"
    show "cell (board (start_match n)) p = int i \<longleftrightarrow> p \<in> set (points (snakes (start_match n) ! i))"
    proof
      assume c: "cell (board (start_match n)) p = int i"
      have "cell (board (start_match n)) p = kEmpty \<or> (\<exists>k < length (snakes (start_match n)).
          cell (board (start_match n)) p = int k \<and> \<not> dead (snakes (start_match n) ! k) \<and>
          p \<in> set (points (snakes (start_match n) ! k)))"
        using st(3) p unfolding match_inv_def by blast
      then show "p \<in> set (points (snakes (start_match n) ! i))" using c by auto
    next
      assume "p \<in> set (points (snakes (start_match n) ! i))"
      then show "cell (board (start_match n)) p = int i" using st(6) i nth[OF i] by auto
    qed
  qed
qed

theorem match_starts_with_disjoint_snakes_witness:
  "\<exists>M. SpawnSnakes (SnakeMatch (Options 3)) = Inr M \<and> length (snakes M) = 3"
  using match_starts_with_disjoint_snakes[of 3] by auto


text \<open>
  The number of players of a join request is read from its low 32 bits: a request for
  \<open>2 ^ 32 + 2\<close> players is a request for two.
\<close>

lemma match_created_from_low_bits:
  assumes "1 \<le> n" "n \<le> 4"
  shows "CreateMatch (JObject [(''num_players'', JULongLong w)]) = Inr (Some (SnakeMatch (Options n))) \<longleftrightarrow>
    uint w mod 2 ^ 32 = n"
proof -
  have "SnakeMatch (Options a) = SnakeMatch (Options b) \<longleftrightarrow> a = b" for a b
    by (metis SnakeMatch_simps(2) Options_simps(1))
  moreover have "to_int32 w = n \<longleftrightarrow> uint w mod 2 ^ 32 = n"
  proof -
    have u: "uint (ucast w :: 32 word) = uint w mod 2 ^ 32" by (simp add: unsigned_ucast_eq take_bit_eq_mod)
    have "to_int32 w = (uint (ucast w :: 32 word) + 2 ^ 31) mod 2 ^ 32 - 2 ^ 31"
      unfolding to_int32_def sint_uint by (simp add: signed_take_bit_eq_take_bit_shift take_bit_eq_mod)
    moreover have "(v + 2 ^ 31) mod 2 ^ 32 - 2 ^ 31 = n \<longleftrightarrow> v = n" if "0 \<le> v" "v < 2 ^ 32" for v :: int
    proof (cases "v < 2 ^ 31")
      case False
      then have "(v + 2 ^ 31) mod 2 ^ 32 = v - 2 ^ 31"
        using that mod_pos_pos_trivial[of "v - 2 ^ 31" "2 ^ 32"] mod_add_self2[of "v - 2 ^ 31" "2 ^ 32"]
        by (simp add: add.commute)
      then show ?thesis using assms that False by simp
    qed (use that in simp)
    ultimately show ?thesis unfolding u by simp
  qed
  ultimately show ?thesis
    using assms by (auto simp: CreateMatch_def ParseFromJson_def Let_def Options_def)
qed

end
