(* ===== verification/Lobby.thy ===== *)
theory Lobby
  imports SnakeGame
begin

text \<open>
  The lobby (games/lobby.h, lobby.cpp): it observes new connections for a join request, seats
  each player in an open match with the same options or in a new one, and starts a match in a
  thread of its own as soon as it is full.

  A connection is named by the \<open>place\<close> where its owner keeps it: among the waiting players,
  or at a seat of a match.  The thread of a match is an entry of \<open>match_threads\<close> that says where
  it is; each step it takes is an event of its own, so that the handlers of the io thread and the
  steps of the other matches come between.  \<open>matches_mutex_\<close> is held exactly while a thread is
  inside \<open>matches_.erase\<close>, which destroys the match, its players and their connections; the
  destructor of a connection waits for the io thread.  A handler that finds the mutex held waits
  for the thread that holds it - for ever, if that thread waits for the io thread.
\<close>

section \<open>State\<close>

text \<open>Where the thread of a match is.\<close>

datatype thread_state =
    Created            \<comment> \<open>started; it has not looked up its match yet\<close>
  | Playing int        \<comment> \<open>in the loop of \<open>StartGame\<close>, before the test for this turn\<close>
  | Finishing          \<comment> \<open>in \<open>MatchFinished\<close>, before the mutex\<close>
  | Erasing nat        \<comment> \<open>holds the mutex; this many players are destroyed\<close>
  | Waiting nat        \<comment> \<open>holds the mutex and waits in the destructor of this player's connection\<close>
  | Returned

record lobby =
  waiting_players :: "(int, callback tcp_connection) ordmap"
  matches :: "(int, snake_match) ordmap"
  match_threads :: "(int, thread_state) ordmap"
  player_id_counter :: int
  match_id_counter :: int

datatype place = AtLobby int | Seat int nat

definition SequentialLobby :: lobby where
  "SequentialLobby = \<lparr>waiting_players = [], matches = [], match_threads = [],
     player_id_counter = 0, match_id_counter = 0\<rparr>"

text \<open>\<open>++counter\<close> on an \<open>int\<close>\<close>

definition increment :: "int \<Rightarrow> int result" where
  "increment i = (if i < 2 ^ 31 - 1 then Inr (i + 1) else Inl (Undefined ''int overflow''))"

definition set_thread :: "int \<Rightarrow> thread_state \<Rightarrow> lobby \<Rightarrow> lobby" where
  "set_thread mid t L = L\<lparr>match_threads := ord_set mid t (match_threads L)\<rparr>"

section \<open>The mutex\<close>

fun holds_mutex :: "thread_state \<Rightarrow> bool" where
  "holds_mutex (Erasing k) = True"
| "holds_mutex (Waiting k) = True"
| "holds_mutex _ = False"

definition mutex_holder :: "lobby \<Rightarrow> (int \<times> thread_state) option" where
  "mutex_holder L = find (\<lambda>(_, t). holds_mutex t) (match_threads L)"

text \<open>
  Whether the rest of \<open>matches_.erase\<close> returns without the io thread: no connection that is still
  to be destroyed waits for a completion handler, and one that is waiting has been notified.
\<close>

definition player_waits :: "round_player \<Rightarrow> bool" where
  "player_waits p = (case connection p of None \<Rightarrow> False | Some c \<Rightarrow> destroy_waits c)"

definition notified :: "round_player \<Rightarrow> bool" where
  "notified p = (case connection p of None \<Rightarrow> True | Some c \<Rightarrow> \<not> reading c)"

fun finishes_alone :: "thread_state \<Rightarrow> round_player list \<Rightarrow> bool" where
  "finishes_alone (Erasing k) ps = list_all (\<lambda>p. \<not> player_waits p) (drop k ps)"
| "finishes_alone (Waiting k) ps =
     (notified (ps ! k) \<and> list_all (\<lambda>p. \<not> player_waits p) (drop (Suc k) ps))"
| "finishes_alone _ ps = False"

definition erased :: "int \<Rightarrow> lobby \<Rightarrow> lobby" where
  "erased mid L = L\<lparr>matches := ord_erase mid (matches L),
     match_threads := ord_set mid Returned (match_threads L)\<rparr>"

text \<open>
  The io thread locks the mutex.  If a match thread holds it, the io thread waits until that
  thread has returned from \<open>MatchFinished\<close>; when that thread cannot without the io thread, both wait
  for ever.
\<close>

definition lock_matches :: "lobby \<Rightarrow> lobby result" where
  "lock_matches L = (case mutex_holder L of
     None \<Rightarrow> Inr L
   | Some (mid, t) \<Rightarrow> (case ord_find mid (matches L) of
        None \<Rightarrow> Inr (erased mid L)
      | Some M \<Rightarrow> if finishes_alone t (players M) then Inr (erased mid L) else Inl Deadlock))"

lemma lock_matches_frame:
  assumes "lock_matches L = Inr L'"
  shows "waiting_players L' = waiting_players L" "player_id_counter L' = player_id_counter L"
    "match_id_counter L' = match_id_counter L"
  using assms by (auto simp: lock_matches_def erased_def split: option.splits prod.splits if_splits)

section \<open>Matches\<close>

text \<open>\<open>matches_[match_id]->AddPlayer(std::move(waiting_players_[player_id]))\<close>\<close>

definition AssignPlayerToMatch :: "int \<Rightarrow> int \<Rightarrow> lobby \<Rightarrow> lobby result" where
  "AssignPlayerToMatch player_id match_id L = (case ord_find match_id (matches L) of
     None \<Rightarrow> Inl (Undefined ''null pointer'')
   | Some M \<Rightarrow>
       bnd (AddPlayer (ord_find player_id (waiting_players L)) M) (\<lambda>M.
       Inr (L\<lparr>matches := ord_set match_id M (matches L),
              waiting_players := ord_erase player_id (waiting_players L)\<rparr>)))"

definition StartMatch :: "int \<Rightarrow> lobby \<Rightarrow> lobby" where
  "StartMatch match_id L = set_thread match_id Created L"

text \<open>
  \<open>AssignPlayerToMatch(player_id, match_id); if (match->is_full()) StartMatch(match_id);\<close>
  The second component is the seat the player got.
\<close>

definition assign_and_start :: "int \<Rightarrow> int \<Rightarrow> lobby \<Rightarrow> (lobby \<times> place) result" where
  "assign_and_start player_id match_id L =
     bnd (AssignPlayerToMatch player_id match_id L) (\<lambda>L.
     case ord_find match_id (matches L) of
       None \<Rightarrow> Inl (Undefined ''null pointer'')
     | Some M \<Rightarrow> Inr (if is_full M then StartMatch match_id L else L,
                      Seat match_id (length (players M) - 1)))"

fun find_match :: "json \<Rightarrow> (int, snake_match) ordmap \<Rightarrow> int option result" where
  "find_match opts [] = Inr None"
| "find_match opts ((match_id, M) # ms) =
     (if \<not> is_full M
      then bnd (CheckOptionsCompatibility opts M) (\<lambda>ok.
             if ok then Inr (Some match_id) else find_match opts ms)
      else find_match opts ms)"

definition TryJoinExistingMatch :: "int \<Rightarrow> json \<Rightarrow> lobby \<Rightarrow> (lobby \<times> place option) result" where
  "TryJoinExistingMatch player_id opts L =
     bnd (lock_matches L) (\<lambda>L.
     bnd (find_match opts (matches L)) (\<lambda>found. case found of
       Some match_id \<Rightarrow> bnd (assign_and_start player_id match_id L) (\<lambda>(L, pl). Inr (L, Some pl))
     | None \<Rightarrow> Inr (L, None)))"

section \<open>Join requests\<close>

text \<open>
  \<open>auto match_options = content().get("data", json(""))\<close> is a proxy that refers to the member,
  or else to the default, a temporary that is gone when the proxy is used.
\<close>

definition request_options :: "message \<Rightarrow> json result" where
  "request_options m = (case content m of
     JObject ms \<Rightarrow> (case ord_find ''data'' ms of
        Some v \<Rightarrow> Inr v | None \<Rightarrow> Inl (Undefined ''dangling reference''))
   | EmptyObject \<Rightarrow> Inl (Undefined ''dangling reference'')
   | _ \<Rightarrow> Inl (not_object ''get'' ''data''))"

text \<open>
  \<open>JoinRequest\<close>, where no place means that \<open>WaitForJoin\<close> is called.  A match thread that takes the
  mutex between the two critical sections has the same effect as one that takes it before the
  first: it erases a full match, which the search skips, or the io thread waits for it for ever.
\<close>

definition join_body :: "int \<Rightarrow> message \<Rightarrow> lobby \<Rightarrow> (lobby \<times> place option) result" where
  "join_body player_id m L =
     bnd (json_get ''type'' (content m)) (\<lambda>t.
     if json_neq t (JString ''join_game'') then Inr (L, None)
     else
       bnd (request_options m) (\<lambda>opts.
       bnd (TryJoinExistingMatch player_id opts L) (\<lambda>(L, r). case r of
         Some pl \<Rightarrow> Inr (L, Some pl)
       | None \<Rightarrow>
           bnd (CreateMatch opts) (\<lambda>M. case M of
             None \<Rightarrow> Inr (L, None)
           | Some M \<Rightarrow>
               bnd (lock_matches L) (\<lambda>L.
               bnd (increment (match_id_counter L)) (\<lambda>match_id.
               let M = AddLogger [] M;
                   L = L\<lparr>match_id_counter := match_id, matches := ord_set match_id M (matches L)\<rparr>
               in bnd (assign_and_start player_id match_id L) (\<lambda>(L, pl). Inr (L, Some pl))))))))"

lemma join_body_waiting:
  assumes "join_body pid m L = Inr (L', None)"
  shows "waiting_players L' = waiting_players L"
  using assms
  by (auto simp: join_body_def TryJoinExistingMatch_def bnd_eq_Inr Let_def lock_matches_frame
      split: if_splits option.splits)

lemma ord_find_set_same [simp]: "ord_find k (ord_set k v m) = Some v"
  by (induction m) auto

text \<open>\<open>WaitForJoin\<close>: a waiting message is handled at once, by the callback \<open>JoinRequest\<close>.\<close>

function WaitForJoin :: "int \<Rightarrow> lobby \<Rightarrow> (lobby \<times> place) result" where
  "WaitForJoin player_id L = (case ord_find player_id (waiting_players L) of
     None \<Rightarrow> Inl (Undefined ''null pointer'')
   | Some c \<Rightarrow>
      (case ReadMessageAsync (OnJoin player_id) c of
         (c', None) \<Rightarrow>
            Inr (L\<lparr>waiting_players := ord_set player_id c' (waiting_players L)\<rparr>, AtLobby player_id)
       | (c', Some m) \<Rightarrow>
            bnd (join_body player_id m (L\<lparr>waiting_players := ord_set player_id c' (waiting_players L)\<rparr>))
              (\<lambda>(L, r). case r of None \<Rightarrow> WaitForJoin player_id L | Some pl \<Rightarrow> Inr (L, pl))))"
  by pat_completeness auto
termination
  by (relation "measure (\<lambda>(pid, L). case ord_find pid (waiting_players L) of
        Some c \<Rightarrow> length (messages c) | None \<Rightarrow> 0)")
    (auto simp: ReadMessageAsync_def join_body_waiting split: list.splits)

declare WaitForJoin.simps [simp del]

definition JoinRequest :: "int \<Rightarrow> message \<Rightarrow> lobby \<Rightarrow> (lobby \<times> place) result" where
  "JoinRequest player_id m L = bnd (join_body player_id m L) (\<lambda>(L, r). case r of
     None \<Rightarrow> WaitForJoin player_id L | Some pl \<Rightarrow> Inr (L, pl))"

definition lobby_AddPlayer :: "callback tcp_connection \<Rightarrow> lobby \<Rightarrow> lobby result" where
  "lobby_AddPlayer c L =
     bnd (increment (player_id_counter L)) (\<lambda>id.
     bnd (WaitForJoin id (L\<lparr>player_id_counter := id,
            waiting_players := ord_set id c (waiting_players L)\<rparr>)) (\<lambda>(L, _). Inr L))"

section \<open>Network input\<close>

definition conn_at :: "place \<Rightarrow> lobby \<Rightarrow> callback tcp_connection option" where
  "conn_at pl L = (case pl of
     AtLobby i \<Rightarrow> ord_find i (waiting_players L)
   | Seat mid k \<Rightarrow> (case ord_find mid (matches L) of
        Some M \<Rightarrow> if k < length (players M) then connection (players M ! k) else None
      | None \<Rightarrow> None))"

definition upd_player :: "int \<Rightarrow> nat \<Rightarrow> round_player \<Rightarrow> lobby \<Rightarrow> lobby" where
  "upd_player mid k p L = (case ord_find mid (matches L) of
     None \<Rightarrow> L
   | Some M \<Rightarrow> L\<lparr>matches := ord_set mid (M\<lparr>players := (players M)[k := p]\<rparr>) (matches L)\<rparr>)"

definition player_at :: "int \<Rightarrow> nat \<Rightarrow> lobby \<Rightarrow> round_player" where
  "player_at mid k L = players (the (ord_find mid (matches L))) ! k"

definition upd_conn :: "place \<Rightarrow> (callback tcp_connection \<Rightarrow> callback tcp_connection) \<Rightarrow> lobby \<Rightarrow> lobby" where
  "upd_conn pl f L = (case pl of
     AtLobby i \<Rightarrow> (case ord_find i (waiting_players L) of
        Some c \<Rightarrow> L\<lparr>waiting_players := ord_set i (f c) (waiting_players L)\<rparr> | None \<Rightarrow> L)
   | Seat mid k \<Rightarrow> upd_player mid k
        ((player_at mid k L)\<lparr>connection := map_option f (connection (player_at mid k L))\<rparr>) L)"

text \<open>
  A message that arrives while the player's destructor resets \<open>connection_\<close>: the pointer is null
  already, so \<open>WaitForMessageAsync\<close> does nothing.
\<close>

definition resetting_ProcessMessage :: "message \<Rightarrow> round_player \<Rightarrow> round_player result" where
  "resetting_ProcessMessage m p =
     bnd (player_ProcessMessage m (p\<lparr>connection := None\<rparr>)) (\<lambda>q. Inr (q\<lparr>connection := connection p\<rparr>))"

definition is_resetting :: "int \<Rightarrow> nat \<Rightarrow> lobby \<Rightarrow> bool" where
  "is_resetting mid k L = (ord_find mid (match_threads L) = Some (Waiting k))"

text \<open>The callbacks registered with the connections of the lobby and of its matches.\<close>

definition run_callback :: "callback \<Rightarrow> message \<Rightarrow> lobby \<times> place \<Rightarrow> (lobby \<times> place) result" where
  "run_callback cb m = (\<lambda>(L, pl). case cb of
     OnJoin i \<Rightarrow> JoinRequest i m L
   | OnRound \<Rightarrow> (case pl of
        AtLobby i \<Rightarrow> Inl (Undefined ''no such player'')
      | Seat mid k \<Rightarrow>
          bnd ((if is_resetting mid k L then resetting_ProcessMessage else player_ProcessMessage)
                 m (player_at mid k L))
            (\<lambda>p. Inr (upd_player mid k p L, pl))))"

definition lobby_HandleRead :: "stdio \<Rightarrow> bool \<Rightarrow> place \<Rightarrow> lobby \<Rightarrow> lobby result" where
  "lobby_HandleRead io error pl L =
     bnd (HandleRead io error (\<lambda>(L, pl). the (conn_at pl L)) (\<lambda>f (L, pl). (upd_conn pl f L, pl))
            run_callback (L, pl)) (\<lambda>(L, _). Inr L)"

definition lobby_receive :: "stdio \<Rightarrow> net_input \<Rightarrow> place \<Rightarrow> lobby \<Rightarrow> lobby result" where
  "lobby_receive io e pl L = (case conn_at pl L of
     None \<Rightarrow> Inr L
   | Some c \<Rightarrow>
      if \<not> reading c then Inr L
      else (case e of
              NetLine s \<Rightarrow> lobby_HandleRead io False pl (upd_conn pl (receive_bytes (s @ [LF])) L)
            | NetError \<Rightarrow> lobby_HandleRead io True pl L))"

section \<open>Threads\<close>

text \<open>
  A step of \<open>StartGame\<close> on the thread of a match: the start, one turn, or the end.  During a turn
  the thread touches the players of its match only, and the input they get meanwhile is part of
  the environment of the step.
\<close>

fun game_step :: "environment \<Rightarrow> thread_state \<Rightarrow> snake_match \<Rightarrow> (thread_state \<times> snake_match) result" where
  "game_step env Created M = bnd (begin_game env M) (\<lambda>M. Inr (Playing 1, M))"
| "game_step env (Playing turn) M =
     (if turn \<le> max_turns (match_options M) \<and> \<not> IsGameFinished M
      then bnd (play_turn env turn M) (\<lambda>M. Inr (Playing (turn + 1), M))
      else bnd (end_game env M) (\<lambda>M. Inr (Finishing, M)))"
| "game_step env t M = Inr (t, M)"

text \<open>
  The destructor of player \<open>k\<close>: it resets the connection, whose destructor returns at once when
  the peer has gone, and otherwise cancels the read and waits.
\<close>

definition destroy_step :: "nat \<Rightarrow> round_player \<Rightarrow> thread_state \<times> round_player" where
  "destroy_step k p =
     (if player_waits p then (Waiting k, destroy_player p)
      else (Erasing (Suc k), p\<lparr>connection := None\<rparr>))"

text \<open>
  A step of \<open>MatchFinished\<close>: taking the mutex, when it is free; destroying the next player; waking
  up, when the connection's handler has run; or, with all players destroyed, releasing the mutex
  and returning.  The entry of the match is kept until then: nobody looks while the mutex is held.
\<close>

definition MatchFinished :: "int \<Rightarrow> lobby \<Rightarrow> lobby" where
  "MatchFinished mid L = (case ord_find mid (match_threads L) of
     Some Finishing \<Rightarrow> if mutex_holder L = None then set_thread mid (Erasing 0) L else L
   | Some (Erasing k) \<Rightarrow> (case ord_find mid (matches L) of
        None \<Rightarrow> erased mid L
      | Some M \<Rightarrow>
          if k < length (players M)
          then let (t, p) = destroy_step k (players M ! k) in set_thread mid t (upd_player mid k p L)
          else erased mid L)
   | Some (Waiting k) \<Rightarrow> (let p = player_at mid k L in
        if notified p then set_thread mid (Erasing (Suc k)) (upd_player mid k (p\<lparr>connection := None\<rparr>) L)
        else L)
   | _ \<Rightarrow> L)"

text \<open>
  A step of the function of the thread.  It looks its match up without the mutex.
\<close>

definition thread_step :: "environment \<Rightarrow> int \<Rightarrow> lobby \<Rightarrow> lobby result" where
  "thread_step env mid L = (case ord_find mid (match_threads L) of
     None \<Rightarrow> Inr L
   | Some Returned \<Rightarrow> Inr L
   | Some t \<Rightarrow>
      if t = Finishing \<or> holds_mutex t then Inr (MatchFinished mid L)
      else (case ord_find mid (matches L) of
        None \<Rightarrow> Inl (Undefined ''null pointer'')
      | Some M \<Rightarrow> bnd (game_step env t M) (\<lambda>(t, M).
          Inr (set_thread mid t (L\<lparr>matches := ord_set mid M (matches L)\<rparr>)))))"

text \<open>
  A condition variable may wake up without a notification.  A destructor that does not wait again
  goes on, and the handler of the outstanding read runs on a destroyed connection.
\<close>

definition spurious_wakeup :: "int \<Rightarrow> lobby \<Rightarrow> lobby result" where
  "spurious_wakeup mid L = (case ord_find mid (match_threads L) of
     Some (Waiting k) \<Rightarrow>
       if notified (player_at mid k L) then Inr (MatchFinished mid L)
       else Inl (Undefined ''handler of a destroyed connection'')
   | _ \<Rightarrow> Inr L)"

text \<open>
  The destructor of the lobby joins every thread; then the matches and the waiting connections
  are destroyed, on the only thread that ran the io service.
\<close>

definition lobby_connections :: "lobby \<Rightarrow> callback tcp_connection list" where
  "lobby_connections L =
     List.map_filter connection (concat (map (players \<circ> snd) (matches L))) @ map snd (waiting_players L)"

definition threads_returned :: "lobby \<Rightarrow> bool" where
  "threads_returned L = list_all (\<lambda>(_, t). t = Returned) (match_threads L)"

definition destroy_returns :: "lobby \<Rightarrow> bool" where
  "destroy_returns L = (threads_returned L \<and> list_all (\<lambda>c. \<not> destroy_waits c) (lobby_connections L))"

section \<open>Events\<close>

datatype lobby_event =
    Connect                          \<comment> \<open>the server accepts a connection\<close>
  | Input place net_input
  | ThreadStep int environment
  | SpuriousWakeup int

fun lobby_step :: "stdio \<Rightarrow> lobby_event \<Rightarrow> lobby \<Rightarrow> lobby result" where
  "lobby_step io Connect L = lobby_AddPlayer TcpConnection L"
| "lobby_step io (Input pl e) L = lobby_receive io e pl L"
| "lobby_step io (ThreadStep mid env) L = thread_step env mid L"
| "lobby_step io (SpuriousWakeup mid) L = spurious_wakeup mid L"

end
