(* ===== verification/LobbyInv.thy ===== *)
theory LobbyInv
  imports Lobby
begin

text \<open>
  What the lobby promises: no event fails on input it accepts, but for the deadlock of a join
  request with a match that is being erased; matches are never overfull and have a thread exactly
  when they are full, at most one match is open for each number of players, one thread at a time
  holds the mutex, and a join request fills seats round-robin.
\<close>

section \<open>Ordered maps, once more\<close>

lemma ord_set_set [simp]: "ord_set k v (ord_set k w m) = ord_set k v m"
  by (induction m) auto

lemma ord_erase_set [simp]: "ord_erase k (ord_set k v m) = ord_erase k m"
  by (induction m) auto

lemma ord_set_same: "ord_inv m \<Longrightarrow> ord_find k m = Some v \<Longrightarrow> ord_set k v m = m"
  by (induction m) (auto simp: ord_inv_Cons split: if_splits)

definition total :: "('v \<Rightarrow> nat) \<Rightarrow> ('k, 'v) ordmap \<Rightarrow> nat" where
  "total f m = sum_list (map (\<lambda>e. f (snd e)) m)"

lemma total_set: "total f (ord_set k v m) + (case ord_find k m of Some w \<Rightarrow> f w | None \<Rightarrow> 0) =
    total f m + f v"
  by (induction m) (auto simp: total_def split: option.splits if_splits)

lemma total_erase: "total f (ord_erase k m) + (case ord_find k m of Some w \<Rightarrow> f w | None \<Rightarrow> 0) = total f m"
  by (induction m) (auto simp: total_def split: option.splits if_splits)

section \<open>What a message asks for\<close>

text \<open>\<open>None\<close> if it is no valid join request, otherwise the number of players.\<close>

definition wanted :: "message \<Rightarrow> int option result" where
  "wanted m = bnd (json_get ''type'' (content m)) (\<lambda>t.
     if json_neq t (JString ''join_game'') then Inr None
     else bnd (request_options m) (\<lambda>opts. bnd (ParseFromJson opts (Options 0)) (\<lambda>(err, o').
       Inr (if err \<noteq> 0 then None else Some (opt_num_players o')))))"

lemma ParseFromJson_cases:
  assumes "ParseFromJson j (Options 0) = Inr (err, o')"
  shows "err \<noteq> 0 \<or> (err = 0 \<and> o' = Options (opt_num_players o') \<and> 1 \<le> opt_num_players o' \<and>
    opt_num_players o' \<le> 4)"
  using assms by (auto simp: ParseFromJson_def bnd_eq_Inr Let_def Options_def split: if_splits)

definition is_open :: "int \<Rightarrow> int \<times> snake_match \<Rightarrow> bool" where
  "is_open n e = (\<not> is_full (snd e) \<and> opt_num_players (match_options (snd e)) = n)"

lemma is_open_pair [simp]:
  "is_open n (mid, M) \<longleftrightarrow> \<not> is_full M \<and> opt_num_players (match_options M) = n"
  by (simp add: is_open_def)

lemma find_match_eq:
  assumes "ParseFromJson opts (Options 0) = Inr (err, o')"
  shows "find_match opts ms =
    Inr (if err \<noteq> 0 then None else map_option fst (find (is_open (opt_num_players o')) ms))"
proof (induction ms)
  case (Cons e ms)
  obtain mid M where e: "e = (mid, M)" by (cases e)
  then show ?case
    using Cons assms by (auto simp: CheckOptionsCompatibility_def IsCompatible_def)
qed simp

section \<open>Seating a player\<close>

definition new_player :: "callback tcp_connection \<Rightarrow> round_player" where
  "new_player c = \<lparr>waiting_rounds = [], waiting_messages = [], shared = [],
     connection = Some (c\<lparr>observers := observers c @ [OnRound]\<rparr>)\<rparr>"

definition seated :: "int \<Rightarrow> int \<Rightarrow> snake_match \<Rightarrow> callback tcp_connection \<Rightarrow> lobby \<Rightarrow> lobby" where
  "seated pid mid M c L =
     (let M' = M\<lparr>players := players M @ [new_player c]\<rparr>
      in L\<lparr>matches := ord_set mid M' (matches L),
           waiting_players := ord_erase pid (waiting_players L),
           match_threads := (if is_full M' then ord_set mid Created (match_threads L)
                             else match_threads L)\<rparr>)"

lemma RoundBasedPlayer_eq: "messages c = [] \<Longrightarrow> RoundBasedPlayer (Some c) = Inr (new_player c)"
  by (cases c) (simp add: RoundBasedPlayer_def WaitForMessageAsync_loop new_player_def)

lemma assign_and_start_eq:
  assumes "ord_find mid (matches L) = Some M" "ord_find pid (waiting_players L) = Some c" "messages c = []"
  shows "assign_and_start pid mid L = Inr (seated pid mid M c L, Seat mid (length (players M)))"
  using assms
  by (simp add: assign_and_start_def AssignPlayerToMatch_def AddPlayer_def RoundBasedPlayer_eq
      seated_def StartMatch_def set_thread_def Let_def)

text \<open>The match a player who wants \<open>n\<close> players is seated in: the first open one, or a new one.\<close>

definition new_match :: "int \<Rightarrow> snake_match" where
  "new_match n = AddLogger [] (SnakeMatch (Options n))"

definition admit :: "int \<Rightarrow> int \<Rightarrow> callback tcp_connection \<Rightarrow> lobby \<Rightarrow> lobby \<times> place" where
  "admit n pid c L = (case find (is_open n) (matches L) of
     Some (mid, M) \<Rightarrow> (seated pid mid M c L, Seat mid (length (players M)))
   | None \<Rightarrow> (let mid = match_id_counter L + 1 in
       (seated pid mid (new_match n) c (L\<lparr>match_id_counter := mid\<rparr>), Seat mid 0)))"

lemma seated_set [simp]:
  "seated pid mid M c (L\<lparr>matches := ord_set mid N (matches L)\<rparr>) = seated pid mid M c L"
  "seated pid mid M c (L\<lparr>match_id_counter := k, matches := ord_set mid N (matches L)\<rparr>) =
     seated pid mid M c (L\<lparr>match_id_counter := k\<rparr>)"
  "seated pid mid M c (L\<lparr>waiting_players := ord_set pid d (waiting_players L)\<rparr>) = seated pid mid M c L"
  by (simp_all add: seated_def Let_def)

text \<open>A message that makes \<open>JoinRequest\<close> lock the mutex.\<close>

definition joins :: "message \<Rightarrow> bool" where
  "joins m = (case json_get ''type'' (content m) of
     Inl e \<Rightarrow> False | Inr t \<Rightarrow> \<not> json_neq t (JString ''join_game''))"

lemma wanted_joins: "wanted m = Inr (Some n) \<Longrightarrow> joins m"
  by (auto simp: wanted_def joins_def bnd_eq_Inr split: if_splits)

lemma mutex_holder_upd [simp]:
  "mutex_holder (L\<lparr>waiting_players := ws\<rparr>) = mutex_holder L"
  "mutex_holder (L\<lparr>matches := ms\<rparr>) = mutex_holder L"
  "mutex_holder (L\<lparr>match_id_counter := i\<rparr>) = mutex_holder L"
  "mutex_holder (L\<lparr>player_id_counter := i\<rparr>) = mutex_holder L"
  by (simp_all add: mutex_holder_def)

lemma lock_matches_waiting:
  "lock_matches (L\<lparr>waiting_players := ws\<rparr>) = bnd (lock_matches L) (\<lambda>L. Inr (L\<lparr>waiting_players := ws\<rparr>))"
  by (auto simp: lock_matches_def erased_def split: option.splits prod.splits)

lemma lock_matches_free: "mutex_holder L = None \<Longrightarrow> lock_matches L = Inr L"
  by (simp add: lock_matches_def)

lemma join_body_no_join:
  assumes "wanted m = Inr w" "\<not> joins m"
  shows "w = None" "join_body pid m L = Inr (L, None)"
  using assms by (auto simp: wanted_def joins_def join_body_def bnd_eq_Inr split: if_splits)

lemma join_body_blocked:
  assumes "wanted m = Inr w" "joins m" "lock_matches L = Inl e"
  shows "join_body pid m L = Inl e"
  using assms
  by (auto simp: wanted_def joins_def join_body_def TryJoinExistingMatch_def bnd_eq_Inr split: if_splits)

text \<open>With the mutex: the player is seated, or goes on waiting.\<close>

lemma join_body_eq:
  assumes w: "wanted m = Inr w" and j: "joins m"
    and l: "lock_matches L = Inr L1" "mutex_holder L1 = None"
    and c: "ord_find pid (waiting_players L1) = Some c" "messages c = []"
    and inv: "ord_inv (matches L1)" and room: "match_id_counter L1 < 2 ^ 31 - 1"
  shows "join_body pid m L = Inr (case w of None \<Rightarrow> (L1, None) | Some n \<Rightarrow> apsnd Some (admit n pid c L1))"
proof -
  obtain t opts err o' where t: "json_get ''type'' (content m) = Inr t" "\<not> json_neq t (JString ''join_game'')"
    and o': "request_options m = Inr opts" "ParseFromJson opts (Options 0) = Inr (err, o')"
      "w = (if err \<noteq> 0 then None else Some (opt_num_players o'))"
    using w j by (auto simp: wanted_def joins_def bnd_eq_Inr split: sum.splits if_splits)
  note body = join_body_def TryJoinExistingMatch_def l(1) find_match_eq[OF o'(2)] CreateMatch_def t o'(1,2)
  show ?thesis
  proof (cases "err = 0")
    case err: False
    then show ?thesis using o' by (simp add: body)
  next
    case err: True
    define n where "n = opt_num_players o'"
    have on: "o' = Options n" using ParseFromJson_cases[OF o'(2)] err by (simp add: n_def)
    show ?thesis
    proof (cases "find (is_open n) (matches L1)")
      case None
      then show ?thesis
        using o' err on c room l(2)
        by (simp add: body lock_matches_free increment_def Let_def admit_def assign_and_start_eq
            new_match_def AddLogger_def)
    next
      case (Some e)
      obtain mid M where e: "e = (mid, M)" by (cases e)
      have "(mid, M) \<in> set (matches L1)" using Some e by (auto simp: find_Some_iff)
      then have "ord_find mid (matches L1) = Some M" using inv by (simp add: ord_find_in_set)
      then show ?thesis
        using o' err on Some e c by (simp add: body admit_def assign_and_start_eq)
    qed
  qed
qed

section \<open>A line from a waiting player\<close>

text \<open>A waiting connection: drained, and observed by the lobby for this player.\<close>

definition waiting_ok :: "int \<Rightarrow> callback tcp_connection \<Rightarrow> bool" where
  "waiting_ok pid c = (messages c = [] \<and> stream_buffer c = [] \<and> observers c = [OnJoin pid] \<and>
     should_continue_reading c \<and> (reading c \<longleftrightarrow> \<not> disconnected c))"

lemma upd_conn_lobby:
  "ord_find i (waiting_players L) = Some c \<Longrightarrow>
     upd_conn (AtLobby i) f L = L\<lparr>waiting_players := ord_set i (f c) (waiting_players L)\<rparr>"
  by (simp add: upd_conn_def)

lemma conn_at_lobby [simp]: "conn_at (AtLobby i) L = ord_find i (waiting_players L)"
  by (simp add: conn_at_def)

lemma upd_conn_seat:
  "upd_conn (Seat mid (length (players M))) ReadMessage (seated pid mid M c L) =
     seated pid mid M (c\<lparr>reading := True\<rparr>) L"
  by (cases c; cases L) (simp add: upd_conn_def upd_player_def player_at_def seated_def Let_def
      new_player_def ReadMessage_def is_full_def)

lemma conn_at_seated:
  "conn_at (Seat mid (length (players M))) (seated pid mid M c L) =
     Some (c\<lparr>observers := observers c @ [OnRound]\<rparr>)"
  by (simp add: conn_at_def seated_def Let_def new_player_def)

lemma admit_upd_conn:
  assumes "should_continue_reading c"
  shows "(let (L', pl) = admit n pid (c\<lparr>reading := False\<rparr>) L in
     (upd_conn pl ReadMessage L', should_continue_reading (the (conn_at pl L')))) =
     (fst (admit n pid (c\<lparr>reading := True\<rparr>) L), True)"
proof (cases "find (is_open n) (matches L)")
  case None
  then show ?thesis
    using assms upd_conn_seat[where M = "new_match n"] conn_at_seated[where M = "new_match n"]
    by (simp add: admit_def Let_def new_match_def AddLogger_def)
next
  case (Some e)
  then show ?thesis
    using assms by (cases e) (simp add: admit_def upd_conn_seat conn_at_seated)
qed

lemma WaitForJoin_empty:
  assumes "ord_find pid (waiting_players L) = Some c" "messages c = []"
  shows "WaitForJoin pid L = Inr (L\<lparr>waiting_players :=
    ord_set pid (c\<lparr>observers := observers c @ [OnJoin pid]\<rparr>) (waiting_players L)\<rparr>, AtLobby pid)"
  using assms by (subst WaitForJoin.simps) (simp add: ReadMessageAsync_def)

text \<open>The lobby a join request finds: the one it has waited for, if it locks the mutex.\<close>

definition joined :: "message \<Rightarrow> lobby \<Rightarrow> lobby result" where
  "joined m L = (if joins m then lock_matches L else Inr L)"

definition lobby_free :: "lobby \<Rightarrow> bool" where
  "lobby_free L = (mutex_holder L = None \<and> ord_inv (matches L) \<and> match_id_counter L < 2 ^ 31 - 1)"

lemma JoinRequest_eq:
  assumes "wanted m = Inr w" "ord_find pid (waiting_players L) = Some c" "messages c = []"
    and "\<And>L1. lock_matches L = Inr L1 \<Longrightarrow> lobby_free L1"
  shows "JoinRequest pid m L = bnd (joined m L) (\<lambda>L. Inr (case w of
     None \<Rightarrow> (L\<lparr>waiting_players :=
       ord_set pid (c\<lparr>observers := observers c @ [OnJoin pid]\<rparr>) (waiting_players L)\<rparr>, AtLobby pid)
   | Some n \<Rightarrow> admit n pid c L))"
proof (cases "joins m")
  case False
  note J = join_body_no_join[OF assms(1) False]
  show ?thesis
    using J(1) J(2)[of pid L] False WaitForJoin_empty[OF assms(2,3)] by (simp add: JoinRequest_def joined_def)
next
  case j: True
  show ?thesis
  proof (cases "lock_matches L")
    case (Inl e)
    then show ?thesis using join_body_blocked[OF assms(1) j Inl] j by (simp add: JoinRequest_def joined_def)
  next
    case (Inr L1)
    have c: "ord_find pid (waiting_players L1) = Some c" using assms(2) lock_matches_frame(1)[OF Inr] by simp
    have "join_body pid m L = Inr (case w of None \<Rightarrow> (L1, None) | Some n \<Rightarrow> apsnd Some (admit n pid c L1))"
      using join_body_eq[OF assms(1) j Inr _ c assms(3)] assms(4)[OF Inr] by (simp add: lobby_free_def)
    then show ?thesis
      using WaitForJoin_empty[OF c assms(3)] j Inr
      by (cases w; cases "admit (the w) pid c L1") (simp_all add: JoinRequest_def joined_def)
  qed
qed

text \<open>The handler runs the join callback between taking the line and reading on.\<close>

lemma lobby_HandleRead_waiting:
  assumes c: "ord_find pid (waiting_players L) = Some c"
      "c = d\<lparr>stream_buffer := s @ [LF], reading := True\<rparr>" "waiting_ok pid d" "reading d"
    and m: "LF \<notin> set s" "message_of_string io s = Inr m"
  shows "lobby_HandleRead io False (AtLobby pid) L =
    bnd (JoinRequest pid m (L\<lparr>waiting_players :=
           ord_set pid (d\<lparr>observers := [], reading := False\<rparr>) (waiting_players L)\<rparr>))
      (\<lambda>(L, pl). Inr (if should_continue_reading (the (conn_at pl L)) then upd_conn pl ReadMessage L else L))"
proof -
  have d: "stream_buffer d = []" "observers d = [OnJoin pid]" using c(3) by (simp_all add: waiting_ok_def)
  define L1 where "L1 = L\<lparr>waiting_players :=
    ord_set pid (d\<lparr>reading := False, stream_buffer := [], observers := []\<rparr>) (waiting_players L)\<rparr>"
  have e: "d\<lparr>reading := False, stream_buffer := [], observers := []\<rparr> = d\<lparr>observers := [], reading := False\<rparr>"
    using d by (cases d) simp
  have "HandleRead io False (\<lambda>(L, pl). the (conn_at pl L)) (\<lambda>f (L, pl). (upd_conn pl f L, pl))
      run_callback (L, AtLobby pid) =
    bnd (run_callback (OnJoin pid) m (L1, AtLobby pid)) (\<lambda>w. Inr
      (if should_continue_reading (case w of (L, pl) \<Rightarrow> the (conn_at pl L))
       then (case w of (L, pl) \<Rightarrow> (upd_conn pl ReadMessage L, pl)) else w))"
    using c m d
    by (simp add: HandleRead_def Let_def upd_conn_lobby ProcessMessage_def L1_def)
  then show ?thesis
    unfolding e[symmetric] L1_def[symmetric]
    by (cases "JoinRequest pid m L1") (auto simp: lobby_HandleRead_def run_callback_def split: prod.splits)
qed

lemma lobby_receive_line:
  assumes d: "ord_find pid (waiting_players L) = Some d" "waiting_ok pid d" "reading d"
    and m: "LF \<notin> set s" "message_of_string io s = Inr m" "wanted m = Inr w"
    and inv: "ord_inv (waiting_players L)" "\<And>L1. lock_matches L = Inr L1 \<Longrightarrow> lobby_free L1"
  shows "lobby_receive io (NetLine s) (AtLobby pid) L =
    bnd (joined m L) (\<lambda>L. Inr (case w of None \<Rightarrow> L | Some n \<Rightarrow> fst (admit n pid (d\<lparr>observers := []\<rparr>) L)))"
proof -
  have dd: "stream_buffer d = []" "observers d = [OnJoin pid]" "messages d = []" "should_continue_reading d"
    using d(2) by (simp_all add: waiting_ok_def)
  define c where "c = d\<lparr>stream_buffer := s @ [LF], reading := True\<rparr>"
  define L0 where "L0 = L\<lparr>waiting_players := ord_set pid c (waiting_players L)\<rparr>"
  define e where "e = d\<lparr>observers := [], reading := False\<rparr>"
  define W where "W = ord_set pid e (waiting_players L)"
  have rb: "receive_bytes (s @ [LF]) d = c"
    using dd d(3) by (cases d) (simp add: receive_bytes_def c_def)
  have We: "ord_find pid W = Some e" "messages e = []" using dd by (simp_all add: W_def e_def)
  have free: "lobby_free L1" if "lock_matches (L\<lparr>waiting_players := W\<rparr>) = Inr L1" for L1
    using that inv(2) by (auto simp: lock_matches_waiting bnd_eq_Inr lobby_free_def)
  have wt: "waiting_players L1 = waiting_players L" if "joined m L = Inr L1" for L1
    using that by (auto simp: joined_def lock_matches_frame split: if_splits)
  have jw: "joined m (L\<lparr>waiting_players := W\<rparr>) = bnd (joined m L) (\<lambda>L. Inr (L\<lparr>waiting_players := W\<rparr>))"
    by (simp add: joined_def lock_matches_waiting)
  have again: "e\<lparr>observers := [OnJoin pid], reading := True\<rparr> = d"
    using dd d(3) by (cases d) (simp add: e_def)
  have ee: "e = (d\<lparr>observers := []\<rparr>)\<lparr>reading := False\<rparr>" "(d\<lparr>observers := []\<rparr>)\<lparr>reading := True\<rparr> = d\<lparr>observers := []\<rparr>"
    using d(3) by (cases d, simp add: e_def)+
  have fin: "(\<lambda>(L, pl). Inr (if should_continue_reading (the (conn_at pl L)) then upd_conn pl ReadMessage L else L))
      (case w of None \<Rightarrow> (L1\<lparr>waiting_players := ord_set pid (e\<lparr>observers := observers e @ [OnJoin pid]\<rparr>) W\<rparr>, AtLobby pid)
       | Some n \<Rightarrow> admit n pid e (L1\<lparr>waiting_players := W\<rparr>)) =
      Inr (case w of None \<Rightarrow> L1 | Some n \<Rightarrow> fst (admit n pid (d\<lparr>observers := []\<rparr>) L1))"
    if L1: "joined m L = Inr L1" for L1
  proof (cases w)
    case None
    have "L1\<lparr>waiting_players := waiting_players L\<rparr> = L1" using wt[OF L1] by (cases L1) simp
    then show ?thesis
      using None dd again inv(1) d(1)
      by (simp add: conn_at_def upd_conn_def ReadMessage_def W_def) (simp add: e_def ord_set_same)
  next
    case (Some n)
    have "admit n pid e (L1\<lparr>waiting_players := W\<rparr>) = admit n pid e L1"
      using wt[OF L1] by (auto simp: admit_def Let_def seated_def W_def split: option.splits)
    then show ?thesis
      using ee admit_upd_conn[of "d\<lparr>observers := []\<rparr>" n pid L1] Some dd
      by (auto simp: Let_def split: prod.splits)
  qed
  have "lobby_receive io (NetLine s) (AtLobby pid) L = lobby_HandleRead io False (AtLobby pid) L0"
    using d(1,3) rb by (simp add: lobby_receive_def conn_at_def upd_conn_def L0_def)
  also have "\<dots> = bnd (JoinRequest pid m (L\<lparr>waiting_players := W\<rparr>))
      (\<lambda>(L, pl). Inr (if should_continue_reading (the (conn_at pl L)) then upd_conn pl ReadMessage L else L))"
    using lobby_HandleRead_waiting[where L = L0 and c = c and d = d] d m(1,2)
    by (simp add: L0_def c_def e_def W_def)
  also have "JoinRequest pid m (L\<lparr>waiting_players := W\<rparr>) = bnd (joined m L) (\<lambda>L. Inr (case w of
     None \<Rightarrow> (L\<lparr>waiting_players := ord_set pid (e\<lparr>observers := observers e @ [OnJoin pid]\<rparr>) W\<rparr>, AtLobby pid)
   | Some n \<Rightarrow> admit n pid e (L\<lparr>waiting_players := W\<rparr>)))"
    using JoinRequest_eq[of m w pid "L\<lparr>waiting_players := W\<rparr>" e, OF m(3) _ We(2) free] We(1)
    by (simp add: jw bnd_assoc cong: option.case_cong)
  finally show ?thesis using fin by (cases "joined m L") auto
qed

lemma lobby_receive_error:
  assumes "ord_find pid (waiting_players L) = Some d" "reading d"
  shows "lobby_receive io NetError (AtLobby pid) L = Inr (L\<lparr>waiting_players :=
    ord_set pid (d\<lparr>reading := False, disconnected := True\<rparr>) (waiting_players L)\<rparr>)"
  using assms
  by (simp add: lobby_receive_def conn_at_def lobby_HandleRead_def HandleRead_def upd_conn_def)

section \<open>Input for a seated player\<close>

lemma upd_player_lemmas:
  assumes "ord_find mid (matches L) = Some M" "k < length (players M)"
  shows "conn_at (Seat mid k) (upd_player mid k p L) = connection p"
    "upd_conn (Seat mid k) f (upd_player mid k p L) =
       upd_player mid k (p\<lparr>connection := map_option f (connection p)\<rparr>) L"
    "run_callback OnRound m (upd_player mid k p L, Seat mid k) =
       bnd ((if is_resetting mid k L then resetting_ProcessMessage else player_ProcessMessage) m p)
         (\<lambda>p. Inr (upd_player mid k p L, Seat mid k))"
    "ord_inv (matches L) \<Longrightarrow> upd_player mid k (players M ! k) L = L"
proof -
  have 1: "player_at mid k (upd_player mid k p L) = p"
    using assms by (simp add: player_at_def upd_player_def)
  have 2: "upd_player mid k q (upd_player mid k p L) = upd_player mid k q L" for q
    using assms by (simp add: upd_player_def)
  show "conn_at (Seat mid k) (upd_player mid k p L) = connection p"
    using assms by (simp add: conn_at_def upd_player_def)
  show "upd_conn (Seat mid k) f (upd_player mid k p L) =
       upd_player mid k (p\<lparr>connection := map_option f (connection p)\<rparr>) L"
    by (simp add: upd_conn_def 1 2)
  have "is_resetting mid k (upd_player mid k p L) = is_resetting mid k L"
    using assms by (simp add: is_resetting_def upd_player_def)
  then show "run_callback OnRound m (upd_player mid k p L, Seat mid k) =
       bnd ((if is_resetting mid k L then resetting_ProcessMessage else player_ProcessMessage) m p)
         (\<lambda>p. Inr (upd_player mid k p L, Seat mid k))"
    by (simp add: run_callback_def 1 2)
  have "M\<lparr>players := players M\<rparr> = M" by simp
  then show "upd_player mid k (players M ! k) L = L" if "ord_inv (matches L)"
    using assms that by (simp add: upd_player_def ord_set_same)
qed

lemma lobby_HandleRead_seat:
  assumes M: "ord_find mid (matches L) = Some M" "k < length (players M)"
    and c: "connection p = Some c" "observers c = [OnRound]" and r: "\<not> is_resetting mid k L"
  shows "lobby_HandleRead io err (Seat mid k) (upd_player mid k p L) =
    bnd (player_HandleRead io err p) (\<lambda>p. Inr (upd_player mid k p L))"
proof -
  note U = upd_player_lemmas[OF M]
  obtain line rest where gl: "getline (stream_buffer c) = (line, rest)" by fastforce
  show ?thesis
  proof (cases err)
    case True
    then show ?thesis
      using c by (simp add: lobby_HandleRead_def player_HandleRead_def HandleRead_def U)
  next
    case err: False
    show ?thesis
    proof (cases "message_of_string io line")
      case (Inl e)
      then show ?thesis
        using c gl err by (simp add: lobby_HandleRead_def player_HandleRead_def HandleRead_def Let_def U)
    next
      case (Inr m)
      define q where "q = p\<lparr>connection := Some (c\<lparr>reading := False, stream_buffer := rest, observers := []\<rparr>)\<rparr>"
      have pm: "ProcessMessage m (c\<lparr>reading := False, stream_buffer := rest\<rparr>) =
          (c\<lparr>reading := False, stream_buffer := rest, observers := []\<rparr>, Some OnRound)"
        using c by (simp add: ProcessMessage_def)
      show ?thesis
        using c gl err Inr pm
        by (cases "player_ProcessMessage m q")
          (auto simp: lobby_HandleRead_def player_HandleRead_def HandleRead_def Let_def U r simp flip: q_def)
    qed
  qed
qed

lemma lobby_receive_seat:
  assumes M: "ord_find mid (matches L) = Some M" and k: "k < length (players M)"
    and p: "in_play (players M ! k)" and inv: "ord_inv (matches L)" and r: "\<not> is_resetting mid k L"
  shows "lobby_receive io e (Seat mid k) L =
    bnd (receive_input io e (players M ! k)) (\<lambda>p. Inr (upd_player mid k p L))"
proof -
  define P where "P = players M ! k"
  obtain c where c: "connection P = Some c" "observers c = [OnRound]"
    using p by (auto simp: in_play_def player_inv_def P_def split: option.splits)
  note U = upd_player_lemmas[OF M k]
  have L: "L = upd_player mid k P L" using U(4)[OF inv] by (simp add: P_def)
  have ca: "conn_at (Seat mid k) L = Some c" using M k c(1) by (simp add: conn_at_def P_def)
  show ?thesis
  proof (cases "reading c")
    case False
    then have "lobby_receive io e (Seat mid k) L = Inr L" using ca by (simp add: lobby_receive_def)
    moreover have "receive_input io e P = Inr P" using False c by (simp add: receive_input_def)
    ultimately show ?thesis using L by (simp add: P_def)
  next
    case True
    show ?thesis
    proof (cases e)
      case (NetLine s)
      define q where "q = P\<lparr>connection := Some (receive_bytes (s @ [LF]) c)\<rparr>"
      have "upd_conn (Seat mid k) (receive_bytes (s @ [LF])) (upd_player mid k P L) = upd_player mid k q L"
        by (simp add: U(2) c q_def)
      then have "upd_conn (Seat mid k) (receive_bytes (s @ [LF])) L = upd_player mid k q L"
        using L by simp
      then have "lobby_receive io e (Seat mid k) L = lobby_HandleRead io False (Seat mid k) (upd_player mid k q L)"
        using True ca NetLine by (simp add: lobby_receive_def)
      also have "\<dots> = bnd (player_HandleRead io False q) (\<lambda>p. Inr (upd_player mid k p L))"
        using lobby_HandleRead_seat[OF M k, of q "receive_bytes (s @ [LF]) c"] c r
        by (simp add: q_def receive_bytes_def)
      also have "player_HandleRead io False q = receive_input io e P"
        using True c NetLine by (simp add: receive_input_def q_def)
      finally show ?thesis by (simp add: P_def)
    next
      case NetError
      have "lobby_receive io e (Seat mid k) L = lobby_HandleRead io True (Seat mid k) (upd_player mid k P L)"
        using True ca NetError L by (simp add: lobby_receive_def)
      also have "\<dots> = bnd (player_HandleRead io True P) (\<lambda>p. Inr (upd_player mid k p L))"
        using lobby_HandleRead_seat[OF M k c r] .
      finally show ?thesis using True c NetError by (simp add: receive_input_def P_def)
    qed
  qed
qed

text \<open>
  A player whose connection is being destroyed: at most one handler is still to run, the one of
  the read that is outstanding.
\<close>

definition resetting :: "round_player \<Rightarrow> bool" where
  "resetting p = (case connection p of None \<Rightarrow> False | Some c \<Rightarrow>
     \<not> should_continue_reading c \<and> stream_buffer c = [] \<and>
     (reading c \<longrightarrow> \<not> disconnected c \<and> observers c = [OnRound]))"

lemma resetting_ProcessMessage_eq: "resetting_ProcessMessage m p = process_body m p"
proof -
  have "WaitForMessageAsync q = Inr q" if "connection q = None" for q
    using that by (subst WaitForMessageAsync.simps) simp
  then show ?thesis
    by (cases "process_body m p")
      (auto simp: resetting_ProcessMessage_def player_ProcessMessage_def process_body_upd_connection
        dest: process_body_connection)
qed

lemma lobby_receive_resetting:
  assumes M: "ord_find mid (matches L) = Some M" "k < length (players M)"
    and p: "resetting (players M ! k)" "is_resetting mid k L" and inv: "ord_inv (matches L)"
    and good: "good_input io [e]"
  shows "\<exists>p'. lobby_receive io e (Seat mid k) L = Inr (upd_player mid k p' L) \<and> resetting p'"
proof -
  define P where "P = players M ! k"
  obtain c where c: "connection P = Some c" "\<not> should_continue_reading c" "stream_buffer c = []"
    "reading c \<Longrightarrow> \<not> disconnected c \<and> observers c = [OnRound]"
    using p(1) by (auto simp: resetting_def P_def split: option.splits)
  note U = upd_player_lemmas[OF M]
  have L: "L = upd_player mid k P L" using U(4)[OF inv] by (simp add: P_def)
  have ca: "conn_at (Seat mid k) L = Some c" using M c(1) by (simp add: conn_at_def P_def)
  show ?thesis
  proof (cases "reading c")
    case False
    then have "lobby_receive io e (Seat mid k) L = Inr (upd_player mid k P L)"
      using ca L by (simp add: lobby_receive_def)
    then show ?thesis using p(1) False c(1) by (intro exI[of _ P]) (simp add: P_def)
  next
    case reading: True
    show ?thesis
    proof (cases e)
      case NetError
      define q where "q = P\<lparr>connection := Some (c\<lparr>reading := False, disconnected := True\<rparr>)\<rparr>"
      have "lobby_receive io e (Seat mid k) L = lobby_HandleRead io True (Seat mid k) (upd_player mid k P L)"
        using reading ca NetError L by (simp add: lobby_receive_def)
      also have "\<dots> = Inr (upd_player mid k q L)"
        using c by (simp add: lobby_HandleRead_def HandleRead_def U q_def)
      finally show ?thesis using c by (intro exI[of _ q]) (simp add: resetting_def q_def)
    next
      case (NetLine s)
      obtain m where m: "LF \<notin> set s" "message_of_string io s = Inr m" "acceptable m"
        using good NetLine by (auto simp: good_input_def good_line_def split: sum.splits)
      obtain p1 where p1: "process_body m P = Inr p1" using m(3) process_body_defined by blast
      define d where "d = c\<lparr>reading := False, stream_buffer := [], observers := []\<rparr>"
      define q where "q = P\<lparr>connection := Some (receive_bytes (s @ [LF]) c)\<rparr>"
      have "lobby_receive io e (Seat mid k) L = lobby_HandleRead io False (Seat mid k) (upd_player mid k q L)"
        using reading ca NetLine L U(2)[of "receive_bytes (s @ [LF])" P]
        by (simp add: lobby_receive_def q_def c(1))
      also have "\<dots> = Inr (upd_player mid k (p1\<lparr>connection := Some d\<rparr>) L)"
        using c m(1,2) p(2) reading p1 U(1,2)
        by (simp add: lobby_HandleRead_def HandleRead_def Let_def U q_def receive_bytes_def ProcessMessage_def
            resetting_ProcessMessage_eq process_body_upd_connection d_def)
      finally show ?thesis
        using c by (intro exI[of _ "p1\<lparr>connection := Some d\<rparr>"]) (simp add: resetting_def d_def)
    qed
  qed
qed

section \<open>Invariant\<close>

text \<open>A match that has not been started: fresh, with some players in play, not overfull.\<close>

definition base_match :: "int \<Rightarrow> snake_match \<Rightarrow> bool" where
  "base_match n M = (1 \<le> n \<and> n \<le> 4 \<and> num_players M = n \<and> match_options M = Options n \<and>
     board M = Grid 15 15 kEmpty \<and> current_turn M = 1 \<and> logger M = Some [] \<and>
     int (length (players M)) \<le> n \<and> (\<forall>p \<in> set (players M). in_play p))"

text \<open>What holds of a full match while its thread is at a point of its function.\<close>

fun thread_ok :: "thread_state \<Rightarrow> snake_match \<Rightarrow> bool" where
  "thread_ok Created M = base_match (num_players M) M"
| "thread_ok (Playing turn) M = game_inv (num_players M) M"
| "thread_ok Finishing M = game_inv (num_players M) M"
| "thread_ok (Erasing k) M = (k \<le> length (players M) \<and>
     (\<forall>j < length (players M). if j < k then connection (players M ! j) = None else in_play (players M ! j)))"
| "thread_ok (Waiting k) M = (k < length (players M) \<and> resetting (players M ! k) \<and>
     (\<forall>j < length (players M). if j < k then connection (players M ! j) = None
        else j = k \<or> in_play (players M ! j)))"
| "thread_ok Returned M = False"

text \<open>An open match has no thread; a full one has.\<close>

definition match_ok :: "thread_state option \<Rightarrow> snake_match \<Rightarrow> bool" where
  "match_ok t M = (1 \<le> num_players M \<and> num_players M \<le> 4 \<and> match_options M = Options (num_players M) \<and>
     players M \<noteq> [] \<and>
     (case t of
        None \<Rightarrow> base_match (num_players M) M \<and> \<not> is_full M
      | Some t \<Rightarrow> is_full M \<and> thread_ok t M))"

definition lobby_inv :: "lobby \<Rightarrow> bool" where
  "lobby_inv L =
     (ord_inv (waiting_players L) \<and> ord_inv (matches L) \<and> ord_inv (match_threads L) \<and>
      0 \<le> player_id_counter L \<and> 0 \<le> match_id_counter L \<and>
      (\<forall>i c. ord_find i (waiting_players L) = Some c \<longrightarrow> 1 \<le> i \<and> i \<le> player_id_counter L \<and> waiting_ok i c) \<and>
      (\<forall>a M. ord_find a (matches L) = Some M \<longrightarrow> 1 \<le> a \<and> a \<le> match_id_counter L \<and>
         match_ok (ord_find a (match_threads L)) M) \<and>
      (\<forall>a t. ord_find a (match_threads L) = Some t \<longrightarrow> 1 \<le> a \<and> a \<le> match_id_counter L \<and>
         (t = Returned \<or> ord_find a (matches L) \<noteq> None)) \<and>
      (\<forall>a b s t. ord_find a (match_threads L) = Some s \<longrightarrow> ord_find b (match_threads L) = Some t \<longrightarrow>
         holds_mutex s \<longrightarrow> holds_mutex t \<longrightarrow> a = b) \<and>
      (\<forall>a b M N. ord_find a (matches L) = Some M \<longrightarrow> ord_find b (matches L) = Some N \<longrightarrow>
         \<not> is_full M \<longrightarrow> \<not> is_full N \<longrightarrow> num_players M = num_players N \<longrightarrow> a = b))"

lemma lobby_invD:
  assumes "lobby_inv L"
  shows "ord_inv (waiting_players L)" "ord_inv (matches L)" "ord_inv (match_threads L)"
    "ord_find i (waiting_players L) = Some c \<Longrightarrow> 1 \<le> i \<and> i \<le> player_id_counter L \<and> waiting_ok i c"
    "ord_find a (matches L) = Some M \<Longrightarrow> 1 \<le> a \<and> a \<le> match_id_counter L"
    "ord_find a (matches L) = Some M \<Longrightarrow> match_ok (ord_find a (match_threads L)) M"
    "ord_find a (match_threads L) = Some t \<Longrightarrow> 1 \<le> a \<and> a \<le> match_id_counter L"
    "ord_find a (match_threads L) = Some t \<Longrightarrow> t \<noteq> Returned \<Longrightarrow> \<exists>M. ord_find a (matches L) = Some M"
    "ord_find a (match_threads L) = Some t \<Longrightarrow> ord_find b (match_threads L) = Some u \<Longrightarrow>
       holds_mutex t \<Longrightarrow> holds_mutex u \<Longrightarrow> a = b"
    "ord_find a (matches L) = Some M \<Longrightarrow> ord_find b (matches L) = Some N \<Longrightarrow> \<not> is_full M \<Longrightarrow> \<not> is_full N \<Longrightarrow>
       num_players M = num_players N \<Longrightarrow> a = b"
  using assms unfolding lobby_inv_def by (blast | metis)+

lemma is_full_small: "1 \<le> num_players M \<Longrightarrow> num_players M \<le> 4 \<Longrightarrow>
  is_full M \<longleftrightarrow> length (players M) = nat (num_players M)"
proof -
  assume a: "1 \<le> num_players M" "num_players M \<le> 4"
  then have "num_players M mod 2 ^ 64 = num_players M" by (intro mod_pos_pos_trivial) auto
  then show ?thesis using a by (auto simp: is_full_def)
qed

lemma is_full_base: "base_match n M \<Longrightarrow> is_full M \<longleftrightarrow> length (players M) = nat n"
  using is_full_small[of M] by (auto simp: base_match_def)

lemma match_ok_open: "match_ok t M \<Longrightarrow> \<not> is_full M \<Longrightarrow> t = None \<and> base_match (num_players M) M"
  by (auto simp: match_ok_def split: option.splits)

lemma match_ok_base:
  "base_match n M \<Longrightarrow> players M \<noteq> [] \<Longrightarrow> match_ok (if is_full M then Some Created else None) M"
  by (auto simp: match_ok_def base_match_def)

lemma base_new_match: "1 \<le> n \<Longrightarrow> n \<le> 4 \<Longrightarrow> base_match n (new_match n)"
  by (simp add: base_match_def new_match_def AddLogger_def)

lemma base_match_ready:
  "base_match n M \<Longrightarrow> is_full M \<Longrightarrow> ready_match n M"
  using is_full_base[of n M] by (simp add: ready_match_def base_match_def)

lemma in_play_new_player:
  assumes "waiting_ok pid d"
  shows "in_play (new_player (d\<lparr>observers := []\<rparr>))"
  using assms
  by (auto simp: in_play_def new_player_def player_inv_def promises_inv_def waiting_ok_def)

lemma base_match_seat:
  assumes "base_match n M" "\<not> is_full M" "in_play p"
  shows "base_match n (M\<lparr>players := players M @ [p]\<rparr>)"
  using assms is_full_base[OF assms(1)] by (auto simp: base_match_def)

text \<open>
  Changing one match and its thread: the invariant has to be shown of this match only, if it is
  open for no more players than before and takes the mutex only when it is free.
\<close>

lemma lobby_inv_put:
  assumes inv: "lobby_inv L" and M: "match_ok t M" and mid: "1 \<le> mid" "mid \<le> match_id_counter L"
    and t: "t \<noteq> None \<or> ord_find mid (match_threads L) = None"
    and only: "\<And>a N. \<not> is_full M \<Longrightarrow> ord_find a (matches L) = Some N \<Longrightarrow> \<not> is_full N \<Longrightarrow>
      num_players N = num_players M \<Longrightarrow> a = mid"
    and mutex: "\<And>a u s. t = Some s \<Longrightarrow> holds_mutex s \<Longrightarrow> ord_find a (match_threads L) = Some u \<Longrightarrow>
      holds_mutex u \<Longrightarrow> a = mid"
  shows "lobby_inv (L\<lparr>matches := ord_set mid M (matches L),
    match_threads := (case t of None \<Rightarrow> match_threads L | Some s \<Rightarrow> ord_set mid s (match_threads L))\<rparr>)"
proof -
  note D = lobby_invD[OF inv]
  define ts where "ts = (case t of None \<Rightarrow> match_threads L | Some s \<Rightarrow> ord_set mid s (match_threads L))"
  have fm: "ord_find a (ord_set mid M (matches L)) = (if a = mid then Some M else ord_find a (matches L))" for a
    using D(2) by (simp add: ord_find_set)
  have ft: "ord_find a ts = (if a = mid then t else ord_find a (match_threads L))" for a
    using D(3) t by (auto simp: ts_def ord_find_set split: option.splits)
  have un: "a = b" if "ord_find a (ord_set mid M (matches L)) = Some N1"
      "ord_find b (ord_set mid M (matches L)) = Some N2" "\<not> is_full N1" "\<not> is_full N2"
      "num_players N1 = num_players N2" for a b N1 N2
  proof (cases "a = mid \<or> b = mid")
    case True
    then show ?thesis using that only by (auto simp: fm split: if_splits)
  next
    case False
    then show ?thesis using that D(10)[of a N1 b N2] by (auto simp: fm)
  qed
  have mx: "a = b" if "ord_find a ts = Some s" "ord_find b ts = Some u" "holds_mutex s" "holds_mutex u" for a b s u
  proof (cases "a = mid \<or> b = mid")
    case True
    then show ?thesis using that mutex by (auto simp: ft split: if_splits)
  next
    case False
    then show ?thesis using that D(9)[of a s b u] by (auto simp: ft)
  qed
  have ots: "ord_inv ts" using D(3) by (simp add: ts_def ord_inv_set split: option.split)
  have wt: "\<forall>i c. ord_find i (waiting_players L) = Some c \<longrightarrow> 1 \<le> i \<and> i \<le> player_id_counter L \<and> waiting_ok i c"
    "0 \<le> player_id_counter L" "0 \<le> match_id_counter L"
    using inv by (simp_all add: lobby_inv_def)
  have ms: "1 \<le> a \<and> a \<le> match_id_counter L \<and> match_ok (ord_find a ts) N"
    if "ord_find a (ord_set mid M (matches L)) = Some N" for a N
    using that M mid D(5,6)[of a N] by (auto simp: fm ft split: if_splits)
  have th: "1 \<le> a \<and> a \<le> match_id_counter L \<and> (s = Returned \<or> ord_find a (ord_set mid M (matches L)) \<noteq> None)"
    if "ord_find a ts = Some s" for a s
    using that mid D(7,8)[of a s] by (auto simp: fm ft split: if_splits)
  show ?thesis
    unfolding lobby_inv_def ts_def[symmetric]
    using D(1,2) ots wt ms th mx un by (auto simp: ord_inv_set)
qed

text \<open>Removing a match whose thread is returning.\<close>

lemma lobby_inv_erased:
  assumes inv: "lobby_inv L" and t: "ord_find mid (match_threads L) = Some t"
  shows "lobby_inv (erased mid L)"
proof -
  note D = lobby_invD[OF inv]
  have f: "ord_find a (ord_erase mid (matches L)) = (if a = mid then None else ord_find a (matches L))"
    "ord_find a (ord_set mid Returned (match_threads L)) =
      (if a = mid then Some Returned else ord_find a (match_threads L))" for a
    using D(2,3) by (simp_all add: ord_find_erase ord_find_set)
  have un: "a = b" if "ord_find a (ord_erase mid (matches L)) = Some N1"
      "ord_find b (ord_erase mid (matches L)) = Some N2" "\<not> is_full N1" "\<not> is_full N2"
      "num_players N1 = num_players N2" for a b N1 N2
    using that D(10)[of a N1 b N2] by (auto simp: f split: if_splits)
  have mx: "a = b" if "ord_find a (ord_set mid Returned (match_threads L)) = Some s"
      "ord_find b (ord_set mid Returned (match_threads L)) = Some u" "holds_mutex s" "holds_mutex u" for a b s u
    using that D(9)[of a s b u] by (auto simp: f split: if_splits)
  have wt: "\<forall>i c. ord_find i (waiting_players L) = Some c \<longrightarrow> 1 \<le> i \<and> i \<le> player_id_counter L \<and> waiting_ok i c"
    "0 \<le> player_id_counter L" "0 \<le> match_id_counter L"
    using inv by (simp_all add: lobby_inv_def)
  have ms: "1 \<le> a \<and> a \<le> match_id_counter L \<and> match_ok (ord_find a (ord_set mid Returned (match_threads L))) N"
    if "ord_find a (ord_erase mid (matches L)) = Some N" for a N
    using that D(5,6)[of a N] by (auto simp: f split: if_splits)
  have th: "1 \<le> a \<and> a \<le> match_id_counter L \<and> (s = Returned \<or> ord_find a (ord_erase mid (matches L)) \<noteq> None)"
    if "ord_find a (ord_set mid Returned (match_threads L)) = Some s" for a s
    using that t D(7)[of mid t] D(7,8)[of a s] by (auto simp: f split: if_splits)
  show ?thesis
    unfolding lobby_inv_def erased_def
    using D(1-3) wt ms th mx un by (auto simp: ord_inv_set ord_inv_erase)
qed

lemma mutex_holder_find:
  assumes "ord_inv (match_threads L)"
  shows "mutex_holder L = Some (a, t) \<Longrightarrow> ord_find a (match_threads L) = Some t \<and> holds_mutex t"
    and "mutex_holder L = None \<Longrightarrow> ord_find a (match_threads L) = Some t \<Longrightarrow> \<not> holds_mutex t"
proof -
  show "ord_find a (match_threads L) = Some t \<and> holds_mutex t" if "mutex_holder L = Some (a, t)"
  proof -
    have "(a, t) \<in> set (match_threads L)" "holds_mutex t"
      using that find_Some_iff[of "\<lambda>(_, t). holds_mutex t" "match_threads L" "(a, t)"] nth_mem
      by (fastforce simp: mutex_holder_def)+
    then show ?thesis using assms by (simp add: ord_find_in_set)
  qed
  show "\<not> holds_mutex t" if "mutex_holder L = None" "ord_find a (match_threads L) = Some t"
  proof -
    have "(a, t) \<in> set (match_threads L)" using that(2) assms by (simp add: ord_find_in_set)
    then show ?thesis using that(1) by (auto simp: mutex_holder_def find_None_iff)
  qed
qed

text \<open>Getting the mutex: afterwards nobody else holds it.\<close>

lemma lock_matches_inv:
  assumes inv: "lobby_inv L" and l: "lock_matches L = Inr L'"
  shows "lobby_inv L'" "mutex_holder L' = None"
proof -
  note D = lobby_invD[OF inv]
  have *: "lobby_inv L' \<and> mutex_holder L' = None"
  proof (cases "mutex_holder L")
    case None
    then show ?thesis using l inv by (simp add: lock_matches_def)
  next
    case (Some e)
    obtain mid t where e: "e = (mid, t)" by (cases e)
    note H = mutex_holder_find(1)[OF D(3), OF Some[unfolded e]]
    have L': "L' = erased mid L"
      using l Some e by (auto simp: lock_matches_def split: option.splits if_splits)
    then have i': "lobby_inv L'" using lobby_inv_erased[OF inv] H by blast
    have "mutex_holder L' = None"
    proof (rule ccontr)
      assume "mutex_holder L' \<noteq> None"
      then obtain a u where "mutex_holder L' = Some (a, u)" by auto
      from mutex_holder_find(1)[OF lobby_invD(3)[OF i'] this]
      have u: "ord_find a (ord_set mid Returned (match_threads L)) = Some u" "holds_mutex u"
        by (simp_all add: L' erased_def)
      then have "a \<noteq> mid" "ord_find a (match_threads L) = Some u"
        using D(3) by (auto simp: ord_find_set split: if_splits)
      then show False using D(9)[of a u mid t] H u(2) by auto
    qed
    then show ?thesis using i' by simp
  qed
  then show "lobby_inv L'" "mutex_holder L' = None" by auto
qed

lemma lobby_inv_leave:
  assumes "lobby_inv L"
  shows "lobby_inv (L\<lparr>waiting_players := ord_erase pid (waiting_players L)\<rparr>)"
proof -
  have "1 \<le> i \<and> i \<le> player_id_counter L \<and> waiting_ok i c"
    if "ord_find i (ord_erase pid (waiting_players L)) = Some c" for i c
    using that assms by (auto simp: ord_find_erase lobby_inv_def split: if_splits)
  then show ?thesis using assms by (simp add: lobby_inv_def ord_inv_erase)
qed

text \<open>Seating a waiting player in the only match that may be open for \<open>n\<close> players.\<close>

lemma seated_inv:
  assumes inv: "lobby_inv L"
    and d: "ord_find pid (waiting_players L) = Some d"
    and M: "base_match n M" "\<not> is_full M"
    and mid: "1 \<le> mid" "mid \<le> match_id_counter L" "ord_find mid (match_threads L) = None"
    and only: "\<And>a N. ord_find a (matches L) = Some N \<Longrightarrow> \<not> is_full N \<Longrightarrow> num_players N = n \<Longrightarrow> a = mid"
  shows "lobby_inv (seated pid mid M (d\<lparr>observers := []\<rparr>) L)"
proof -
  define M' where "M' = M\<lparr>players := players M @ [new_player (d\<lparr>observers := []\<rparr>)]\<rparr>"
  define t where "t = (if is_full M' then Some Created else None)"
  have W: "waiting_ok pid d" using lobby_invD(4)[OF inv d] by simp
  have b: "base_match n M'" using base_match_seat[OF M in_play_new_player[OF W]] by (simp add: M'_def)
  have n: "num_players M' = n" using b by (simp add: base_match_def)
  have m: "match_ok t M'" using match_ok_base[OF b] by (simp add: M'_def t_def)
  have "lobby_inv (L\<lparr>matches := ord_set mid M' (matches L),
    match_threads := (case t of None \<Rightarrow> match_threads L | Some s \<Rightarrow> ord_set mid s (match_threads L))\<rparr>)"
    using only n mid by (intro lobby_inv_put[OF inv m]) (auto simp: t_def split: if_splits)
  from lobby_inv_leave[OF this, of pid] show ?thesis
    by (cases L) (simp add: seated_def M'_def[symmetric] t_def Let_def split: if_splits)
qed

lemma find_open:
  assumes "lobby_inv L"
  shows "find (is_open n) (matches L) = Some (mid, M) \<Longrightarrow>
      ord_find mid (matches L) = Some M \<and> \<not> is_full M \<and> num_players M = n"
    and "find (is_open n) (matches L) = None \<Longrightarrow> ord_find a (matches L) = Some N \<Longrightarrow>
      num_players N = n \<Longrightarrow> is_full N"
proof -
  have O: "ord_inv (matches L)" using assms by (simp add: lobby_inv_def)
  have opts: "opt_num_players (match_options N) = num_players N" if "ord_find a (matches L) = Some N" for a N
    using lobby_invD(6)[OF assms that] by (simp add: match_ok_def)
  show "ord_find mid (matches L) = Some M \<and> \<not> is_full M \<and> num_players M = n"
    if "find (is_open n) (matches L) = Some (mid, M)"
  proof -
    have i: "(mid, M) \<in> set (matches L)" "is_open n (mid, M)"
      using that find_Some_iff[of "is_open n" "matches L" "(mid, M)"] nth_mem by fastforce+
    then have "ord_find mid (matches L) = Some M" using O by (simp add: ord_find_in_set)
    then show ?thesis using i(2) opts by auto
  qed
  show "is_full N" if "find (is_open n) (matches L) = None" "ord_find a (matches L) = Some N"
      "num_players N = n"
  proof -
    have "(a, N) \<in> set (matches L)" using O that(2) by (simp add: ord_find_in_set)
    then have "\<not> is_open n (a, N)" using that(1) by (auto simp: find_None_iff)
    then show ?thesis using opts[OF that(2)] that(3) by simp
  qed
qed

lemma lobby_inv_counter:
  assumes "lobby_inv L" "match_id_counter L \<le> n"
  shows "lobby_inv (L\<lparr>match_id_counter := n\<rparr>)"
proof -
  note D = lobby_invD[OF assms(1)]
  have "1 \<le> a \<and> a \<le> n \<and> match_ok (ord_find a (match_threads L)) M" if "ord_find a (matches L) = Some M" for a M
    using D(5,6)[OF that] assms(2) by auto
  moreover have "1 \<le> a \<and> a \<le> n \<and> (t = Returned \<or> ord_find a (matches L) \<noteq> None)"
    if "ord_find a (match_threads L) = Some t" for a t
    using D(7,8)[OF that] assms(2) by auto
  ultimately show ?thesis using assms by (simp add: lobby_inv_def)
qed

lemma admit_inv:
  assumes inv: "lobby_inv L" and d: "ord_find pid (waiting_players L) = Some d" and n: "1 \<le> n" "n \<le> 4"
  shows "lobby_inv (fst (admit n pid (d\<lparr>observers := []\<rparr>) L))"
proof (cases "find (is_open n) (matches L)")
  case None
  define L1 where "L1 = L\<lparr>match_id_counter := match_id_counter L + 1\<rparr>"
  have i1: "lobby_inv L1" unfolding L1_def using inv by (rule lobby_inv_counter) simp
  have "ord_find (match_id_counter L + 1) (match_threads L1) = None"
  proof (cases "ord_find (match_id_counter L + 1) (match_threads L)")
    case (Some t)
    then show ?thesis using lobby_invD(7)[OF inv Some] by simp
  qed (simp add: L1_def)
  moreover have "\<not> is_full (new_match n)"
    using is_full_base[OF base_new_match[OF n]] n by (simp add: new_match_def AddLogger_def)
  moreover have "1 \<le> match_id_counter L + 1" using inv by (simp add: lobby_inv_def)
  moreover have "a = match_id_counter L + 1"
    if "ord_find a (matches L1) = Some N" "\<not> is_full N" "num_players N = n" for a N
    using find_open(2)[OF inv None, of a N] that by (simp add: L1_def)
  moreover have "ord_find pid (waiting_players L1) = Some d" "match_id_counter L + 1 \<le> match_id_counter L1"
    using d by (simp_all add: L1_def)
  ultimately have "lobby_inv (seated pid (match_id_counter L + 1) (new_match n) (d\<lparr>observers := []\<rparr>) L1)"
    using seated_inv[OF i1 _ base_new_match[OF n]] by blast
  then show ?thesis using None by (simp add: admit_def L1_def Let_def)
next
  case (Some e)
  obtain mid M where e: "e = (mid, M)" by (cases e)
  note F = find_open(1)[OF inv Some[unfolded e]]
  have m: "base_match n M" "1 \<le> mid" "mid \<le> match_id_counter L" "ord_find mid (match_threads L) = None"
    using F lobby_invD(5,6)[OF inv, of mid M] match_ok_open[of _ M] by auto
  have "a = mid" if "ord_find a (matches L) = Some N" "\<not> is_full N" "num_players N = n" for a N
    using lobby_invD(10)[OF inv, of a N mid M] that F by auto
  then show ?thesis
    using seated_inv[OF inv d m(1) _ m(2-4)] F Some e by (simp add: admit_def)
qed

section \<open>Every event\<close>

definition good_event :: "stdio \<Rightarrow> lobby_event \<Rightarrow> bool" where
  "good_event io ev = (case ev of
     Connect \<Rightarrow> True
   | Input pl NetError \<Rightarrow> True
   | Input pl (NetLine s) \<Rightarrow> LF \<notin> set s \<and>
       (case message_of_string io s of Inl e \<Rightarrow> False
        | Inr m \<Rightarrow> (case pl of
            AtLobby i \<Rightarrow> (case wanted m of Inl e \<Rightarrow> False | Inr w \<Rightarrow> True)
          | Seat mid k \<Rightarrow> acceptable m))
   | ThreadStep mid env \<Rightarrow> good_env env
   | SpuriousWakeup mid \<Rightarrow> False)"

lemma lobby_inv_waiting:
  assumes "lobby_inv L" "1 \<le> i" "i \<le> n" "player_id_counter L \<le> n" "waiting_ok i c"
  shows "lobby_inv (L\<lparr>player_id_counter := n, waiting_players := ord_set i c (waiting_players L)\<rparr>)"
proof -
  have "1 \<le> j \<and> j \<le> n \<and> waiting_ok j d"
    if "ord_find j (ord_set i c (waiting_players L)) = Some d" for j d
    using assms that by (fastforce simp: lobby_inv_def ord_find_set split: if_splits)
  then show ?thesis using assms by (simp add: lobby_inv_def ord_inv_set)
qed

text \<open>A match that stays as full as it was, with its thread where it was or elsewhere.\<close>

lemma lobby_inv_match:
  assumes inv: "lobby_inv L" and M: "ord_find mid (matches L) = Some M"
    and M': "match_ok (ord_find mid (match_threads L)) M'" "is_full M' = is_full M" "num_players M' = num_players M"
  shows "lobby_inv (L\<lparr>matches := ord_set mid M' (matches L)\<rparr>)"
proof -
  note D = lobby_invD[OF inv]
  have "lobby_inv (L\<lparr>matches := ord_set mid M' (matches L), match_threads :=
      (case ord_find mid (match_threads L) of None \<Rightarrow> match_threads L | Some s \<Rightarrow> ord_set mid s (match_threads L))\<rparr>)"
    using D(5)[OF M] D(10)[OF _ M] D(9)[of _ _ mid] M'(2,3) by (intro lobby_inv_put[OF inv M'(1)]) auto
  moreover have "(case ord_find mid (match_threads L) of None \<Rightarrow> match_threads L
      | Some s \<Rightarrow> ord_set mid s (match_threads L)) = match_threads L"
    using D(3) by (auto simp: ord_set_same split: option.split)
  ultimately show ?thesis by simp
qed

lemma lobby_inv_thread:
  assumes inv: "lobby_inv L" and M: "ord_find mid (matches L) = Some M" "ord_find mid (match_threads L) = Some t"
    and M': "thread_ok t' M'" "is_full M'" "num_players M' = num_players M" "match_options M' = match_options M"
      "players M' \<noteq> []"
    and mutex: "holds_mutex t' \<Longrightarrow> holds_mutex t \<or> mutex_holder L = None"
  shows "lobby_inv (set_thread mid t' (L\<lparr>matches := ord_set mid M' (matches L)\<rparr>))"
proof -
  note D = lobby_invD[OF inv]
  have "match_ok (Some t') M'" using D(6)[OF M(1)] M' by (simp add: match_ok_def)
  moreover have "a = mid" if "ord_find a (match_threads L) = Some u" "holds_mutex u" "holds_mutex t'" for a u
    using mutex that D(9)[of a u mid t] M(2) mutex_holder_find(2)[OF D(3), of a u] by auto
  ultimately have "lobby_inv (L\<lparr>matches := ord_set mid M' (matches L), match_threads :=
      (case Some t' of None \<Rightarrow> match_threads L | Some s \<Rightarrow> ord_set mid s (match_threads L))\<rparr>)"
    using D(5)[OF M(1)] M'(2) by (intro lobby_inv_put[OF inv]) auto
  then show ?thesis by (simp add: set_thread_def)
qed

lemma game_inv_num: "game_inv n M \<Longrightarrow> num_players M = n \<and> match_options M = Options n \<and> is_full M \<and> players M \<noteq> []"
proof -
  assume g: "game_inv n M"
  then have "num_players M = n" "1 \<le> n" "n \<le> 4" "length (players M) = nat n"
    by (simp_all add: game_inv_def match_inv_def)
  then show ?thesis using is_full_small[of M] g by (auto simp: game_inv_def)
qed

text \<open>The steps of a game keep the match in order.\<close>

lemma game_step_ok:
  assumes t: "match_ok (Some t) M" "\<not> holds_mutex t" "t \<noteq> Returned" "t \<noteq> Finishing" and env: "good_env env"
  shows "\<exists>t' M'. game_step env t M = Inr (t', M') \<and> game_inv (num_players M) M' \<and> thread_ok t' M' \<and>
    \<not> holds_mutex t'"
proof (cases t)
  case Created
  then have "base_match (num_players M) M" "is_full M" using t(1) by (simp_all add: match_ok_def)
  from begin_game_spec[OF base_match_ready[OF this] env]
  obtain M1 where "begin_game env M = Inr M1" "game_inv (num_players M) M1" by metis
  then show ?thesis using Created game_inv_num[of "num_players M" M1] by simp
next
  case (Playing turn)
  then have g: "game_inv (num_players M) M" using t(1) by (simp add: match_ok_def)
  show ?thesis
  proof (cases "turn \<le> max_turns (match_options M) \<and> \<not> IsGameFinished M")
    case True
    obtain M1 where "play_turn env turn M = Inr M1" "game_inv (num_players M) M1"
      using play_turn_spec[OF g env, of turn] by (auto simp: returns_iff)
    then show ?thesis using Playing True game_inv_num[of "num_players M" M1] by simp
  next
    case False
    obtain M1 where "end_game env M = Inr M1" "game_inv (num_players M) M1"
      using end_game_spec[OF g env] by metis
    then show ?thesis using Playing False game_inv_num[of "num_players M" M1] by auto
  qed
qed (use t in simp_all)

lemma destroy_step_ok:
  assumes "thread_ok (Erasing k) M" "k < length (players M)" "destroy_step k (players M ! k) = (t, p)"
  shows "thread_ok t (M\<lparr>players := (players M)[k := p]\<rparr>)"
proof -
  have "in_play (players M ! k)" using assms(1,2) by simp
  then have "resetting (destroy_player (players M ! k))" if "player_waits (players M ! k)"
    using that by (auto simp: in_play_def player_inv_def resetting_def destroy_player_def destroy_begin_def
        player_waits_def destroy_waits_def split: option.splits)
  then show ?thesis
    using assms by (auto simp: destroy_step_def nth_list_update less_Suc_eq split: if_splits)
qed

lemma MatchFinished_inv:
  assumes inv: "lobby_inv L"
  shows "lobby_inv (MatchFinished mid L)"
proof (cases "ord_find mid (match_threads L)")
  case None
  then show ?thesis using inv by (simp add: MatchFinished_def)
next
  case (Some t)
  note D = lobby_invD[OF inv]
  show ?thesis
  proof (cases "t = Returned \<or> t = Created \<or> (\<exists>i. t = Playing i)")
    case True
    then show ?thesis using inv Some by (auto simp: MatchFinished_def)
  next
    case False
    then obtain M where M: "ord_find mid (matches L) = Some M" using D(8)[OF Some] by blast
    have ok: "match_ok (Some t) M" using D(6)[OF M] Some by simp
    then have m: "is_full M" "players M \<noteq> []" "thread_ok t M" by (simp_all add: match_ok_def)
    have same: "L\<lparr>matches := ord_set mid M (matches L)\<rparr> = L" using ord_set_same[OF D(2) M] by simp
    have upd: "lobby_inv (set_thread mid t' (upd_player mid k p L))"
      if "thread_ok t' (M\<lparr>players := (players M)[k := p]\<rparr>)" "holds_mutex t" for t' k p
      using lobby_inv_thread[OF inv M Some that(1)] m(1,2) that(2) M
      by (simp add: upd_player_def is_full_def)
    consider "t = Finishing" | k where "t = Erasing k" | k where "t = Waiting k" using False by (cases t) auto
    then show ?thesis
    proof cases
      case 1
      have "thread_ok (Erasing 0) M" using m(3) 1 by (auto simp: game_inv_def)
      then show ?thesis
        using lobby_inv_thread[OF inv M Some, of "Erasing 0" M] m(1,2) 1 Some inv same
        by (simp add: MatchFinished_def)
    next
      case (2 k)
      show ?thesis
      proof (cases "k < length (players M)")
        case True
        obtain t' p where tp: "destroy_step k (players M ! k) = (t', p)" by fastforce
        show ?thesis
          using upd[OF destroy_step_ok[OF _ True tp]] m(3) 2 True tp Some M by (simp add: MatchFinished_def)
      next
        case False
        then show ?thesis using 2 Some M lobby_inv_erased[OF inv Some] by (simp add: MatchFinished_def)
      qed
    next
      case (3 k)
      have "thread_ok (Erasing (Suc k)) (M\<lparr>players := (players M)[k := (players M ! k)\<lparr>connection := None\<rparr>]\<rparr>)"
        using m(3) 3 by (auto simp: nth_list_update less_Suc_eq)
      from upd[OF this] show ?thesis
        using 3 Some M inv by (simp add: MatchFinished_def player_at_def Let_def)
    qed
  qed
qed

lemma MatchFinished_frame:
  "player_id_counter (MatchFinished mid L) = player_id_counter L"
  "match_id_counter (MatchFinished mid L) = match_id_counter L"
  "waiting_players (MatchFinished mid L) = waiting_players L"
  by (auto simp: MatchFinished_def set_thread_def erased_def upd_player_def Let_def
      split: option.split thread_state.split prod.split)

lemma thread_step_inv:
  assumes inv: "lobby_inv L" and env: "good_env env"
  shows "\<exists>L'. thread_step env mid L = Inr L' \<and> lobby_inv L' \<and> player_id_counter L' = player_id_counter L \<and>
    match_id_counter L' = match_id_counter L \<and> waiting_players L' = waiting_players L"
proof (cases "ord_find mid (match_threads L)")
  case None
  then show ?thesis using inv by (simp add: thread_step_def)
next
  case (Some t)
  note D = lobby_invD[OF inv]
  show ?thesis
  proof (cases "t = Returned \<or> t = Finishing \<or> holds_mutex t")
    case True
    then show ?thesis
      using inv Some MatchFinished_inv[OF inv] MatchFinished_frame by (cases t) (auto simp: thread_step_def)
  next
    case False
    then obtain M where M: "ord_find mid (matches L) = Some M" using D(8)[OF Some] by blast
    have ok: "match_ok (Some t) M" using D(6)[OF M] Some by simp
    obtain t' M' where step: "game_step env t M = Inr (t', M')" "game_inv (num_players M) M'"
      "thread_ok t' M'" "\<not> holds_mutex t'"
      using game_step_ok[OF ok _ _ _ env] False by auto
    have "thread_step env mid L = Inr (set_thread mid t' (L\<lparr>matches := ord_set mid M' (matches L)\<rparr>))"
      using False Some M step(1) by (cases t) (auto simp: thread_step_def)
    moreover have "lobby_inv (set_thread mid t' (L\<lparr>matches := ord_set mid M' (matches L)\<rparr>))"
      using lobby_inv_thread[OF inv M Some step(3)] game_inv_num[OF step(2)] step(4) ok
      by (simp add: match_ok_def)
    ultimately show ?thesis by (simp add: set_thread_def)
  qed
qed

definition new_connection :: "int \<Rightarrow> callback tcp_connection" where
  "new_connection pid = TcpConnection\<lparr>observers := [OnJoin pid]\<rparr>"

lemma lobby_AddPlayer_eq:
  assumes "player_id_counter L < 2 ^ 31 - 1"
  shows "lobby_AddPlayer TcpConnection L = Inr (L\<lparr>player_id_counter := player_id_counter L + 1,
    waiting_players := ord_set (player_id_counter L + 1) (new_connection (player_id_counter L + 1))
      (waiting_players L)\<rparr>)"
  using assms
  by (simp add: lobby_AddPlayer_def increment_def WaitForJoin_empty TcpConnection_def ReadMessage_def
      new_connection_def)

lemma waiting_ok_new: "waiting_ok i (new_connection i)"
  by (simp add: waiting_ok_def new_connection_def TcpConnection_def ReadMessage_def)

lemma wanted_range: "wanted m = Inr (Some n) \<Longrightarrow> 1 \<le> n \<and> n \<le> 4"
  by (auto simp: wanted_def bnd_eq_Inr split: if_splits dest!: ParseFromJson_cases)

text \<open>A connection at a seat belongs to a player in play, unless it is being destroyed.\<close>

lemma match_ok_in_play:
  assumes ok: "match_ok (ord_find mid (match_threads L)) M" and k: "k < length (players M)"
    and c: "connection (players M ! k) = Some c" and r: "\<not> is_resetting mid k L"
  shows "in_play (players M ! k)"
proof (cases "ord_find mid (match_threads L)")
  case None
  then show ?thesis using ok k by (simp add: match_ok_def base_match_def)
next
  case (Some t)
  then have t: "thread_ok t M" using ok by (simp add: match_ok_def)
  then show ?thesis
    using k c r Some by (cases t) (auto simp: base_match_def game_inv_def is_resetting_def split: if_splits)
qed

lemma match_ok_player:
  assumes ok: "match_ok (ord_find mid (match_threads L)) M" and k: "k < length (players M)"
    and c: "connection (players M ! k) = Some c" and r: "\<not> is_resetting mid k L" and p: "in_play p"
  shows "match_ok (ord_find mid (match_threads L)) (M\<lparr>players := (players M)[k := p]\<rparr>)"
proof -
  define M' where "M' = M\<lparr>players := (players M)[k := p]\<rparr>"
  have same: "is_full M' = is_full M" "num_players M' = num_players M" "match_options M' = match_options M"
      "players M' \<noteq> []" "length (players M') = length (players M)"
    using ok by (simp_all add: M'_def is_full_def match_ok_def)
  have all: "\<forall>q \<in> set (players M'). in_play q" if "\<forall>q \<in> set (players M). in_play q"
    using that p by (auto simp: M'_def dest: set_update_subset_insert[THEN subsetD])
  have b: "base_match n M'" if "base_match n M" for n
    using that all by (simp add: base_match_def M'_def)
  have g: "game_inv n M'" if "game_inv n M" for n
    using that all by (simp add: game_inv_def M'_def)
  have "thread_ok t M'" if t: "ord_find mid (match_threads L) = Some t" "thread_ok t M" for t
  proof (cases t)
    case (Erasing i)
    then have "\<not> k < i" using t(2) c k by (auto split: if_splits)
    then show ?thesis using t(2) Erasing p k by (auto simp: M'_def nth_list_update)
  next
    case (Waiting i)
    then have "\<not> k < i" "k \<noteq> i" using t c k r by (auto simp: is_resetting_def split: if_splits)
    then show ?thesis using t(2) Waiting p k by (auto simp: M'_def nth_list_update)
  qed (use t(2) b g same in simp_all)
  then show ?thesis
    using ok same b by (auto simp: match_ok_def M'_def[symmetric] split: option.splits)
qed

text \<open>Every event the lobby survives keeps the invariant and ends normally.\<close>

definition next_ok :: "lobby \<Rightarrow> lobby \<Rightarrow> bool" where
  "next_ok L L' = (lobby_inv L' \<and> player_id_counter L' \<le> player_id_counter L + 1 \<and>
     match_id_counter L' \<le> match_id_counter L + 1)"

lemma next_ok_refl: "lobby_inv L \<Longrightarrow> next_ok L L"
  by (simp add: next_ok_def)

lemma admit_counters:
  "player_id_counter (fst (admit n pid c L)) = player_id_counter L"
  "match_id_counter (fst (admit n pid c L)) \<le> match_id_counter L + 1"
  by (auto simp: admit_def seated_def Let_def split: option.splits)

text \<open>
  The one event that does not end: a join request of a listening player while the thread that
  holds the mutex needs the io thread to go on.
\<close>

definition asks_to_join :: "stdio \<Rightarrow> lobby_event \<Rightarrow> lobby \<Rightarrow> bool" where
  "asks_to_join io ev L = (case ev of
     Input (AtLobby pid) (NetLine s) \<Rightarrow> (case ord_find pid (waiting_players L) of
        None \<Rightarrow> False
      | Some c \<Rightarrow> reading c \<and> (case message_of_string io s of Inl e \<Rightarrow> False | Inr m \<Rightarrow> joins m))
   | _ \<Rightarrow> False)"

definition erasure_waits :: "lobby \<Rightarrow> bool" where
  "erasure_waits L = (case mutex_holder L of None \<Rightarrow> False | Some (mid, t) \<Rightarrow>
     (case ord_find mid (matches L) of None \<Rightarrow> False | Some M \<Rightarrow> \<not> finishes_alone t (players M)))"

lemma lock_matches_cases:
  "lock_matches L = (if erasure_waits L then Inl Deadlock
     else Inr (case mutex_holder L of None \<Rightarrow> L | Some (mid, t) \<Rightarrow> erased mid L))"
  by (auto simp: lock_matches_def erasure_waits_def split: option.splits)

lemma lobby_step_inv:
  assumes inv: "lobby_inv L" and good: "good_event io ev"
    and room: "player_id_counter L < 2 ^ 31 - 1" "match_id_counter L < 2 ^ 31 - 1"
  shows "if asks_to_join io ev L \<and> erasure_waits L then lobby_step io ev L = Inl Deadlock
    else returns (lobby_step io ev L) (next_ok L)"
proof (cases ev)
  case Connect
  have "1 \<le> player_id_counter L + 1" using inv by (simp add: lobby_inv_def)
  from lobby_inv_waiting[OF inv this order_refl _ waiting_ok_new]
  show ?thesis using room Connect by (simp add: next_ok_def lobby_AddPlayer_eq asks_to_join_def)
next
  case (ThreadStep mid env)
  then have "good_env env" using good by (simp add: good_event_def)
  from thread_step_inv[OF inv this, of mid]
  show ?thesis using ThreadStep by (auto simp: next_ok_def returns_iff asks_to_join_def)
next
  case (SpuriousWakeup mid)
  then show ?thesis using good by (simp add: good_event_def)
next
  case ev: (Input pl e)
  note D = lobby_invD[OF inv]
  show ?thesis
  proof (cases "\<exists>c. conn_at pl L = Some c \<and> reading c")
    case False
    then have "lobby_receive io e pl L = Inr L" by (auto simp: lobby_receive_def split: option.splits)
    moreover have "\<not> asks_to_join io ev L"
      using False ev by (auto simp: asks_to_join_def split: place.splits net_input.splits option.splits)
    ultimately show ?thesis using ev inv by (simp add: next_ok_refl)
  next
    case True
    then obtain c where c: "conn_at pl L = Some c" "reading c" by blast
    show ?thesis
    proof (cases pl)
      case pl: (AtLobby pid)
      have cp: "ord_find pid (waiting_players L) = Some c" using c(1) pl by simp
      have w: "waiting_ok pid c" "1 \<le> pid" "pid \<le> player_id_counter L" using D(4)[OF cp] by simp_all
      show ?thesis
      proof (cases e)
        case (NetLine s)
        obtain m wd where m: "LF \<notin> set s" "message_of_string io s = Inr m" "wanted m = Inr wd"
          using good ev pl NetLine by (auto simp: good_event_def split: sum.splits)
        have free: "lobby_free L1" if "lock_matches L = Inr L1" for L1
          using lock_matches_inv[OF inv that] lock_matches_frame(3)[OF that] room(2) lobby_invD(2)
          by (simp add: lobby_free_def)
        have r: "lobby_step io ev L = bnd (joined m L)
            (\<lambda>L. Inr (case wd of None \<Rightarrow> L | Some n \<Rightarrow> fst (admit n pid (c\<lparr>observers := []\<rparr>) L)))"
          using lobby_receive_line[OF cp w(1) c(2) m D(1) free] ev pl NetLine by simp
        have a: "asks_to_join io ev L = joins m"
          using ev pl NetLine cp c(2) m(2) by (simp add: asks_to_join_def)
        have nxt: "next_ok L (case wd of None \<Rightarrow> L1 | Some n \<Rightarrow> fst (admit n pid (c\<lparr>observers := []\<rparr>) L1))"
          if "joined m L = Inr L1" for L1
        proof -
          have l1: "lobby_inv L1" "waiting_players L1 = waiting_players L"
              "player_id_counter L1 = player_id_counter L" "match_id_counter L1 = match_id_counter L"
            using that inv lock_matches_inv(1)[OF inv] lock_matches_frame[of L L1]
            by (auto simp: joined_def split: if_splits)
          have cp1: "ord_find pid (waiting_players L1) = Some c" using cp l1(2) by simp
          show ?thesis
            using l1 admit_inv[OF l1(1) cp1] wanted_range[of m] m(3) admit_counters[of _ pid _ L1]
            by (cases wd) (auto simp: next_ok_def)
        qed
        show ?thesis
        proof (cases "joins m \<and> erasure_waits L")
          case True
          then show ?thesis using r a by (simp add: joined_def lock_matches_cases)
        next
          case False
          then obtain L1 where "joined m L = Inr L1"
            by (cases "joins m") (auto simp: joined_def lock_matches_cases)
          then show ?thesis using r a nxt False by auto
        qed
      next
        case NetError
        have "waiting_ok pid (c\<lparr>reading := False, disconnected := True\<rparr>)"
          using w(1) by (simp add: waiting_ok_def)
        from lobby_inv_waiting[OF inv w(2,3) order_refl this]
        show ?thesis
          using ev pl NetError lobby_receive_error[OF cp c(2)] by (simp add: next_ok_def asks_to_join_def)
      qed
    next
      case pl: (Seat mid k)
      obtain M where M: "ord_find mid (matches L) = Some M" "k < length (players M)"
        using c(1) pl by (auto simp: conn_at_def split: option.splits if_splits)
      have ck: "connection (players M ! k) = Some c" using c(1) pl M by (simp add: conn_at_def)
      have g: "good_input io [e]"
        using good ev pl by (cases e)
          (auto simp: good_event_def good_input_def good_line_def split: sum.splits)
      have na: "\<not> asks_to_join io ev L" using ev pl by (simp add: asks_to_join_def)
      have ok: "match_ok (ord_find mid (match_threads L)) M" using D(6)[OF M(1)] .
      have upd: "next_ok L (upd_player mid k p L)"
        if "match_ok (ord_find mid (match_threads L)) (M\<lparr>players := (players M)[k := p]\<rparr>)" for p
        using lobby_inv_match[OF inv M(1) that] M(1) by (simp add: next_ok_def upd_player_def is_full_def)
      show ?thesis
      proof (cases "is_resetting mid k L")
        case True
        then have t: "ord_find mid (match_threads L) = Some (Waiting k)" by (simp add: is_resetting_def)
        then have "resetting (players M ! k)" using ok by (simp add: match_ok_def)
        from lobby_receive_resetting[OF M this True D(2) g]
        obtain p where p: "lobby_receive io e (Seat mid k) L = Inr (upd_player mid k p L)" "resetting p" by blast
        have "match_ok (ord_find mid (match_threads L)) (M\<lparr>players := (players M)[k := p]\<rparr>)"
          using ok t p(2) by (auto simp: match_ok_def is_full_def nth_list_update)
        then show ?thesis using upd p(1) na ev pl by simp
      next
        case False
        have ip: "in_play (players M ! k)" using ok M(2) ck False by (rule match_ok_in_play)
        obtain p where p: "receive_input io e (players M ! k) = Inr p" "in_play p"
          using receive_input_step[OF ip g] by metis
        have "match_ok (ord_find mid (match_threads L)) (M\<lparr>players := (players M)[k := p]\<rparr>)"
          using match_ok_player[OF ok M(2) ck False p(2)] .
        then show ?thesis
          using upd p(1) na ev pl lobby_receive_seat[OF M ip D(2) False] by simp
      qed
    qed
  qed
qed

section \<open>The seats: a counter modulo the size of the match\<close>

text \<open>The number of players in the open match for \<open>n\<close> players.\<close>

definition occupancy :: "int \<Rightarrow> lobby \<Rightarrow> nat" where
  "occupancy n L = (case find (is_open n) (matches L) of Some e \<Rightarrow> length (players (snd e)) | None \<Rightarrow> 0)"

definition running :: "lobby \<Rightarrow> nat" where
  "running L = length (filter (\<lambda>e. snd e \<noteq> Returned) (match_threads L))"

definition population :: "lobby \<Rightarrow> nat" where
  "population L = length (waiting_players L) + total (\<lambda>M. length (players M)) (matches L)"

lemma occupancy_open:
  assumes "lobby_inv L" "ord_find a (matches L) = Some M" "\<not> is_full M" "num_players M = n"
  shows "occupancy n L = length (players M)"
proof (cases "find (is_open n) (matches L)")
  case None
  then show ?thesis using find_open(2)[OF assms(1) None assms(2)] assms by simp
next
  case (Some e)
  obtain b N where e: "e = (b, N)" by (cases e)
  have "ord_find b (matches L) = Some N \<and> \<not> is_full N \<and> num_players N = n"
    using find_open(1)[OF assms(1)] Some e by blast
  then have "a = b" using lobby_invD(10)[OF assms(1,2), of b N] assms(3,4) by simp
  then show ?thesis using Some e assms(2) \<open>ord_find b (matches L) = Some N \<and> _\<close> by (simp add: occupancy_def)
qed

lemma occupancy_none:
  assumes "lobby_inv L" "\<And>a M. ord_find a (matches L) = Some M \<Longrightarrow> num_players M = n \<Longrightarrow> is_full M"
  shows "occupancy n L = 0"
proof (cases "find (is_open n) (matches L)")
  case (Some e)
  then show ?thesis using find_open(1)[OF assms(1), of n "fst e" "snd e"] assms(2) by auto
qed (simp add: occupancy_def)

text \<open>
  Seating a player for \<open>n\<close> counts one seat up modulo \<open>n\<close>, starts a match exactly when the
  count wraps, and leaves the other counts alone.
\<close>

lemma seated_occupancy:
  assumes inv: "lobby_inv L" and d: "ord_find pid (waiting_players L) = Some d"
    and M: "base_match n M" "\<not> is_full M"
    and mid: "1 \<le> mid" "mid \<le> match_id_counter L" "ord_find mid (match_threads L) = None"
    and only: "\<And>a N. ord_find a (matches L) = Some N \<Longrightarrow> \<not> is_full N \<Longrightarrow> num_players N = n \<Longrightarrow> a = mid"
    and same: "\<And>N. ord_find mid (matches L) = Some N \<Longrightarrow> N = M"
  defines "L' \<equiv> seated pid mid M (d\<lparr>observers := []\<rparr>) L"
  shows "occupancy n L' = (length (players M) + 1) mod nat n"
    and "n' \<noteq> n \<Longrightarrow> occupancy n' L' = occupancy n' L"
    and "running L' = running L + (if length (players M) + 1 = nat n then 1 else 0)"
    and "length (waiting_players L') + 1 = length (waiting_players L)"
    and "total (\<lambda>M. length (players M)) (matches L') +
      (if ord_find mid (matches L) = None then 0 else length (players M)) =
      total (\<lambda>M. length (players M)) (matches L) + length (players M) + 1"
proof -
  define M' where "M' = M\<lparr>players := players M @ [new_player (d\<lparr>observers := []\<rparr>)]\<rparr>"
  have W: "waiting_ok pid d" using inv d by (auto simp: lobby_inv_def)
  have b: "base_match n M'" using base_match_seat[OF M in_play_new_player[OF W]] by (simp add: M'_def)
  have n: "num_players M' = n" "num_players M = n" "length (players M') = length (players M) + 1"
    using b M(1) by (simp_all add: base_match_def M'_def)
  have O: "ord_inv (waiting_players L)" "ord_inv (matches L)" "ord_inv (match_threads L)"
    using inv by (auto simp: lobby_inv_def)
  have s: "L' = L\<lparr>matches := ord_set mid M' (matches L),
      waiting_players := ord_erase pid (waiting_players L),
      match_threads := (if is_full M' then ord_set mid Created (match_threads L) else match_threads L)\<rparr>"
    by (simp add: L'_def seated_def M'_def Let_def)
  have inv': "lobby_inv L'" unfolding L'_def using seated_inv[OF inv d M mid only] .
  have f: "ord_find a (matches L') = (if a = mid then Some M' else ord_find a (matches L))" for a
    using O(2) by (simp add: s ord_find_set)
  have full: "is_full M' \<longleftrightarrow> length (players M) + 1 = nat n" using is_full_base[OF b] n by simp
  show "occupancy n L' = (length (players M) + 1) mod nat n"
  proof (cases "is_full M'")
    case True
    have "occupancy n L' = 0"
      using True f only by (intro occupancy_none[OF inv']) (auto split: if_splits)
    then show ?thesis using True full by simp
  next
    case False
    have "length (players M) + 1 < nat n" using False full b n by (auto simp: base_match_def)
    then show ?thesis using occupancy_open[OF inv', of mid M' n] f False n by simp
  qed
  show "occupancy n' L' = occupancy n' L" if "n' \<noteq> n"
  proof (cases "find (is_open n') (matches L)")
    case None
    have "occupancy n' L' = 0"
      using f that n find_open(2)[OF inv None] by (intro occupancy_none[OF inv']) (auto split: if_splits)
    then show ?thesis using None by (simp add: occupancy_def)
  next
    case (Some e)
    obtain a N where e: "e = (a, N)" by (cases e)
    have N: "ord_find a (matches L) = Some N" "\<not> is_full N" "num_players N = n'"
      using find_open(1)[OF inv] Some e by blast+
    then have "a \<noteq> mid" using same n that by auto
    then show ?thesis using occupancy_open[OF inv', of a N n'] occupancy_open[OF inv N] f N by simp
  qed
  have len: "ord_find k m = None \<Longrightarrow> length (filter P (ord_set k v m)) = length (filter P m) + (if P (k, v) then 1 else 0)"
    for k v and m :: "(int, thread_state) ordmap" and P
    by (induction m) (auto split: if_splits)
  show "running L' = running L + (if length (players M) + 1 = nat n then 1 else 0)"
    using full len[OF mid(3)] by (simp add: running_def s)
  have "ord_find k m = Some v \<Longrightarrow> length (ord_erase k m) + 1 = length m"
    for k v and m :: "(int, callback tcp_connection) ordmap"
    by (induction m) (auto split: if_splits)
  then show "length (waiting_players L') + 1 = length (waiting_players L)" using d by (simp add: s)
  show "total (\<lambda>M. length (players M)) (matches L') +
      (if ord_find mid (matches L) = None then 0 else length (players M)) =
      total (\<lambda>M. length (players M)) (matches L) + length (players M) + 1"
    using total_set[of "\<lambda>M. length (players M)" mid M' "matches L"] same n
    by (auto simp: s split: option.splits)
qed

lemma admit_occupancy:
  assumes inv: "lobby_inv L" and d: "ord_find pid (waiting_players L) = Some d" and n: "1 \<le> n" "n \<le> 4"
  defines "L' \<equiv> fst (admit n pid (d\<lparr>observers := []\<rparr>) L)"
  shows "occupancy n L' = (occupancy n L + 1) mod nat n \<and>
    (\<forall>n'. n' \<noteq> n \<longrightarrow> occupancy n' L' = occupancy n' L) \<and>
    running L' = running L + (if occupancy n L + 1 = nat n then 1 else 0) \<and>
    population L' = population L"
proof (cases "find (is_open n) (matches L)")
  case None
  define mid where "mid = match_id_counter L + 1"
  define L1 where "L1 = L\<lparr>match_id_counter := mid\<rparr>"
  have i1: "lobby_inv L1" unfolding L1_def using inv by (rule lobby_inv_counter) (simp add: mid_def)
  have mt: "ord_find mid (match_threads L1) = None"
  proof (cases "ord_find mid (match_threads L)")
    case (Some t)
    then show ?thesis using lobby_invD(7)[OF inv Some] by (simp add: mid_def)
  qed (simp add: L1_def)
  have mm: "ord_find mid (matches L1) = None"
  proof (cases "ord_find mid (matches L)")
    case (Some t)
    then show ?thesis using lobby_invD(5)[OF inv Some] by (simp add: mid_def)
  qed (simp add: L1_def)
  have nf: "\<not> is_full (new_match n)" "players (new_match n) = []"
    using is_full_base[OF base_new_match[OF n]] n by (simp_all add: new_match_def AddLogger_def)
  have "1 \<le> mid" using inv by (simp add: lobby_inv_def mid_def)
  note S = seated_occupancy[OF i1 _ base_new_match[OF n] nf(1) this _ mt]
  have w: "a = mid" if "ord_find a (matches L1) = Some N" "\<not> is_full N" "num_players N = n" for a N
    using find_open(2)[OF inv None, of a N] that by (simp add: L1_def)
  have L': "L' = seated pid mid (new_match n) (d\<lparr>observers := []\<rparr>) L1"
    using None by (simp add: L'_def admit_def L1_def mid_def Let_def)
  have d1: "ord_find pid (waiting_players L1) = Some d" "mid \<le> match_id_counter L1" using d by (simp_all add: L1_def)
  note T = S[OF d1 w]
  have o0: "occupancy n L = 0" "occupancy n' L1 = occupancy n' L" "running L1 = running L" for n'
    using None by (simp_all add: occupancy_def L1_def running_def)
  show ?thesis
    unfolding L' using T[simplified] mm nf(2) o0 by (simp add: population_def L1_def)
next
  case (Some e)
  obtain mid M where e: "e = (mid, M)" by (cases e)
  note F = find_open(1)[OF inv Some[unfolded e]]
  have m: "base_match n M" "1 \<le> mid" "mid \<le> match_id_counter L" "ord_find mid (match_threads L) = None"
    using F lobby_invD(5,6)[OF inv, of mid M] match_ok_open[of _ M] by auto
  have w: "a = mid" if "ord_find a (matches L) = Some N" "\<not> is_full N" "num_players N = n" for a N
    using lobby_invD(10)[OF inv, of a N mid M] that F by auto
  have same: "N = M" if "ord_find mid (matches L) = Some N" for N using F that by simp
  have nf: "\<not> is_full M" using F by simp
  note T = seated_occupancy[OF inv d m(1) nf m(2-4) w same]
  have "occupancy n L = length (players M)" using occupancy_open[OF inv] F by blast
  moreover have "L' = seated pid mid M (d\<lparr>observers := []\<rparr>) L" using Some e by (simp add: L'_def admit_def)
  ultimately show ?thesis using T F by (simp add: population_def)
qed

end
