(* ===== verification/Server.thy ===== *)
theory Server
  imports LobbyInv
begin

text \<open>
  The server and the main loop (communication/server.h, server.cpp, main.cpp).  Sockets are
  numbered in the order of their allocation; the one handed to \<open>async_accept\<close> is \<open>pending\<close>.
  An exception that leaves a handler ends \<open>io_service.run()\<close> and is caught by \<open>main\<close>; on the way
  there the server and its lobby are destroyed.  An exception on the thread of a match is caught
  by nobody.
\<close>

section \<open>State and operations\<close>

record server =
  pending :: "nat option"        \<comment> \<open>the socket of the outstanding accept\<close>
  allocated :: nat               \<comment> \<open>sockets allocated with \<open>new\<close>\<close>
  deleted :: nat                 \<comment> \<open>sockets deleted\<close>
  server_lobby :: lobby

definition StartAccept :: "server \<Rightarrow> server" where
  "StartAccept s = s\<lparr>pending := Some (allocated s), allocated := allocated s + 1\<rparr>"

definition Server :: "lobby \<Rightarrow> server" where
  "Server L = StartAccept \<lparr>pending = None, allocated = 0, deleted = 0, server_lobby = L\<rparr>"

text \<open>On success the connection is moved out of the socket object, which is not deleted.\<close>

definition HandleAccept :: "bool \<Rightarrow> server \<Rightarrow> server result" where
  "HandleAccept error s =
     bnd (if \<not> error
          then bnd (lobby_AddPlayer TcpConnection (server_lobby s)) (\<lambda>L. Inr (s\<lparr>server_lobby := L\<rparr>))
          else Inr (s\<lparr>deleted := deleted s + 1\<rparr>))
         (\<lambda>s. Inr (StartAccept s))"

datatype server_event = Accepted bool | LobbyEvent lobby_event

fun server_step :: "stdio \<Rightarrow> server_event \<Rightarrow> server \<Rightarrow> server result" where
  "server_step io (Accepted error) s = HandleAccept error (s\<lparr>pending := None\<rparr>)"
| "server_step io (LobbyEvent ev) s =
     bnd (lobby_step io ev (server_lobby s)) (\<lambda>L. Inr (s\<lparr>server_lobby := L\<rparr>))"

text \<open>\<open>main\<close>: the events handled by \<open>io_service.run()\<close> and, between them, the steps of the threads.\<close>

definition main_run :: "stdio \<Rightarrow> server_event list \<Rightarrow> server result" where
  "main_run io evs = foldM (server_step io) evs (Server SequentialLobby)"

text \<open>
  What becomes of the program: it still serves; it hangs; an exception on the thread of a match
  ended it by \<open>std::terminate\<close>; an exception left the main loop, and the lobby's destructor joins
  threads that still run; it returned from \<open>main\<close>; or its behaviour is undefined.
\<close>

datatype main_outcome = Serving server | Hangs | Terminated cpp_error | Joining lobby | Exited int
  | AnyBehaviour string

fun on_match_thread :: "server_event \<Rightarrow> bool" where
  "on_match_thread (LobbyEvent (ThreadStep mid env)) = True"
| "on_match_thread ev = False"

text \<open>
  After an exception from a handler: the destructor of the lobby joins the threads, and then
  destroys matches and connections.  No thread runs the io service any more, so a destructor that
  waits for a completion handler waits for ever.  It is given the lobby from before the handler: the
  handlers throw before they change anything but the buffer and the observers of the connection that
  was read, which no destructor looks at.
\<close>

definition unwind :: "lobby \<Rightarrow> main_outcome" where
  "unwind L = (if \<not> threads_returned L then Joining L else if destroy_returns L then Exited 0 else Hangs)"

fun main_exit :: "stdio \<Rightarrow> server_event list \<Rightarrow> server \<Rightarrow> main_outcome" where
  "main_exit io [] s = Serving s"
| "main_exit io (ev # evs) s = (case server_step io ev s of
     Inr s' \<Rightarrow> main_exit io evs s'
   | Inl e \<Rightarrow> (case e of
        Undefined what \<Rightarrow> AnyBehaviour what
      | Deadlock \<Rightarrow> Hangs
      | _ \<Rightarrow> if on_match_thread ev then Terminated e else unwind (server_lobby s)))"

lemma main_exit_append:
  "main_exit io (evs @ evs') s = (case foldM (server_step io) evs s of
     Inr s' \<Rightarrow> main_exit io evs' s' | Inl e \<Rightarrow> main_exit io evs s)"
  by (induction evs arbitrary: s) (auto split: sum.split cpp_error.split)

lemma main_exit_deadlock: "foldM (server_step io) evs s = Inl Deadlock \<Longrightarrow> main_exit io evs s = Hangs"
proof (induction evs arbitrary: s)
  case (Cons ev evs)
  then show ?case by (cases "server_step io ev s") simp_all
qed simp

section \<open>The server keeps accepting\<close>

definition good_server_event :: "stdio \<Rightarrow> server_event \<Rightarrow> bool" where
  "good_server_event io ev = (case ev of
     Accepted error \<Rightarrow> True | LobbyEvent Connect \<Rightarrow> False | LobbyEvent e \<Rightarrow> good_event io e)"

fun accepted :: "server_event list \<Rightarrow> nat" where
  "accepted [] = 0"
| "accepted (Accepted error # evs) = (if error then 0 else 1) + accepted evs"
| "accepted (_ # evs) = accepted evs"

lemma accepted_append [simp]: "accepted (xs @ ys) = accepted xs + accepted ys"
  by (induction xs rule: accepted.induct) auto

text \<open>
  After \<open>evs\<close>: one accept is outstanding, and one socket object is alive for it and for every
  connection ever accepted.
\<close>

definition server_inv :: "server_event list \<Rightarrow> server \<Rightarrow> bool" where
  "server_inv evs s = (lobby_inv (server_lobby s) \<and> pending s \<noteq> None \<and>
     player_id_counter (server_lobby s) \<le> int (length evs) \<and>
     match_id_counter (server_lobby s) \<le> int (length evs) \<and>
     allocated s = deleted s + accepted evs + 1)"

lemma lobby_inv_start: "lobby_inv SequentialLobby"
  by (simp add: lobby_inv_def SequentialLobby_def)

text \<open>The event on which the server waits for ever.\<close>

definition deadlocks :: "stdio \<Rightarrow> server_event \<Rightarrow> server \<Rightarrow> bool" where
  "deadlocks io ev s = (case ev of
     LobbyEvent e \<Rightarrow> asks_to_join io e (server_lobby s) \<and> erasure_waits (server_lobby s)
   | Accepted error \<Rightarrow> False)"

lemma server_step_inv:
  assumes inv: "server_inv evs s" and good: "good_server_event io ev" and room: "length evs < 2 ^ 31 - 1"
  shows "if deadlocks io ev s then server_step io ev s = Inl Deadlock
    else returns (server_step io ev s) (server_inv (evs @ [ev]))"
proof -
  have r: "player_id_counter (server_lobby s) < 2 ^ 31 - 1" "match_id_counter (server_lobby s) < 2 ^ 31 - 1"
    using inv room by (auto simp: server_inv_def)
  have li: "lobby_inv (server_lobby s)" using inv by (simp add: server_inv_def)
  show ?thesis
  proof (cases ev)
    case (LobbyEvent e)
    then have "good_event io e" using good by (cases e) (auto simp: good_server_event_def)
    note S = lobby_step_inv[OF li this r]
    show ?thesis
    proof (cases "deadlocks io ev s")
      case True
      then show ?thesis using S LobbyEvent by (simp add: deadlocks_def)
    next
      case False
      then obtain L' where "lobby_step io e (server_lobby s) = Inr L'" "next_ok (server_lobby s) L'"
        using S LobbyEvent by (auto simp: deadlocks_def returns_iff split: if_splits)
      then show ?thesis using False LobbyEvent inv by (auto simp: server_inv_def next_ok_def)
    qed
  next
    case (Accepted error)
    obtain L' where "lobby_step io Connect (server_lobby s) = Inr L'" "next_ok (server_lobby s) L'"
      using lobby_step_inv[OF li _ r, of io Connect]
      by (auto simp: returns_iff good_event_def asks_to_join_def)
    then show ?thesis
      using Accepted inv by (auto simp: server_inv_def next_ok_def HandleAccept_def StartAccept_def deadlocks_def)
  qed
qed

text \<open>A run ends normally, or at the first event that deadlocks.\<close>

lemma main_run_inv:
  assumes "\<forall>ev \<in> set evs. good_server_event io ev" "length evs < 2 ^ 31"
  shows "returns (main_run io evs) (server_inv evs) \<or>
    main_run io evs = Inl Deadlock \<and> (\<exists>pre ev rest s. evs = pre @ ev # rest \<and>
      main_run io pre = Inr s \<and> server_inv pre s \<and> deadlocks io ev s)"
  using assms
proof (induction evs rule: rev_induct)
  case Nil
  have "server_inv [] (Server SequentialLobby)"
    using lobby_inv_start by (simp add: server_inv_def Server_def StartAccept_def SequentialLobby_def)
  then show ?case by (simp add: main_run_def)
next
  case (snoc ev evs)
  have good: "good_server_event io ev" and len: "length evs < 2 ^ 31 - 1" using snoc.prems by simp_all
  have step: "main_run io (evs @ [ev]) = bnd (main_run io evs) (server_step io ev)"
    by (cases "main_run io evs"; cases "server_step io ev (projr (main_run io evs))")
      (simp_all add: main_run_def foldM_append)
  have "returns (main_run io evs) (server_inv evs) \<or>
    main_run io evs = Inl Deadlock \<and> (\<exists>pre ev rest s. evs = pre @ ev # rest \<and>
      main_run io pre = Inr s \<and> server_inv pre s \<and> deadlocks io ev s)"
    using snoc by simp
  then show ?case
  proof
    assume "returns (main_run io evs) (server_inv evs)"
    then obtain s where s: "main_run io evs = Inr s" "server_inv evs s" by (auto simp: returns_iff)
    note S = server_step_inv[OF s(2) good len]
    show ?thesis
    proof (cases "deadlocks io ev s")
      case True
      then have "main_run io (evs @ [ev]) = Inl Deadlock" using S step s(1) by simp
      then show ?thesis using s True by blast
    next
      case False
      then show ?thesis using S step s(1) by simp
    qed
  next
    assume d: "main_run io evs = Inl Deadlock \<and> (\<exists>pre ev rest s. evs = pre @ ev # rest \<and>
      main_run io pre = Inr s \<and> server_inv pre s \<and> deadlocks io ev s)"
    then have "main_run io (evs @ [ev]) = Inl Deadlock" using step by simp
    moreover from d obtain pre e rest s where "evs @ [ev] = pre @ e # (rest @ [ev])"
      "main_run io pre = Inr s" "server_inv pre s" "deadlocks io e s" by auto
    ultimately show ?thesis by blast
  qed
qed

end
