(* ===== verification/MatchThreads.thy ===== *)
theory MatchThreads
  imports LobbyInv
begin

text \<open>
  The life of a match's thread in the lobby: it plays its game in at most 42 steps, as \<open>StartGame\<close>
  does, and then destroys the match, alone or with the help of the io thread.
\<close>

section \<open>Playing the game\<close>

text \<open>\<open>n\<close> steps of a game on its thread, up to the call of \<open>MatchFinished\<close>.\<close>

fun in_game :: "thread_state \<Rightarrow> bool" where
  "in_game Created = True"
| "in_game (Playing turn) = True"
| "in_game _ = False"

inductive plays :: "environment \<Rightarrow> nat \<Rightarrow> thread_state \<times> snake_match \<Rightarrow> thread_state \<times> snake_match \<Rightarrow> bool"
  for env where
  plays_0: "plays env 0 s s"
| plays_Suc: "in_game t \<Longrightarrow> game_step env t M = Inr s \<Longrightarrow> plays env n s s' \<Longrightarrow> plays env (Suc n) (t, M) s'"

lemma plays_end:
  "plays env n s (t, M) \<Longrightarrow> in_game t \<Longrightarrow> game_step env t M = Inr s' \<Longrightarrow> plays env (Suc n) s s'"
  by (induction n s "(t, M)" rule: plays.induct) (auto intro: plays.intros)

lemma game_loop_plays:
  assumes "game_inv n M" "good_env env" "k \<le> 40" "game_loop env (map int [Suc k..<41]) M = Inr M'"
  shows "\<exists>j i. j \<le> 40 - k \<and> plays env j (Playing (int (Suc k)), M) (Playing i, M') \<and>
    (40 < i \<or> IsGameFinished M') \<and> game_inv n M'"
  using assms
proof (induction "40 - k" arbitrary: k M)
  case 0
  then show ?case by (auto intro!: exI[of _ "int (Suc k)"] plays_0)
next
  case (Suc d)
  have ts: "map int [Suc k..<41] = int (Suc k) # map int [Suc (Suc k)..<41]"
    using Suc(2) by (simp add: upt_conv_Cons)
  show ?case
  proof (cases "IsGameFinished M")
    case True
    then have "M' = M" using Suc.prems(4) unfolding ts by (simp del: upt_Suc)
    then show ?thesis using True Suc.prems(1) by (auto intro!: exI[of _ "int (Suc k)"] exI[of _ "0::nat"] plays_0)
  next
    case False
    obtain M1 where M1: "play_turn env (int (Suc k)) M = Inr M1" "game_inv n M1"
      using play_turn_spec[OF Suc.prems(1,2), of "int (Suc k)"] by (auto simp: returns_iff)
    have l: "game_loop env (map int [Suc (Suc k)..<41]) M1 = Inr M'"
      using Suc.prems(4) False M1(1) unfolding ts by (simp del: upt_Suc)
    obtain j i where j: "j \<le> 40 - Suc k" "plays env j (Playing (int (Suc (Suc k))), M1) (Playing i, M')"
      "40 < i \<or> IsGameFinished M'" "game_inv n M'"
      using Suc.hyps(1)[of "Suc k" M1] Suc.hyps(2) M1(2) Suc.prems(2) l by fastforce
    have k40: "k < 40" using Suc.hyps(2) by linarith
    have "max_turns (match_options M) = 40" using Suc.prems(1) by (simp add: game_inv_def)
    then have "game_step env (Playing (int (Suc k))) M = Inr (Playing (int (Suc (Suc k))), M1)"
      using False M1(1) k40 by simp
    then have "plays env (Suc j) (Playing (int (Suc k)), M) (Playing i, M')"
      using j(2) by (intro plays_Suc) auto
    then show ?thesis using j Suc.hyps(2) by (intro exI[of _ "Suc j"] exI[of _ i]) simp
  qed
qed

text \<open>The steps of a game end after at most 42, and compute what \<open>StartGame\<close> computes.\<close>

lemma StartGame_plays:
  assumes "ready_match n M" "good_env env"
  shows "\<exists>j M'. j \<le> 42 \<and> plays env j (Created, M) (Finishing, M') \<and> game_inv n M' \<and>
    StartGame env cb (M, w) = Inr (M', cb w)"
proof -
  obtain M1 where M1: "begin_game env M = Inr M1" "game_inv n M1"
    using begin_game_spec[OF assms] by metis
  obtain sts M2 where M2: "game_loop env (map int [Suc 0..<41]) M1 = Inr M2"
    using game_loop_spec[OF M1(2) assms(2), of 0] by auto
  obtain j i where j: "j \<le> 40" "plays env j (Playing 1, M1) (Playing i, M2)" "40 < i \<or> IsGameFinished M2"
    "game_inv n M2"
    using game_loop_plays[OF M1(2) assms(2) _ M2] by auto
  obtain M3 where M3: "end_game env M2 = Inr M3" "game_inv n M3" using end_game_spec[OF j(4) assms(2)] by metis
  have opts: "max_turns (match_options M1) = 40" "max_turns (match_options M2) = 40"
    using M1(2) j(4) by (simp_all add: game_inv_def)
  have "plays env (Suc j) (Created, M) (Playing i, M2)" using M1(1) j(2) by (intro plays_Suc) auto
  moreover have "game_step env (Playing i) M2 = Inr (Finishing, M3)" using j(3) M3(1) opts by auto
  ultimately have "plays env (Suc (Suc j)) (Created, M) (Finishing, M3)"
    using plays_end[of env "Suc j" "(Created, M)" "Playing i" M2 "(Finishing, M3)"] by simp
  moreover have "StartGame env cb (M, w) = Inr (M3, cb w)"
    using M1(1) M2 M3(1) opts by (simp add: StartGame_def turns_upto del: upt_Suc)
  ultimately show ?thesis using j(1) M3(2) by (intro exI[of _ "Suc (Suc j)"] exI[of _ M3]) simp
qed

text \<open>In the lobby they are steps of the match's thread.\<close>

definition at_match :: "int \<Rightarrow> thread_state \<Rightarrow> snake_match \<Rightarrow> lobby \<Rightarrow> lobby" where
  "at_match mid t M L = set_thread mid t (L\<lparr>matches := ord_set mid M (matches L)\<rparr>)"

lemma plays_thread:
  assumes "plays env n (t, M) (t', M')" "ord_inv (matches L)" "ord_inv (match_threads L)"
    "ord_find mid (matches L) = Some M" "ord_find mid (match_threads L) = Some t"
  shows "foldM (lobby_step io) (replicate n (ThreadStep mid env)) L = Inr (at_match mid t' M' L)"
  using assms
proof (induction n "(t, M)" "(t', M')" arbitrary: t M L rule: plays.induct)
  case plays_0
  then show ?case by (simp add: at_match_def set_thread_def ord_set_same)
next
  case (plays_Suc t M s n)
  obtain t1 M1 where s: "s = (t1, M1)" by (cases s)
  have "thread_step env mid L = Inr (at_match mid t1 M1 L)"
    using plays_Suc.hyps(1,2) plays_Suc.prems s by (cases t) (auto simp: thread_step_def at_match_def)
  moreover have "foldM (lobby_step io) (replicate n (ThreadStep mid env)) (at_match mid t1 M1 L) =
      Inr (at_match mid t' M' (at_match mid t1 M1 L))"
    using plays_Suc.prems s by (intro plays_Suc.hyps(4)) (simp_all add: at_match_def set_thread_def ord_inv_set)
  moreover have "at_match mid t' M' (at_match mid t1 M1 L) = at_match mid t' M' L"
    by (simp add: at_match_def set_thread_def)
  ultimately show ?case by simp
qed

section \<open>A game nobody interferes with\<close>

text \<open>If no input arrives, every player still listens when the game is over.\<close>

definition no_input :: "environment \<Rightarrow> bool" where
  "no_input env = (\<forall>turn k. env_sched env turn k = [])"

definition all_listen :: "snake_match \<Rightarrow> bool" where
  "all_listen M = list_all listening (players M)"

lemma listening_connections:
  "map connection ps = map connection qs \<Longrightarrow> list_all listening ps = list_all listening qs"
  by (induction ps qs rule: list_induct2') (auto simp: listening_def)

lemma WaitForMessages_connections:
  assumes "WaitForMessages io r sched M = Inr (ms, M')" and q: "\<And>k. sched k = []"
  shows "map connection (players M') = map connection (players M)"
proof -
  obtain ps fs ps' where 1: "foldM (register_step io r sched) [0..<length (players M)] (players M, []) = Inr (ps, fs)"
    "foldM (await_step io fs sched) [0..<length (players M)] (ps, []) = Inr (ps', ms)"
    "M' = M\<lparr>players := ps'\<rparr>"
    using assms by (auto simp: WaitForMessages_def Let_def bnd_eq_Inr)
  have "map connection (fst (ps, fs)) = map connection (players M)"
    using 1(1)
  proof (rule foldM_invariant)
    fix i s s' assume i: "i \<in> set [0..<length (players M)]" and m: "map connection (fst s) = map connection (players M)"
      and step: "register_step io r sched i s = Inr s'"
    have "i < length (fst s)" using i map_eq_imp_length_eq[OF m] by simp
    then show "map connection (fst s') = map connection (players M)"
      using step m by (cases s) (auto simp: register_step_def q GetRoundMessageAsync_def Let_def map_update_same)
  qed simp
  moreover have "map connection (fst (ps', ms)) = map connection ps"
    using 1(2)
    by (rule foldM_invariant) (auto simp: await_step_def q split: shared_state.splits)
  ultimately show ?thesis using 1(3) by simp
qed

lemma Broadcast_listen:
  assumes "game_inv n M" "good_env env" "Broadcast (env_io env) (env_ok env t) m M = Inr M'" "all_listen M"
  shows "all_listen M'"
proof -
  obtain s where s: "ToString (env_io env) m = Inr s" using ToString_returns by blast
  have "Broadcast (env_io env) (env_ok env t) m M = Inr (M\<lparr>players := map (write_line s) (players M)\<rparr>)"
    using assms(1,2) s by (intro Broadcast_eq) (auto simp: game_inv_def good_env_def)
  moreover have "listening (write_line s p) = listening p" for p
    by (auto simp: listening_def write_line_def split: option.split)
  ultimately show ?thesis using assms(3,4) by (auto simp: all_listen_def list_all_iff)
qed

lemma all_listen_upd [simp]:
  "all_listen (logged m M) = all_listen M" "all_listen (M\<lparr>snakes := ss, board := b\<rparr>) = all_listen M"
  by (simp_all add: all_listen_def)

lemma play_turn_listen:
  assumes "game_inv n M" "good_env env" "no_input env" "play_turn env t M = Inr M'" "all_listen M"
  shows "all_listen M'"
proof -
  have ip: "\<forall>p \<in> set (players M). in_play p" using assms(1) by (simp add: game_inv_def)
  obtain msgs M1 acts M2 st where 1: "WaitForMessages (env_io env) t (env_sched env t) M = Inr (msgs, M1)"
    "ParseActions (env_io env) msgs = Inr acts" "ProcessTurn acts M1 = Inr M2"
    and step: "(if \<not> IsGameFinished (logged st M2) \<and> t \<noteq> max_turns (match_options (logged st M2))
      then Broadcast (env_io env) (env_ok env t) st (logged st M2) else Inr (logged st M2)) = Inr M'"
    using assms(2,4) by (auto simp: play_turn_def bnd_eq_Inr)
  obtain ps where ps: "M1 = M\<lparr>players := ps\<rparr>" "length msgs = length (players M)" "length ps = length (players M)"
    "\<forall>p \<in> set ps. in_play p"
    using WaitForMessages_returns[OF ip good_sched_env[OF assms(2)], of t t] 1(1) by (auto simp: returns_iff)
  have "length acts = length msgs"
  proof -
    have "foldM (\<lambda>msg actions. case msg of None \<Rightarrow> Inr (actions @ [kForward])
        | Some m \<Rightarrow> bnd (ParseAction (env_io env) m) (\<lambda>a. Inr (actions @ [a]))) ms as = Inr bs \<Longrightarrow>
      length bs = length as + length ms" for ms as bs
      by (induction ms arbitrary: as) (auto simp: bnd_eq_Inr split: option.splits)
    then show ?thesis using 1(2) unfolding ParseActions_def by fastforce
  qed
  then have i1: "match_inv 4 M1" "length acts = length (snakes M1)"
    using assms(1) ps by (simp_all add: game_inv_def)
  have fr: "players M2 = players M1" "length (snakes M2) = length (snakes M1)" "match_options M2 = match_options M1"
    "match_inv 4 M2"
    using ProcessTurn_spec[OF i1] match_inv_turn[OF i1] 1(3) by auto
  have l2: "all_listen (logged st M2)"
    using listening_connections[OF WaitForMessages_connections[OF 1(1)]] assms(3,5) fr(1)
    by (simp add: all_listen_def no_input_def)
  have "game_inv n (logged st M2)" using assms(1) fr ps by (auto simp: game_inv_def)
  then show ?thesis
    using step l2 Broadcast_listen[of n "logged st M2" env t st M'] assms(2) by (auto split: if_splits)
qed

lemma game_step_listen:
  assumes "match_ok (Some t) M" "in_game t" "good_env env" "no_input env" "game_step env t M = Inr (t', M')"
    "all_listen M"
  shows "all_listen M'"
proof (cases t)
  case Created
  then have b: "base_match (num_players M) M" "is_full M" using assms(1) by (simp_all add: match_ok_def)
  note R = base_match_ready[OF b]
  obtain M0 start M1 where 1: "SpawnSnakes M = Inr M0" "MakeGameStart M0 = Inr start"
    "Broadcast (env_io env) (env_ok env 0) start M0 = Inr M1" "M' = logged start M1"
    using assms(3,5) Created by (auto simp: begin_game_def bnd_eq_Inr)
  obtain b where b: "M0 = M\<lparr>snakes := take (nat (num_players M)) spawned, board := b\<rparr>" "match_inv 4 M0"
    using SpawnSnakes_spec[of "num_players M" M] R 1(1) by (auto simp: ready_match_def)
  have "game_inv (num_players M) M0" using b R by (auto simp: game_inv_def ready_match_def min_def)
  then show ?thesis using Broadcast_listen[OF _ assms(3) 1(3)] assms(6) b(1) 1(4) by simp
next
  case (Playing turn)
  then have g: "game_inv (num_players M) M" using assms(1) by (simp add: match_ok_def)
  show ?thesis
    using assms(3-6) Playing play_turn_listen[OF g assms(3,4) _ assms(6)] Broadcast_listen[OF g assms(3) _ assms(6)]
    by (auto simp: bnd_eq_Inr end_game_def Let_def split: if_splits)
qed (use assms in simp_all)

lemma game_step_in_play:
  assumes "match_ok (Some t) M" "in_game t" "good_env env" "game_step env t M = Inr (t', M')"
  shows "match_ok (Some t') M'"
proof -
  have "\<not> holds_mutex t" "t \<noteq> Returned" "t \<noteq> Finishing" using assms(2) by (cases t; simp)+
  then have g: "game_inv (num_players M) M'" "thread_ok t' M'"
    using game_step_ok[OF assms(1) _ _ _ assms(3)] assms(4) by auto
  then have "1 \<le> num_players M" "num_players M \<le> 4" by (simp_all add: game_inv_def match_inv_def)
  then show ?thesis using game_inv_num[OF g(1)] g(2) by (simp add: match_ok_def)
qed

text \<open>So a game without input leaves the connections as they were: listening.\<close>

lemma plays_listen:
  assumes "plays env n s s'" "match_ok (Some (fst s)) (snd s)" "good_env env" "no_input env" "all_listen (snd s)"
  shows "all_listen (snd s') \<and> match_ok (Some (fst s')) (snd s')"
  using assms
proof (induction rule: plays.induct)
  case (plays_Suc t M s n s')
  have e: "game_step env t M = Inr (fst s, snd s)" and m: "match_ok (Some t) M" "all_listen M"
    using plays_Suc.hyps(2) plays_Suc.prems by simp_all
  have "all_listen (snd s)"
    by (rule game_step_listen[OF m(1) plays_Suc.hyps(1) plays_Suc.prems(2,3) e m(2)])
  moreover have "match_ok (Some (fst s)) (snd s)"
    by (rule game_step_in_play[OF m(1) plays_Suc.hyps(1) plays_Suc.prems(2) e])
  ultimately show ?case using plays_Suc.IH plays_Suc.prems(2,3) by blast
qed blast

section \<open>Erasing a match\<close>

lemma set_thread_sets [simp]:
  "match_threads (set_thread mid t L) = ord_set mid t (match_threads L)" "matches (set_thread mid t L) = matches L"
  "waiting_players (set_thread mid t L) = waiting_players L"
  by (simp_all add: set_thread_def)

lemma upd_player_match:
  "ord_find mid (matches L) = Some M \<Longrightarrow> upd_player mid k p L =
     L\<lparr>matches := ord_set mid (M\<lparr>players := (players M)[k := p]\<rparr>) (matches L)\<rparr>"
  by (simp add: upd_player_def)

lemma erased_step: "ord_find mid (matches L) = Some M \<Longrightarrow>
  erased mid (set_thread mid t (upd_player mid k p L)) = erased mid L"
  by (simp add: erased_def set_thread_def upd_player_match)

text \<open>What is destroyed without the io thread is destroyed to the end.\<close>

lemma finishes_alone_returns:
  assumes "ord_find mid (match_threads L) = Some t" "ord_find mid (matches L) = Some M"
    "finishes_alone t (players M)"
  shows "\<exists>n. (MatchFinished mid ^^ n) L = erased mid L"
proof -
  have E: "\<exists>n. (MatchFinished mid ^^ n) L = erased mid L"
    if "ord_find mid (match_threads L) = Some (Erasing k)" "ord_find mid (matches L) = Some M"
      "finishes_alone (Erasing k) (players M)" for L M k
    using that
  proof (induction "length (players M) - k" arbitrary: L M k)
    case 0
    then have "MatchFinished mid L = erased mid L" by (simp add: MatchFinished_def)
    then show ?case by (intro exI[of _ 1]) simp
  next
    case (Suc d)
    then have k: "k < length (players M)" by simp
    then have w: "\<not> player_waits (players M ! k)" "list_all (\<lambda>p. \<not> player_waits p) (drop (Suc k) (players M))"
      using Suc.prems(3) by (simp_all add: Cons_nth_drop_Suc[symmetric])
    define p where "p = (players M ! k)\<lparr>connection := None\<rparr>"
    define L1 where "L1 = set_thread mid (Erasing (Suc k)) (upd_player mid k p L)"
    have step: "MatchFinished mid L = L1"
      using Suc.prems(1,2) k w(1) by (simp add: MatchFinished_def destroy_step_def L1_def p_def)
    have "\<exists>n. (MatchFinished mid ^^ n) L1 = erased mid L1"
      by (rule Suc.hyps(1)[of "M\<lparr>players := (players M)[k := p]\<rparr>" "Suc k"])
        (use Suc.hyps(2) Suc.prems(2) w(2) in \<open>simp_all add: L1_def upd_player_match\<close>)
    then obtain n where "(MatchFinished mid ^^ n) L1 = erased mid L1" by blast
    then have "(MatchFinished mid ^^ Suc n) L = erased mid L"
      using step erased_step[OF Suc.prems(2)] by (simp add: funpow_Suc_right L1_def del: funpow.simps)
    then show ?case by blast
  qed
  show ?thesis
  proof (cases t)
    case (Waiting k)
    define p where "p = (players M ! k)\<lparr>connection := None\<rparr>"
    define L1 where "L1 = set_thread mid (Erasing (Suc k)) (upd_player mid k p L)"
    have step: "MatchFinished mid L = L1"
      using assms Waiting by (simp add: MatchFinished_def L1_def p_def player_at_def Let_def)
    have "\<exists>n. (MatchFinished mid ^^ n) L1 = erased mid L1"
      by (rule E[of _ "Suc k" "M\<lparr>players := (players M)[k := p]\<rparr>"])
        (use assms Waiting in \<open>simp_all add: L1_def upd_player_match\<close>)
    then obtain n where "(MatchFinished mid ^^ n) L1 = erased mid L1" by blast
    then have "(MatchFinished mid ^^ Suc n) L = erased mid L"
      using step erased_step[OF assms(2)] by (simp add: funpow_Suc_right L1_def del: funpow.simps)
    then show ?thesis by blast
  qed (use E assms in auto)
qed

text \<open>What is not, keeps the mutex for ever.\<close>

definition stuck_erasure :: "int \<Rightarrow> lobby \<Rightarrow> bool" where
  "stuck_erasure mid L = (\<exists>t M. ord_find mid (match_threads L) = Some t \<and> holds_mutex t \<and>
     ord_find mid (matches L) = Some M \<and> \<not> finishes_alone t (players M))"

lemma stuck_erasure_step:
  assumes "stuck_erasure mid L" "lobby_inv L"
  shows "stuck_erasure mid (MatchFinished mid L)"
proof -
  obtain t M where t: "ord_find mid (match_threads L) = Some t" "holds_mutex t" and
    M: "ord_find mid (matches L) = Some M" "\<not> finishes_alone t (players M)"
    using assms by (auto simp: stuck_erasure_def)
  have ok: "thread_ok t M" using lobby_invD(6)[OF assms(2) M(1)] t(1) by (simp add: match_ok_def)
  consider k where "t = Erasing k" | k where "t = Waiting k" using t(2) by (cases t) auto
  then show ?thesis
  proof cases
    case (1 k)
    then have k: "k < length (players M)" using M(2) by (cases "k < length (players M)") auto
    then have ip: "in_play (players M ! k)" using ok 1 by simp
    show ?thesis
    proof (cases "player_waits (players M ! k)")
      case True
      then have "\<not> notified (destroy_player (players M ! k))"
        using ip by (auto simp: in_play_def player_waits_def notified_def destroy_player_def destroy_begin_def
            destroy_waits_def split: option.splits)
      then show ?thesis
        using 1 t M k True
        by (auto simp: stuck_erasure_def MatchFinished_def destroy_step_def upd_player_match)
    next
      case False
      then show ?thesis
        using 1 t M k
        by (auto simp: stuck_erasure_def MatchFinished_def destroy_step_def upd_player_match
            Cons_nth_drop_Suc[symmetric])
    qed
  next
    case (2 k)
    show ?thesis
      using 2 t M
      by (cases "notified (players M ! k)")
        (auto simp: stuck_erasure_def MatchFinished_def player_at_def Let_def upd_player_match)
  qed
qed

text \<open>
  The thread that holds the mutex returns without the io thread exactly when no connection still
  to be destroyed has a peer.
\<close>

lemma erasure_returns_iff:
  assumes inv: "lobby_inv L" and h: "mutex_holder L = Some (mid, t)" and M: "ord_find mid (matches L) = Some M"
  shows "(\<exists>n. ord_find mid (match_threads ((MatchFinished mid ^^ n) L)) = Some Returned) \<longleftrightarrow>
    finishes_alone t (players M)"
proof
  note H = mutex_holder_find(1)[OF lobby_invD(3)[OF inv] h]
  show "\<exists>n. ord_find mid (match_threads ((MatchFinished mid ^^ n) L)) = Some Returned" if "finishes_alone t (players M)"
  proof -
    note F = finishes_alone_returns[OF _ M that]
    obtain n where "(MatchFinished mid ^^ n) L = erased mid L" using F H by blast
    then show ?thesis by (intro exI[of _ n]) (simp add: erased_def)
  qed
  show "finishes_alone t (players M)"
    if ret: "\<exists>n. ord_find mid (match_threads ((MatchFinished mid ^^ n) L)) = Some Returned"
  proof (rule ccontr)
    assume "\<not> finishes_alone t (players M)"
    then have "stuck_erasure mid L" using H M by (auto simp: stuck_erasure_def)
    then have all: "stuck_erasure mid ((MatchFinished mid ^^ n) L) \<and> lobby_inv ((MatchFinished mid ^^ n) L)" for n
      using inv by (induction n) (auto intro: stuck_erasure_step MatchFinished_inv)
    obtain n where "ord_find mid (match_threads ((MatchFinished mid ^^ n) L)) = Some Returned" using ret by blast
    then show False using all[of n] by (auto simp: stuck_erasure_def)
  qed
qed

end
