(* ===== verification/ServerProperties.thy ===== *)
theory ServerProperties
  imports Server MatchThreads SnakeProperties
begin

text \<open>
  The properties of the server: its connections, the rounds of a match, whole games, the lobby
  and the main loop.
\<close>

section \<open>Instances used by the witnesses\<close>

definition plain_io :: stdio where
  "plain_io = \<lparr>fmt_showpoint = (\<lambda>p d. ''0.0''), fmt_floatfield = (\<lambda>f p d. ''0.0''),
     read_double = (\<lambda>s. None)\<rparr>"

text \<open>An environment in which nobody sends anything, every write succeeds and Redis is connected.\<close>

definition quiet_env :: environment where
  "quiet_env = \<lparr>env_io = plain_io, env_sched = (\<lambda>t k. []), env_ok = (\<lambda>t i. True),
     env_log = (\<lambda>t. True)\<rparr>"

lemma good_quiet_env: "good_env quiet_env"
  by (simp add: good_env_def quiet_env_def)

definition fresh_player :: round_player where
  "fresh_player = new_player TcpConnection"

lemma in_play_fresh: "in_play fresh_player"
proof -
  have "TcpConnection = (new_connection 1)\<lparr>observers := []\<rparr>"
    by (simp add: new_connection_def TcpConnection_def ReadMessage_def)
  then show ?thesis
    using in_play_new_player[OF waiting_ok_new, of 1] by (simp add: fresh_player_def)
qed

definition full_match :: "int \<Rightarrow> snake_match" where
  "full_match n = (new_match n)\<lparr>players := replicate (nat n) fresh_player\<rparr>"

lemma ready_full_match: "1 \<le> n \<Longrightarrow> n \<le> 4 \<Longrightarrow> ready_match n (full_match n)"
  using base_new_match[of n] in_play_fresh
  by (auto simp: base_match_def ready_match_def full_match_def)

section \<open>Connections and rounds\<close>

text \<open>
  C7. A connection loses, duplicates and reorders nothing: in any sequence of calls of
  \<open>ReadMessageAsync\<close> and \<open>ProcessMessage\<close>, the callbacks, in the order of their
  registration, are called with the messages in the order of their arrival, and what is left
  over stays queued.
\<close>

theorem connection_delivers_in_order:
  assumes "tcp_inv c" "mail_run ReadMessageAsync ProcessMessage es c = (c', ds)"
  shows "ds = zip (observers c @ observed es) (messages c @ delivered es) \<and> tcp_inv c' \<and>
    observers c' = drop (length (messages c @ delivered es)) (observers c @ observed es) \<and>
    messages c' = drop (length (observers c @ observed es)) (messages c @ delivered es)"
  by (rule tcp.mail_run_zip[OF assms])

theorem connection_delivers_in_order_witness:
  "\<exists>c. mail_run ReadMessageAsync ProcessMessage
       [Deliver (Message JNull), Deliver (Message (JBool True)), Observe (1::nat), Observe 2, Observe 3]
       TcpConnection = (c, [(1, Message JNull), (2, Message (JBool True))]) \<and> observers c = [3]"
proof -
  obtain c ds where r: "mail_run ReadMessageAsync ProcessMessage
       [Deliver (Message JNull), Deliver (Message (JBool True)), Observe (1::nat), Observe 2, Observe 3]
       TcpConnection = (c, ds)" by fastforce
  have "tcp_inv (TcpConnection :: nat tcp_connection)"
    by (simp add: tcp_inv_def TcpConnection_def ReadMessage_def)
  from connection_delivers_in_order[OF this r] show ?thesis
    using r by (simp add: TcpConnection_def ReadMessage_def)
qed

text \<open>
  C11. The future a player hands out for a round gets the first message of that round among
  those processed afterwards, whatever other messages come before, between and after; with
  no such message it stays pending.
\<close>

theorem future_gets_first_message_of_round:
  assumes "promises_inv p" "GetRoundMessageAsync r p = (k, p')" "foldM process_body ms p' = Inr p''"
  shows "shared p'' ! k =
    (case find (\<lambda>m. msg_round m = Some r) ms of Some m \<Rightarrow> Ready m | None \<Rightarrow> Pending)"
  using foldM_process_body_future[OF _ _ assms(3)] GetRoundMessageAsync_promises[OF assms(1,2)] by simp

definition round_message :: "int \<Rightarrow> json \<Rightarrow> message" where
  "round_message r d = Message (JObject [(''data'', d), (''round'', json_of_int r)])"

theorem future_gets_first_message_of_round_witness:
  "\<exists>p. foldM process_body [round_message 7 JNull, round_message 3 (JBool True), round_message 3 JNull]
       (snd (GetRoundMessageAsync 3 fresh_player)) = Inr p \<and>
     shared p ! 0 = Ready (round_message 3 (JBool True))"
proof -
  let ?ms = "[round_message 7 JNull, round_message 3 (JBool True), round_message 3 JNull]"
  have inv: "promises_inv fresh_player" using in_play_fresh by (simp add: in_play_def player_inv_def)
  have r: "msg_round (round_message 7 d) = Some 7" "msg_round (round_message 3 d) = Some 3" for d
    by (simp_all add: round_message_def msg_round_def json_of_int_def to_int32_def)
  then have "\<forall>m \<in> set ?ms. acceptable m" by (simp add: acceptable_def)
  then obtain p where p: "foldM process_body ?ms (snd (GetRoundMessageAsync 3 fresh_player)) = Inr p"
    using foldM_process_body_defined by blast
  have g: "GetRoundMessageAsync 3 fresh_player = (0, snd (GetRoundMessageAsync 3 fresh_player))"
    by (simp add: GetRoundMessageAsync_def fresh_player_def new_player_def abandon_def)
  show ?thesis using future_gets_first_message_of_round[OF inv g p] p r by simp
qed

text \<open>
  C6. A wait for the messages of round \<open>r\<close> ends normally for every schedule of acceptable
  input, and its entry for player \<open>j\<close> is the first message of that round the player sent
  after the wait made its future and before the player's own timeout, or nothing.
\<close>

theorem wait_collects_first_answers:
  assumes "\<forall>p \<in> set (players M). in_play p" "good_sched io sched"
  shows "\<exists>ms M'. WaitForMessages io r sched M = Inr (ms, M') \<and>
    length ms = length (players M) \<and>
    (\<forall>j < length (players M). ms ! j = find (\<lambda>m. msg_round m = Some r)
       (heard_until io sched j (Suc (length (players M) + j)) (players M ! j))) \<and>
    length (players M') = length (players M) \<and> (\<forall>p \<in> set (players M'). in_play p)"
  using WaitForMessages_returns[OF assms, of r] by (fastforce simp: returns_iff)

definition lost_peer :: "nat \<Rightarrow> (nat \<times> net_input) list" where
  "lost_peer k = (if k = 1 then [(0, NetError)] else [])"

lemma heard_lost_peer: "heard_until io lost_peer 0 3 p = []" "heard_until io lost_peer 1 4 p = []"
proof -
  have "[Suc 0..<3] = [1, 2]" "[Suc 1..<4] = [2, 3]" by (simp_all add: upt_rec)
  then show "heard_until io lost_peer 0 3 p = []" "heard_until io lost_peer 1 4 p = []"
    by (simp_all only: heard_until_def list.map concat.simps) (simp_all add: lost_peer_def)
qed

theorem wait_collects_first_answers_witness:
  "\<exists>ms M'. WaitForMessages plain_io 1 lost_peer (full_match 2) = Inr (ms, M') \<and> ms = [None, None]"
proof -
  have "\<forall>p \<in> set (players (full_match 2)). in_play p"
    using in_play_fresh by (auto simp: full_match_def)
  moreover have "good_sched plain_io lost_peer"
    by (simp add: good_sched_def good_input_def lost_peer_def)
  moreover have l: "length (players (full_match 2)) = 2" by (simp add: full_match_def)
  ultimately obtain ms M' where
    *: "WaitForMessages plain_io 1 lost_peer (full_match 2) = Inr (ms, M')" "length ms = 2"
      "\<forall>j < 2. ms ! j = find (\<lambda>m. msg_round m = Some 1)
         (heard_until plain_io lost_peer j (Suc (2 + j)) (players (full_match 2) ! j))"
    using wait_collects_first_answers[of "full_match 2" plain_io lost_peer 1] by metis
  have "ms ! 0 = None" using *(3)[rule_format, of 0] heard_lost_peer by (simp add: eval_nat_numeral)
  moreover have "ms ! 1 = None" using *(3)[rule_format, of 1] heard_lost_peer by (simp add: eval_nat_numeral)
  ultimately have "ms = [None, None]"
    using *(2) by (cases ms; cases "tl ms") auto
  then show ?thesis using *(1) by blast
qed

section \<open>Games\<close>

text \<open>
  C3. If every write to a player succeeds, the logger's client stays connected, and every line
  that arrives is a message the server survives, a full match plays to the end: between one and
  forty turns, ending early only when all snakes are dead.  It calls the finish callback once; it
  logs the start, one status for each turn and the end; every player is sent the same lines but
  for the status of the last turn.  The status after turn \<open>t\<close> carries the number \<open>t + 1\<close> of the
  turn to come.  On the thread of the match this takes at most 42 steps.  A write that fails, or a
  log without a connection, throws at that point (\<open>Write\<close>, \<open>Log\<close>) and is not covered.
\<close>

theorem game_runs_to_its_end:
  assumes "ready_match n M" "good_env env"
  shows "\<exists>M' start sts. StartGame env cb (M, w) = Inr (M', cb w) \<and>
    logger M' = map_option (\<lambda>l. l @ [Message start] @ sts @ [Message end_json]) (logger M) \<and>
    map sent_of (players M') = map (\<lambda>s. s @ concat (map (line_of env)
      ([Message start] @ butlast sts @ [Message end_json]))) (map sent_of (players M)) \<and>
    json_get ''type'' start = Inr (JString ''game_start'') \<and>
    1 \<le> length sts \<and> length sts \<le> 40 \<and> (IsGameFinished M' \<or> length sts = 40) \<and>
    (\<forall>i < length sts. \<exists>ss es. sts ! i = Message (status_json (int i + 2) ss es)) \<and>
    (\<exists>j. j \<le> 42 \<and> plays env j (Created, M) (Finishing, M'))"
proof -
  from StartGame_spec[OF assms, of cb w, unfolded sent_list_def]
  obtain M2 start sts where S: "StartGame env cb (M, w) = Inr (M2, cb w) \<and>
    logger M2 = map_option (\<lambda>l. l @ [Message start] @ sts @ [Message end_json]) (logger M) \<and>
    map sent_of (players M2) = map (\<lambda>s. s @ concat (map (line_of env)
      ([Message start] @ butlast sts @ [Message end_json]))) (map sent_of (players M)) \<and>
    json_get ''type'' start = Inr (JString ''game_start'') \<and>
    1 \<le> length sts \<and> length sts \<le> 40 \<and> (IsGameFinished M2 \<or> length sts = 40) \<and>
    (\<forall>i < length sts. \<exists>ss es. sts ! i = Message (status_json (int i + 2) ss es))"
    by (elim exE) (rule that)
  obtain j M' where p: "j \<le> 42" "plays env j (Created, M) (Finishing, M')"
    "StartGame env cb (M, w) = Inr (M', cb w)"
    using StartGame_plays[OF assms, of cb w] by blast
  have "M' = M2" using p(3) conjunct1[OF S] by simp
  then have "\<exists>j. j \<le> 42 \<and> plays env j (Created, M) (Finishing, M2)" using p by blast
  with S have T: "StartGame env cb (M, w) = Inr (M2, cb w) \<and>
    logger M2 = map_option (\<lambda>l. l @ [Message start] @ sts @ [Message end_json]) (logger M) \<and>
    map sent_of (players M2) = map (\<lambda>s. s @ concat (map (line_of env)
      ([Message start] @ butlast sts @ [Message end_json]))) (map sent_of (players M)) \<and>
    json_get ''type'' start = Inr (JString ''game_start'') \<and>
    1 \<le> length sts \<and> length sts \<le> 40 \<and> (IsGameFinished M2 \<or> length sts = 40) \<and>
    (\<forall>i < length sts. \<exists>ss es. sts ! i = Message (status_json (int i + 2) ss es)) \<and>
    (\<exists>j. j \<le> 42 \<and> plays env j (Created, M) (Finishing, M2))"
    by (elim conjE) (intro conjI)
  then show ?thesis by (intro exI)
qed

theorem game_runs_to_its_end_witness:
  "\<exists>M' start sts. StartGame quiet_env Suc (full_match 3, 0) = Inr (M', 1) \<and>
     logger M' = Some ([Message start] @ sts @ [Message end_json]) \<and> 1 \<le> length sts"
  using game_runs_to_its_end[OF ready_full_match[of 3] good_quiet_env, of Suc 0]
  by (auto simp: full_match_def new_match_def AddLogger_def)

section \<open>The lobby and the server\<close>

text \<open>
  C4. The lobby's invariant: players wait drained and observed, matches are never overfull, a
  match has a thread exactly when it is full and the thread is where its match is, at most one
  match is open for each number of players, and one thread at most holds \<open>matches_mutex_\<close>.  Every
  acceptable event - a connection, an error, a line the server survives, a step of a match thread
  whose writes and logs succeed - ends normally and keeps it while the counters have room, but for
  one: a line that asks to join, while a match is being erased by a thread that cannot return
  without the io thread, is a deadlock.  The thread that holds the mutex cannot return without the
  io thread exactly if no number of its own steps makes it return.
\<close>

theorem lobby_keeps_invariant:
  assumes "lobby_inv L" "good_event io ev"
    and "player_id_counter L < 2 ^ 31 - 1" "match_id_counter L < 2 ^ 31 - 1"
  shows "(if asks_to_join io ev L \<and> erasure_waits L then lobby_step io ev L = Inl Deadlock
      else \<exists>L'. lobby_step io ev L = Inr L' \<and> lobby_inv L' \<and>
        player_id_counter L' \<le> player_id_counter L + 1 \<and> match_id_counter L' \<le> match_id_counter L + 1) \<and>
    (erasure_waits L \<longleftrightarrow> (\<exists>mid t. mutex_holder L = Some (mid, t) \<and>
       (\<forall>n. ord_find mid (match_threads ((MatchFinished mid ^^ n) L)) \<noteq> Some Returned)))"
proof (rule conjI)
  show "if asks_to_join io ev L \<and> erasure_waits L then lobby_step io ev L = Inl Deadlock
      else \<exists>L'. lobby_step io ev L = Inr L' \<and> lobby_inv L' \<and>
        player_id_counter L' \<le> player_id_counter L + 1 \<and> match_id_counter L' \<le> match_id_counter L + 1"
    using lobby_step_inv[OF assms] by (auto simp: returns_iff next_ok_def split: if_splits)
  show "erasure_waits L \<longleftrightarrow> (\<exists>mid t. mutex_holder L = Some (mid, t) \<and>
       (\<forall>n. ord_find mid (match_threads ((MatchFinished mid ^^ n) L)) \<noteq> Some Returned))"
  proof (cases "mutex_holder L")
    case (Some e)
    obtain mid t where e: "e = (mid, t)" by (cases e)
    note H = mutex_holder_find(1)[OF lobby_invD(3)[OF assms(1)] Some[unfolded e]]
    obtain M where "ord_find mid (matches L) = Some M"
      using lobby_invD(8)[OF assms(1)] H by fastforce
    then show ?thesis
      using erasure_returns_iff[OF assms(1) Some[unfolded e]] Some e by (auto simp: erasure_waits_def)
  qed (simp add: erasure_waits_def)
qed

theorem lobby_keeps_invariant_witness:
  "\<exists>L'. lobby_step plain_io Connect SequentialLobby = Inr L' \<and> lobby_inv L'"
  using lobby_keeps_invariant[OF lobby_inv_start, of plain_io Connect]
  by (auto simp: good_event_def asks_to_join_def SequentialLobby_def)

text \<open>
  C5. A run of the main loop over fewer than \<open>2 ^ 31\<close> acceptable events, threads included, ends
  normally with the lobby's invariant and an accept outstanding, or in the deadlock: at the first
  line that asks to join while a match is being erased by a thread that needs the io thread.  The
  sockets that are allocated and not deleted are one for the outstanding accept and one for every
  connection ever accepted: a finished connection's socket object is never freed.  Acceptable
  are lines the server survives, and steps of match threads whose writes and logs succeed and
  whose waits are woken up by a notification only.
\<close>

theorem server_keeps_accepting:
  assumes "\<forall>ev \<in> set evs. good_server_event io ev" "length evs < 2 ^ 31"
  shows "(\<exists>s. main_run io evs = Inr s \<and> main_exit io evs (Server SequentialLobby) = Serving s \<and>
      lobby_inv (server_lobby s) \<and> pending s \<noteq> None \<and> allocated s = deleted s + accepted evs + 1) \<or>
    (main_run io evs = Inl Deadlock \<and> main_exit io evs (Server SequentialLobby) = Hangs \<and>
      (\<exists>pre ev rest s. evs = pre @ LobbyEvent ev # rest \<and> main_run io pre = Inr s \<and>
        asks_to_join io ev (server_lobby s) \<and> erasure_waits (server_lobby s)))"
proof -
  have ex: "main_exit io evs s = (case foldM (server_step io) evs s of Inr s' \<Rightarrow> Serving s'
      | Inl e \<Rightarrow> main_exit io evs s)" for s
    using main_exit_append[of io evs "[]" s] by (cases "foldM (server_step io) evs s") simp_all
  show ?thesis
    using main_run_inv[OF assms]
  proof
    assume "returns (main_run io evs) (server_inv evs)"
    then show ?thesis
      using ex[of "Server SequentialLobby"] by (auto simp: returns_iff server_inv_def main_run_def)
  next
    assume "main_run io evs = Inl Deadlock \<and> (\<exists>pre ev rest s. evs = pre @ ev # rest \<and>
      main_run io pre = Inr s \<and> server_inv pre s \<and> deadlocks io ev s)"
    then obtain pre ev rest s where d: "main_run io evs = Inl Deadlock" "evs = pre @ ev # rest"
      "main_run io pre = Inr s" "deadlocks io ev s" by blast
    then show ?thesis
      using main_exit_deadlock[of io evs "Server SequentialLobby"] by (cases ev) (auto simp: deadlocks_def main_run_def)
  qed
qed

theorem server_keeps_accepting_witness:
  "\<exists>s. main_run plain_io [Accepted False, Accepted True, LobbyEvent (Input (AtLobby 1) NetError)] = Inr s \<and>
     pending s \<noteq> None \<and> allocated s = deleted s + 2"
proof -
  let ?evs = "[Accepted False, Accepted True, LobbyEvent (Input (AtLobby 1) NetError)]"
  have quiet: "\<not> asks_to_join plain_io ev L" if "LobbyEvent ev \<in> set ?evs" for ev L
    using that by (auto simp: asks_to_join_def)
  have "(\<exists>s. main_run plain_io ?evs = Inr s \<and> main_exit plain_io ?evs (Server SequentialLobby) = Serving s \<and>
      lobby_inv (server_lobby s) \<and> pending s \<noteq> None \<and> allocated s = deleted s + accepted ?evs + 1) \<or>
    (main_run plain_io ?evs = Inl Deadlock \<and> main_exit plain_io ?evs (Server SequentialLobby) = Hangs \<and>
      (\<exists>pre ev rest s. ?evs = pre @ LobbyEvent ev # rest \<and> main_run plain_io pre = Inr s \<and>
        asks_to_join plain_io ev (server_lobby s) \<and> erasure_waits (server_lobby s)))"
    by (rule server_keeps_accepting) (auto simp: good_server_event_def good_event_def)
  then show ?thesis
  proof
    assume "main_run plain_io ?evs = Inl Deadlock \<and> main_exit plain_io ?evs (Server SequentialLobby) = Hangs \<and>
      (\<exists>pre ev rest s. ?evs = pre @ LobbyEvent ev # rest \<and> main_run plain_io pre = Inr s \<and>
        asks_to_join plain_io ev (server_lobby s) \<and> erasure_waits (server_lobby s))"
    then have False
    proof (elim conjE exE)
      fix pre ev rest s
      assume e: "?evs = pre @ LobbyEvent ev # rest" and a: "asks_to_join plain_io ev (server_lobby s)"
      have "LobbyEvent ev \<in> set ?evs" unfolding e by simp
      then show False using quiet a by blast
    qed
    then show ?thesis ..
  qed auto
qed

end
