(* ===== verification/JsonTotal.thy ===== *)
theory JsonTotal
  imports JsonReader
begin

text \<open>
  The JSON reader ends on every input: none of its loops is \<open>None\<close>.  Every turn of a loop takes
  a character of the block in the buffer, and every block read takes input, or finds its end;
  \<open>adv\<close> orders the reader's states by what is left to read, lexicographically.
\<close>

section \<open>Progress\<close>

text \<open>What the stream can still deliver: its characters, and once more its end.\<close>

definition stream_left :: "reader \<Rightarrow> nat" where
  "stream_left st = (if input_eof st then 0 else Suc (length (input st)))"

definition adv :: "nat \<Rightarrow> reader \<Rightarrow> reader \<Rightarrow> bool" where
  "adv k st st' \<longleftrightarrow> buffer_capacity st' = buffer_capacity st \<and>
     (stream_left st' < stream_left st \<or>
      stream_left st' = stream_left st \<and> buffer_length st' = buffer_length st \<and>
      buffer_position st + k \<le> buffer_position st')"

named_theorems adv_rules \<open>what the reader's operations leave to read\<close>

lemma adv_refl [simp, adv_rules]: "adv 0 st st"
  by (simp add: adv_def)

lemma adv_trans: "adv j st st' \<Longrightarrow> adv k st' st'' \<Longrightarrow> adv (j + k) st st''"
  by (auto simp: adv_def)

lemma adv_trans0: "adv k st st' \<Longrightarrow> adv 0 st' st'' \<Longrightarrow> adv k st st''"
  using adv_trans[of k st st' 0 st''] by simp

lemma adv_trans1: "adv 0 st st' \<Longrightarrow> adv k st' st'' \<Longrightarrow> adv k st st''"
  using adv_trans[of 0 st st' k st''] by simp

lemma adv_weaken: "adv (Suc 0) st st' \<Longrightarrow> adv 0 st st'"
  by (auto simp: adv_def)

lemma adv_capacity: "adv k st st' \<Longrightarrow> buffer_capacity st' = buffer_capacity st"
  by (simp add: adv_def)

text \<open>Operations that do not touch the input.\<close>

lemma adv_same:
  assumes "adv k st st'" "buffer_capacity t = buffer_capacity st'" "input t = input st'"
    "input_eof t = input_eof st'" "buffer_length t = buffer_length st'"
    "buffer_position st' \<le> buffer_position t"
  shows "adv k st t"
  using assms by (auto simp: adv_def stream_left_def)

lemma adv_ops [adv_rules]:
  "adv k st st' \<Longrightarrow> adv k st (skip_chars n st')"
  "adv k st st' \<Longrightarrow> adv k st (skip_col n st')"
  "adv k st st' \<Longrightarrow> adv k st (new_line st')"
  "adv k st st' \<Longrightarrow> adv k st (push_char c st')"
  "adv k st st' \<Longrightarrow> adv k st (count_value st')"
  "adv k st st' \<Longrightarrow> adv k st (count_name st')"
  "adv k st st' \<Longrightarrow> adv k st (open_item b st')"
  "adv k st st' \<Longrightarrow> adv k st (st'\<lparr>string_buffer := s\<rparr>)"
  "adv k st st' \<Longrightarrow> adv k st (st'\<lparr>rd_stack := stk\<rparr>)"
  "adv k st st' \<Longrightarrow> adv k st (st'\<lparr>handler := h\<rparr>)"
  by (erule adv_same; simp add: skip_chars_def skip_col_def new_line_def push_char_def count_value_def
      count_name_def open_item_def)+

lemma next_char_adv: "next_char st = Inr (c, st') \<Longrightarrow> adv (Suc 0) st st'"
  by (auto simp: next_char_def bnd_eq_Inr skip_col_def adv_def stream_left_def)

lemma next_char_back:
  "next_char st = Inr (c, st') \<Longrightarrow> adv 0 st (st'\<lparr>buffer_position := buffer_position st' - 1\<rparr>)"
  by (auto simp: next_char_def bnd_eq_Inr skip_col_def adv_def stream_left_def)

lemma skip_lf_adv: "skip_lf st = Inr st' \<Longrightarrow> adv 0 st st'"
  by (auto simp: skip_lf_def bnd_eq_Inr intro!: adv_rules)

lemma on_handler_adv: "on_handler f st = Inr st' \<Longrightarrow> adv 0 st st'"
  by (auto simp: on_handler_def bnd_eq_Inr intro: adv_rules)

lemma emit_adv: "emit v st = Inr st' \<Longrightarrow> adv 0 st st'"
  by (simp add: emit_def on_handler_adv)

text \<open>A block read takes input or finds its end.\<close>

lemma read_some_progress:
  assumes "read_some st = Inr st'" "buffer_length st \<le> buffer_position st" "0 < buffer_capacity st"
  shows "buffer_capacity st' = buffer_capacity st \<and> (eof st' \<or> stream_left st' < stream_left st)"
proof -
  consider "input_eof st" | "\<not> input_eof st" "bof st" | "\<not> input_eof st" "\<not> bof st" by blast
  then show ?thesis
  proof cases
    case 1
    then show ?thesis using assms by (auto simp: read_some_def Let_def split: if_splits)
  next
    case 2
    then show ?thesis using assms
      by (auto simp: read_some_def stream_read_def stream_left_def Let_def split: if_splits)
  next
    case 3
    then show ?thesis using assms
      by (auto simp: read_some_def stream_read_def stream_left_def Let_def split: if_splits)
  qed
qed

lemma refill_progress:
  assumes "refill st = Inr st'" "buffer_length st \<le> buffer_position st" "0 < buffer_capacity st"
  shows "buffer_capacity st' = buffer_capacity st \<and> stream_left st' < stream_left st"
  using assms read_some_progress[of st st']
  by (auto simp: refill_def bnd_eq_Inr fatal_error_def split: if_splits)

section \<open>Loops\<close>

text \<open>A computation that returns or throws, and on returning has read at least \<open>k\<close> characters.\<close>

definition ends :: "nat \<Rightarrow> reader \<Rightarrow> ('a \<Rightarrow> reader) \<Rightarrow> 'a result option \<Rightarrow> bool" where
  "ends k st out r \<longleftrightarrow> (\<exists>x. r = Some x \<and> (\<forall>y. x = Inr y \<longrightarrow> adv k st (out y)))"

lemma ends_simps [simp]:
  "ends k st out (Some (Inl e))"
  "ends k st out (Some (fatal_error m))"
  "ends k st out (Some (Inr y)) = adv k st (out y)"
  "\<not> ends k st out None"
  by (simp_all add: ends_def fatal_error_def)

lemma ends_if:
  "(c \<Longrightarrow> ends k st out a) \<Longrightarrow> (\<not> c \<Longrightarrow> ends k st out b) \<Longrightarrow> ends k st out (if c then a else b)"
  by simp

lemma ends_bnd:
  "(\<And>y. r = Inr y \<Longrightarrow> ends k st out (Some (f y))) \<Longrightarrow> ends k st out (Some (bnd r f))"
  by (cases r) simp_all

lemma ends_obind:
  assumes "ends j st out' r" "\<And>y. adv j st (out' y) \<Longrightarrow> r = Some (Inr y) \<Longrightarrow> ends k st out (f y)"
  shows "ends k st out (obind r f)"
  using assms by (cases r rule: option.exhaust; cases "the r") (auto simp: ends_def)

lemma ends_obind_Some:
  "(\<And>y. r = Inr y \<Longrightarrow> ends k st out (f y)) \<Longrightarrow> ends k st out (obind (Some r) f)"
  by (cases r) simp_all

lemma ends_from: "adv j st st' \<Longrightarrow> ends k st' out r \<Longrightarrow> ends (j + k) st out r"
  by (auto simp: ends_def intro: adv_trans)

text \<open>The induction all loops share.\<close>

lemma reader_induct [case_names step]:
  assumes "\<And>st. (\<And>st'. stream_left st' < stream_left st \<or>
      stream_left st' = stream_left st \<and> buffer_length st' - buffer_position st' <
        buffer_length st - buffer_position st \<Longrightarrow> P st') \<Longrightarrow> P st"
  shows "P st"
proof (induction st rule: wf_induct_rule[OF wf_measures[of "[stream_left, \<lambda>st. buffer_length st - buffer_position st]"]])
  case (1 st)
  then show ?case using assms[of st] by simp
qed

lemma adv_smaller:
  "adv (Suc 0) st st' \<Longrightarrow> buffer_position st < buffer_length st \<Longrightarrow> stream_left st' < stream_left st \<or>
     stream_left st' = stream_left st \<and> buffer_length st' - buffer_position st' <
       buffer_length st - buffer_position st"
  by (auto simp: adv_def)

lemma adv_refilled:
  "buffer_capacity st' = buffer_capacity st \<Longrightarrow> stream_left st' < stream_left st \<Longrightarrow> adv k st st'"
  by (simp add: adv_def)

lemma scan_loop_ends:
  assumes "\<And>st. 0 < buffer_capacity st \<Longrightarrow> ends (Suc 0) st snd (body st)" "0 < buffer_capacity st"
  shows "ends 0 st (\<lambda>s. s) (scan_loop body st)"
  using assms(2)
proof (induction st rule: reader_induct)
  case (step st)
  show ?case
  proof (cases "buffer_position st < buffer_length st")
    case True
    obtain x where x: "body st = Some x" "\<And>d st'. x = Inr (d, st') \<Longrightarrow> adv (Suc 0) st st'"
      using assms(1)[OF step.prems] by (force simp: ends_def)
    show ?thesis
    proof (cases x)
      case (Inl e)
      then show ?thesis using x(1) True by (simp add: scan_loop.simps[of body st])
    next
      case (Inr y)
      obtain d st' where y: "y = (d, st')" by (cases y)
      then have a: "adv (Suc 0) st st'" using x(2) Inr by simp
      then have "ends 0 st' (\<lambda>s. s) (scan_loop body st')"
        using step.IH[of st'] adv_smaller[OF a True] step.prems by (simp add: adv_capacity)
      from ends_from[OF adv_weaken[OF a] this]
      show ?thesis using x(1) Inr y True a by (simp add: scan_loop.simps[of body st] adv_weaken)
    qed
  next
    case False
    show ?thesis
    proof (cases "refill st")
      case (Inl e)
      then show ?thesis using False by (simp add: scan_loop.simps[of body st])
    next
      case (Inr st')
      then have p: "buffer_capacity st' = buffer_capacity st" "stream_left st' < stream_left st"
        using refill_progress False step.prems by auto
      then have "ends 0 st' (\<lambda>s. s) (scan_loop body st')" using step.IH[of st'] step.prems by simp
      from ends_from[OF adv_refilled[OF p, of 0] this]
      show ?thesis using Inr False by (simp add: scan_loop.simps[of body st])
    qed
  qed
qed

lemma number_loop_ends:
  assumes "0 < buffer_capacity st"
  shows "ends 0 st (\<lambda>s. s) (number_loop io neg frac st)"
  using assms
proof (induction st arbitrary: frac rule: reader_induct)
  case (step st)
  show ?case
  proof (cases "buffer_position st < buffer_length st")
    case True
    show ?thesis
    proof (cases "next_char st")
      case (Inl e)
      then show ?thesis using True by (simp add: number_loop.simps[of io neg frac st])
    next
      case (Inr y)
      obtain c st' where y: "next_char st = Inr (c, st')" using Inr by (cases y) auto
      then have a: "adv (Suc 0) st (push_char c st')" using next_char_adv by (auto intro: adv_rules)
      have rec: "ends 0 st (\<lambda>s. s) (number_loop io neg f (push_char c st'))" for f
        using ends_from[OF adv_weaken[OF a], of 0 "\<lambda>s. s"] step.IH[OF adv_smaller[OF a True], of f] step.prems
        by (simp add: adv_capacity[OF a])
      have "ends 0 st (\<lambda>s. s) (Some (bnd (number_value io frac neg (string_buffer st'))
          (\<lambda>v. emit v (st'\<lparr>buffer_position := buffer_position st' - 1\<rparr>))))"
      proof (rule ends_bnd)
        fix v
        show "ends 0 st (\<lambda>s. s) (Some (emit v (st'\<lparr>buffer_position := buffer_position st' - 1\<rparr>)))"
          using adv_trans0[OF next_char_back[OF y] emit_adv]
          by (cases "emit v (st'\<lparr>buffer_position := buffer_position st' - 1\<rparr>)") auto
      qed
      then show ?thesis using rec y True by (simp add: number_loop.simps[of io neg frac st])
    qed
  next
    case False
    show ?thesis
    proof (cases "refill st")
      case (Inl e)
      then show ?thesis using False by (simp add: number_loop.simps[of io neg frac st])
    next
      case (Inr st')
      then have p: "buffer_capacity st' = buffer_capacity st" "stream_left st' < stream_left st"
        using refill_progress False step.prems by auto
      then have "ends 0 st' (\<lambda>s. s) (number_loop io neg frac st')" using step.IH[of st'] step.prems by simp
      from ends_from[OF adv_refilled[OF p, of 0] this]
      show ?thesis using Inr False by (simp add: number_loop.simps[of io neg frac st])
    qed
  qed
qed

lemma read_loop_ends:
  assumes "\<And>st. 0 < buffer_capacity st \<Longrightarrow> ends (Suc 0) st snd (read_body io st)" "0 < buffer_capacity st"
  shows "read_loop io st \<noteq> None"
  using assms(2)
proof (induction st rule: reader_induct)
  case (step st)
  show ?case
  proof (cases "buffer_position st < buffer_length st")
    case True
    obtain x where x: "read_body io st = Some x" "\<And>d st'. x = Inr (d, st') \<Longrightarrow> adv (Suc 0) st st'"
      using assms(1)[OF step.prems] by (force simp: ends_def)
    show ?thesis
    proof (cases x)
      case (Inl e)
      then show ?thesis using x(1) True by (simp add: read_loop.simps[of io st])
    next
      case (Inr y)
      obtain d st' where y: "y = (d, st')" by (cases y)
      then have a: "adv (Suc 0) st st'" using x(2) Inr by simp
      then have "read_loop io st' \<noteq> None"
        using step.IH[of st'] adv_smaller[OF a True] step.prems by (simp add: adv_capacity)
      then show ?thesis using x(1) Inr y True by (simp add: read_loop.simps[of io st])
    qed
  next
    case False
    show ?thesis
    proof (cases "read_some st")
      case (Inl e)
      then show ?thesis using False by (simp add: read_loop.simps[of io st])
    next
      case (Inr st')
      then have p: "buffer_capacity st' = buffer_capacity st" "eof st' \<or> stream_left st' < stream_left st"
        using read_some_progress[of st st'] False step.prems by auto
      have "read_loop io st' \<noteq> None"
        using p step.IH[of st'] step.prems by (cases "eof st'") (simp_all add: read_loop.simps[of io st'])
      then show ?thesis using Inr False by (simp add: read_loop.simps[of io st])
    qed
  qed
qed

section \<open>The loop bodies\<close>

lemma single_line_ends: "ends (Suc 0) st snd (single_line_body st)"
  unfolding single_line_body_def
  by (rule ends_bnd) (auto dest!: next_char_adv simp: skip_lf_def bnd_eq_Inr intro!: ends_bnd adv_rules)

lemma multi_line_ends: "ends (Suc 0) st snd (multi_line_body st)"
  unfolding multi_line_body_def
  by (rule ends_bnd) (auto dest!: next_char_adv simp: skip_lf_def bnd_eq_Inr intro!: ends_bnd adv_rules)

lemma maybe_comment_ends: "0 < buffer_capacity st \<Longrightarrow> ends 0 st (\<lambda>s. s) (maybe_comment n st)"
  unfolding maybe_comment_def ignore_single_line_comment_def ignore_multi_line_comment_def
proof (rule ends_obind_Some)
  fix c
  assume cap: "0 < buffer_capacity st"
  have a: "adv 0 st (skip_chars n st)" by (intro adv_rules)
  have "ends 0 st (\<lambda>s. s) (scan_loop b (skip_chars n st))" if "\<And>st. ends (Suc 0) st snd (b st)" for b
  proof -
    have "0 < buffer_capacity (skip_chars n st)" using cap by (simp add: adv_capacity[OF a])
    then have "ends 0 (skip_chars n st) (\<lambda>s. s) (scan_loop b (skip_chars n st))"
      using that by (intro scan_loop_ends)
    from ends_from[OF a this] show ?thesis by simp
  qed
  then show "ends 0 st (\<lambda>s. s) (if c = CHR ''/'' then scan_loop single_line_body (skip_chars n st)
      else if c = CHR ''*'' then scan_loop multi_line_body (skip_chars n st) else Some (Inr st))"
    using single_line_ends multi_line_ends by simp
qed

text \<open>After the character a body begins with, anything that loses nothing.\<close>

lemma ends_next_char:
  assumes "\<And>c st'. next_char st = Inr (c, st') \<Longrightarrow> ends 0 st' out (f (c, st'))"
  shows "ends (Suc 0) st out (obind (Some (next_char st)) f)"
proof (rule ends_obind_Some)
  fix y
  assume y: "next_char st = Inr y"
  obtain c st' where "y = (c, st')" by (cases y)
  then show "ends (Suc 0) st out (f y)"
    using ends_from[OF next_char_adv, of st c st' 0 out "f y"] assms[of c st'] y by simp
qed

lemma ends_pair: "ends k st (\<lambda>s. s) r \<Longrightarrow> ends k st snd (obind r (\<lambda>st. Some (Inr (b, g st))))"
  if "\<And>s. adv 0 s (g s)"
  by (rule ends_obind[where j = k and out' = "\<lambda>s. s"]) (auto intro: adv_trans0 that)

lemma separator_ends: "0 < buffer_capacity st \<Longrightarrow> ends (Suc 0) st snd (separator_body st)"
  unfolding separator_body_def
proof (rule ends_next_char)
  fix c st'
  assume cap: "0 < buffer_capacity st" and n: "next_char st = Inr (c, st')"
  have "0 < buffer_capacity st'" using cap adv_capacity[OF next_char_adv[OF n]] by simp
  then have com: "ends 0 st' snd (obind (maybe_comment 0 st') (\<lambda>st. Some (Inr (False, st))))"
    by (intro ends_pair maybe_comment_ends) simp_all
  have lf: "ends 0 st' snd (Some (bnd (skip_lf st') (\<lambda>st. Inr (False, new_line st))))"
    by (rule ends_bnd) (auto dest!: skip_lf_adv intro!: adv_rules)
  show "ends 0 st' snd (case (c, st') of (c, st) \<Rightarrow>
     if c = CR then Some (bnd (skip_lf st) (\<lambda>st. Inr (False, new_line st)))
     else if c = LF then Some (Inr (False, new_line st))
     else if is_blank c then Some (Inr (False, st))
     else if c = CHR ''/'' then obind (maybe_comment 0 st) (\<lambda>st. Some (Inr (False, st)))
     else if c = CHR '':'' then Some (Inr (True, st))
     else Some (fatal_error ''Expected :''))"
    using com lf by (auto intro!: adv_rules)
qed

lemma parse_separator_ends: "0 < buffer_capacity st \<Longrightarrow> ends 0 st (\<lambda>s. s) (parse_separator st)"
  unfolding parse_separator_def by (rule scan_loop_ends) (rule separator_ends)

lemma hex_digits_adv: "hex_digits n cp st = Inr (m, st') \<Longrightarrow> adv 0 st st'"
proof (induction n arbitrary: cp st)
  case (Suc n)
  then obtain c st1 d where "next_char st = Inr (c, st1)" "hex_digits n (cp * 16 + d) st1 = Inr (m, st')"
    by (auto simp: bnd_eq_Inr fatal_error_def split: option.splits)
  then show ?case using Suc.IH next_char_adv adv_weaken adv_trans0 by blast
qed simp

lemma decode_unicode_adv:
  "decode_unicode_escape_sequence st = Inr (m, st') \<Longrightarrow> adv 0 st st'"
  by (auto simp: decode_unicode_escape_sequence_def fatal_error_def hex_digits_adv split: if_splits)

lemma decode_codepoint_adv:
  assumes "decode_unicode_codepoint st = Inr (m, st')"
  shows "adv 0 st st'"
proof -
  obtain cp st1 where 1: "decode_unicode_escape_sequence st = Inr (cp, st1)"
    using assms by (auto simp: decode_unicode_codepoint_def bnd_eq_Inr)
  have a: "adv 0 st st1" using decode_unicode_adv[OF 1] .
  have "adv 0 st1 st'"
  proof (cases "st' = st1")
    case False
    then obtain sp where "decode_unicode_escape_sequence (skip_col 2 st1) = Inr (sp, st')"
      using assms 1 by (auto simp: decode_unicode_codepoint_def bnd_eq_Inr fatal_error_def split: if_splits)
    then have "adv 0 (skip_col 2 st1) st'" by (rule decode_unicode_adv)
    moreover have "adv 0 st1 (skip_col 2 st1)" by (intro adv_rules)
    ultimately show ?thesis using adv_trans0 by blast
  qed simp
  then show ?thesis using a adv_trans0 by blast
qed

lemma escape_body_adv:
  assumes "escape_body st = Inr st'"
  shows "adv 0 st st'"
proof -
  obtain c where c: "peek 0 st = Inr c" using assms by (auto simp: escape_body_def bnd_eq_Inr)
  show ?thesis
  proof (cases "simple_escape c")
    case (Some d)
    then have "st' = push_char d (skip_chars 1 st)" using assms c by (simp add: escape_body_def)
    then show ?thesis by (auto intro!: adv_rules)
  next
    case None
    then obtain cp st1 where 1: "decode_unicode_codepoint (skip_chars 1 st) = Inr (cp, st1)"
      and 2: "st' = st1\<lparr>string_buffer := append_codepoint_to_string cp (string_buffer st1)\<rparr>"
      using assms c by (auto simp: escape_body_def bnd_eq_Inr fatal_error_def split: if_splits)
    have "adv 0 st (skip_chars 1 st)" by (intro adv_rules)
    from adv_trans0[OF this decode_codepoint_adv[OF 1]] show ?thesis unfolding 2 by (intro adv_rules)
  qed
qed

lemma string_ends: "ends (Suc 0) st snd (string_body st)"
proof -
  have "string_body st = obind (Some (next_char st)) (\<lambda>(c, st). Some (
     if byte c < 0x20 then fatal_error ''Illegal control character in string''
     else if c = CHR 0x5C then bnd (escape_body st) (\<lambda>st. Inr (False, st))
     else if c = CHR 0x22 then Inr (True, st)
     else Inr (False, push_char c st)))"
    by (cases "next_char st") (auto simp: string_body_def)
  moreover have "ends (Suc 0) st snd \<dots>"
    by (rule ends_next_char) (auto intro!: ends_bnd adv_rules dest: escape_body_adv)
  ultimately show ?thesis by simp
qed

lemma parse_quoted_ends: "0 < buffer_capacity st \<Longrightarrow> ends 0 st (\<lambda>s. s) (parse_quoted st)"
proof -
  assume cap: "0 < buffer_capacity st"
  have "ends 0 (st\<lparr>string_buffer := []\<rparr>) (\<lambda>s. s) (parse_quoted st)"
    unfolding parse_quoted_def by (rule scan_loop_ends) (use cap string_ends in simp_all)
  moreover have "adv 0 st (st\<lparr>string_buffer := []\<rparr>)" by (intro adv_rules)
  ultimately show ?thesis using ends_from[of 0 st _ 0] by fastforce
qed

lemma parse_number_ends: "0 < buffer_capacity st \<Longrightarrow> ends 0 st (\<lambda>s. s) (parse_number io c st)"
proof -
  assume cap: "0 < buffer_capacity st"
  let ?st = "st\<lparr>string_buffer := (if c = CHR ''-'' then [] else [c])\<rparr>"
  have "ends 0 ?st (\<lambda>s. s) (parse_number io c st)"
    unfolding parse_number_def by (rule number_loop_ends) (use cap in simp)
  moreover have "adv 0 st ?st" by (intro adv_rules)
  ultimately show ?thesis using ends_from[of 0 st _ 0] by fastforce
qed

lemma after_name_ends: "0 < buffer_capacity st \<Longrightarrow> ends 0 st (\<lambda>s. s) (after_name st)"
  unfolding after_name_def Let_def
proof (intro ends_obind_Some)
  fix c0 c1
  assume cap: "0 < buffer_capacity st"
  let ?n = "(if c0 = CHR '':'' then 1 else 0) + (if c0 = CHR '' '' \<and> c1 = CHR '':'' then 2 else 0 :: nat)"
  have a: "adv 0 st (skip_col ?n st)" by (intro adv_rules)
  then have "ends 0 (skip_col ?n st) (\<lambda>s. s) (parse_separator (skip_col ?n st))"
    using cap by (intro parse_separator_ends) (simp add: adv_capacity)
  from ends_from[OF a this]
  show "ends 0 st (\<lambda>s. s) (if ?n = 0 then parse_separator (skip_col ?n st) else Some (Inr (skip_col ?n st)))"
    using a by (intro ends_if) (simp_all only: ends_simps add_0_left)
qed

lemma read_quoted_ends:
  assumes "0 < buffer_capacity st"
  shows "ends 0 st (\<lambda>s. s) (read_quoted i st)"
proof -
  have name: "ends 0 s (\<lambda>s. s) (obind (Some (on_handler (d_set_name (string_buffer s)) s)) (\<lambda>st.
      obind (after_name st) (\<lambda>st. Some (Inr (count_name st)))))" if cap: "0 < buffer_capacity s" for s
  proof (rule ends_obind_Some)
    fix s1
    assume "on_handler (d_set_name (string_buffer s)) s = Inr s1"
    then have a: "adv 0 s s1" by (rule on_handler_adv)
    then have "ends 0 s1 (\<lambda>s. s) (after_name s1)" using cap by (intro after_name_ends) (simp add: adv_capacity)
    from ends_from[OF a this] have n: "ends 0 s (\<lambda>s. s) (after_name s1)" by simp
    show "ends 0 s (\<lambda>s. s) (obind (after_name s1) (\<lambda>st. Some (Inr (count_name st))))"
      by (rule ends_obind[OF n]) (auto intro: adv_rules)
  qed
  have val: "ends 0 s (\<lambda>s. s) (Some (bnd (emit v s) (\<lambda>st. Inr (count_value st))))" for s v
    by (rule ends_bnd) (auto dest!: emit_adv intro!: adv_rules)
  show ?thesis
  proof (cases "value_count i > 0 \<and> \<not> comma i")
    case True
    then have "read_quoted i st = Some (fatal_error ''Expected comma'')" unfolding read_quoted_def by (rule if_P)
    then show ?thesis by simp
  next
    case False
    have "ends 0 st (\<lambda>s. s) (obind (parse_quoted st) (\<lambda>st.
        if item_is_object i \<and> name_count i = value_count i then
          obind (Some (on_handler (d_set_name (string_buffer st)) st)) (\<lambda>st.
          obind (after_name st) (\<lambda>st. Some (Inr (count_name st))))
        else Some (bnd (emit (JString (string_buffer st)) st) (\<lambda>st. Inr (count_value st)))))"
    proof (rule ends_obind[OF parse_quoted_ends[OF assms]])
      fix s
      assume a: "adv 0 st s"
      then have "0 < buffer_capacity s" using assms by (simp add: adv_capacity)
      from ends_from[OF a name[OF this]] ends_from[OF a val]
      show "ends 0 st (\<lambda>s. s) (if item_is_object i \<and> name_count i = value_count i then
          obind (Some (on_handler (d_set_name (string_buffer s)) s)) (\<lambda>st.
          obind (after_name st) (\<lambda>st. Some (Inr (count_name st))))
        else Some (bnd (emit (JString (string_buffer s)) s) (\<lambda>st. Inr (count_value st))))"
        by simp
    qed
    then show ?thesis unfolding read_quoted_def by (intro ends_if ends_simps(2))
  qed
qed

lemma close_structure_adv: "close_structure b i st = Inr (d, st') \<Longrightarrow> adv 0 st st'"
  by (auto simp: close_structure_def fatal_error_def bnd_eq_Inr Let_def split: if_splits
      dest!: on_handler_adv intro!: adv_rules)

lemma read_literal_adv: "read_literal cs v st = Inr st' \<Longrightarrow> adv 0 st st'"
proof -
  assume "read_literal cs v st = Inr st'"
  then obtain s where s: "emit v (skip_col (length cs) st) = Inr s" "st' = count_value s"
    by (auto simp: read_literal_def fatal_error_def bnd_eq_Inr split: if_splits)
  have "adv 0 st (skip_col (length cs) st)" by (intro adv_rules)
  from adv_trans0[OF this emit_adv[OF s(1)]] show ?thesis unfolding s(2) by (intro adv_rules)
qed

lemma ends_done: "ends 0 st (\<lambda>s. s) r \<Longrightarrow> ends 0 st snd (obind r (\<lambda>st. Some (Inr (b, st))))"
  by (rule ends_pair) simp_all

lemma read_value_char_ends:
  assumes "0 < buffer_capacity st"
  shows "ends 0 st snd (read_value_char io c i st)"
proof -
  have close: "ends 0 st snd (Some (close_structure b i st))" for b
    using close_structure_adv[of b i st] by (cases "close_structure b i st") auto
  have lit: "ends 0 st snd (obind (Some (read_literal cs v st)) (\<lambda>st. Some (Inr (False, st))))" for cs v
    using read_literal_adv[of cs v st] by (cases "read_literal cs v st") auto
  have num: "ends 0 st snd (obind (parse_number io c st) (\<lambda>st. Some (Inr (False, count_value st))))"
    by (rule ends_pair[OF _ parse_number_ends[OF assms]]) (intro adv_rules)
  have quo: "ends 0 st snd (obind (read_quoted i st) (\<lambda>st. Some (Inr (False, st))))"
    by (rule ends_done[OF read_quoted_ends[OF assms]])
  have com: "ends 0 st snd (Some (if value_count i = 0 then fatal_error ''Unexpected comma''
      else Inr (False, st\<lparr>rd_stack := update_back (\<lambda>i. i\<lparr>comma := True\<rparr>) (rd_stack st)\<rparr>)))"
    by (auto intro!: adv_rules)
  show ?thesis unfolding read_value_char_def
    by (intro ends_if com quo close lit num ends_simps(2))
qed

lemma skip_blanks_adv: "skip_blanks st = Inr st' \<Longrightarrow> adv 0 st st'"
  by (auto simp: skip_blanks_def bnd_eq_Inr Let_def intro!: adv_rules)

lemma read_body_ends:
  assumes "0 < buffer_capacity st"
  shows "ends (Suc 0) st snd (read_body io st)"
  unfolding read_body_def
proof (rule ends_next_char)
  fix c s
  assume "next_char st = Inr (c, s)"
  then have cap: "0 < buffer_capacity s" using assms next_char_adv adv_capacity by fastforce
  have cr: "ends 0 s snd (Some (bnd (skip_lf (new_line s)) (\<lambda>st. Inr (False, st))))"
  proof (rule ends_bnd)
    fix y
    assume "skip_lf (new_line s) = Inr y"
    moreover have "adv 0 s (new_line s)" by (intro adv_rules)
    ultimately have "adv 0 s y" using skip_lf_adv adv_trans0 by blast
    then show "ends 0 s snd (Some (Inr (False, y)))" by simp
  qed
  have blank: "ends 0 s snd (Some (bnd (skip_blanks s) (\<lambda>st. Inr (False, st))))"
    by (rule ends_bnd) (auto dest: skip_blanks_adv)
  have com: "ends 0 s snd (obind (maybe_comment 1 s) (\<lambda>st. Some (Inr (False, st))))"
    by (rule ends_done[OF maybe_comment_ends[OF cap]])
  have nl: "ends 0 s snd (Some (Inr (False, new_line s)))"
    and op: "ends 0 s snd (Some (Inr (False, open_item b s)))" for b
    by (auto intro!: adv_rules)
  have stk: "ends 0 s snd (case rd_stack s of [] \<Rightarrow> Some (Inr (False, s)) | i # _ \<Rightarrow> read_value_char io c i s)"
    using read_value_char_ends[OF cap] by (cases "rd_stack s") simp_all
  show "ends 0 s snd (case (c, s) of (c, st) \<Rightarrow>
     if c = CR then
       Some (bnd (skip_lf (new_line st)) (\<lambda>st. Inr (False, st)))
     else if c = LF then Some (Inr (False, new_line st))
     else if is_blank c then Some (bnd (skip_blanks st) (\<lambda>st. Inr (False, st)))
     else if c = CHR ''/'' then obind (maybe_comment 1 st) (\<lambda>st. Some (Inr (False, st)))
     else if c = CHR ''{'' then Some (Inr (False, open_item True st))
     else if c = CHR ''['' then Some (Inr (False, open_item False st))
     else case rd_stack st of
       [] \<Rightarrow> Some (Inr (False, st))
     | i # _ \<Rightarrow> read_value_char io c i st)"
    unfolding prod.case
    by (intro ends_if cr nl blank com op stk)
qed

section \<open>The parser\<close>

lemma obind_not_None: "r \<noteq> None \<Longrightarrow> (\<And>x. f x \<noteq> None) \<Longrightarrow> obind r f \<noteq> None"
  by (cases r rule: option.exhaust; cases "the r") auto

lemma parse_string_ends: "parse_string io s \<noteq> None"
proof -
  have "reader_read io (new_reader s new_deserializer) \<noteq> None"
  proof -
    define st where "st = new_reader s new_deserializer\<lparr>buffer := take (default_max_buffer_length + 2 * read_ahead_length)
        ([] @ replicate (default_max_buffer_length + 2 * read_ahead_length) CHR 0x00),
        buffer_position := 0, buffer_length := 0, hard_buffer_length := 0,
        bof := True, eof := False, rd_line := 1, rd_column := 0\<rparr>"
    have cap: "0 < buffer_capacity st" "buffer_length st \<le> buffer_position st"
      by (simp_all add: st_def new_reader_def default_max_buffer_length_def)
    have "read_loop io st1 \<noteq> None" if "read_some st = Inr st1" for st1
      using read_some_progress[OF that cap(2,1)] cap(1) read_body_ends by (intro read_loop_ends) simp_all
    then have "obind (Some (read_some st)) (read_loop io) \<noteq> None" by (cases "read_some st") simp_all
    then show ?thesis by (simp add: reader_read_def st_def new_reader_def Let_def)
  qed
  then show ?thesis unfolding parse_string_def by (rule obind_not_None) simp
qed

end
