(* ===== verification/JsonSafe.thy ===== *)
theory JsonSafe
  imports JsonTotal
begin

text \<open>
  The JSON reader on any input: no access outside the buffer, no failed assertion, no access to
  an empty stack.  It ends with a value or throws \<open>json_parse_exception\<close>.
\<close>

section \<open>The invariant\<close>

text \<open>
  While more input follows, the block ends with twelve characters read ahead; the last block is
  followed by twelve zeros.  So the reader may look a little past \<open>buffer_length\<close>, and never
  takes a character that is not there.
\<close>

definition block_ok :: "reader \<Rightarrow> bool" where
  "block_ok st \<longleftrightarrow> buffer_capacity st = default_max_buffer_length \<and>
     length (buffer st) = default_max_buffer_length + 24 \<and>
     hard_buffer_length st \<le> default_max_buffer_length + 12 \<and>
     (hard_buffer_length st = buffer_length st + 12 \<or>
      hard_buffer_length st = buffer_length st \<and> (\<forall>k < 12. buffer st ! (buffer_length st + k) = CHR 0x00)) \<and>
     (bof st \<longrightarrow> buffer_length st = 0 \<and> hard_buffer_length st = 0 \<and>
        buffer st = replicate (default_max_buffer_length + 24) CHR 0x00)"

definition pos_ok :: "nat \<Rightarrow> reader \<Rightarrow> bool" where
  "pos_ok n st \<longleftrightarrow> buffer_position st \<le> hard_buffer_length st \<and> buffer_position st \<le> buffer_length st + n"

definition rinv :: "nat \<Rightarrow> stack_item list \<Rightarrow> reader \<Rightarrow> bool" where
  "rinv n stk st \<longleftrightarrow> block_ok st \<and> pos_ok n st \<and> rd_stack st = stk \<and>
     map d_is_object (d_stack (handler st)) = map item_is_object stk"

text \<open>A result that is a value with a property, or a parse exception.\<close>

definition fine :: "('a \<Rightarrow> bool) \<Rightarrow> 'a result \<Rightarrow> bool" where
  "fine Q r = (case r of Inl e \<Rightarrow> (\<exists>m. e = JsonParseException m) | Inr x \<Rightarrow> Q x)"

definition ofine :: "('a \<Rightarrow> bool) \<Rightarrow> 'a result option \<Rightarrow> bool" where
  "ofine Q r = (case r of None \<Rightarrow> True | Some r \<Rightarrow> fine Q r)"

lemma fine_simps [simp]:
  "fine Q (Inr x) = Q x" "fine Q (fatal_error m)" "fine Q (Inl e) = (\<exists>m. e = JsonParseException m)"
  "fine P (bnd r f) = fine (\<lambda>x. fine P (f x)) r"
  by (simp_all add: fine_def fatal_error_def) (cases r; simp)

lemma ofine_simps [simp]:
  "ofine Q None" "ofine Q (Some r) = fine Q r" "ofine Q (obind o1 f) = ofine (\<lambda>x. ofine Q (f x)) o1"
  by (simp_all add: ofine_def) (cases o1 rule: option.exhaust; cases "the o1"; simp add: ofine_def fine_def)

lemma fine_mono: "fine Q r \<Longrightarrow> (\<And>x. Q x \<Longrightarrow> Q' x) \<Longrightarrow> fine Q' r"
  by (cases r) (auto simp: fine_def)

lemma ofine_mono: "ofine Q r \<Longrightarrow> (\<And>x. Q x \<Longrightarrow> Q' x) \<Longrightarrow> ofine Q' r"
  by (cases r) (auto intro: fine_mono)

lemma rinv_mono: "rinv m stk st \<Longrightarrow> m \<le> n \<Longrightarrow> rinv n stk st"
  by (auto simp: rinv_def pos_ok_def)

text \<open>Operations that do not touch the buffer.\<close>

lemma rinv_ops [simp]:
  "rinv n stk (new_line st) = rinv n stk st"
  "rinv n stk (push_char c st) = rinv n stk st"
  "rinv n stk (st\<lparr>string_buffer := s\<rparr>) = rinv n stk st"
  by (simp_all add: rinv_def block_ok_def pos_ok_def new_line_def push_char_def)

text \<open>Looking at the buffer near the position.\<close>

lemma peek_fine:
  assumes "rinv n stk st" "n + k < 12"
  shows "peek k st = Inr (buffer st ! (buffer_position st + k))"
proof -
  have "buffer_position st + k < length (buffer st)"
    using assms by (auto simp: rinv_def block_ok_def pos_ok_def)
  then show ?thesis by (simp add: peek_def del: of_nat_add)
qed

text \<open>A character that is not the end mark can be taken.\<close>

lemma rinv_skip:
  assumes "rinv n stk st" "n + m < 12"
    and "\<And>j. j < m \<Longrightarrow> buffer st ! (buffer_position st + j) \<noteq> CHR 0x00"
  shows "rinv (n + m) stk (skip_chars m st)" "rinv (n + m) stk (skip_col m st)"
proof -
  have "buffer_position st + m \<le> hard_buffer_length st"
  proof (rule ccontr)
    assume n: "\<not> buffer_position st + m \<le> hard_buffer_length st"
    have b: "block_ok st" "buffer_position st \<le> hard_buffer_length st"
      "buffer_position st \<le> buffer_length st + n" using assms(1) by (auto simp: rinv_def pos_ok_def)
    with n have h: "hard_buffer_length st = buffer_length st"
      "\<forall>k < 12. buffer st ! (buffer_length st + k) = CHR 0x00"
      using assms(2) by (auto simp: block_ok_def)
    let ?j = "buffer_length st - buffer_position st"
    have "?j < m" using h(1) b(2) n by simp
    then have "buffer st ! (buffer_position st + ?j) \<noteq> CHR 0x00" by (rule assms(3))
    moreover have "buffer st ! (buffer_length st + 0) = CHR 0x00" using h(2) by (metis zero_less_numeral)
    ultimately show False using h(1) b(2) by simp
  qed
  then show "rinv (n + m) stk (skip_chars m st)" "rinv (n + m) stk (skip_col m st)"
    using assms(1) by (simp_all add: rinv_def pos_ok_def block_ok_def skip_chars_def skip_col_def)
qed

lemma rinv_skip1:
  assumes "rinv n stk st" "n < 11" "buffer st ! buffer_position st \<noteq> CHR 0x00"
  shows "rinv (Suc n) stk (skip_chars (Suc 0) st)" "rinv (Suc n) stk (skip_col (Suc 0) st)"
  using rinv_skip[of n stk st "Suc 0"] assms by auto

lemma next_char_fine:
  assumes "rinv n stk st" "buffer_position st < buffer_length st"
    and "\<And>c st'. rinv 0 stk st' \<Longrightarrow> Q (c, st')"
  shows "fine Q (next_char st)"
proof -
  have "rinv 0 stk st" using assms(1,2) by (auto simp: rinv_def pos_ok_def)
  then have p: "peek 0 st = Inr (buffer st ! (buffer_position st + 0))" by (rule peek_fine) simp
  have "rinv 0 stk (skip_col 1 st)"
    using assms(1,2) by (auto simp: rinv_def pos_ok_def block_ok_def skip_col_def)
  then show ?thesis using assms(3) p by (simp add: next_char_def)
qed

lemma skip_lf_fine: "rinv 0 stk st \<Longrightarrow> fine (rinv (Suc 0) stk) (skip_lf st)"
  using rinv_skip1(1)[of 0 stk st]
  by (auto simp: skip_lf_def peek_fine[of 0 stk st 0] intro: rinv_mono)

section \<open>Reading a block\<close>

lemma length_overwrite: "i + length ys \<le> length xs \<Longrightarrow> length (overwrite xs i ys) = length xs"
  by (simp add: overwrite_def)

lemma overwrite_nth:
  "i + length ys \<le> length xs \<Longrightarrow> j < length xs \<Longrightarrow>
     overwrite xs i ys ! j = (if i \<le> j \<and> j < i + length ys then ys ! (j - i) else xs ! j)"
  by (auto simp: overwrite_def nth_append)

lemma read_some_fine:
  assumes "rinv 11 stk st" "buffer_length st \<le> buffer_position st"
  shows "fine (\<lambda>st'. rd_stack st' = stk \<and> (eof st' \<or> rinv 11 stk st')) (read_some st)"
proof -
  have i: "block_ok st" "buffer_position st \<le> hard_buffer_length st" "buffer_position st \<le> buffer_length st + 11"
    "rd_stack st = stk" "map d_is_object (d_stack (handler st)) = map item_is_object stk"
    using assms(1) by (simp_all add: rinv_def pos_ok_def)
  have cap: "buffer_capacity st = 16384" "length (buffer st) = 16408"
    using i(1) by (simp_all add: block_ok_def default_max_buffer_length_def)
  consider "input_eof st" | "\<not> input_eof st" "bof st" | "\<not> input_eof st" "\<not> bof st" by blast
  then show ?thesis
  proof cases
    case 1
    then show ?thesis using assms(2) i by (auto simp: read_some_def read_ahead_length_def Let_def)
  next
    case 2
    then have z: "buffer st = replicate 16408 CHR 0x00"
      using i(1) by (simp add: block_ok_def default_max_buffer_length_def)
    let ?got = "take 16384 (input st)"
    have l: "length (overwrite (buffer st) 0 ?got) = 16408" using cap by (simp add: length_overwrite)
    have "overwrite (buffer st) 0 ?got ! (length ?got + k) = CHR 0x00" if "k < 12" for k
      using that cap by (subst overwrite_nth) (auto simp: z)
    then show ?thesis using 2 assms(2) i cap l
      by (auto simp: read_some_def stream_read_def read_ahead_length_def Let_def rinv_def block_ok_def pos_ok_def
          default_max_buffer_length_def min_def)
  next
    case 3
    let ?extra = "buffer_position st - buffer_length st"
    let ?unread = "12 - ?extra" and ?real = "buffer_length st + ?extra"
    let ?b1 = "overwrite (buffer st) 0 (take ?unread (drop ?real (buffer st)))"
    let ?got = "take 16384 (input st)"
    let ?b2 = "overwrite ?b1 ?unread ?got"
    let ?b3 = "overwrite ?b2 (length ?got + ?unread) (replicate 12 CHR 0x00)"
    have e: "?extra \<le> 11" using i(3) by simp
    have l1: "length ?b1 = 16408" using cap by (simp add: length_overwrite)
    have l2: "length ?b2 = 16408" using l1 by (simp add: length_overwrite)
    have l3: "length ?b3 = 16408" using l2 by (simp add: length_overwrite)
    have z: "?b3 ! (length ?got + ?unread + k) = CHR 0x00" if "k < 12" for k
      using that l2 by (subst overwrite_nth) auto
    show ?thesis
    proof (cases "length (input st) < 16384")
      case True
      then show ?thesis using 3 assms(2) i cap e l3 z
        by (simp add: read_some_def stream_read_def read_ahead_length_def Let_def rinv_def block_ok_def pos_ok_def
            default_max_buffer_length_def) linarith
    next
      case False
      then show ?thesis using 3 assms(2) i cap e l2
        by (simp add: read_some_def stream_read_def read_ahead_length_def Let_def rinv_def block_ok_def pos_ok_def
            default_max_buffer_length_def) linarith
    qed
  qed
qed

lemma refill_fine:
  assumes "rinv 11 stk st" "buffer_length st \<le> buffer_position st"
  shows "fine (rinv 11 stk) (refill st)"
  by (simp add: refill_def) (rule fine_mono[OF read_some_fine[OF assms]], auto)

section \<open>Loops\<close>

definition body_fine :: "stack_item list \<Rightarrow> (reader \<Rightarrow> bool) \<Rightarrow> (reader \<Rightarrow> (bool \<times> reader) result option) \<Rightarrow> bool" where
  "body_fine stk Q body \<longleftrightarrow> (\<forall>st. rinv 11 stk st \<longrightarrow> buffer_position st < buffer_length st \<longrightarrow>
     ofine (\<lambda>(d, st'). if d then Q st' else rinv 11 stk st') (body st))"

lemma scan_loop_fine:
  assumes "body_fine stk Q body" "rinv 11 stk st"
  shows "ofine Q (scan_loop body st)"
proof (cases "scan_loop body st")
  case (Some r)
  have "body_fine stk Q body \<longrightarrow> rinv 11 stk st \<longrightarrow> fine Q r"
  proof (rule scan_loop.raw_induct[OF _ Some])
    fix loop body st r
    assume IH: "\<And>body st r. loop body st = Some r \<Longrightarrow> body_fine stk Q body \<longrightarrow> rinv 11 stk st \<longrightarrow> fine Q r"
      and eq: "(if buffer_position st < buffer_length st then
          (case body st of None \<Rightarrow> None | Some (Inl e) \<Rightarrow> Some (Inl e)
           | Some (Inr (done, st')) \<Rightarrow> if done then Some (Inr st') else loop body st')
        else (case refill st of Inl e \<Rightarrow> Some (Inl e) | Inr st' \<Rightarrow> loop body st')) = Some r"
    show "body_fine stk Q body \<longrightarrow> rinv 11 stk st \<longrightarrow> fine Q r"
    proof (intro impI)
      assume b: "body_fine stk Q body" and i: "rinv 11 stk st"
      show "fine Q r"
      proof (cases "buffer_position st < buffer_length st")
        case True
        then have "ofine (\<lambda>(d, st'). if d then Q st' else rinv 11 stk st') (body st)"
          using b i by (simp add: body_fine_def)
        then show ?thesis using eq True IH b by (auto split: option.splits sum.splits if_splits)
      next
        case False
        then show ?thesis using eq refill_fine[OF i] IH b by (cases "refill st") auto
      qed
    qed
  qed
  then show ?thesis using Some assms by simp
qed simp

section \<open>Events\<close>

lemma emit_fine:
  assumes "rinv n stk st" "stk \<noteq> []"
  shows "fine (rinv n stk) (emit v st)"
proof -
  obtain i js where "d_stack (handler st) = i # js" using assms by (cases "d_stack (handler st)") (auto simp: rinv_def)
  then show ?thesis using assms
    by (auto simp: emit_def on_handler_def d_value_def rinv_def block_ok_def pos_ok_def)
qed

lemma set_name_fine:
  assumes "rinv n stk st" "stk \<noteq> []"
  shows "fine (rinv n stk) (on_handler (d_set_name s) st)"
proof -
  obtain i js where "d_stack (handler st) = i # js" using assms by (cases "d_stack (handler st)") (auto simp: rinv_def)
  then show ?thesis using assms
    by (auto simp: on_handler_def d_set_name_def rinv_def block_ok_def pos_ok_def)
qed

lemma rinv_update_back:
  assumes "rinv n stk st" "\<And>i. item_is_object (f i) = item_is_object i"
  shows "rinv n (update_back f stk) (st\<lparr>rd_stack := update_back f (rd_stack st)\<rparr>)"
  using assms by (cases stk) (auto simp: rinv_def block_ok_def pos_ok_def)

text \<open>Some stack goes with the state.\<close>

definition run_ok :: "reader \<Rightarrow> bool" where
  "run_ok st \<longleftrightarrow> (\<exists>stk. rinv 11 stk st)"

lemma run_okI: "rinv n stk st \<Longrightarrow> n \<le> 11 \<Longrightarrow> run_ok st"
  by (auto simp: run_ok_def intro: rinv_mono)

lemma run_ok_count: "rinv n stk st \<Longrightarrow> n \<le> 11 \<Longrightarrow> run_ok (count_value st)" "rinv n stk st \<Longrightarrow> n \<le> 11 \<Longrightarrow> run_ok (count_name st)"
  unfolding count_value_def count_name_def by (rule run_okI[OF rinv_update_back]; simp)+

lemma rinv_open: "rinv n stk st \<Longrightarrow> rinv n (new_stack_item b # stk) (open_item b st)"
  by (simp add: rinv_def open_item_def block_ok_def pos_ok_def d_begin_object_def d_begin_array_def d_push_def
      new_stack_item_def)

lemma close_fine:
  assumes "rinv n (i # stk) st" "n \<le> 11"
  shows "fine (\<lambda>(d, st'). d \<or> run_ok st') (close_structure b i st)"
proof -
  obtain h hs where h: "d_stack (handler st) = h # hs" "d_is_object h = item_is_object i"
    "map d_is_object hs = map item_is_object stk"
    using assms(1) by (cases "d_stack (handler st)") (auto simp: rinv_def)
  have cl: "fine (\<lambda>s. rd_stack s = i # stk \<and> rinv n stk (s\<lparr>rd_stack := stk\<rparr>))
      (on_handler (d_close v) st)" for v
    using assms(1) h
    by (cases hs) (auto simp: on_handler_def d_close_def d_value_def rinv_def block_ok_def pos_ok_def Let_def)
  have "on_handler (if b then d_end_object else d_end_array) st =
      on_handler (d_close (if b then JObject (sort_members (d_object h)) else JArray (d_array h))) st"
    using h by (simp add: on_handler_def d_end_object_def d_end_array_def)
  then have e: "fine (\<lambda>s. rd_stack s = i # stk \<and> rinv n stk (s\<lparr>rd_stack := stk\<rparr>))
      (on_handler (if b then d_end_object else d_end_array) st)" using cl by simp
  have "fine (\<lambda>st. fine (\<lambda>(d, st'). d \<or> run_ok st')
      (let st = st\<lparr>rd_stack := tl (rd_stack st)\<rparr>
       in if rd_stack st \<noteq> [] then Inr (False, count_value st) else Inr (True, st)))
      (on_handler (if b then d_end_object else d_end_array) st)"
    by (rule fine_mono[OF e]) (use assms(2) in \<open>auto simp: Let_def run_ok_count\<close>)
  then show ?thesis unfolding close_structure_def by (simp add: Let_def)
qed

section \<open>The loop bodies\<close>

lemma rinv_up: "rinv 0 stk st \<Longrightarrow> rinv 11 stk st" "rinv (Suc 0) stk st \<Longrightarrow> rinv 11 stk st"
  by (auto elim: rinv_mono)

lemma skip_lf_up: "rinv 0 stk st \<Longrightarrow> fine (rinv 11 stk) (skip_lf st)"
  by (rule fine_mono[OF skip_lf_fine]) (auto intro: rinv_up)

lemma skip_up:
  assumes "rinv 0 stk s" "buffer s ! buffer_position s = c" "c \<noteq> CHR 0x00"
  shows "rinv 11 stk (skip_col (Suc 0) s)" "rinv 11 stk (skip_chars (Suc 0) s)"
  using rinv_skip1[OF assms(1)] assms(2,3) by (auto intro: rinv_up)

lemma body_fineI:
  assumes "\<And>c s. rinv 0 stk s \<Longrightarrow> ofine (\<lambda>(d, st'). if d then Q st' else rinv 11 stk st') (f (c, s))"
  shows "body_fine stk Q (\<lambda>st. obind (Some (next_char st)) f)"
  unfolding body_fine_def ofine_simps
proof (intro allI impI)
  fix st
  assume "rinv 11 stk st" "buffer_position st < buffer_length st"
  then show "fine (\<lambda>x. ofine (\<lambda>(d, st'). if d then Q st' else rinv 11 stk st') (f x)) (next_char st)"
    by (rule next_char_fine) (rule assms)
qed

lemma body_fineI':
  assumes "\<And>c s. rinv 0 stk s \<Longrightarrow> fine (\<lambda>(d, st'). if d then Q st' else rinv 11 stk st') (f (c, s))"
  shows "body_fine stk Q (\<lambda>st. Some (bnd (next_char st) f))"
  using body_fineI[of stk Q "\<lambda>x. Some (f x)"] assms by (simp add: body_fine_def)

lemma single_line_fine: "body_fine stk (rinv 11 stk) single_line_body"
proof -
  have "body_fine stk (rinv 11 stk) (\<lambda>st. single_line_body st)"
    unfolding single_line_body_def
    by (rule body_fineI') (auto intro: rinv_up skip_lf_up)
  then show ?thesis by simp
qed

lemma multi_line_fine: "body_fine stk (rinv 11 stk) multi_line_body"
proof -
  have "body_fine stk (rinv 11 stk) (\<lambda>st. multi_line_body st)"
    unfolding multi_line_body_def
    by (rule body_fineI') (auto simp: peek_fine intro: rinv_up skip_lf_up skip_up)
  then show ?thesis by simp
qed

lemma maybe_comment_fine:
  assumes "rinv 0 stk st" "n \<le> 1"
  shows "ofine (rinv 11 stk) (maybe_comment n st)"
proof -
  have "rinv 11 stk (skip_chars n st)" if "buffer st ! buffer_position st = c" "c \<noteq> CHR 0x00" for c
    using that assms skip_up(2)[OF assms(1) that] rinv_up(1)[OF assms(1)]
    by (cases n) (auto simp: skip_chars_def)
  then show ?thesis
    using assms scan_loop_fine[OF single_line_fine] scan_loop_fine[OF multi_line_fine]
    by (auto simp: maybe_comment_def ignore_single_line_comment_def ignore_multi_line_comment_def
        peek_fine[OF assms(1)] intro: rinv_up)
qed

lemma separator_fine: "body_fine stk (rinv 11 stk) separator_body"
proof -
  have "body_fine stk (rinv 11 stk) (\<lambda>st. separator_body st)"
    unfolding separator_body_def
    by (rule body_fineI) (auto intro: rinv_up skip_lf_up maybe_comment_fine)
  then show ?thesis by simp
qed

lemma number_value_fine: "fine (\<lambda>v. True) (number_value io frac neg s)"
  by (auto simp: number_value_def split: option.split)

lemma number_loop_fine:
  assumes "rinv 11 stk st" "stk \<noteq> []"
  shows "ofine (rinv 0 stk) (number_loop io neg frac st)"
proof (cases "number_loop io neg frac st")
  case (Some r)
  have "rinv 11 stk st \<longrightarrow> fine (rinv 0 stk) r"
  proof (rule number_loop.raw_induct[OF _ Some])
    fix loop and io :: stdio and neg frac st r
    assume IH: "\<And>io neg frac st r. loop io neg frac st = Some r \<Longrightarrow> rinv 11 stk st \<longrightarrow> fine (rinv 0 stk) r"
      and eq: "(if buffer_position st < buffer_length st then
          (case next_char st of Inl e \<Rightarrow> Some (Inl e)
           | Inr (c, st') \<Rightarrow>
               if is_digit c then loop io neg frac (push_char c st')
               else if c \<in> set ''-+.eE'' then loop io neg True (push_char c st')
               else Some (bnd (number_value io frac neg (string_buffer st'))
                 (\<lambda>v. emit v (st'\<lparr>buffer_position := buffer_position st' - 1\<rparr>))))
        else (case refill st of Inl e \<Rightarrow> Some (Inl e) | Inr st' \<Rightarrow> loop io neg frac st')) = Some r"
    show "rinv 11 stk st \<longrightarrow> fine (rinv 0 stk) r"
    proof
      assume i: "rinv 11 stk st"
      show "fine (rinv 0 stk) r"
      proof (cases "buffer_position st < buffer_length st")
        case True
        have n: "fine (\<lambda>(c, s). rinv 0 stk s) (next_char st)" by (rule next_char_fine[OF i True]) simp
        show ?thesis
        proof (cases "next_char st")
          case (Inl e)
          then show ?thesis using n eq True by auto
        next
          case (Inr x)
          obtain c s where x: "x = (c, s)" by (cases x)
          then have s: "rinv 0 stk s" using n Inr by simp
          then have p: "rinv 11 stk (push_char c s)" by (simp add: rinv_up)
          have "rinv 0 stk (s\<lparr>buffer_position := buffer_position s - 1\<rparr>)"
            using s by (auto simp: rinv_def pos_ok_def block_ok_def)
          then have "fine (rinv 0 stk) (bnd (number_value io frac neg (string_buffer s))
              (\<lambda>v. emit v (s\<lparr>buffer_position := buffer_position s - 1\<rparr>)))"
            using assms(2) by (auto intro!: fine_mono[OF number_value_fine] emit_fine)
          then show ?thesis using eq True Inr x IH p by (auto split: if_splits)
        qed
      next
        case False
        then show ?thesis using eq refill_fine[OF i] IH by (cases "refill st") auto
      qed
    qed
  qed
  then show ?thesis using Some assms by simp
qed simp

lemma parse_number_fine:
  "rinv 0 stk st \<Longrightarrow> stk \<noteq> [] \<Longrightarrow> ofine (rinv 0 stk) (parse_number io c st)"
  unfolding parse_number_def by (rule number_loop_fine) (simp_all add: rinv_up)

text \<open>Escapes: after the checks of \<open>hard_buffer_length\<close> the characters are in the block.\<close>

lemma hex_digits_fine:
  assumes "rinv k stk st" "k + n < 12" "buffer_position st + n \<le> hard_buffer_length st"
  shows "fine (\<lambda>(cp, s). rinv (k + n) stk s) (hex_digits n cp st)"
  using assms
proof (induction n arbitrary: cp k st)
  case (Suc n)
  have "rinv (Suc k) stk (skip_col (Suc 0) st)" "hard_buffer_length (skip_col (Suc 0) st) = hard_buffer_length st"
    "buffer_position (skip_col (Suc 0) st) = Suc (buffer_position st)"
    using Suc.prems by (auto simp: rinv_def pos_ok_def block_ok_def skip_col_def)
  then show ?case
    using Suc.IH[of "Suc k" "skip_col (Suc 0) st"] Suc.prems
    by (auto simp: next_char_def peek_fine[OF Suc.prems(1)] split: option.split)
qed simp

lemma decode_escape_fine:
  assumes "rinv k stk st" "k + 4 < 12"
  shows "fine (\<lambda>(cp, s). rinv (k + 4) stk s) (decode_unicode_escape_sequence st)"
proof (cases "hard_left_less 4 st")
  case False
  then have "buffer_position st + 4 \<le> hard_buffer_length st"
    using assms(1) by (auto simp: hard_left_less_def rinv_def pos_ok_def)
  then show ?thesis using hex_digits_fine[OF assms] False by (simp add: decode_unicode_escape_sequence_def)
qed (simp add: decode_unicode_escape_sequence_def)

lemma decode_codepoint_fine:
  assumes "rinv (Suc 0) stk st"
  shows "fine (\<lambda>(cp, s). rinv 11 stk s) (decode_unicode_codepoint st)"
proof -
  have second: "fine (\<lambda>(cp, s). rinv 11 stk s) (if hard_left_less 2 s then fatal_error ''Unexpected EOF''
     else if 0xD800 \<le> cp \<and> cp \<le> 0xDBFF then
       bnd (peek 0 s) (\<lambda>c0. bnd (peek 1 s) (\<lambda>c1.
         if c0 = CHR 0x5C \<and> c1 = CHR ''u'' then
           bnd (decode_unicode_escape_sequence (skip_col 2 s)) (\<lambda>(sp, s).
             Inr (0x10000 + (cp mod 0x400) * 2^10 + sp mod 0x400, s))
         else fatal_error ''expecting another token to begin the second half of a surrogate pair''))
     else Inr (cp, s))" if s: "rinv 5 stk s" for s cp
  proof (cases "hard_left_less 2 s")
    case False
    then have "rinv 7 stk (skip_col 2 s)"
      using s by (auto simp: hard_left_less_def rinv_def pos_ok_def block_ok_def skip_col_def)
    from decode_escape_fine[OF this]
    have "fine (\<lambda>(cp, s). rinv 11 stk s) (decode_unicode_escape_sequence (skip_col 2 s))" by simp
    then have "fine (\<lambda>x. fine (\<lambda>(cp, s). rinv 11 stk s) (case x of (sp, s) \<Rightarrow> Inr (m sp, s)))
        (decode_unicode_escape_sequence (skip_col 2 s))" for m :: "nat \<Rightarrow> nat"
      by (rule fine_mono) auto
    then show ?thesis using False peek_fine[OF s] s by (auto elim: rinv_mono)
  qed simp
  have "fine (\<lambda>(cp, s). rinv 5 stk s) (decode_unicode_escape_sequence st)"
    using decode_escape_fine[OF assms] by simp
  then show ?thesis
    unfolding decode_unicode_codepoint_def fine_simps by (rule fine_mono) (use second in auto)
qed

lemma escape_fine:
  assumes "rinv 0 stk st"
  shows "fine (rinv 11 stk) (escape_body st)"
proof -
  let ?c = "buffer st ! buffer_position st"
  have p: "peek 0 st = Inr ?c" using peek_fine[OF assms, of 0] by simp
  show ?thesis
  proof (cases "simple_escape ?c")
    case (Some d)
    then have "?c \<noteq> CHR 0x00" by (auto simp: simple_escape_def)
    then show ?thesis using Some p skip_up(2)[OF assms] by (simp add: escape_body_def)
  next
    case None
    have "rinv (Suc 0) stk (skip_chars (Suc 0) st)" if "?c = CHR ''u''"
      using rinv_skip1(1)[OF assms] that by simp
    then have "fine (\<lambda>(cp, s). rinv 11 stk s) (decode_unicode_codepoint (skip_chars (Suc 0) st))" if "?c = CHR ''u''"
      using that decode_codepoint_fine by blast
    then show ?thesis using None p
      by (auto simp: escape_body_def elim!: fine_mono)
  qed
qed

lemma string_fine: "body_fine stk (rinv 0 stk) string_body"
proof -
  have "body_fine stk (rinv 0 stk) (\<lambda>st. string_body st)"
    unfolding string_body_def
    by (rule body_fineI') (auto intro: rinv_up escape_fine)
  then show ?thesis by simp
qed

lemma parse_quoted_fine: "rinv 0 stk st \<Longrightarrow> ofine (rinv 0 stk) (parse_quoted st)"
  unfolding parse_quoted_def by (rule scan_loop_fine[OF string_fine]) (simp add: rinv_up)

section \<open>The main loop\<close>

lemma after_name_fine:
  assumes "rinv 0 stk st"
  shows "ofine (rinv 11 stk) (after_name st)"
proof -
  let ?c0 = "buffer st ! buffer_position st" and ?c1 = "buffer st ! Suc (buffer_position st)"
  let ?n = "(if ?c0 = CHR '':'' then 1 else 0) + (if ?c0 = CHR '' '' \<and> ?c1 = CHR '':'' then 2 else 0)"
  have "rinv ?n stk (skip_col ?n st)"
  proof (rule rinv_skip(2)[OF assms, of ?n, simplified add_0])
    show "buffer st ! (buffer_position st + j) \<noteq> CHR 0x00" if "j < ?n" for j
      using that by (auto simp: less_2_cases_iff less_Suc_eq split: if_splits)
  qed simp
  then have "rinv 11 stk (skip_col ?n st)" by (rule rinv_mono) simp
  then show ?thesis
    using scan_loop_fine[OF separator_fine, of stk "skip_col ?n st"]
    by (cases "?c0 = CHR '':''"; cases "?c0 = CHR '' '' \<and> ?c1 = CHR '':''")
      (auto simp: after_name_def peek_fine[OF assms] parse_separator_def Let_def)
qed

lemma read_quoted_fine:
  assumes "rinv 0 stk st" "stk \<noteq> []"
  shows "ofine run_ok (read_quoted i st)"
proof -
  have name: "ofine run_ok (obind (Some (on_handler (d_set_name (string_buffer s)) s)) (\<lambda>st.
          obind (after_name st) (\<lambda>st. Some (Inr (count_name st)))))" if s: "rinv 0 stk s" for s
    by (auto intro!: fine_mono[OF set_name_fine[OF s assms(2)]] ofine_mono[OF after_name_fine] run_ok_count(2))
  have val: "fine run_ok (bnd (emit v s) (\<lambda>st. Inr (count_value st)))" if s: "rinv 0 stk s" for s v
    by (auto intro!: fine_mono[OF emit_fine[OF s assms(2)]] run_ok_count(1))
  have "ofine run_ok (obind (parse_quoted st) (\<lambda>st.
        if item_is_object i \<and> name_count i = value_count i then
          obind (Some (on_handler (d_set_name (string_buffer st)) st)) (\<lambda>st.
          obind (after_name st) (\<lambda>st. Some (Inr (count_name st))))
        else Some (bnd (emit (JString (string_buffer st)) st) (\<lambda>st. Inr (count_value st)))))"
    unfolding ofine_simps(3)[of _ "parse_quoted st"]
  proof (rule ofine_mono[OF parse_quoted_fine[OF assms(1)]])
    fix s
    assume "rinv 0 stk s"
    then show "ofine run_ok (if item_is_object i \<and> name_count i = value_count i then
          obind (Some (on_handler (d_set_name (string_buffer s)) s)) (\<lambda>st.
          obind (after_name st) (\<lambda>st. Some (Inr (count_name st))))
        else Some (bnd (emit (JString (string_buffer s)) s) (\<lambda>st. Inr (count_value st))))"
      using name[of s] val[of s] by (simp del: ofine_simps(3) fine_simps(4))
  qed
  then show ?thesis unfolding read_quoted_def
    by (cases "value_count i > 0 \<and> \<not> comma i") (simp_all del: ofine_simps(3))
qed

lemma match_ahead_fine:
  assumes "rinv 0 stk st" "k + length cs < 12"
  shows "\<exists>ok. match_ahead k cs st = Inr ok \<and>
    (ok \<longrightarrow> (\<forall>j < length cs. buffer st ! (buffer_position st + k + j) = cs ! j))"
  using assms(2)
proof (induction cs arbitrary: k)
  case (Cons c cs)
  have p: "peek k st = Inr (buffer st ! (buffer_position st + k))"
    using peek_fine[OF assms(1)] Cons.prems by simp
  obtain ok where ok: "match_ahead (Suc k) cs st = Inr ok"
    "ok \<longrightarrow> (\<forall>j < length cs. buffer st ! (buffer_position st + Suc k + j) = cs ! j)"
    using Cons.IH[of "Suc k"] Cons.prems by auto
  then show ?case using p by (auto simp: less_Suc_eq_0_disj)
qed auto

lemma read_literal_fine:
  assumes "rinv 0 stk st" "stk \<noteq> []" "length cs < 12" "CHR 0x00 \<notin> set cs"
  shows "fine run_ok (read_literal cs v st)"
proof -
  obtain ok where ok: "match_ahead 0 cs st = Inr ok"
    "ok \<longrightarrow> (\<forall>j < length cs. buffer st ! (buffer_position st + j) = cs ! j)"
    using match_ahead_fine[OF assms(1), of 0 cs] assms(3) by auto
  show ?thesis
  proof (cases ok)
    case True
    have "rinv (length cs) stk (skip_col (length cs) st)"
      using rinv_skip(2)[OF assms(1), of "length cs"] assms(3,4) ok(2) True by (auto simp: in_set_conv_nth)
    then have "fine run_ok (bnd (emit v (skip_col (length cs) st)) (\<lambda>st. Inr (count_value st)))"
      using assms(2,3) by (auto intro!: fine_mono[OF emit_fine] run_ok_count(1))
    then show ?thesis using ok(1) True by (simp add: read_literal_def)
  qed (simp add: read_literal_def ok(1))
qed

lemma read_value_char_fine:
  assumes "rinv 0 (i # stk) st"
  shows "ofine (\<lambda>(d, st'). d \<or> run_ok st') (read_value_char io c i st)"
proof -
  have "rinv 0 (update_back (\<lambda>i. i\<lparr>comma := True\<rparr>) (i # stk))
      (st\<lparr>rd_stack := update_back (\<lambda>i. i\<lparr>comma := True\<rparr>) (rd_stack st)\<rparr>)"
    by (rule rinv_update_back[OF assms]) simp
  then have "run_ok (st\<lparr>rd_stack := update_back (\<lambda>i. i\<lparr>comma := True\<rparr>) (rd_stack st)\<rparr>)"
    by (rule run_okI) simp
  moreover have "ofine run_ok (obind (parse_number io c st) (\<lambda>st. Some (Inr (count_value st))))"
    by (auto intro!: ofine_mono[OF parse_number_fine[OF assms]] run_ok_count(1))
  ultimately show ?thesis
    using close_fine[OF assms, of True] close_fine[OF assms, of False] read_quoted_fine[OF assms, of i]
      read_literal_fine[OF assms, of "''rue''" "JBool True"] read_literal_fine[OF assms, of "''alse''" "JBool False"]
      read_literal_fine[OF assms, of "''ull''" JNull]
    unfolding read_value_char_def by simp
qed

lemma skip_blanks_fine: "rinv 0 stk st \<Longrightarrow> fine run_ok (skip_blanks st)"
proof -
  assume i: "rinv 0 stk st"
  let ?c = "\<lambda>k. buffer st ! (buffer_position st + k)"
  have skip: "run_ok (skip_col m st)" if "m \<le> 3" "\<forall>j < m. ?c j = CHR '' ''" for m
    using rinv_skip(2)[OF i, of m] that by (intro run_okI) auto
  have "run_ok (skip_col 0 st)" by (rule skip) simp_all
  moreover have "run_ok (skip_col 1 st)" if "?c 0 = CHR '' ''"
    by (rule skip) (use that in simp_all)
  moreover have "run_ok (skip_col 2 st)" if "?c 0 = CHR '' ''" "?c 1 = CHR '' ''"
    by (rule skip) (use that in \<open>auto simp: less_Suc_eq numeral_2_eq_2\<close>)
  moreover have "run_ok (skip_col 3 st)" if "?c 0 = CHR '' ''" "?c 1 = CHR '' ''" "?c 2 = CHR '' ''"
    by (rule skip) (use that in \<open>auto simp: less_Suc_eq numeral_3_eq_3 numeral_2_eq_2\<close>)
  ultimately show ?thesis
    by (simp add: skip_blanks_def peek_fine[OF i] Let_def numeral_2_eq_2 numeral_3_eq_3)
qed

lemma read_body_fine:
  assumes "rinv 11 stk st" "buffer_position st < buffer_length st"
  shows "ofine (\<lambda>(d, st'). d \<or> run_ok st') (read_body io st)"
  unfolding read_body_def ofine_simps
proof (rule next_char_fine[OF assms])
  fix c s
  assume i: "rinv 0 stk s"
  have lf: "fine (\<lambda>st. run_ok st) (skip_lf (new_line s))"
    by (rule fine_mono[OF skip_lf_up[of stk]]) (use i in \<open>auto intro: run_okI\<close>)
  have com: "ofine run_ok (maybe_comment 1 s)"
    by (rule ofine_mono[OF maybe_comment_fine[OF i]]) (auto intro: run_okI)
  have nl: "run_ok (new_line s)" "run_ok s" by (rule run_okI[of 0 stk]; simp add: i)+
  have op: "run_ok (open_item b s)" for b by (rule run_okI[OF rinv_open[OF i]]) simp
  have stk: "ofine (\<lambda>(d, st'). d \<or> run_ok st')
      (case rd_stack s of [] \<Rightarrow> Some (Inr (False, s)) | j # _ \<Rightarrow> read_value_char io c j s)"
    using i read_value_char_fine[of _ _ s io c] nl(2) by (cases stk) (auto simp: rinv_def)
  show "ofine (\<lambda>(d, st'). d \<or> run_ok st') (case (c, s) of (c, st) \<Rightarrow>
     if c = CR then
       Some (bnd (skip_lf (new_line st)) (\<lambda>st. Inr (False, st)))
     else if c = LF then Some (Inr (False, new_line st))
     else if is_blank c then Some (bnd (skip_blanks st) (\<lambda>st. Inr (False, st)))
     else if c = CHR ''/'' then obind (maybe_comment 1 st) (\<lambda>st. Some (Inr (False, st)))
     else if c = CHR ''{'' then Some (Inr (False, open_item True st))
     else if c = CHR ''['' then Some (Inr (False, open_item False st))
     else case rd_stack st of
       [] \<Rightarrow> Some (Inr (False, st))
     | i # _ \<Rightarrow> read_value_char io c i st)"
    using lf com nl op stk skip_blanks_fine[OF i] by simp
qed

lemma read_loop_fine:
  assumes "run_ok st \<or> eof st"
  shows "ofine (\<lambda>_. True) (read_loop io st)"
proof (cases "read_loop io st")
  case (Some r)
  have "run_ok st \<or> eof st \<longrightarrow> fine (\<lambda>_. True) r"
  proof (rule read_loop.raw_induct[OF _ Some])
    fix loop and io :: stdio and st r
    assume IH: "\<And>io st r. loop io st = Some r \<Longrightarrow> run_ok st \<or> eof st \<longrightarrow> fine (\<lambda>_. True) r"
      and eq: "(if eof st then Some (if rd_stack st \<noteq> [] then fatal_error ''End of file'' else Inr st)
        else if buffer_position st < buffer_length st then
          (case read_body io st of None \<Rightarrow> None | Some (Inl e) \<Rightarrow> Some (Inl e)
           | Some (Inr (done, st')) \<Rightarrow> if done then Some (Inr st') else loop io st')
        else (case read_some st of Inl e \<Rightarrow> Some (Inl e) | Inr st' \<Rightarrow> loop io st')) = Some r"
    show "run_ok st \<or> eof st \<longrightarrow> fine (\<lambda>_. True) r"
    proof
      assume "run_ok st \<or> eof st"
      then consider "eof st" | stk where "\<not> eof st" "rinv 11 stk st" by (auto simp: run_ok_def)
      then show "fine (\<lambda>_. True) r"
      proof cases
        case 1
        then show ?thesis using eq by (cases "rd_stack st = []") auto
      next
        case 2
        show ?thesis
        proof (cases "buffer_position st < buffer_length st")
          case True
          note b = read_body_fine[OF 2(2) True, of io]
          show ?thesis
          proof (cases "read_body io st")
            case None
            then show ?thesis using eq 2(1) True by simp
          next
            case (Some x)
            show ?thesis
            proof (cases x)
              case (Inl e)
              then show ?thesis using eq 2(1) True b Some by auto
            next
              case (Inr y)
              obtain d st' where y: "y = (d, st')" by (cases y)
              have e: "(if d then Some (Inr st') else loop io st') = Some r"
                using eq 2(1) True Some Inr y by simp
              have "d \<or> run_ok st'" using b Some Inr y by simp
              then show ?thesis using e IH[of io st' r] by (cases d) auto
            qed
          qed
        next
          case False
          then have "buffer_length st \<le> buffer_position st" by simp
          from read_some_fine[OF 2(2) this] have "fine (\<lambda>st'. run_ok st' \<or> eof st') (read_some st)"
            by (rule fine_mono) (auto simp: run_ok_def)
          then show ?thesis using eq IH[of io _ r] 2(1) False by (cases "read_some st") auto
        qed
      qed
    qed
  qed
  then show ?thesis using Some assms by simp
qed simp

section \<open>The parser\<close>

lemma parse_string_fine: "ofine (\<lambda>_. True) (parse_string io s)"
proof -
  define st where "st = new_reader s new_deserializer\<lparr>
    buffer := replicate (default_max_buffer_length + 24) CHR 0x00, rd_line := 1\<rparr>"
  have "rinv 11 [] st"
    by (simp add: rinv_def block_ok_def pos_ok_def st_def new_reader_def new_deserializer_def)
  from read_some_fine[OF this] have "fine (\<lambda>st'. run_ok st' \<or> eof st') (read_some st)"
    by (rule fine_mono) (auto simp: run_ok_def st_def new_reader_def)
  then have "ofine (\<lambda>_. True) (obind (Some (read_some st)) (read_loop io))"
    unfolding ofine_simps by (rule fine_mono) (rule read_loop_fine)
  moreover have "reader_read io (new_reader s new_deserializer) = obind (Some (read_some st)) (read_loop io)"
    by (simp add: reader_read_def st_def new_reader_def Let_def read_ahead_length_def)
  ultimately show ?thesis by (simp add: parse_string_def)
qed

end
