(* ===== verification/JsonRound.thy ===== *)
theory JsonRound
  imports JsonReader
begin

text \<open>
  Reading back what was written.  For values without doubles, whose strings hold no backslash
  (the writer does not escape it) and no control character other than the five with an escape
  of their own, the reader turns the text of an object or an array into the value, up to the
  type of a non-negative integer, which is read as unsigned.  The text fits the reader's first
  block.
\<close>

section \<open>The text of a readable value\<close>

definition named_escape :: "char \<Rightarrow> char option" where
  "named_escape c =
     (if c = CHR 0x22 then Some CHR 0x22
      else if c = CHR 0x08 then Some CHR ''b''
      else if c = CHR 0x0C then Some CHR ''f''
      else if c = LF then Some CHR ''n''
      else if c = CR then Some CHR ''r''
      else if c = CHR 0x09 then Some CHR ''t''
      else None)"

definition char_ok :: "char \<Rightarrow> bool" where
  "char_ok c \<longleftrightarrow> c \<noteq> CHR 0x5C \<and> (named_escape c \<noteq> None \<or> \<not> is_control_character (byte c))"

definition char_text :: "char \<Rightarrow> string" where
  "char_text c = (case named_escape c of Some d \<Rightarrow> [CHR 0x5C, d] | None \<Rightarrow> [c])"

definition quote :: "string \<Rightarrow> string" where
  "quote s = CHR 0x22 # concat (map char_text s) @ [CHR 0x22]"

fun separated :: "bool \<Rightarrow> string list \<Rightarrow> string" where
  "separated first [] = []"
| "separated first (t # ts) = (if first then [] else '','') @ t @ separated False ts"

fun plain_text :: "json \<Rightarrow> string" where
  "plain_text (JString s) = quote s"
| "plain_text (JDouble d) = []"
| "plain_text (JLongLong w) = int_to_string (sint w)"
| "plain_text (JULongLong w) = nat_to_string (unat w)"
| "plain_text (JBool b) = (if b then ''true'' else ''false'')"
| "plain_text JNull = ''null''"
| "plain_text EmptyObject = ''{}''"
| "plain_text (JObject ms) = ''{'' @ separated True (map (\<lambda>(n, v). quote n @ '':'' @ plain_text v) ms) @ ''}''"
| "plain_text (JArray xs) = ''['' @ separated True (map plain_text xs) @ '']''"

fun readable :: "json \<Rightarrow> bool" where
  "readable (JString s) = (\<forall>c \<in> set s. char_ok c)"
| "readable (JDouble d) = False"
| "readable (JLongLong w) = (- (2 ^ 63) < sint w)"
| "readable (JObject ms) = ((\<forall>(n, v) \<in> set ms. (\<forall>c \<in> set n. char_ok c) \<and> readable v) \<and> sorted (map fst ms))"
| "readable (JArray xs) = (\<forall>v \<in> set xs. readable v)"
| "readable _ = True"

text \<open>What it is read back as.\<close>

fun reread :: "json \<Rightarrow> json" where
  "reread EmptyObject = JObject []"
| "reread (JObject ms) = JObject (map (\<lambda>(n, v). (n, reread v)) ms)"
| "reread (JArray xs) = JArray (map reread xs)"
| "reread (JLongLong w) = (if sint w < 0 then JLongLong w else JULongLong w)"
| "reread v = v"

lemma escape_string_plain:
  assumes "\<forall>c \<in> set s. char_ok c"
  shows "escape_string s default_output_format = Inr (concat (map char_text s))"
  using assms
proof (induction s)
  case (Cons c s)
  have fmt: "\<not> escape_solidus default_output_format" "\<not> escape_all_non_ascii default_output_format"
    by (simp_all add: default_output_format_def)
  have c: "char_ok c" using Cons.prems by simp
  have IH: "escape_string s default_output_format = Inr (concat (map char_text s))" using Cons by simp
  show ?case
  proof (cases "named_escape c")
    case None
    then have "\<not> is_control_character (byte c)" "c \<noteq> CHR 0x5C" "char_text c = [c]"
      "c \<notin> {CHR 0x22, CHR 0x08, CHR 0x0C, LF, CR, CHR 0x09}"
      using c by (auto simp: char_ok_def char_text_def named_escape_def split: if_splits)
    then show ?thesis using IH fmt by simp
  next
    case (Some d)
    then have "char_text c = [CHR 0x5C, d]" "c \<noteq> CHR 0x5C" using c by (simp_all add: char_text_def char_ok_def)
    then show ?thesis using IH Some
      by (auto simp: named_escape_def[of c] split: if_splits)
  qed
qed simp

lemma quoted_plain: "\<forall>c \<in> set s. char_ok c \<Longrightarrow> quoted default_output_format s = Inr (quote s)"
  by (simp add: quoted_def escape_string_plain quote_def)

lemma json_text_plain:
  "readable v \<longrightarrow> json_text io default_output_format v = Inr (plain_text v)"
  "(\<forall>(n, v) \<in> set ms. (\<forall>c \<in> set n. char_ok c) \<and> readable v) \<longrightarrow>
     members_text io default_output_format first ms =
       Inr (separated first (map (\<lambda>(n, v). quote n @ '':'' @ plain_text v) ms))"
  "(\<forall>v \<in> set xs. readable v) \<longrightarrow>
     elements_text io default_output_format first xs = Inr (separated first (map plain_text xs))"
proof (induction io "default_output_format" v and io "default_output_format" first ms
    and io "default_output_format" first xs
    rule: json_text_members_text_elements_text.induct)
  case (11 io first n v ms)
  then show ?case by (auto simp: quoted_plain)
qed (auto simp: quoted_plain)

section \<open>The reader in the middle of a text\<close>

text \<open>
  \<open>at s st\<close>: the rest of the last block is \<open>s\<close>, followed by zeros; with the parts of the state
  the events depend on.
\<close>

definition at :: "string \<Rightarrow> string \<Rightarrow> stack_item list \<Rightarrow> deserializer \<Rightarrow> reader \<Rightarrow> bool" where
  "at s sb stk h st \<longleftrightarrow>
     (\<exists>k. 12 \<le> k \<and> drop (buffer_position st) (buffer st) = s @ replicate k CHR 0x00) \<and>
     buffer_length st = buffer_position st + length s \<and> \<not> eof st \<and>
     string_buffer st = sb \<and> rd_stack st = stk \<and> handler st = h"

lemma at_peek:
  assumes "at s sb stk h st" "k < 12"
  shows "peek k st = Inr (if k < length s then s ! k else CHR 0x00)"
proof -
  obtain m where m: "12 \<le> m" "drop (buffer_position st) (buffer st) = s @ replicate m CHR 0x00"
    using assms(1) by (auto simp: at_def)
  have l: "length (buffer st) - buffer_position st = length s + m"
    using arg_cong[OF m(2), of length] by simp
  then have "buffer_position st + k < length (buffer st)" using assms(2) m(1) by linarith
  moreover have "buffer st ! (buffer_position st + k) = drop (buffer_position st) (buffer st) ! k"
    using l m(1) by (simp add: nth_drop)
  ultimately show ?thesis using m assms(2) by (simp add: peek_def nth_append del: of_nat_add)
qed

lemma at_skip:
  assumes "at (a @ s) sb stk h st"
  shows "at s sb stk h (skip_chars (length a) st)" "at s sb stk h (skip_col (length a) st)"
proof -
  obtain m where m: "12 \<le> m" "drop (buffer_position st) (buffer st) = (a @ s) @ replicate m CHR 0x00"
    using assms by (auto simp: at_def)
  have "drop (buffer_position st + length a) (buffer st) = drop (length a) (drop (buffer_position st) (buffer st))"
    by (simp add: add.commute)
  then have "drop (buffer_position st + length a) (buffer st) = s @ replicate m CHR 0x00"
    unfolding m(2) by simp
  then show "at s sb stk h (skip_chars (length a) st)" "at s sb stk h (skip_col (length a) st)"
    using assms m(1) by (auto simp: at_def skip_chars_def skip_col_def)
qed

lemma at_next:
  assumes "at (c # s) sb stk h st"
  shows "buffer_position st < buffer_length st" "next_char st = Inr (c, skip_col 1 st)"
    "at s sb stk h (skip_col 1 st)"
  using at_peek[OF assms, of 0] at_skip(2)[of "[c]" s, simplified, OF assms] assms
  by (auto simp: next_char_def at_def)

lemma at_simps [simp]:
  "at s sb stk h (push_char c st) \<longleftrightarrow> (\<exists>sb'. sb = sb' @ [c] \<and> at s sb' stk h st)"
  by (auto simp: at_def push_char_def)

lemma at_upd:
  "at s sb stk h st \<Longrightarrow> at s sb' stk h (st\<lparr>string_buffer := sb'\<rparr>)"
  "at s sb stk h st \<Longrightarrow> at s sb stk h' (st\<lparr>handler := h'\<rparr>)"
  "at s sb stk h st \<Longrightarrow> at s sb stk' h (st\<lparr>rd_stack := stk'\<rparr>)"
  by (auto simp: at_def)

text \<open>One turn of the loops.\<close>

lemma scan_loop_step:
  assumes "at (c # s) sb stk h st"
  shows "body st = Some (Inr (False, st')) \<Longrightarrow> scan_loop body st = scan_loop body st'"
    "body st = Some (Inr (True, st')) \<Longrightarrow> scan_loop body st = Some (Inr st')"
  using at_next(1)[OF assms] by (simp_all add: scan_loop.simps[of body st])

lemma read_loop_step:
  assumes "at (c # s) sb stk h st"
  shows "read_body io st = Some (Inr (False, st')) \<Longrightarrow> read_loop io st = read_loop io st'"
    "read_body io st = Some (Inr (True, st')) \<Longrightarrow> read_loop io st = Some (Inr st')"
proof -
  have "\<not> eof st" using assms by (simp add: at_def)
  then show "read_body io st = Some (Inr (False, st')) \<Longrightarrow> read_loop io st = read_loop io st'"
    "read_body io st = Some (Inr (True, st')) \<Longrightarrow> read_loop io st = Some (Inr st')"
    using at_next(1)[OF assms] by (simp_all add: read_loop.simps[of io st])
qed

section \<open>Strings\<close>

lemma string_char:
  assumes "at (char_text c @ s) sb stk h st" "char_ok c"
  shows "\<exists>st'. scan_loop string_body st = scan_loop string_body st' \<and> at s (sb @ [c]) stk h st'"
proof (cases "named_escape c")
  case None
  then have c: "\<not> is_control_character (byte c)" "c \<noteq> CHR 0x5C" "c \<noteq> CHR 0x22"
    using assms(2) by (auto simp: char_ok_def named_escape_def split: if_splits)
  have a: "at (c # s) sb stk h st" using assms(1) None by (simp add: char_text_def)
  have "string_body st = Some (Inr (False, push_char c (skip_col 1 st)))"
    using c by (simp add: string_body_def at_next(2)[OF a] is_control_character_def)
  moreover have "at s (sb @ [c]) stk h (push_char c (skip_col 1 st))" using at_next(3)[OF a] by simp
  ultimately show ?thesis using scan_loop_step(1)[OF a] by blast
next
  case (Some d)
  have a: "at (CHR 0x5C # d # s) sb stk h st" using assms(1) Some by (simp add: char_text_def)
  let ?st = "skip_col 1 st"
  have b: "at ([d] @ s) sb stk h ?st" using at_next(3)[OF a] by simp
  have "simple_escape d = Some c"
    using Some by (auto simp: named_escape_def simple_escape_def split: if_splits)
  then have "escape_body ?st = Inr (push_char c (skip_chars 1 ?st))"
    using at_peek[OF b, of 0] by (simp add: escape_body_def)
  then have "string_body st = Some (Inr (False, push_char c (skip_chars 1 ?st)))"
    by (simp add: string_body_def at_next(2)[OF a])
  moreover have "at s (sb @ [c]) stk h (push_char c (skip_chars 1 ?st))" using at_skip(1)[OF b] by simp
  ultimately show ?thesis using scan_loop_step(1)[OF a] by blast
qed

lemma string_chars:
  assumes "at (concat (map char_text t) @ CHR 0x22 # s) sb stk h st" "\<forall>c \<in> set t. char_ok c"
  shows "\<exists>st'. scan_loop string_body st = Some (Inr st') \<and> at s (sb @ t) stk h st'"
  using assms
proof (induction t arbitrary: sb st)
  case Nil
  then have a: "at (CHR 0x22 # s) sb stk h st" by simp
  have "string_body st = Some (Inr (True, skip_col 1 st))"
    by (simp add: string_body_def at_next(2)[OF a])
  then show ?case using scan_loop_step(2)[OF a] at_next(3)[OF a] by auto
next
  case (Cons c t)
  have a: "at (char_text c @ (concat (map char_text t) @ CHR 0x22 # s)) sb stk h st" "char_ok c"
    using Cons.prems by simp_all
  obtain st1 where "scan_loop string_body st = scan_loop string_body st1"
    "at (concat (map char_text t) @ CHR 0x22 # s) (sb @ [c]) stk h st1"
    using string_char[OF a] by blast
  then show ?case using Cons.IH[of "sb @ [c]" st1] Cons.prems by auto
qed

lemma parse_quoted_text:
  assumes "at (concat (map char_text t) @ CHR 0x22 # s) sb stk h st" "\<forall>c \<in> set t. char_ok c"
  shows "\<exists>st'. parse_quoted st = Some (Inr st') \<and> at s t stk h st'"
  using string_chars[OF at_upd(1)[OF assms(1), of "[]"] assms(2)] by (simp add: parse_quoted_def)

section \<open>Numbers\<close>

lemma string_to_ulonglong_digits:
  assumes "\<forall>c \<in> set s. is_digit c" "digits_val n s \<le> hi"
  shows "string_to_ulonglong s hi n = Some (digits_val n s)"
  using assms
proof (induction s arbitrary: n)
  case (Cons c s)
  have ge: "10 * n + digit_val c \<le> hi"
    using Cons.prems(2) digits_val_ge[of "10 * n + digit_val c" s] by simp
  then have "n \<le> hi div 10" "n * 10 \<le> hi - digit_val c" by simp_all
  then have "string_to_ulonglong (c # s) hi n = string_to_ulonglong s hi (10 * n + digit_val c)"
    using Cons.prems(1) by (simp add: mult.commute)
  then show ?case using Cons by simp
qed simp

lemma string_to_ulonglong_nat: "n \<le> hi \<Longrightarrow> string_to_ulonglong (nat_to_string n) hi 0 = Some n"
  using string_to_ulonglong_digits[of "nat_to_string n" 0 hi]
  by (simp add: nat_to_string_digits digits_val_nat_to_string)

text \<open>What follows a value in a text.\<close>

definition ends_value :: "string \<Rightarrow> bool" where
  "ends_value s \<longleftrightarrow> (\<exists>c s'. s = c # s' \<and> c \<in> {CHR '','', CHR ''}'', CHR '']''})"

lemma number_loop_digits:
  assumes "at (t @ rest) sb stk h st" "\<forall>c \<in> set t. is_digit c" "ends_value rest"
    "number_value io False neg (sb @ t) = Inr v" "d_value v h = Inr h'"
  shows "\<exists>st' sb'. number_loop io neg False st = Some (Inr st') \<and> at rest sb' stk h' st'"
  using assms(1,2,4)
proof (induction t arbitrary: sb st)
  case Nil
  obtain c s' where r: "rest = c # s'" "c \<in> {CHR '','', CHR ''}'', CHR '']''}"
    using assms(3) by (auto simp: ends_value_def)
  have a: "at (c # s') sb stk h st" using Nil r by simp
  have c: "\<not> is_digit c" "c \<notin> set ''-+.eE''" using r(2) by (auto simp: is_digit_def)
  let ?st = "skip_col 1 st\<lparr>buffer_position := buffer_position (skip_col 1 st) - 1\<rparr>"
  have h: "handler ?st = h" "string_buffer st = sb" "at rest sb stk h ?st"
    using a r by (auto simp: at_def skip_col_def)
  then have "emit v ?st = Inr (?st\<lparr>handler := h'\<rparr>)"
    using assms(5) by (simp add: emit_def on_handler_def)
  then have "number_loop io neg False st = Some (Inr (?st\<lparr>handler := h'\<rparr>))"
    using at_next(1)[OF a] Nil(3) c h(2)
    by (simp add: number_loop.simps[of io neg False st] at_next(2)[OF a] skip_col_def)
  then show ?case using at_upd(2)[OF h(3)] by blast
next
  case (Cons c t)
  have a: "at (c # (t @ rest)) sb stk h st" using Cons.prems by simp
  have b: "at (t @ rest) (sb @ [c]) stk h (push_char c (skip_col 1 st))" using at_next(3)[OF a] by simp
  have "number_loop io neg False st = number_loop io neg False (push_char c (skip_col 1 st))"
    using at_next(1)[OF a] Cons.prems(2) by (simp add: number_loop.simps[of io neg False st] at_next(2)[OF a])
  then show ?case using Cons.IH[OF b] Cons.prems by simp
qed

section \<open>Values inside a structure\<close>

definition counted :: "stack_item \<Rightarrow> stack_item" where
  "counted i = i\<lparr>comma := False, value_count := Suc (value_count i)\<rparr>"

text \<open>A value may come next.\<close>

definition value_next :: "stack_item \<Rightarrow> bool" where
  "value_next i \<longleftrightarrow> (value_count i = 0 \<or> comma i) \<and> (item_is_object i \<longrightarrow> name_count i = Suc (value_count i))"

text \<open>The reader takes the text of a value and gives the deserializer the value.\<close>

definition reads :: "stdio \<Rightarrow> string \<Rightarrow> json \<Rightarrow> bool" where
  "reads io t v \<longleftrightarrow> (\<forall>st rest sb i stk h h'. at (t @ rest) sb (i # stk) h st \<longrightarrow> ends_value rest \<longrightarrow>
     value_next i \<longrightarrow> d_value v h = Inr h' \<longrightarrow>
     (\<exists>st' sb'. read_loop io st = read_loop io st' \<and> at rest sb' (counted i # stk) h' st'))"

lemma readsI:
  assumes "\<And>st rest sb i stk h h'. at (t @ rest) sb (i # stk) h st \<Longrightarrow> ends_value rest \<Longrightarrow>
     value_next i \<Longrightarrow> d_value v h = Inr h' \<Longrightarrow>
     \<exists>st' sb'. read_loop io st = read_loop io st' \<and> at rest sb' (counted i # stk) h' st'"
  shows "reads io t v"
  using assms unfolding reads_def by blast

lemma at_counted: "at s sb (i # stk) h st \<Longrightarrow> at s sb (counted i # stk) h (count_value st)"
  by (auto simp: at_def count_value_def counted_def)

text \<open>A character that is neither blank nor structural goes to \<open>read_value_char\<close>.\<close>

lemma read_body_value_char:
  assumes "at (c # s) sb (i # stk) h st"
    "c \<notin> {CR, LF, CHR 0x09, CHR 0x0B, CHR 0x0C, CHR '' '', CHR ''/'', CHR ''{'', CHR ''[''}"
  shows "read_body io st = read_value_char io c i (skip_col 1 st)"
proof -
  have "rd_stack (skip_col 1 st) = i # stk" using assms(1) by (simp add: at_def skip_col_def)
  then show ?thesis using assms(2) by (simp add: read_body_def at_next(2)[OF assms(1)] is_blank_def)
qed

lemma reads_literal:
  assumes "c # cs \<in> {''true'', ''false'', ''null''}"
    "v = (if c = CHR ''t'' then JBool True else if c = CHR ''f'' then JBool False else JNull)"
  shows "reads io (c # cs) v"
proof (rule readsI)
  fix st rest sb i stk h h'
  assume a: "at ((c # cs) @ rest) sb (i # stk) h st" and d: "d_value v h = Inr h'"
  let ?st = "skip_col 1 st"
  have a': "at (c # (cs @ rest)) sb (i # stk) h st" using a by simp
  have b: "at (cs @ rest) sb (i # stk) h ?st" using at_next(3)[OF a'] .
  have "match_ahead 0 cs ?st = Inr True"
    using assms(1) at_peek[OF b] by (auto simp: nth_append)
  moreover have e: "at rest sb (i # stk) h (skip_col (length cs) ?st)" using at_skip(2)[OF b] .
  then have "emit v (skip_col (length cs) ?st) = Inr (skip_col (length cs) ?st\<lparr>handler := h'\<rparr>)"
    using d by (simp add: emit_def on_handler_def at_def)
  ultimately have l: "read_literal cs v ?st = Inr (count_value (skip_col (length cs) ?st\<lparr>handler := h'\<rparr>))"
    by (simp add: read_literal_def)
  have "read_body io st = read_value_char io c i ?st"
    by (rule read_body_value_char[OF a']) (use assms(1) in auto)
  also have "\<dots> = Some (Inr (False, count_value (skip_col (length cs) ?st\<lparr>handler := h'\<rparr>)))"
    using assms l by (auto simp: read_value_char_def)
  finally show "\<exists>st' sb'. read_loop io st = read_loop io st' \<and> at rest sb' (counted i # stk) h' st'"
    using read_loop_step(1)[OF a'] at_counted[OF at_upd(2)[OF e]] by blast
qed

text \<open>A number: its first character, then the digits that follow.\<close>

lemma reads_number:
  assumes "is_digit c \<or> c = CHR ''-''" "\<forall>d \<in> set t. is_digit d"
    "number_value io False (c = CHR ''-'') ((if c = CHR ''-'' then [] else [c]) @ t) = Inr v"
  shows "reads io (c # t) v"
proof (rule readsI)
  fix st rest sb i stk h h'
  assume a0: "at ((c # t) @ rest) sb (i # stk) h st" and r: "ends_value rest" and d: "d_value v h = Inr h'"
  let ?sb = "if c = CHR ''-'' then [] else [c]"
  have a: "at (c # (t @ rest)) sb (i # stk) h st" using a0 by simp
  let ?st = "skip_col 1 st\<lparr>string_buffer := ?sb\<rparr>"
  have b: "at (t @ rest) ?sb (i # stk) h ?st" by (rule at_upd(1)[OF at_next(3)[OF a]])
  obtain st' sb' where l: "number_loop io (c = CHR ''-'') False ?st = Some (Inr st')" "at rest sb' (i # stk) h' st'"
    using number_loop_digits[OF b assms(2) r assms(3) d] by blast
  have ne: "c \<notin> {CR, LF, CHR 0x09, CHR 0x0B, CHR 0x0C, CHR '' '', CHR ''/'', CHR ''{'', CHR ''['', CHR '','',
      CHR 0x22, CHR ''}'', CHR '']'', CHR ''t'', CHR ''f'', CHR ''n''}"
    using assms(1) by (auto simp: is_digit_def)
  have "read_body io st = read_value_char io c i (skip_col 1 st)"
    by (rule read_body_value_char[OF a]) (use ne in auto)
  also have "\<dots> = obind (parse_number io c (skip_col 1 st)) (\<lambda>st. Some (Inr (False, count_value st)))"
    using ne assms(1) by (simp add: read_value_char_def)
  also have "\<dots> = Some (Inr (False, count_value st'))" using l(1) by (simp add: parse_number_def)
  finally show "\<exists>st' sb'. read_loop io st = read_loop io st' \<and> at rest sb' (counted i # stk) h' st'"
    using read_loop_step(1)[OF a] at_counted[OF l(2)] by blast
qed

lemma reads_nat:
  assumes "n < 2 ^ 64"
  shows "reads io (nat_to_string n) (JULongLong (of_nat n))"
proof -
  obtain c t where ct: "nat_to_string n = c # t" by (metis nat_to_string_nonempty neq_Nil_conv)
  have d: "is_digit c" "\<forall>d \<in> set t. is_digit d" using nat_to_string_digits[of n] ct by auto
  then have "c \<noteq> CHR ''-''" by (auto simp: is_digit_def)
  moreover have "string_to_ulonglong (nat_to_string n) (2 ^ 64 - 1) 0 = Some n"
    using assms by (intro string_to_ulonglong_nat) simp
  ultimately show ?thesis unfolding ct
    by (intro reads_number) (use d ct in \<open>simp_all add: number_value_def\<close>)
qed

lemma reads_negative:
  assumes "n \<le> 2 ^ 63 - 1"
  shows "reads io (CHR ''-'' # nat_to_string n) (JLongLong (- of_nat n))"
proof -
  have "string_to_ulonglong (nat_to_string n) (2 ^ 63 - 1) 0 = Some n"
    using assms by (intro string_to_ulonglong_nat) simp
  then show ?thesis
    by (intro reads_number) (simp_all add: number_value_def nat_to_string_digits)
qed

text \<open>Strings: as values, and as the names of members.\<close>

lemma read_body_quote:
  assumes "at (quote n @ s) sb (i # stk) h st" "\<forall>c \<in> set n. char_ok c"
  obtains st' where "parse_quoted (skip_col 1 st) = Some (Inr st')" "at s n (i # stk) h st'"
    "read_body io st = obind (read_quoted i (skip_col 1 st)) (\<lambda>st. Some (Inr (False, st)))"
proof -
  have a: "at (CHR 0x22 # (concat (map char_text n) @ CHR 0x22 # s)) sb (i # stk) h st"
    using assms(1) by (simp add: quote_def)
  have "read_body io st = read_value_char io (CHR 0x22) i (skip_col 1 st)"
    by (rule read_body_value_char[OF a]) simp
  then show ?thesis using that parse_quoted_text[OF at_next(3)[OF a] assms(2)]
    by (auto simp: read_value_char_def)
qed

lemma reads_string:
  assumes "\<forall>c \<in> set s. char_ok c"
  shows "reads io (quote s) (JString s)"
proof (rule readsI)
  fix st rest sb i stk h h'
  assume a: "at (quote s @ rest) sb (i # stk) h st" and n: "value_next i" and d: "d_value (JString s) h = Inr h'"
  obtain st1 where st1: "parse_quoted (skip_col 1 st) = Some (Inr st1)" "at rest s (i # stk) h st1"
    "read_body io st = obind (read_quoted i (skip_col 1 st)) (\<lambda>st. Some (Inr (False, st)))"
    by (rule read_body_quote[OF a assms])
  have a': "at (CHR 0x22 # (concat (map char_text s) @ CHR 0x22 # rest)) sb (i # stk) h st"
    using a by (simp add: quote_def)
  have sb: "string_buffer st1 = s" "handler st1 = h" using st1(2) by (auto simp: at_def)
  have "emit (JString s) st1 = Inr (st1\<lparr>handler := h'\<rparr>)" using d sb by (simp add: emit_def on_handler_def)
  then have "read_quoted i (skip_col 1 st) = Some (Inr (count_value (st1\<lparr>handler := h'\<rparr>)))"
    using n st1(1) sb by (auto simp: read_quoted_def value_next_def)
  then have "read_body io st = Some (Inr (False, count_value (st1\<lparr>handler := h'\<rparr>)))" using st1(3) by simp
  then show "\<exists>st' sb'. read_loop io st = read_loop io st' \<and> at rest sb' (counted i # stk) h' st'"
    using read_loop_step(1)[OF a'] at_counted[OF at_upd(2)[OF st1(2)]] by blast
qed

lemma read_name:
  assumes a: "at (quote n @ CHR '':'' # rest) sb (i # stk) h st" "\<forall>c \<in> set n. char_ok c"
    and i: "item_is_object i" "name_count i = value_count i" "value_count i = 0 \<or> comma i"
    and d: "d_set_name n h = Inr h'"
  shows "\<exists>st' sb'. read_loop io st = read_loop io st' \<and>
    at rest sb' (i\<lparr>name_count := Suc (name_count i)\<rparr> # stk) h' st'"
proof -
  obtain st1 where st1: "parse_quoted (skip_col 1 st) = Some (Inr st1)" "at (CHR '':'' # rest) n (i # stk) h st1"
    "read_body io st = obind (read_quoted i (skip_col 1 st)) (\<lambda>st. Some (Inr (False, st)))"
    by (rule read_body_quote[OF a])
  have a': "at (CHR 0x22 # (concat (map char_text n) @ CHR 0x22 # CHR '':'' # rest)) sb (i # stk) h st"
    using a(1) by (simp add: quote_def)
  let ?st = "st1\<lparr>handler := h'\<rparr>"
  have sb: "string_buffer st1 = n" "handler st1 = h" using st1(2) by (auto simp: at_def)
  have b: "at ([CHR '':''] @ rest) n (i # stk) h' ?st" using at_upd(2)[OF st1(2)] by simp
  have "after_name ?st = Some (Inr (skip_col 1 ?st))"
    using at_peek[OF b, of 0] at_peek[OF b, of 1] by (simp add: after_name_def Let_def)
  moreover have "on_handler (d_set_name (string_buffer st1)) st1 = Inr ?st" using d sb by (simp add: on_handler_def)
  ultimately have "read_quoted i (skip_col 1 st) = Some (Inr (count_name (skip_col 1 ?st)))"
    using i st1(1) by (auto simp: read_quoted_def)
  then have "read_body io st = Some (Inr (False, count_name (skip_col 1 ?st)))" using st1(3) by simp
  moreover have "at rest n (i\<lparr>name_count := Suc (name_count i)\<rparr> # stk) h' (count_name (skip_col 1 ?st))"
    using at_skip(2)[OF b] by (auto simp: at_def count_name_def)
  ultimately show ?thesis using read_loop_step(1)[OF a'] by blast
qed

lemma read_comma:
  assumes "at (CHR '','' # rest) sb (i # stk) h st" "value_count i \<noteq> 0"
  shows "\<exists>st'. read_loop io st = read_loop io st' \<and> at rest sb (i\<lparr>comma := True\<rparr> # stk) h st'"
proof -
  let ?st = "skip_col 1 st"
  have "read_body io st = read_value_char io (CHR '','') i ?st"
    by (rule read_body_value_char[OF assms(1)]) simp
  then have "read_body io st = Some (Inr (False, ?st\<lparr>rd_stack := update_back (\<lambda>i. i\<lparr>comma := True\<rparr>) (rd_stack ?st)\<rparr>))"
    using assms(2) by (simp add: read_value_char_def)
  moreover have "at rest sb (i\<lparr>comma := True\<rparr> # stk) h
      (?st\<lparr>rd_stack := update_back (\<lambda>i. i\<lparr>comma := True\<rparr>) (rd_stack ?st)\<rparr>)"
    using at_next(3)[OF assms(1)] by (auto simp: at_def)
  ultimately show ?thesis using read_loop_step(1)[OF assms(1)] by blast
qed

section \<open>Structures\<close>

lemma ends_value_separated: "c \<in> {CHR ''}'', CHR '']''} \<Longrightarrow> ends_value (separated False ts @ c # rest)"
  by (cases ts) (auto simp: ends_value_def)

text \<open>The comma before all members but the first.\<close>

lemma read_separator:
  assumes "at ((if first then [] else '','') @ s) sb (i # stk) h st" "first \<longleftrightarrow> value_count i = 0"
  shows "\<exists>st' i1. read_loop io st = read_loop io st' \<and> at s sb (i1 # stk) h st' \<and>
    (value_count i1 = 0 \<or> comma i1) \<and> value_count i1 = value_count i \<and> name_count i1 = name_count i \<and>
    item_is_object i1 = item_is_object i"
proof (cases first)
  case True
  then show ?thesis using assms by fastforce
next
  case False
  then show ?thesis using read_comma[of s sb i stk h st io] assms by fastforce
qed

lemma read_elements:
  assumes "\<forall>(t, v) \<in> set tvs. reads io t v"
    and "at (separated first (map fst tvs) @ CHR '']'' # rest) sb (i # stk) h st"
    and "\<not> item_is_object i" "\<not> comma i" "first \<longleftrightarrow> value_count i = 0"
    and "d_stack h = x # ds" "\<not> d_is_object x"
  shows "\<exists>st' sb' i' x'. read_loop io st = read_loop io st' \<and>
    at (CHR '']'' # rest) sb' (i' # stk) (h\<lparr>d_stack := x' # ds\<rparr>) st' \<and>
    \<not> item_is_object i' \<and> \<not> comma i' \<and> d_array x' = d_array x @ map snd tvs"
  using assms
proof (induction tvs arbitrary: first sb i h st x)
  case Nil
  have "h\<lparr>d_stack := x # ds\<rparr> = h" using Nil.prems(6) by simp
  then have "at (CHR '']'' # rest) sb (i # stk) (h\<lparr>d_stack := x # ds\<rparr>) st" "d_array x = d_array x @ map snd []"
    using Nil.prems(2) by simp_all
  then show ?case using Nil.prems(3,4) by blast
next
  case (Cons tv tvs)
  obtain t v where tv: "tv = (t, v)" by (cases tv)
  let ?rest = "separated False (map fst tvs) @ CHR '']'' # rest"
  have "at ((if first then [] else '','') @ (t @ ?rest)) sb (i # stk) h st"
    using Cons.prems(2) tv by simp
  from read_separator[OF this Cons.prems(5)] obtain st1 i1 where 1: "read_loop io st = read_loop io st1"
    "at (t @ ?rest) sb (i1 # stk) h st1" "value_count i1 = 0 \<or> comma i1" "item_is_object i1 = item_is_object i"
    by blast
  let ?h = "h\<lparr>d_stack := x\<lparr>d_array := d_array x @ [v]\<rparr> # ds\<rparr>"
  have d: "d_value v h = Inr ?h" using Cons.prems(6,7) by (simp add: d_value_def)
  have n: "value_next i1" using 1(3,4) Cons.prems(3) by (simp add: value_next_def)
  have "reads io t v" using Cons.prems(1) tv by simp
  then obtain st2 sb2 where 2: "read_loop io st1 = read_loop io st2" "at ?rest sb2 (counted i1 # stk) ?h st2"
    using 1(2) n d ends_value_separated[of "CHR '']''" "map fst tvs" rest] unfolding reads_def by blast
  have c: "\<not> item_is_object (counted i1)" "\<not> comma (counted i1)" "False \<longleftrightarrow> value_count (counted i1) = 0"
    using 1(4) Cons.prems(3) by (simp_all add: counted_def)
  have p: "\<forall>(t, v) \<in> set tvs. reads io t v" using Cons.prems(1) by simp
  have x: "d_stack ?h = x\<lparr>d_array := d_array x @ [v]\<rparr> # ds" "\<not> d_is_object (x\<lparr>d_array := d_array x @ [v]\<rparr>)"
    using Cons.prems(7) by simp_all
  obtain st' sb' i' x' where "read_loop io st2 = read_loop io st'"
    "at (CHR '']'' # rest) sb' (i' # stk) (?h\<lparr>d_stack := x' # ds\<rparr>) st'"
    "\<not> item_is_object i'" "\<not> comma i'" "d_array x' = d_array (x\<lparr>d_array := d_array x @ [v]\<rparr>) @ map snd tvs"
    using Cons.IH[OF p 2(2) c x] by blast
  then show ?case using 1(1) 2(1) tv by fastforce
qed

lemma read_members:
  assumes "\<forall>(n, t, v) \<in> set ntvs. (\<forall>c \<in> set n. char_ok c) \<and> reads io t v"
    and "at (separated first (map (\<lambda>(n, t, v). quote n @ '':'' @ t) ntvs) @ CHR ''}'' # rest) sb (i # stk) h st"
    and "item_is_object i" "\<not> comma i" "first \<longleftrightarrow> value_count i = 0" "name_count i = value_count i"
    and "d_stack h = x # ds" "d_is_object x"
  shows "\<exists>st' sb' i' x'. read_loop io st = read_loop io st' \<and>
    at (CHR ''}'' # rest) sb' (i' # stk) (h\<lparr>d_stack := x' # ds\<rparr>) st' \<and>
    item_is_object i' \<and> \<not> comma i' \<and> name_count i' = value_count i' \<and>
    d_object x' = d_object x @ map (\<lambda>(n, t, v). (n, v)) ntvs"
  using assms
proof (induction ntvs arbitrary: first sb i h st x)
  case Nil
  have "h\<lparr>d_stack := x # ds\<rparr> = h" using Nil.prems(7) by simp
  then have "at (CHR ''}'' # rest) sb (i # stk) (h\<lparr>d_stack := x # ds\<rparr>) st"
    "d_object x = d_object x @ map (\<lambda>(n, t, v). (n, v)) []"
    using Nil.prems(2) by simp_all
  then show ?case using Nil.prems(3,4,6) by blast
next
  case (Cons ntv ntvs)
  obtain n t v where ntv: "ntv = (n, t, v)" by (cases ntv)
  let ?rest = "separated False (map (\<lambda>(n, t, v). quote n @ '':'' @ t) ntvs) @ CHR ''}'' # rest"
  have "at ((if first then [] else '','') @ (quote n @ CHR '':'' # (t @ ?rest))) sb (i # stk) h st"
    using Cons.prems(2) ntv by simp
  from read_separator[OF this Cons.prems(5)] obtain st1 i1 where 1: "read_loop io st = read_loop io st1"
    "at (quote n @ CHR '':'' # (t @ ?rest)) sb (i1 # stk) h st1" "value_count i1 = 0 \<or> comma i1"
    "value_count i1 = value_count i" "name_count i1 = name_count i" "item_is_object i1 = item_is_object i"
    by blast
  let ?hn = "h\<lparr>d_stack := x\<lparr>d_name := n\<rparr> # ds\<rparr>" and ?in = "i1\<lparr>name_count := Suc (name_count i1)\<rparr>"
  have "d_set_name n h = Inr ?hn" using Cons.prems(7) by (simp add: d_set_name_def)
  moreover have "\<forall>c \<in> set n. char_ok c" "item_is_object i1" "name_count i1 = value_count i1"
    using Cons.prems ntv 1 by auto
  ultimately obtain st2 sb2 where 2: "read_loop io st1 = read_loop io st2" "at (t @ ?rest) sb2 (?in # stk) ?hn st2"
    using read_name[OF 1(2)] 1(3) by blast
  let ?x = "x\<lparr>d_name := [], d_object := d_object x @ [(n, v)]\<rparr>"
  let ?h = "h\<lparr>d_stack := ?x # ds\<rparr>"
  have d: "d_value v ?hn = Inr ?h" using Cons.prems(8) by (simp add: d_value_def)
  have nx: "value_next ?in" using 1 Cons.prems(6) by (simp add: value_next_def)
  have "reads io t v" using Cons.prems(1) ntv by simp
  then obtain st3 sb3 where 3: "read_loop io st2 = read_loop io st3" "at ?rest sb3 (counted ?in # stk) ?h st3"
    using 2(2) nx d ends_value_separated[of "CHR ''}''" "map (\<lambda>(n, t, v). quote n @ '':'' @ t) ntvs" rest]
    unfolding reads_def by blast
  have c: "item_is_object (counted ?in)" "\<not> comma (counted ?in)" "False \<longleftrightarrow> value_count (counted ?in) = 0"
    "name_count (counted ?in) = value_count (counted ?in)"
    using 1 Cons.prems(3,6) by (simp_all add: counted_def)
  have p: "\<forall>(n, t, v) \<in> set ntvs. (\<forall>c \<in> set n. char_ok c) \<and> reads io t v" using Cons.prems(1) by simp
  have x: "d_stack ?h = ?x # ds" "d_is_object ?x" using Cons.prems(8) by simp_all
  obtain st' sb' i' x' where "read_loop io st3 = read_loop io st'"
    "at (CHR ''}'' # rest) sb' (i' # stk) (?h\<lparr>d_stack := x' # ds\<rparr>) st'"
    "item_is_object i'" "\<not> comma i'" "name_count i' = value_count i'"
    "d_object x' = d_object ?x @ map (\<lambda>(n, t, v). (n, v)) ntvs"
    using Cons.IH[OF p 3(2) c x] by blast
  then show ?case using 1(1) 2(1) 3(1) ntv by fastforce
qed

text \<open>An opening bracket, and a closing one.\<close>

lemma read_open:
  assumes "at ((if b then CHR ''{'' else CHR ''['') # s) sb stk h st"
  shows "\<exists>st'. read_loop io st = read_loop io st' \<and> at s sb (new_stack_item b # stk) (d_push b h) st'"
proof -
  have "read_body io st = Some (Inr (False, open_item b (skip_col 1 st)))"
    using at_next(2)[OF assms] by (cases b) (simp_all add: read_body_def is_blank_def)
  moreover have "at s sb (new_stack_item b # stk) (d_push b h) (open_item b (skip_col 1 st))"
    using at_next(3)[OF assms] by (auto simp: at_def open_item_def d_begin_object_def d_begin_array_def)
  ultimately show ?thesis using read_loop_step(1)[OF assms] by blast
qed

lemma read_close:
  assumes a: "at ((if b then CHR ''}'' else CHR '']'') # s) sb (i # stk) h st"
    and i: "item_is_object i = b" "\<not> comma i" "b \<longrightarrow> name_count i = value_count i"
    and h: "d_stack h = x # ds" "v = (if b then JObject (sort_members (d_object x)) else JArray (d_array x))"
  shows "ds = [] \<Longrightarrow> stk = [] \<Longrightarrow> \<exists>st'. read_loop io st = Some (Inr st') \<and> d_root (handler st') = v"
    and "ds \<noteq> [] \<Longrightarrow> stk \<noteq> [] \<Longrightarrow> d_value v (h\<lparr>d_stack := ds\<rparr>) = Inr h' \<Longrightarrow>
      \<exists>st'. read_loop io st = read_loop io st' \<and> at s sb (counted (hd stk) # tl stk) h' st'"
proof -
  let ?st = "skip_col 1 st"
  have sth: "handler ?st = h" "rd_stack ?st = i # stk" using a by (auto simp: at_def skip_col_def)
  have body: "read_body io st = Some (close_structure b i ?st)"
    using read_body_value_char[OF a] by (cases b) (simp_all add: read_value_char_def)
  have close: "on_handler (if b then d_end_object else d_end_array) ?st = bnd (d_close v h) (\<lambda>d. Inr (?st\<lparr>handler := d\<rparr>))"
    using h sth by (simp add: on_handler_def d_end_object_def d_end_array_def)
  {
    assume "ds = []" "stk = []"
    then have "close_structure b i ?st = Inr (True, ?st\<lparr>handler := h\<lparr>d_stack := [], d_root := v\<rparr>, rd_stack := []\<rparr>)"
      using i close h(1) sth by (cases b) (simp_all add: close_structure_def d_close_def Let_def)
    then show "\<exists>st'. read_loop io st = Some (Inr st') \<and> d_root (handler st') = v"
      using read_loop_step(2)[OF a] body by fastforce
  next
    assume ds: "ds \<noteq> []" "stk \<noteq> []" and d: "d_value v (h\<lparr>d_stack := ds\<rparr>) = Inr h'"
    let ?st' = "?st\<lparr>handler := h', rd_stack := stk\<rparr>"
    have "d_close v h = Inr h'" using ds(1) d h(1) by (simp add: d_close_def Let_def)
    then have "close_structure b i ?st = Inr (False, count_value ?st')"
      using i close ds(2) sth by (cases b) (simp_all add: close_structure_def Let_def)
    moreover have "at s sb (hd stk # tl stk) h' ?st'"
      using at_upd(3)[OF at_upd(2)[OF at_next(3)[OF a]], of stk h'] ds(2) by simp
    ultimately show "\<exists>st'. read_loop io st = read_loop io st' \<and> at s sb (counted (hd stk) # tl stk) h' st'"
      using read_loop_step(1)[OF a] body at_counted by fastforce
  }
qed

text \<open>Whole structures: inside another one, and as the root.\<close>

lemma push_simps [simp]:
  "d_stack (d_push b h) = \<lparr>d_name = [], d_is_object = b, d_object = [], d_array = []\<rparr> # d_stack h"
  "(d_push b h)\<lparr>d_stack := x # d_stack h, d_stack := d_stack h\<rparr> = h"
  "item_is_object (new_stack_item b) = b" "\<not> comma (new_stack_item b)"
  "value_count (new_stack_item b) = 0" "name_count (new_stack_item b) = 0"
  by (simp_all add: d_push_def new_stack_item_def)

text \<open>\<open>inner b t v\<close>: the reader takes the text \<open>t\<close> between brackets, whose value is then \<open>v\<close>.\<close>

definition inner :: "stdio \<Rightarrow> bool \<Rightarrow> string \<Rightarrow> json \<Rightarrow> bool" where
  "inner io b t v \<longleftrightarrow> (\<forall>st rest sb stk h.
     at (t @ (if b then CHR ''}'' else CHR '']'') # rest) sb (new_stack_item b # stk) (d_push b h) st \<longrightarrow>
     (\<exists>st' sb' i' x'. read_loop io st = read_loop io st' \<and>
       at ((if b then CHR ''}'' else CHR '']'') # rest) sb' (i' # stk) ((d_push b h)\<lparr>d_stack := x' # d_stack h\<rparr>) st' \<and>
       item_is_object i' = b \<and> \<not> comma i' \<and> (b \<longrightarrow> name_count i' = value_count i') \<and>
       v = (if b then JObject (sort_members (d_object x')) else JArray (d_array x'))))"

lemma inner_array:
  assumes "\<forall>(t, v) \<in> set tvs. reads io t v"
  shows "inner io False (separated True (map fst tvs)) (JArray (map snd tvs))"
  unfolding inner_def
proof (intro allI impI)
  fix st rest sb stk h
  assume a: "at (separated True (map fst tvs) @ (if False then CHR ''}'' else CHR '']'') # rest) sb
    (new_stack_item False # stk) (d_push False h) st"
  have a': "at (separated True (map fst tvs) @ CHR '']'' # rest) sb (new_stack_item False # stk) (d_push False h) st"
    using a by simp
  obtain st' sb' i' x' where "read_loop io st = read_loop io st'"
    "at (CHR '']'' # rest) sb' (i' # stk) ((d_push False h)\<lparr>d_stack := x' # d_stack h\<rparr>) st'"
    "\<not> item_is_object i'" "\<not> comma i'" "d_array x' = map snd tvs"
    using read_elements[OF assms a' _ _ _ push_simps(1)] by auto
  then show "\<exists>st' sb' i' x'. read_loop io st = read_loop io st' \<and>
      at ((if False then CHR ''}'' else CHR '']'') # rest) sb' (i' # stk)
        ((d_push False h)\<lparr>d_stack := x' # d_stack h\<rparr>) st' \<and>
      item_is_object i' = False \<and> \<not> comma i' \<and> (False \<longrightarrow> name_count i' = value_count i') \<and>
      JArray (map snd tvs) = (if False then JObject (sort_members (d_object x')) else JArray (d_array x'))"
    unfolding if_False by fastforce
qed

lemma inner_object:
  assumes "\<forall>(n, t, v) \<in> set ntvs. (\<forall>c \<in> set n. char_ok c) \<and> reads io t v"
    and "sorted (map (\<lambda>(n, t, v). n) ntvs)"
  shows "inner io True (separated True (map (\<lambda>(n, t, v). quote n @ '':'' @ t) ntvs))
    (JObject (map (\<lambda>(n, t, v). (n, v)) ntvs))"
  unfolding inner_def
proof (intro allI impI)
  let ?T = "separated True (map (\<lambda>(n, t, v). quote n @ '':'' @ t) ntvs)"
  let ?ms = "map (\<lambda>(n, t, v). (n, v)) ntvs"
  fix st rest sb stk h
  assume "at (?T @ (if True then CHR ''}'' else CHR '']'') # rest) sb
    (new_stack_item True # stk) (d_push True h) st"
  then have a': "at (?T @ CHR ''}'' # rest) sb (new_stack_item True # stk) (d_push True h) st" by simp
  obtain st' sb' i' x' where *: "read_loop io st = read_loop io st'"
    "at (CHR ''}'' # rest) sb' (i' # stk) ((d_push True h)\<lparr>d_stack := x' # d_stack h\<rparr>) st'"
    "item_is_object i'" "\<not> comma i'" "name_count i' = value_count i'" "d_object x' = ?ms"
    using read_members[OF assms(1) a' _ _ _ _ push_simps(1)] by auto
  have "map fst ?ms = map (\<lambda>(n, t, v). n) ntvs" by auto
  then have "sort_members ?ms = ?ms" using assms(2) unfolding sort_members_def by (metis sort_key_id_if_sorted)
  then have "JObject ?ms = JObject (sort_members (d_object x'))" using *(6) by simp
  then show "\<exists>st' sb' i' x'. read_loop io st = read_loop io st' \<and>
      at ((if True then CHR ''}'' else CHR '']'') # rest) sb' (i' # stk)
        ((d_push True h)\<lparr>d_stack := x' # d_stack h\<rparr>) st' \<and>
      item_is_object i' = True \<and> \<not> comma i' \<and> (True \<longrightarrow> name_count i' = value_count i') \<and>
      JObject ?ms = (if True then JObject (sort_members (d_object x')) else JArray (d_array x'))"
    using * unfolding if_True by blast
qed

lemma reads_structure:
  assumes "inner io b t v"
  shows "reads io ((if b then CHR ''{'' else CHR ''['') # t @ [if b then CHR ''}'' else CHR '']'']) v"
proof (rule readsI)
  let ?o = "if b then CHR ''{'' else CHR ''[''" and ?c = "if b then CHR ''}'' else CHR '']''"
  fix st rest sb i stk h h'
  assume a: "at ((?o # t @ [?c]) @ rest) sb (i # stk) h st" and d: "d_value v h = Inr h'"
  have "at (?o # (t @ ?c # rest)) sb (i # stk) h st" using a by simp
  then obtain st1 where 1: "read_loop io st = read_loop io st1"
    "at (t @ ?c # rest) sb (new_stack_item b # i # stk) (d_push b h) st1" using read_open by blast
  obtain st2 sb2 i' x' where 2: "read_loop io st1 = read_loop io st2"
    "at (?c # rest) sb2 (i' # i # stk) ((d_push b h)\<lparr>d_stack := x' # d_stack h\<rparr>) st2"
    "item_is_object i' = b" "\<not> comma i'" "b \<longrightarrow> name_count i' = value_count i'"
    "v = (if b then JObject (sort_members (d_object x')) else JArray (d_array x'))"
    using assms 1(2) unfolding inner_def by blast
  have s: "d_stack ((d_push b h)\<lparr>d_stack := x' # d_stack h\<rparr>) = x' # d_stack h" by simp
  have "d_stack h \<noteq> []" using d by (auto simp: d_value_def split: list.splits)
  then obtain st3 where "read_loop io st2 = read_loop io st3" "at rest sb2 (counted (hd (i # stk)) # tl (i # stk)) h' st3"
    using read_close(2)[OF 2(2-5) s 2(6), of h'] d by auto
  then show "\<exists>st' sb'. read_loop io st = read_loop io st' \<and> at rest sb' (counted i # stk) h' st'"
    using 1(1) 2(1) by auto
qed

lemma root_structure:
  assumes "inner io b t v" "at ((if b then CHR ''{'' else CHR ''['') # t @ [if b then CHR ''}'' else CHR '']'']) sb [] h st"
    and "d_stack h = []"
  shows "\<exists>st'. read_loop io st = Some (Inr st') \<and> d_root (handler st') = v"
proof -
  let ?c = "if b then CHR ''}'' else CHR '']''"
  obtain st1 where 1: "read_loop io st = read_loop io st1"
    "at (t @ ?c # []) sb (new_stack_item b # []) (d_push b h) st1" using read_open[OF assms(2)] by blast
  obtain st2 sb2 i' x' where 2: "read_loop io st1 = read_loop io st2"
    "at (?c # []) sb2 (i' # []) ((d_push b h)\<lparr>d_stack := x' # d_stack h\<rparr>) st2"
    "item_is_object i' = b" "\<not> comma i'" "b \<longrightarrow> name_count i' = value_count i'"
    "v = (if b then JObject (sort_members (d_object x')) else JArray (d_array x'))"
    using assms(1) 1(2) unfolding inner_def by blast
  have s: "d_stack ((d_push b h)\<lparr>d_stack := x' # d_stack h\<rparr>) = x' # []" using assms(3) by simp
  show ?thesis using read_close(1)[OF 2(2-5) s 2(6)] 1(1) 2(1) by simp
qed

section \<open>All readable values\<close>

definition texts :: "json list \<Rightarrow> (string \<times> json) list" where
  "texts xs = map (\<lambda>v. (plain_text v, reread v)) xs"

definition named_texts :: "members \<Rightarrow> (string \<times> string \<times> json) list" where
  "named_texts ms = map (\<lambda>(n, v). (n, plain_text v, reread v)) ms"

lemma inner_plain:
  "(\<forall>v \<in> set xs. reads io (plain_text v) (reread v)) \<Longrightarrow>
     inner io False (separated True (map plain_text xs)) (reread (JArray xs))"
  "(\<forall>(n, v) \<in> set ms. (\<forall>c \<in> set n. char_ok c) \<and> reads io (plain_text v) (reread v)) \<Longrightarrow> sorted (map fst ms) \<Longrightarrow>
     inner io True (separated True (map (\<lambda>(n, v). quote n @ '':'' @ plain_text v) ms)) (reread (JObject ms))"
proof -
  assume "\<forall>v \<in> set xs. reads io (plain_text v) (reread v)"
  then have "\<forall>(t, v) \<in> set (texts xs). reads io t v" by (auto simp: texts_def)
  from inner_array[OF this] show "inner io False (separated True (map plain_text xs)) (reread (JArray xs))"
    by (simp add: texts_def comp_def)
next
  assume "\<forall>(n, v) \<in> set ms. (\<forall>c \<in> set n. char_ok c) \<and> reads io (plain_text v) (reread v)" "sorted (map fst ms)"
  then have "\<forall>(n, t, v) \<in> set (named_texts ms). (\<forall>c \<in> set n. char_ok c) \<and> reads io t v"
    "sorted (map (\<lambda>(n, t, v). n) (named_texts ms))"
    by (auto simp: named_texts_def comp_def case_prod_unfold)
  from inner_object[OF this]
  show "inner io True (separated True (map (\<lambda>(n, v). quote n @ '':'' @ plain_text v) ms)) (reread (JObject ms))"
    by (simp add: named_texts_def comp_def case_prod_unfold)
qed

lemma reads_readable: "readable v \<Longrightarrow> reads io (plain_text v) (reread v)"
proof (induction v)
  case EmptyObject
  show ?case using reads_structure[OF inner_object[of "[]" io]] by simp
next
  case (JObject ms)
  then have "\<forall>(n, v) \<in> set ms. (\<forall>c \<in> set n. char_ok c) \<and> reads io (plain_text v) (reread v)" by fastforce
  from reads_structure[OF inner_plain(2)[OF this]] show ?case using JObject.prems by simp
next
  case (JArray xs)
  then have "\<forall>v \<in> set xs. reads io (plain_text v) (reread v)" by simp
  from reads_structure[OF inner_plain(1)[OF this]] show ?case by simp
next
  case (JString s)
  then show ?case using reads_string by simp
next
  case (JLongLong w)
  show ?case
  proof (cases "sint w < 0")
    case True
    then have "nat (- sint w) \<le> 2 ^ 63 - 1" using JLongLong by simp
    moreover have "- word_of_nat (nat (- sint w)) = w" 
    proof -
      have "word_of_nat (nat (- sint w)) = (word_of_int (- sint w) :: 64 word)" using True by simp
      then show ?thesis by simp
    qed
    ultimately show ?thesis using reads_negative[of "nat (- sint w)" io] True by (simp add: int_to_string_def)
  next
    case False
    have "sint w < 2 ^ 63" using sint_lt[of w] by simp
    then have "uint w = sint w" using False by (simp add: uint_sint take_bit_int_eq_self)
    then have "nat (sint w) = unat w" by (metis nat_uint_eq)
    then show ?thesis using reads_nat[of "unat w" io] False unsigned_less[of w, where ?'a = nat] by (simp add: int_to_string_def)
  qed
next
  case (JULongLong w)
  then show ?case using reads_nat[of "unat w" io] unsigned_less[of w, where ?'a = nat] by simp
next
  case (JBool b)
  then show ?case using reads_literal[of "CHR ''t''" "''rue''" "JBool True" io]
      reads_literal[of "CHR ''f''" "''alse''" "JBool False" io] by (cases b) simp_all
next
  case JNull
  then show ?case using reads_literal[of "CHR ''n''" "''ull''" JNull io] by simp
qed simp

section \<open>Reading a whole text\<close>

text \<open>The reader when a text that fits its first block has been read into the buffer.\<close>

lemma reader_starts:
  assumes "t \<noteq> []" "length t < default_max_buffer_length"
  shows "\<exists>st. reader_read io (new_reader t d) = read_loop io st \<and> at t [] [] d st"
proof -
  have l: "length t < 16384" using assms(2) by (simp add: default_max_buffer_length_def)
  let ?z = "replicate 16408 CHR 0x00 :: string"
  let ?st = "new_reader t d\<lparr>buffer := overwrite ?z 0 t, buffer_position := 0, buffer_length := length t,
    hard_buffer_length := length t, bof := False, eof := False, rd_line := 1, rd_column := 0,
    input := [], input_eof := True\<rparr>"
  have "reader_read io (new_reader t d) = read_loop io ?st"
    using assms(1) l
    by (simp add: reader_read_def new_reader_def read_some_def stream_read_def Let_def
        default_max_buffer_length_def read_ahead_length_def)
  moreover have "overwrite ?z 0 t = t @ replicate (16408 - length t) CHR 0x00"
    by (simp add: overwrite_def)
  then have "at t [] [] d ?st"
    using l by (auto simp: at_def new_reader_def intro!: exI[of _ "16408 - length t"])
  ultimately show ?thesis by blast
qed

lemma parse_plain_text:
  assumes "readable v" "is_object v \<or> is_array v" "length (plain_text v) < default_max_buffer_length"
  shows "parse_string io (plain_text v) = Some (Inr (reread v))"
proof -
  obtain b t where bt: "plain_text v = (if b then CHR ''{'' else CHR ''['') # t @ [if b then CHR ''}'' else CHR '']'']"
    "inner io b t (reread v)"
  proof (cases v)
    case EmptyObject
    then show ?thesis using that[of True "[]"] inner_object[of "[]" io] by simp
  next
    case (JObject ms)
    then have "\<forall>(n, v) \<in> set ms. (\<forall>c \<in> set n. char_ok c) \<and> reads io (plain_text v) (reread v)"
      using assms(1) reads_readable by fastforce
    from inner_plain(2)[OF this] show ?thesis using that[of True] JObject assms(1) by simp
  next
    case (JArray xs)
    then have "\<forall>v \<in> set xs. reads io (plain_text v) (reread v)" using assms(1) reads_readable by simp
    from inner_plain(1)[OF this] show ?thesis using that[of False] JArray by simp
  qed (use assms(2) in simp_all)
  then have "plain_text v \<noteq> []" by simp
  from reader_starts[OF this assms(3)] obtain st where
    "reader_read io (new_reader (plain_text v) new_deserializer) = read_loop io st"
    "at (plain_text v) [] [] new_deserializer st" by blast
  then show ?thesis
    using root_structure[OF bt(2), of "[]" new_deserializer st] bt(1)
    by (auto simp: parse_string_def new_deserializer_def)
qed

end
