(* ===== verification/JsonEstimate.thy ===== *)
theory JsonEstimate
  imports JsonRound
begin

text \<open>
  The capacity estimates of the reader (\<open>estimate_minimum_array_capacity\<close>,
  \<open>estimate_minimum_object_capacity\<close> and the functions \<open>skip_*\<close>, json_reader.hpp): when an
  array or object opens, the reader looks ahead in its buffer, to the end of the structure or of
  the buffer, and counts the elements, for the vector to reserve their places.  The two functions
  that skip a nested array or object call each other and themselves; they differ in the
  character they stop at only, and are one function here.
\<close>

section \<open>The functions\<close>

text \<open>\<open>buffer_[pos]\<close>\<close>

definition buffer_char :: "reader \<Rightarrow> nat \<Rightarrow> char result" where
  "buffer_char st pos = vec_at (buffer st) (int pos)"

definition estimation_buffer_length :: nat where
  "estimation_buffer_length = default_max_buffer_length"

text \<open>The operator \<open>&\<close> evaluates both sides: the character after a backslash is always read.\<close>

function skip_string :: "reader \<Rightarrow> nat \<Rightarrow> nat \<Rightarrow> nat result" where
  "skip_string st pos e =
     (if pos < e then bnd (buffer_char st pos) (\<lambda>c.
        if c = CHR 0x5C then bnd (buffer_char st (pos + 1)) (\<lambda>d.
          if pos + 1 < buffer_length st \<and> d = CHR ''u'' then skip_string st (pos + 5) e
          else skip_string st (pos + 2) e)
        else if c = CHR 0x22 then Inr (pos + 1)
        else skip_string st (pos + 1) e)
      else Inr pos)"
  by pat_completeness auto

termination skip_string by (relation "measure (\<lambda>(st, pos, e). e - pos)") auto

declare skip_string.simps [simp del]

definition number_char :: "char \<Rightarrow> bool" where
  "number_char c \<longleftrightarrow> is_digit c \<or> c \<in> {CHR ''-'', CHR ''+'', CHR ''.'', CHR ''e'', CHR ''E''}"

function skip_number :: "reader \<Rightarrow> nat \<Rightarrow> nat \<Rightarrow> nat result" where
  "skip_number st pos e =
     (if pos < e then bnd (buffer_char st pos) (\<lambda>c. if number_char c then skip_number st (pos + 1) e else Inr pos)
      else Inr pos)"
  by pat_completeness auto

termination skip_number by (relation "measure (\<lambda>(st, pos, e). e - pos)") auto

declare skip_number.simps [simp del]

lemma skip_string_ge: "skip_string st pos e = Inr p \<Longrightarrow> pos \<le> p"
proof (induction st pos e rule: skip_string.induct)
  case (1 st pos e)
  from "1.prems" "1.IH" show ?case
    unfolding skip_string.simps[of st pos e] by (fastforce simp: bnd_eq_Inr split: if_splits)
qed

lemma skip_number_ge: "skip_number st pos e = Inr p \<Longrightarrow> pos \<le> p"
proof (induction st pos e rule: skip_number.induct)
  case (1 st pos e)
  from "1.prems" "1.IH" show ?case
    unfolding skip_number.simps[of st pos e] by (fastforce simp: bnd_eq_Inr split: if_splits)
qed

text \<open>\<open>skip_array\<close> stops behind \<open>]\<close>, \<open>skip_object\<close> behind \<open>}\<close>.\<close>

function (domintros) skip_structure :: "char \<Rightarrow> reader \<Rightarrow> nat \<Rightarrow> nat \<Rightarrow> nat result" where
  "skip_structure close st pos e =
     (if pos < e then bnd (buffer_char st pos) (\<lambda>c.
        if c = CHR ''['' then bnd (skip_structure (CHR '']'') st (pos + 1) e) (\<lambda>p. skip_structure close st p e)
        else if c = CHR ''{'' then bnd (skip_structure (CHR ''}'') st (pos + 1) e) (\<lambda>p. skip_structure close st p e)
        else if c = CHR 0x22 then bnd (skip_string st (pos + 1) e) (\<lambda>p. skip_structure close st p e)
        else if c = close then Inr (pos + 1)
        else skip_structure close st (pos + 1) e)
      else Inr pos)"
  by pat_completeness auto

lemma skip_structure_ge_dom:
  "skip_structure_dom (close, st, pos, e) \<Longrightarrow> skip_structure close st pos e = Inr p \<Longrightarrow> pos \<le> p"
proof (induction arbitrary: p rule: skip_structure.pinduct)
  case (1 close st pos e)
  have "?case" if "pos < e"
  proof -
    from "1.prems" that obtain c where c: "buffer_char st pos = Inr c"
      by (auto simp: skip_structure.psimps[OF "1.hyps"] bnd_eq_Inr)
    note IH = "1.IH"[OF that c]
    show ?thesis
      using "1.prems" that c IH skip_string_ge[of st "pos + 1" e]
      by (force simp: skip_structure.psimps[OF "1.hyps"] bnd_eq_Inr split: if_splits)
  qed
  then show ?case using "1.prems" by (cases "pos < e") (simp_all add: skip_structure.psimps[OF "1.hyps"])
qed

termination skip_structure
proof (relation "measure (\<lambda>(close, st, pos, e). e - pos)")
qed (auto dest: skip_structure_ge_dom skip_string_ge)

declare skip_structure.simps [simp del]

lemma skip_structure_ge: "skip_structure close st pos e = Inr p \<Longrightarrow> pos \<le> p"
proof (induction close st pos e arbitrary: p rule: skip_structure.induct)
  case (1 close st pos e)
  show ?case
  proof (cases "pos < e")
    case True
    then obtain c where c: "buffer_char st pos = Inr c"
      using "1.prems" by (auto simp: skip_structure.simps[of close st pos e] bnd_eq_Inr)
    show ?thesis
      using "1.prems" True c "1.IH"[OF True c] skip_string_ge[of st "pos + 1" e]
      by (force simp: skip_structure.simps[of close st pos e] bnd_eq_Inr split: if_splits)
  qed (use "1.prems" in \<open>simp add: skip_structure.simps[of close st pos e]\<close>)
qed

text \<open>The counting loops.\<close>

function estimate_array :: "reader \<Rightarrow> nat \<Rightarrow> nat \<Rightarrow> nat \<Rightarrow> nat result" where
  "estimate_array st pos e cnt =
     (if pos < e then bnd (buffer_char st pos) (\<lambda>c.
        if c = CHR '']'' then Inr cnt
        else if c = CHR ''['' then bnd (skip_structure (CHR '']'') st (pos + 1) e) (\<lambda>p. estimate_array st p e (cnt + 1))
        else if c = CHR ''{'' then bnd (skip_structure (CHR ''}'') st (pos + 1) e) (\<lambda>p. estimate_array st p e (cnt + 1))
        else if c = CHR 0x22 then bnd (skip_string st (pos + 1) e) (\<lambda>p. estimate_array st p e (cnt + 1))
        else if c = CHR ''t'' then estimate_array st (pos + 4) e (cnt + 1)
        else if c = CHR ''f'' then estimate_array st (pos + 5) e (cnt + 1)
        else if c = CHR ''n'' then estimate_array st (pos + 4) e (cnt + 1)
        else if is_digit c \<or> c = CHR ''-'' then bnd (skip_number st (pos + 1) e) (\<lambda>p. estimate_array st p e (cnt + 1))
        else estimate_array st (pos + 1) e cnt)
      else Inr cnt)"
  by pat_completeness auto

termination estimate_array
  by (relation "measure (\<lambda>(st, pos, e, cnt). e - pos)")
    (simp_all, (drule skip_structure_ge skip_string_ge skip_number_ge, linarith)+)

declare estimate_array.simps [simp del]

function estimate_object :: "reader \<Rightarrow> nat \<Rightarrow> nat \<Rightarrow> nat \<Rightarrow> nat result" where
  "estimate_object st pos e cnt =
     (if pos < e then bnd (buffer_char st pos) (\<lambda>c.
        if c = CHR ''}'' then Inr cnt
        else if c = CHR 0x22 then bnd (skip_string st (pos + 1) e) (\<lambda>p. estimate_object st p e cnt)
        else if c = CHR '':'' then estimate_object st (pos + 1) e (cnt + 1)
        else if c = CHR ''['' then bnd (skip_structure (CHR '']'') st (pos + 1) e) (\<lambda>p. estimate_object st p e cnt)
        else if c = CHR ''{'' then bnd (skip_structure (CHR ''}'') st (pos + 1) e) (\<lambda>p. estimate_object st p e cnt)
        else if c = CHR ''t'' then estimate_object st (pos + 4) e cnt
        else if c = CHR ''f'' then estimate_object st (pos + 5) e cnt
        else if c = CHR ''n'' then estimate_object st (pos + 4) e cnt
        else estimate_object st (pos + 1) e cnt)
      else Inr cnt)"
  by pat_completeness auto

termination estimate_object
  by (relation "measure (\<lambda>(st, pos, e, cnt). e - pos)")
    (simp_all, (drule skip_structure_ge skip_string_ge, linarith)+)

declare estimate_object.simps [simp del]

definition estimate_minimum_array_capacity :: "reader \<Rightarrow> nat result" where
  "estimate_minimum_array_capacity st =
     estimate_array st (buffer_position st) (min (buffer_length st) estimation_buffer_length) 0"

definition estimate_minimum_object_capacity :: "reader \<Rightarrow> nat result" where
  "estimate_minimum_object_capacity st =
     estimate_object st (buffer_position st) (min (buffer_length st) estimation_buffer_length) 0"

section \<open>They never leave the buffer\<close>

text \<open>Whatever the buffer holds; the vector is longer than the part that is filled.\<close>

definition roomy :: "reader \<Rightarrow> nat \<Rightarrow> bool" where
  "roomy st e \<longleftrightarrow> e \<le> buffer_length st \<and> buffer_length st < length (buffer st)"

lemma buffer_char_in: "roomy st e \<Longrightarrow> pos \<le> e \<Longrightarrow> \<exists>c. buffer_char st pos = Inr c"
  by (simp add: roomy_def buffer_char_def)

lemma skip_string_in: "roomy st e \<Longrightarrow> \<exists>p. skip_string st pos e = Inr p"
proof (induction st pos e rule: skip_string.induct)
  case (1 st pos e)
  show ?case
  proof (cases "pos < e")
    case True
    obtain c d where c: "buffer_char st pos = Inr c" "buffer_char st (pos + 1) = Inr d"
      using buffer_char_in[OF 1(4)] True by (metis Suc_eq_plus1 Suc_leI less_imp_le)
    then show ?thesis using 1 True by (simp add: skip_string.simps[of st pos e])
  qed (simp add: skip_string.simps[of st pos e])
qed

lemma skip_number_in: "roomy st e \<Longrightarrow> \<exists>p. skip_number st pos e = Inr p"
proof (induction st pos e rule: skip_number.induct)
  case (1 st pos e)
  show ?case
  proof (cases "pos < e")
    case True
    obtain c where c: "buffer_char st pos = Inr c" using buffer_char_in[OF 1(2), of pos] True by auto
    then show ?thesis using 1 True by (simp add: skip_number.simps[of st pos e])
  qed (simp add: skip_number.simps[of st pos e])
qed

lemma skip_structure_in: "roomy st e \<Longrightarrow> \<exists>p. skip_structure close st pos e = Inr p"
proof (induction close st pos e rule: skip_structure.induct)
  case (1 close st pos e)
  show ?case
  proof (cases "pos < e")
    case True
    obtain c p where c: "buffer_char st pos = Inr c" "skip_string st (pos + 1) e = Inr p"
      using buffer_char_in[OF "1.prems", of pos] skip_string_in[OF "1.prems"] True by (metis less_imp_le)
    note IH = "1.IH"[OF True c(1)]
    show ?thesis
      using IH "1.prems" True c by (simp add: skip_structure.simps[of close st pos e]) (metis bnd.simps(2))
  qed (simp add: skip_structure.simps[of close st pos e])
qed

lemma estimate_array_in: "roomy st e \<Longrightarrow> \<exists>n. estimate_array st pos e cnt = Inr n"
proof (induction st pos e cnt rule: estimate_array.induct)
  case (1 st pos e cnt)
  show ?case
  proof (cases "pos < e")
    case True
    obtain c p q where c: "buffer_char st pos = Inr c" "skip_string st (pos + 1) e = Inr p" "skip_number st (pos + 1) e = Inr q"
      using buffer_char_in[OF "1.prems", of pos] skip_string_in[OF "1.prems"] skip_number_in[OF "1.prems"] True
      by (metis less_imp_le)
    obtain p1 p2 where p: "skip_structure (CHR '']'') st (pos + 1) e = Inr p1" "skip_structure (CHR ''}'') st (pos + 1) e = Inr p2"
      using skip_structure_in[OF "1.prems"] by metis
    show ?thesis
      using "1.IH"[OF True c(1)] "1.prems" True c p by (simp add: estimate_array.simps[of st pos e cnt])
  qed (simp add: estimate_array.simps[of st pos e cnt])
qed

lemma estimate_object_in: "roomy st e \<Longrightarrow> \<exists>n. estimate_object st pos e cnt = Inr n"
proof (induction st pos e cnt rule: estimate_object.induct)
  case (1 st pos e cnt)
  show ?case
  proof (cases "pos < e")
    case True
    obtain c p where c: "buffer_char st pos = Inr c" "skip_string st (pos + 1) e = Inr p"
      using buffer_char_in[OF "1.prems", of pos] skip_string_in[OF "1.prems"] True by (metis less_imp_le)
    obtain p1 p2 where p: "skip_structure (CHR '']'') st (pos + 1) e = Inr p1" "skip_structure (CHR ''}'') st (pos + 1) e = Inr p2"
      using skip_structure_in[OF "1.prems"] by metis
    show ?thesis
      using "1.IH"[OF True c(1)] "1.prems" True c p by (simp add: estimate_object.simps[of st pos e cnt])
  qed (simp add: estimate_object.simps[of st pos e cnt])
qed

section \<open>They count the elements of a written value\<close>

text \<open>The text \<open>t\<close> lies in the buffer from \<open>pos\<close>, before \<open>e\<close>.\<close>

definition text_at :: "reader \<Rightarrow> nat \<Rightarrow> nat \<Rightarrow> string \<Rightarrow> bool" where
  "text_at st e pos t \<longleftrightarrow> roomy st e \<and> pos + length t \<le> e \<and> take (length t) (drop pos (buffer st)) = t"

lemma text_at_append: "text_at st e pos (s @ t) \<longleftrightarrow> text_at st e pos s \<and> text_at st e (pos + length s) t"
proof -
  have "length (take (length s) (drop pos (buffer st))) = length s" if "roomy st e" "pos + length s \<le> e"
    using that by (auto simp: roomy_def min_def)
  then show ?thesis by (auto simp: text_at_def take_add add.commute[of pos] add.assoc)
qed

lemma text_at_Cons: "text_at st e pos (c # t) \<longleftrightarrow> text_at st e pos [c] \<and> text_at st e (Suc pos) t"
  using text_at_append[of st e pos "[c]" t] by simp

lemma text_at_tl: "text_at st e pos (c # t) \<Longrightarrow> text_at st e (Suc pos) t"
  using text_at_Cons by blast

lemma text_at_char: "text_at st e pos (c # t) \<Longrightarrow> pos < e \<and> buffer_char st pos = Inr c"
proof -
  assume t: "text_at st e pos (c # t)"
  then have "pos < length (buffer st)" by (auto simp: text_at_def roomy_def)
  then show ?thesis using t by (auto simp: text_at_def buffer_char_def Cons_nth_drop_Suc[symmetric])
qed

lemma skip_string_text:
  "\<forall>c \<in> set s. char_ok c \<Longrightarrow> text_at st e pos (concat (map char_text s) @ [CHR 0x22]) \<Longrightarrow>
    skip_string st pos e = Inr (pos + length (concat (map char_text s)) + 1)"
proof (induction s arbitrary: pos)
  case Nil
  then show ?case using text_at_char[of st e pos] by (simp add: skip_string.simps[of st pos e])
next
  case (Cons c s)
  have t: "text_at st e pos (char_text c)"
    "text_at st e (pos + length (char_text c)) (concat (map char_text s) @ [CHR 0x22])"
    using Cons.prems(2) by (simp_all add: text_at_append)
  note IH = Cons.IH[OF _ t(2)]
  show ?case
  proof (cases "named_escape c")
    case None
    then have c: "char_text c = [c]" "c \<noteq> CHR 0x5C" "c \<noteq> CHR 0x22"
      using Cons.prems(1) by (auto simp: char_text_def char_ok_def named_escape_def split: if_splits)
    then show ?thesis
      using t(1) IH Cons.prems(1) text_at_char[of st e pos c "[]"] by (simp add: skip_string.simps[of st pos e])
  next
    case (Some d)
    then have c: "char_text c = [CHR 0x5C, d]" "d \<noteq> CHR ''u''"
      by (auto simp: char_text_def named_escape_def split: if_splits)
    then have "pos < e" "buffer_char st pos = Inr CHR 0x5C" "buffer_char st (Suc pos) = Inr d"
      using t(1) text_at_tl[of st e pos "CHR 0x5C" "[d]"] text_at_char by auto
    then show ?thesis
      using IH Cons.prems(1) c by (simp add: skip_string.simps[of st pos e])
  qed
qed

text \<open>A text that a loop with a given body passes over, counting \<open>n\<close>.\<close>

definition passes :: "(reader \<Rightarrow> nat \<Rightarrow> nat \<Rightarrow> nat \<Rightarrow> nat result) \<Rightarrow> string \<Rightarrow> nat \<Rightarrow> bool" where
  "passes loop t n \<longleftrightarrow> (\<forall>st e pos k. text_at st e pos t \<longrightarrow> loop st pos e k = loop st (pos + length t) e (k + n))"

lemma passes_append: "passes loop s m \<Longrightarrow> passes loop t n \<Longrightarrow> passes loop (s @ t) (m + n)"
  by (simp add: passes_def text_at_append add.assoc)

lemma passes_Nil: "passes loop [] 0"
  by (simp add: passes_def)

lemma passes_all: "(\<And>c. c \<in> set t \<Longrightarrow> passes loop [c] 0) \<Longrightarrow> passes loop t 0"
  by (induction t) (use passes_Nil passes_append[of loop "[_]" 0 _ 0] in force)+

lemma passes_separated:
  assumes "passes loop '','' 0" "\<And>t. t \<in> set ts \<Longrightarrow> passes loop t n"
  shows "passes loop (separated first ts) (length ts * n)"
  using assms(2)
proof (induction ts arbitrary: first)
  case (Cons t ts)
  have "passes loop t n" "passes loop (separated False ts) (length ts * n)" using Cons by simp_all
  then have "passes loop (t @ separated False ts) (n + length ts * n)" by (rule passes_append)
  then show ?case using passes_append[OF assms(1)] by simp
qed (simp add: passes_Nil)

definition skipping :: "char \<Rightarrow> reader \<Rightarrow> nat \<Rightarrow> nat \<Rightarrow> nat \<Rightarrow> nat result" where
  "skipping close st pos e k = skip_structure close st pos e"

lemma skipping_char:
  "c \<notin> {CHR ''['', CHR ''{'', CHR 0x22, close} \<Longrightarrow> passes (skipping close) [c] 0"
  by (auto simp: passes_def skipping_def skip_structure.simps[of close _ _ _] dest!: text_at_char)

lemma skipping_quote:
  assumes "\<forall>c \<in> set s. char_ok c"
  shows "passes (skipping close) (quote s) 0"
  unfolding passes_def skipping_def
proof (intro allI impI)
  fix st e pos k assume t: "text_at st e pos (quote s)"
  let ?n = "length (concat (map char_text s))"
  have "pos < e" "buffer_char st pos = Inr CHR 0x22" "text_at st e (Suc pos) (concat (map char_text s) @ [CHR 0x22])"
    using t text_at_char text_at_Cons unfolding quote_def by blast+
  then show "skip_structure close st pos e = skip_structure close st (pos + length (quote s)) e"
    using skip_string_text[OF assms, of st e "Suc pos"] by (simp add: skip_structure.simps[of close st pos] quote_def)
qed

definition closer :: "char \<Rightarrow> char" where
  "closer open = (if open = CHR ''['' then CHR '']'' else CHR ''}'')"

lemma closer_bracket: "closer CHR ''['' = CHR '']''" and closer_brace: "closer CHR ''{'' = CHR ''}''"
  by (simp_all add: closer_def)

lemma skip_structure_body:
  assumes "open \<in> {CHR ''['', CHR ''{''}" "passes (skipping (closer open)) body 0"
    and "text_at st e pos (open # body @ [closer open])"
  shows "skip_structure (closer open) st (Suc pos) e = Inr (pos + length body + 2)"
proof -
  have t: "text_at st e (Suc pos) body" "text_at st e (Suc pos + length body) [closer open]"
    using assms(3) text_at_append[of st e "Suc pos" body] text_at_Cons by blast+
  have "skip_structure (closer open) st (Suc pos) e = skip_structure (closer open) st (Suc pos + length body) e"
    using assms(2) t(1) by (simp add: passes_def skipping_def)
  also have "\<dots> = Inr (pos + length body + 2)"
  proof -
    have "closer open \<notin> {CHR ''['', CHR ''{'', CHR 0x22}" by (simp add: closer_def)
    then show ?thesis using text_at_char[OF t(2)] by (simp add: skip_structure.simps[of _ _ "Suc (pos + length body)"])
  qed
  finally show ?thesis .
qed

lemma skipping_structure:
  assumes "open \<in> {CHR ''['', CHR ''{''}" "passes (skipping (closer open)) body 0"
  shows "passes (skipping close) (open # body @ [closer open]) 0"
  unfolding passes_def skipping_def
proof (intro allI impI)
  fix st e pos k assume t: "text_at st e pos (open # body @ [closer open])"
  have "skip_structure close st pos e = bnd (skip_structure (closer open) st (Suc pos) e) (\<lambda>p. skip_structure close st p e)"
    using text_at_char[OF t] assms(1) by (auto simp: skip_structure.simps[of close st pos] closer_def)
  then show "skip_structure close st pos e = skip_structure close st (pos + length (open # body @ [closer open])) e"
    using skip_structure_body[OF assms t] by simp
qed

lemma plain_text_numbers:
  "\<forall>c \<in> set (nat_to_string n). is_digit c" "\<forall>c \<in> set (int_to_string i). is_digit c \<or> c = CHR ''-''"
  using nat_to_string_digits[of n] nat_to_string_digits[of "nat i"] nat_to_string_digits[of "nat (- i)"]
  by (auto simp: int_to_string_def)

lemma is_digit_not: "is_digit c \<Longrightarrow> c \<notin> {CHR ''['', CHR '']'', CHR ''{'', CHR ''}'', CHR 0x22, CHR ''t'', CHR ''f'', CHR ''n'', CHR '':''}"
  by (auto simp: is_digit_def)

text \<open>A written value is passed over by a loop that passes over its parts.\<close>

lemma passes_plain_text:
  assumes "readable v"
    and "\<And>s. \<forall>c \<in> set s. char_ok c \<Longrightarrow> passes loop (quote s) 0"
    and "\<And>open body. open \<in> {CHR ''['', CHR ''{''} \<Longrightarrow> passes (skipping (closer open)) body 0 \<Longrightarrow>
      passes loop (open # body @ [closer open]) 0"
    and "\<And>c. is_digit c \<or> c = CHR ''-'' \<Longrightarrow> passes loop [c] 0"
    and "passes loop ''true'' 0" "passes loop ''false'' 0" "passes loop ''null'' 0"
    and body: "\<And>xs. v = JArray xs \<Longrightarrow> passes (skipping (CHR '']'')) (separated True (map plain_text xs)) 0"
      "\<And>ms. v = JObject ms \<Longrightarrow>
        passes (skipping (CHR ''}'')) (separated True (map (\<lambda>(n, v). quote n @ '':'' @ plain_text v) ms)) 0"
  shows "passes loop (plain_text v) 0"
proof -
  have nest: "passes loop ([open] @ body @ [closer open]) 0"
    if "open \<in> {CHR ''['', CHR ''{''}" "passes (skipping (closer open)) body 0" for "open" body
    using assms(3)[OF that] by simp
  have number: "passes loop t 0" if "\<forall>c \<in> set t. is_digit c \<or> c = CHR ''-''" for t
    by (rule passes_all) (use that assms(4) in blast)
  show ?thesis
  proof (cases v)
    case (JObject ms)
    then show ?thesis using nest[OF _ body(2)[OF JObject, folded closer_brace]] by (simp add: closer_def)
  next
    case (JArray xs)
    then show ?thesis using nest[OF _ body(1)[OF JArray, folded closer_bracket]] by (simp add: closer_def)
  next
    case EmptyObject
    then show ?thesis using nest[of "CHR ''{''" "[]"] passes_Nil by (simp add: closer_def)
  next
    case (JLongLong w)
    then show ?thesis using number plain_text_numbers(2) by simp
  next
    case (JULongLong w)
    then show ?thesis using number plain_text_numbers(1) by simp
  qed (use assms(1,2,5-7) in auto)
qed

lemma passes_members:
  assumes "\<And>s. \<forall>c \<in> set s. char_ok c \<Longrightarrow> passes loop (quote s) 0" "passes loop '':'' n" "passes loop '','' 0"
    and "\<forall>(n, v) \<in> set ms. (\<forall>c \<in> set n. char_ok c) \<and> passes loop (plain_text v) 0"
  shows "passes loop (separated True (map (\<lambda>(n, v). quote n @ '':'' @ plain_text v) ms)) (length ms * n)"
proof -
  have "passes loop (quote name @ '':'' @ plain_text v) n" if "(name, v) \<in> set ms" for name v
  proof -
    have "passes loop (quote name) 0" "passes loop (plain_text v) 0" using assms(1,4) that by auto
    then show ?thesis using passes_append[OF _ passes_append[OF assms(2)]] by fastforce
  qed
  then have "\<And>t. t \<in> set (map (\<lambda>(n, v). quote n @ '':'' @ plain_text v) ms) \<Longrightarrow> passes loop t n" by auto
  from passes_separated[of loop "map (\<lambda>(n, v). quote n @ '':'' @ plain_text v) ms", OF assms(3) this]
  show ?thesis by simp
qed

lemma skipping_plain_text_of_body:
  assumes "readable v" "close \<in> {CHR '']'', CHR ''}''}"
    and "\<And>xs. v = JArray xs \<Longrightarrow> passes (skipping (CHR '']'')) (separated True (map plain_text xs)) 0"
    and "\<And>ms. v = JObject ms \<Longrightarrow>
        passes (skipping (CHR ''}'')) (separated True (map (\<lambda>(n, v). quote n @ '':'' @ plain_text v) ms)) 0"
  shows "passes (skipping close) (plain_text v) 0"
proof (rule passes_plain_text[OF assms(1) skipping_quote skipping_structure])
  show "passes (skipping close) [c] 0" if "is_digit c \<or> c = CHR ''-''" for c
    using that is_digit_not[of c] assms(2) by (intro skipping_char) auto
  show "passes (skipping close) ''true'' 0" "passes (skipping close) ''false'' 0" "passes (skipping close) ''null'' 0"
    by (rule passes_all, rule skipping_char, use assms(2) in auto)+
qed (use assms(3,4) in auto)

lemma skipping_plain_text:
  "readable v \<Longrightarrow> close \<in> {CHR '']'', CHR ''}''} \<Longrightarrow> passes (skipping close) (plain_text v) 0"
proof (induction v arbitrary: close)
  case (JObject ms)
  have "passes (skipping (CHR ''}'')) (separated True (map (\<lambda>(n, v). quote n @ '':'' @ plain_text v) ms)) (length ms * 0)"
  proof (rule passes_members)
    show "\<forall>(n, v) \<in> set ms. (\<forall>c \<in> set n. char_ok c) \<and> passes (skipping CHR ''}'') (plain_text v) 0"
      using JObject by fastforce
  qed (simp_all add: skipping_quote skipping_char)
  then show ?case using skipping_plain_text_of_body[OF JObject.prems] by simp
next
  case (JArray xs)
  have "passes (skipping (CHR '']'')) (separated True (map plain_text xs)) (length (map plain_text xs) * 0)"
    by (rule passes_separated) (use JArray in \<open>auto simp: skipping_char\<close>)
  then show ?case using skipping_plain_text_of_body[OF JArray.prems] by simp
qed ((rule skipping_plain_text_of_body; simp)+)

section \<open>Counting the members of an object\<close>

lemma estimate_object_char:
  "c \<notin> {CHR ''['', CHR ''{'', CHR 0x22, CHR ''}'', CHR '':'', CHR ''t'', CHR ''f'', CHR ''n''} \<Longrightarrow> passes estimate_object [c] 0"
  by (auto simp: passes_def estimate_object.simps[of _ _ _ _] dest!: text_at_char)

lemma estimate_object_quote:
  assumes "\<forall>c \<in> set s. char_ok c"
  shows "passes estimate_object (quote s) 0"
  unfolding passes_def
proof (intro allI impI)
  fix st e pos k assume t: "text_at st e pos (quote s)"
  have "pos < e" "buffer_char st pos = Inr CHR 0x22" "text_at st e (Suc pos) (concat (map char_text s) @ [CHR 0x22])"
    using t text_at_char text_at_Cons unfolding quote_def by blast+
  then show "estimate_object st pos e k = estimate_object st (pos + length (quote s)) e (k + 0)"
    using skip_string_text[OF assms, of st e "Suc pos"] by (simp add: estimate_object.simps[of st pos] quote_def)
qed

lemma estimate_object_structure:
  assumes "open \<in> {CHR ''['', CHR ''{''}" "passes (skipping (closer open)) body 0"
  shows "passes estimate_object (open # body @ [closer open]) 0"
  unfolding passes_def
proof (intro allI impI)
  fix st e pos k assume t: "text_at st e pos (open # body @ [closer open])"
  have "estimate_object st pos e k = bnd (skip_structure (closer open) st (Suc pos) e) (\<lambda>p. estimate_object st p e k)"
    using text_at_char[OF t] assms(1) by (auto simp: estimate_object.simps[of st pos] closer_def)
  then show "estimate_object st pos e k = estimate_object st (pos + length (open # body @ [closer open])) e (k + 0)"
    using skip_structure_body[OF assms t] by simp
qed

lemma body_of_array:
  "readable (JArray xs) \<Longrightarrow> passes (skipping (CHR '']'')) (separated True (map plain_text xs)) 0"
  using passes_separated[of "skipping CHR '']''" "map plain_text xs" 0 True] skipping_plain_text
  by (auto simp: skipping_char)

lemma body_of_object:
  "readable (JObject ms) \<Longrightarrow>
    passes (skipping (CHR ''}'')) (separated True (map (\<lambda>(n, v). quote n @ '':'' @ plain_text v) ms)) 0"
  using passes_members[of "skipping CHR ''}''" 0 ms] skipping_plain_text
  by (fastforce simp: skipping_quote skipping_char)

lemma estimate_object_jump:
  "text_at st e pos (CHR ''t'' # t) \<Longrightarrow> estimate_object st pos e k = estimate_object st (Suc (Suc (Suc (Suc pos)))) e k"
  "text_at st e pos (CHR ''f'' # t) \<Longrightarrow> estimate_object st pos e k = estimate_object st (Suc (Suc (Suc (Suc (Suc pos))))) e k"
  "text_at st e pos (CHR ''n'' # t) \<Longrightarrow> estimate_object st pos e k = estimate_object st (Suc (Suc (Suc (Suc pos)))) e k"
  by (drule text_at_char, simp add: estimate_object.simps[of st pos] eval_nat_numeral)+

lemma estimate_object_plain_text:
  assumes "readable v"
  shows "passes estimate_object (plain_text v) 0"
proof (rule passes_plain_text[OF assms estimate_object_quote estimate_object_structure])
  show "passes estimate_object [c] 0" if "is_digit c \<or> c = CHR ''-''" for c
    using that is_digit_not[of c] by (intro estimate_object_char) auto
  show "passes estimate_object ''true'' 0" "passes estimate_object ''false'' 0" "passes estimate_object ''null'' 0"
    by (auto simp: passes_def intro: estimate_object_jump)
qed (use assms body_of_array body_of_object in auto)

text \<open>From behind the opening brace of a written object, one place for each member.\<close>

lemma estimate_object_counts:
  assumes "readable (JObject ms)"
    and "text_at st e pos (separated True (map (\<lambda>(n, v). quote n @ '':'' @ plain_text v) ms) @ ''}'')"
  shows "estimate_object st pos e 0 = Inr (length ms)"
proof -
  let ?T = "separated True (map (\<lambda>(n, v). quote n @ '':'' @ plain_text v) ms)"
  have "passes estimate_object '':'' 1"
    by (auto simp: passes_def estimate_object.simps[of _ _ _ _] dest!: text_at_char)
  then have "passes estimate_object ?T (length ms * 1)"
    using assms(1) estimate_object_plain_text
    by (intro passes_members estimate_object_quote estimate_object_char) auto
  moreover have t: "text_at st e pos ?T" "text_at st e (pos + length ?T) ''}''"
    using assms(2) by (simp_all add: text_at_append)
  ultimately have "estimate_object st pos e 0 = estimate_object st (pos + length ?T) e (length ms)"
    by (simp add: passes_def)
  also have "\<dots> = Inr (length ms)"
    using text_at_char[OF t(2)] by (subst estimate_object.simps) simp
  finally show ?thesis .
qed

section \<open>Counting the elements of an array\<close>

lemma skip_number_text:
  "\<forall>c \<in> set t. is_digit c \<or> c = CHR ''-'' \<Longrightarrow> \<not> number_char d \<Longrightarrow> text_at st e pos (t @ [d]) \<Longrightarrow>
    skip_number st pos e = Inr (pos + length t)"
proof (induction t arbitrary: pos)
  case Nil
  then show ?case using text_at_char[of st e pos d "[]"] by (simp add: skip_number.simps[of st pos])
next
  case (Cons c t)
  have "text_at st e (Suc pos) (t @ [d])" "pos < e" "buffer_char st pos = Inr c" "number_char c"
    using Cons.prems text_at_tl[of st e pos c] text_at_char[of st e pos c] by (auto simp: number_char_def)
  then show ?case using Cons.IH Cons.prems(1,2) by (simp add: skip_number.simps[of st pos])
qed

text \<open>An element is counted once, if a separator or the end of the array follows.\<close>

definition counts_once :: "string \<Rightarrow> bool" where
  "counts_once t \<longleftrightarrow> (\<forall>st e pos k d. d \<in> {CHR '','', CHR '']''} \<longrightarrow> text_at st e pos (t @ [d]) \<longrightarrow>
     estimate_array st pos e k = estimate_array st (pos + length t) e (Suc k))"

lemma counted_quote:
  assumes "\<forall>c \<in> set s. char_ok c"
  shows "counts_once (quote s)"
  unfolding counts_once_def
proof (intro allI impI)
  fix st e pos k d assume "text_at st e pos (quote s @ [d])"
  then have t: "text_at st e pos (quote s)" by (simp add: text_at_append)
  have "pos < e" "buffer_char st pos = Inr CHR 0x22" "text_at st e (Suc pos) (concat (map char_text s) @ [CHR 0x22])"
    using t text_at_char text_at_Cons unfolding quote_def by blast+
  then show "estimate_array st pos e k = estimate_array st (pos + length (quote s)) e (Suc k)"
    using skip_string_text[OF assms, of st e "Suc pos"] by (simp add: estimate_array.simps[of st pos] quote_def)
qed

lemma counted_structure:
  assumes "open \<in> {CHR ''['', CHR ''{''}" "passes (skipping (closer open)) body 0"
  shows "counts_once (open # body @ [closer open])"
  unfolding counts_once_def
proof (intro allI impI)
  fix st e pos k d assume "text_at st e pos ((open # body @ [closer open]) @ [d])"
  then have t: "text_at st e pos (open # body @ [closer open])" using text_at_append by blast
  have "estimate_array st pos e k = bnd (skip_structure (closer open) st (Suc pos) e) (\<lambda>p. estimate_array st p e (Suc k))"
    using text_at_char[OF t] assms(1) by (auto simp: estimate_array.simps[of st pos] closer_def)
  then show "estimate_array st pos e k = estimate_array st (pos + length (open # body @ [closer open])) e (Suc k)"
    using skip_structure_body[OF assms t] by simp
qed

lemma counted_number:
  assumes "\<forall>c \<in> set t. is_digit c \<or> c = CHR ''-''" "t \<noteq> []"
  shows "counts_once t"
  unfolding counts_once_def
proof (intro allI impI)
  fix st e pos k d assume d: "d \<in> {CHR '','', CHR '']''}" and t: "text_at st e pos (t @ [d])"
  obtain c t' where [simp]: "t = c # t'" using assms(2) by (cases t) auto
  have "text_at st e (Suc pos) (t' @ [d])" "pos < e" "buffer_char st pos = Inr c"
    using t text_at_tl[of st e pos c] text_at_char[of st e pos c] by auto
  moreover have "\<not> number_char d" using d by (auto simp: number_char_def is_digit_def)
  moreover have "is_digit c \<or> c = CHR ''-''" using assms(1) by simp
  moreover from this have "c \<notin> {CHR ''['', CHR '']'', CHR ''{'', CHR 0x22, CHR ''t'', CHR ''f'', CHR ''n''}"
    using is_digit_not[of c] by auto
  ultimately show "estimate_array st pos e k = estimate_array st (pos + length t) e (Suc k)"
    using skip_number_text[of t' d st e "Suc pos"] assms(1) by (simp add: estimate_array.simps[of st pos])
qed

lemma estimate_array_jump:
  "text_at st e pos (CHR ''t'' # t) \<Longrightarrow> estimate_array st pos e k = estimate_array st (Suc (Suc (Suc (Suc pos)))) e (Suc k)"
  "text_at st e pos (CHR ''f'' # t) \<Longrightarrow> estimate_array st pos e k = estimate_array st (Suc (Suc (Suc (Suc (Suc pos))))) e (Suc k)"
  "text_at st e pos (CHR ''n'' # t) \<Longrightarrow> estimate_array st pos e k = estimate_array st (Suc (Suc (Suc (Suc pos)))) e (Suc k)"
  by (drule text_at_char, simp add: estimate_array.simps[of st pos] eval_nat_numeral)+

lemma counted_plain_text:
  assumes "readable v"
  shows "counts_once (plain_text v)"
proof (cases v)
  case EmptyObject
  then show ?thesis using counted_structure[of "CHR ''{''" "[]"] passes_Nil by (simp add: closer_def)
next
  case (JObject ms)
  then show ?thesis
    using counted_structure[OF _ body_of_object[of ms, folded closer_brace]] assms by (simp add: closer_def)
next
  case (JArray xs)
  then show ?thesis
    using counted_structure[OF _ body_of_array[of xs, folded closer_bracket]] assms by (simp add: closer_def)
next
  case (JLongLong w)
  then show ?thesis
    using counted_number[of "int_to_string (sint w)"] plain_text_numbers(2) by (simp add: int_to_string_def)
next
  case (JULongLong w)
  then show ?thesis using counted_number[of "nat_to_string (unat w)"] plain_text_numbers(1) by simp
next
  case (JBool b)
  then show ?thesis by (auto simp: counts_once_def intro: estimate_array_jump)
next
  case JNull
  then show ?thesis by (auto simp: counts_once_def intro: estimate_array_jump)
qed (use assms counted_quote in auto)

lemma estimate_array_separated:
  assumes "\<forall>t \<in> set ts. counts_once t"
  shows "text_at st e pos (separated first ts @ '']'') \<Longrightarrow> estimate_array st pos e k = Inr (k + length ts)"
  using assms
proof (induction ts arbitrary: pos k first)
  case Nil
  then show ?case using text_at_char[of st e pos] by (simp add: estimate_array.simps[of st pos])
next
  case (Cons t ts)
  define pos' where "pos' = (if first then pos else Suc pos)"
  have t: "text_at st e pos' (t @ separated False ts @ '']'')"
    using Cons.prems(1) text_at_tl[of st e pos "CHR '',''"] by (auto simp: pos'_def split: if_splits)
  have "first \<or> pos < e \<and> buffer_char st pos = Inr (CHR '','')"
    using Cons.prems(1) by (cases first) (auto dest: text_at_char)
  then have "estimate_array st pos e k = estimate_array st pos' e k"
    by (auto simp: pos'_def estimate_array.simps[of st pos] is_digit_def)
  also have "\<dots> = estimate_array st (pos' + length t) e (Suc k)"
  proof -
    obtain d r where d: "separated False ts @ '']'' = d # r" "d \<in> {CHR '','', CHR '']''}" by (cases ts) auto
    then have "text_at st e pos' (t @ [d])" using t by (metis append.assoc append_Cons append_Nil text_at_append)
    then show ?thesis using Cons.prems(2) d(2) by (auto simp: counts_once_def)
  qed
  also have "\<dots> = Inr (Suc k + length ts)"
    by (rule Cons.IH[of _ False]) (use t Cons.prems(2) in \<open>auto simp: text_at_append\<close>)
  finally show ?case by simp
qed

text \<open>From behind the opening bracket of a written array, one place for each element.\<close>

lemma estimate_array_counts:
  "readable (JArray xs) \<Longrightarrow> text_at st e pos (separated True (map plain_text xs) @ '']'') \<Longrightarrow>
    estimate_array st pos e 0 = Inr (length xs)"
  using estimate_array_separated[of "map plain_text xs" st e pos True 0] counted_plain_text by auto

end
