(* ===== verification/JsonAccess.thy ===== *)
theory JsonAccess
  imports JsonWriter
begin

text \<open>
  The rest of the interface of \<open>basic_json\<close> (json1.hpp, json2.hpp): its constructors and
  assignments, typed access through \<open>value_adapter\<close> (\<open>is<T>()\<close>, \<open>as<T>()\<close> and \<open>operator=\<close>),
  iterators, resizing and multi-dimensional arrays.  A C++ value of a type the adapters know is
  a \<open>cpp_value\<close>.  What does not compile has no counterpart: \<open>as<const char*>\<close>,
  \<open>as<basic_json>\<close>, and assigning an \<open>object\<close>, an \<open>array\<close> or a vector of vectors.
\<close>

section \<open>Constructors\<close>

datatype value_type = Empty_object_t | Object_t | Array_t | String_t | Double_t | Longlong_t
  | Ulonglong_t | Bool_t | Null_t

fun type_of :: "json \<Rightarrow> value_type" where
  "type_of EmptyObject = Empty_object_t"
| "type_of (JObject _) = Object_t"
| "type_of (JArray _) = Array_t"
| "type_of (JString _) = String_t"
| "type_of (JDouble _) = Double_t"
| "type_of (JLongLong _) = Longlong_t"
| "type_of (JULongLong _) = Ulonglong_t"
| "type_of (JBool _) = Bool_t"
| "type_of JNull = Null_t"

definition new_json :: json where "new_json = EmptyObject"
definition json_of_null :: json where "json_of_null = JNull"
definition json_of_range :: "json list \<Rightarrow> json" where "json_of_range xs = JArray xs"
definition json_of_object :: "members \<Rightarrow> json" where "json_of_object ms = JObject ms"
definition json_of_array :: "json list \<Rightarrow> json" where "json_of_array xs = JArray xs"
definition json_of_double :: "double \<Rightarrow> json" where "json_of_double d = JDouble d"
definition json_of_longlong :: "64 word \<Rightarrow> json" where "json_of_longlong w = JLongLong w"
definition json_of_ulonglong :: "64 word \<Rightarrow> json" where "json_of_ulonglong w = JULongLong w"
definition json_of_bool :: "bool \<Rightarrow> json" where "json_of_bool b = JBool b"
definition json_of_char :: "char \<Rightarrow> json" where "json_of_char c = JString [c]"
definition json_of_string :: "string \<Rightarrow> json" where "json_of_string s = JString s"

text \<open>An \<open>unsigned int\<close> is zero extended into the word it is stored in.\<close>

definition json_of_uint :: "int \<Rightarrow> json" where "json_of_uint i = JULongLong (word_of_int i)"

text \<open>The copy constructor clones strings, arrays and objects, their elements in turn.\<close>

fun json_copy :: "json \<Rightarrow> json" where
  "json_copy JNull = JNull"
| "json_copy EmptyObject = EmptyObject"
| "json_copy (JDouble d) = JDouble d"
| "json_copy (JLongLong w) = JLongLong w"
| "json_copy (JULongLong w) = JULongLong w"
| "json_copy (JBool b) = JBool b"
| "json_copy (JString s) = JString s"
| "json_copy (JArray xs) = JArray (map json_copy xs)"
| "json_copy (JObject ms) = JObject (map (\<lambda>(n, v). (n, json_copy v)) ms)"

text \<open>The move constructor leaves a null behind; \<open>swap\<close> exchanges.\<close>

definition json_move :: "json \<Rightarrow> json \<times> json" where
  "json_move v = (v, JNull)"

definition json_swap :: "json \<Rightarrow> json \<Rightarrow> json \<times> json" where
  "json_swap a b = (b, a)"

definition json_assign :: "json \<Rightarrow> json \<Rightarrow> json" where
  "json_assign rhs self = snd (json_swap rhs self)"

section \<open>Assignment of C++ values\<close>

text \<open>
  The alternatives stored without a pointer are overwritten in place, the others by swapping
  with a temporary.
\<close>

fun is_inline :: "json \<Rightarrow> bool" where
  "is_inline JNull = True"
| "is_inline (JBool _) = True"
| "is_inline EmptyObject = True"
| "is_inline (JLongLong _) = True"
| "is_inline (JULongLong _) = True"
| "is_inline (JDouble _) = True"
| "is_inline _ = False"

definition assign_string :: "string \<Rightarrow> json \<Rightarrow> json" where
  "assign_string s self = (if is_inline self then JString s else snd (json_swap (json_of_string s) self))"

definition assign_double :: "double \<Rightarrow> json \<Rightarrow> json" where
  "assign_double d self = (if is_inline self then JDouble d else snd (json_swap (json_of_double d) self))"

definition assign_longlong :: "64 word \<Rightarrow> json \<Rightarrow> json" where
  "assign_longlong w self = (if is_inline self then JLongLong w else snd (json_swap (json_of_longlong w) self))"

definition assign_ulonglong :: "64 word \<Rightarrow> json \<Rightarrow> json" where
  "assign_ulonglong w self = (if is_inline self then JULongLong w else snd (json_swap (json_of_ulonglong w) self))"

definition assign_bool :: "bool \<Rightarrow> json \<Rightarrow> json" where
  "assign_bool b self = (if is_inline self then JBool b else snd (json_swap (json_of_bool b) self))"

definition assign_null :: "json \<Rightarrow> json" where
  "assign_null self = (if is_inline self then JNull else snd (json_swap json_of_null self))"

section \<open>Indexing, iterators, capacity\<close>

text \<open>\<open>operator[](size_t)\<close> uses the array pointer without looking at the type.\<close>

fun json_index :: "nat \<Rightarrow> json \<Rightarrow> json result" where
  "json_index i (JArray xs) = vec_at xs (int i)"
| "json_index i _ = Inl (Undefined ''not an array'')"

fun json_index_set :: "nat \<Rightarrow> json \<Rightarrow> json \<Rightarrow> json result" where
  "json_index_set i v (JArray xs) = bnd (vec_set xs (int i) v) (\<lambda>xs. Inr (JArray xs))"
| "json_index_set i v _ = Inl (Undefined ''not an array'')"

text \<open>
  Iterators are positions.  The non-const \<open>begin_members\<close> and \<open>end_members\<close> turn the empty
  object into an object with no members.
\<close>

fun begin_members :: "json \<Rightarrow> (json \<times> nat) result" where
  "begin_members EmptyObject = Inr (JObject [], 0)"
| "begin_members (JObject ms) = Inr (JObject ms, 0)"
| "begin_members _ = Inl (JsonException ''Not an object'')"

fun end_members :: "json \<Rightarrow> (json \<times> nat) result" where
  "end_members EmptyObject = Inr (JObject [], 0)"
| "end_members (JObject ms) = Inr (JObject ms, length ms)"
| "end_members _ = Inl (JsonException ''Not an object'')"

definition an_object :: json where "an_object = JObject []"

fun begin_members_const :: "json \<Rightarrow> nat result" where
  "begin_members_const EmptyObject = bnd (begin_members an_object) (\<lambda>(_, i). Inr i)"
| "begin_members_const (JObject ms) = Inr 0"
| "begin_members_const _ = Inl (JsonException ''Not an object'')"

fun end_members_const :: "json \<Rightarrow> nat result" where
  "end_members_const EmptyObject = bnd (end_members an_object) (\<lambda>(_, i). Inr i)"
| "end_members_const (JObject ms) = Inr (length ms)"
| "end_members_const _ = Inl (JsonException ''Not an object'')"

fun begin_elements :: "json \<Rightarrow> nat result" where
  "begin_elements (JArray xs) = Inr 0"
| "begin_elements _ = Inl (JsonException ''Not an array'')"

fun end_elements :: "json \<Rightarrow> nat result" where
  "end_elements (JArray xs) = Inr (length xs)"
| "end_elements _ = Inl (JsonException ''Not an array'')"

text \<open>\<open>reserve\<close> changes no element; the vectors' capacities are not part of the value.\<close>

fun reserve :: "nat \<Rightarrow> json \<Rightarrow> json" where
  "reserve n EmptyObject = JObject []"
| "reserve n v = v"

definition resize :: "nat \<Rightarrow> 'a \<Rightarrow> 'a list \<Rightarrow> 'a list" where
  "resize n x xs = take n xs @ replicate (n - length xs) x"

fun resize_array_with :: "nat \<Rightarrow> json \<Rightarrow> json \<Rightarrow> json" where
  "resize_array_with n x (JArray xs) = JArray (resize n x xs)"
| "resize_array_with n x v = v"

fun resize_array :: "nat \<Rightarrow> json \<Rightarrow> json" where
  "resize_array n (JArray xs) = JArray (resize n new_json xs)"
| "resize_array n v = v"

section \<open>Multi-dimensional arrays\<close>

definition make_array_n :: "nat \<Rightarrow> json" where
  "make_array_n n = json_of_array (replicate n new_json)"

definition make_array_with :: "nat \<Rightarrow> json \<Rightarrow> json" where
  "make_array_with n v = json_of_array (replicate n v)"

definition make_2d_array :: "nat \<Rightarrow> nat \<Rightarrow> json result" where
  "make_2d_array m n = (let a = json_of_array (replicate m new_json) in
     foldM (\<lambda>i. json_index_set i (make_array_n n)) [0..<json_size a] a)"

definition make_2d_array_with :: "nat \<Rightarrow> nat \<Rightarrow> json \<Rightarrow> json result" where
  "make_2d_array_with m n v = (let a = json_of_array (replicate m new_json) in
     foldM (\<lambda>i. json_index_set i (make_array_with n v)) [0..<json_size a] a)"

definition make_3d_array :: "nat \<Rightarrow> nat \<Rightarrow> nat \<Rightarrow> json result" where
  "make_3d_array m n k = (let a = json_of_array (replicate m new_json) in
     foldM (\<lambda>i a. bnd (make_2d_array n k) (\<lambda>x. json_index_set i x a)) [0..<json_size a] a)"

definition make_3d_array_with :: "nat \<Rightarrow> nat \<Rightarrow> nat \<Rightarrow> json \<Rightarrow> json result" where
  "make_3d_array_with m n k v = (let a = json_of_array (replicate m new_json) in
     foldM (\<lambda>i a. bnd (make_2d_array_with n k v) (\<lambda>x. json_index_set i x a)) [0..<json_size a] a)"

text \<open>
  \<open>make_multi_array<size>(\<dots>)\<close> dispatches on the number of dimensions through \<open>build_array\<close>;
  other lists of dimensions do not compile.
\<close>

fun make_multi_array :: "nat list \<Rightarrow> json option \<Rightarrow> json result option" where
  "make_multi_array [] None = Some (Inr make_array)"
| "make_multi_array [n] None = Some (Inr (make_array_n n))"
| "make_multi_array [n] (Some v) = Some (Inr (make_array_with n v))"
| "make_multi_array [m, n] None = Some (make_2d_array m n)"
| "make_multi_array [m, n] (Some v) = Some (make_2d_array_with m n v)"
| "make_multi_array [m, n, k] None = Some (make_3d_array m n k)"
| "make_multi_array [m, n, k] (Some v) = Some (make_3d_array_with m n k v)"
| "make_multi_array _ _ = None"

section \<open>More conversions\<close>

text \<open>\<open>long\<close> has 64 bits.\<close>

fun as_long :: "json \<Rightarrow> int result" where
  "as_long (JDouble d) = dbl_to_integral (-(2^63)) (2^63) d"
| "as_long (JLongLong w) = Inr (sint w)"
| "as_long (JULongLong w) = Inr (sint w)"
| "as_long (JBool b) = Inr (if b then 1 else 0)"
| "as_long _ = Inl (JsonException ''Not a long'')"

fun as_ulong :: "json \<Rightarrow> int result" where
  "as_ulong (JDouble d) = dbl_to_integral 0 (2^64) d"
| "as_ulong (JLongLong w) = Inr (uint w)"
| "as_ulong (JULongLong w) = Inr (uint w)"
| "as_ulong (JBool b) = Inr (if b then 1 else 0)"
| "as_ulong _ = Inl (JsonException ''Not an unsigned long'')"

definition char_of_byte :: "int \<Rightarrow> char" where
  "char_of_byte i = char_of (nat (i mod 256))"

fun as_char :: "json \<Rightarrow> char result" where
  "as_char (JString s) = Inr (if length s > 0 then s ! 0 else CHR 0x00)"
| "as_char (JLongLong w) = Inr (char_of_byte (sint w))"
| "as_char (JULongLong w) = Inr (char_of_byte (uint w))"
| "as_char (JDouble d) = bnd (dbl_to_integral (-(2^7)) (2^7) d) (\<lambda>i. Inr (char_of_byte i))"
| "as_char (JBool b) = Inr (char_of_byte (if b then 1 else 0))"
| "as_char JNull = Inr (char_of_byte 0)"
| "as_char _ = Inl (JsonException ''Cannot convert to char'')"

definition to_string_with :: "stdio \<Rightarrow> output_format \<Rightarrow> json \<Rightarrow> string result" where
  "to_string_with io fmt v = bnd (to_stream io v (new_serializer fmt False)) (\<lambda>z. Inr (ser_os z))"

fun as_string_with :: "stdio \<Rightarrow> output_format \<Rightarrow> json \<Rightarrow> string result" where
  "as_string_with io fmt (JString s) = Inr s"
| "as_string_with io fmt v = to_string_with io fmt v"

definition pretty_print :: "stdio \<Rightarrow> output_format \<Rightarrow> json \<Rightarrow> string result" where
  "pretty_print io fmt v = bnd (to_stream io v (new_serializer fmt True)) (\<lambda>z. Inr (ser_os z))"

section \<open>Typed access\<close>

datatype int_type = ShortI | UShortI | IntI | UIntI | LongI | ULongI | LongLongI | ULongLongI

fun int_lo :: "int_type \<Rightarrow> int" where
  "int_lo ShortI = - (2^15)" | "int_lo IntI = - (2^31)" | "int_lo LongI = - (2^63)"
| "int_lo LongLongI = - (2^63)" | "int_lo _ = 0"

fun int_hi :: "int_type \<Rightarrow> int" where
  "int_hi ShortI = 2^15 - 1" | "int_hi UShortI = 2^16 - 1" | "int_hi IntI = 2^31 - 1"
| "int_hi UIntI = 2^32 - 1" | "int_hi LongI = 2^63 - 1" | "int_hi ULongI = 2^64 - 1"
| "int_hi LongLongI = 2^63 - 1" | "int_hi ULongLongI = 2^64 - 1"

fun is_signed :: "int_type \<Rightarrow> bool" where
  "is_signed t = (t = ShortI \<or> t = IntI \<or> t = LongI \<or> t = LongLongI)"

datatype scalar_type = StringT | NullT | BoolT | IntT int_type | CharT | DoubleT

datatype scalar = StringV string | NullV | BoolV bool | IntV int_type int | CharV char | DoubleV double

datatype cpp_type = ScalarT scalar_type | ObjectT | ArrayT | VectorT cpp_type

datatype cpp_value = ScalarV scalar | ObjectV members | ArrayV "json list" | VectorV "cpp_value list"

text \<open>\<open>is\<close> of the adapters of the integer types.\<close>

fun int_is :: "int_type \<Rightarrow> json \<Rightarrow> bool" where
  "int_is LongLongI (JLongLong w) = True"
| "int_is ULongLongI (JLongLong w) = (0 \<le> sint w)"
| "int_is t (JLongLong w) = (int_lo t \<le> sint w \<and> sint w \<le> int_hi t)"
| "int_is ULongLongI (JULongLong w) = True"
| "int_is t (JULongLong w) = (uint w \<le> int_hi t)"
| "int_is t _ = False"

fun int_as :: "int_type \<Rightarrow> json \<Rightarrow> int result" where
  "int_as ShortI v = bnd (as_int v) (\<lambda>i. Inr (sint (word_of_int i :: 16 word)))"
| "int_as UShortI v = bnd (as_uint v) (\<lambda>i. Inr (uint (word_of_int i :: 16 word)))"
| "int_as IntI v = as_int v"
| "int_as UIntI v = as_uint v"
| "int_as LongI v = as_long v"
| "int_as ULongI v = as_ulong v"
| "int_as LongLongI v = as_longlong v"
| "int_as ULongLongI v = as_ulonglong v"

fun scalar_is :: "scalar_type \<Rightarrow> json \<Rightarrow> bool" where
  "scalar_is StringT v = is_string v"
| "scalar_is NullT v = is_null v"
| "scalar_is BoolT v = is_bool v"
| "scalar_is (IntT t) v = int_is t v"
| "scalar_is CharT v = (case v of JString s \<Rightarrow> length s = 1 | _ \<Rightarrow> False)"
| "scalar_is DoubleT v = (type_of v = Double_t)"

fun scalar_as :: "stdio \<Rightarrow> double \<Rightarrow> scalar_type \<Rightarrow> json \<Rightarrow> scalar result" where
  "scalar_as io qnan StringT v = bnd (as_string io v) (\<lambda>s. Inr (StringV s))"
| "scalar_as io qnan NullT v = (if is_null v then Inr NullV else Inl (Undefined ''assertion failed''))"
| "scalar_as io qnan BoolT v = bnd (as_bool v) (\<lambda>b. Inr (BoolV b))"
| "scalar_as io qnan (IntT t) v = bnd (int_as t v) (\<lambda>i. Inr (IntV t i))"
| "scalar_as io qnan CharT v = bnd (as_char v) (\<lambda>c. Inr (CharV c))"
| "scalar_as io qnan DoubleT v = bnd (as_double qnan v) (\<lambda>d. Inr (DoubleV d))"

text \<open>\<open>operator=\<close> through the adapters' \<open>assign\<close>.\<close>

fun scalar_assign :: "scalar \<Rightarrow> json \<Rightarrow> json" where
  "scalar_assign (StringV s) self = assign_string s self"
| "scalar_assign NullV self = assign_null self"
| "scalar_assign (BoolV b) self = assign_bool b self"
| "scalar_assign (IntV t i) self =
     (if is_signed t then assign_longlong (word_of_int i) self else assign_ulonglong (word_of_int i) self)"
| "scalar_assign (CharV c) self = assign_string [c] self"
| "scalar_assign (DoubleV d) self = assign_double d self"

text \<open>The conversion of a vector's elements by the constructors.\<close>

fun json_of_scalar :: "scalar \<Rightarrow> json" where
  "json_of_scalar (StringV s) = json_of_string s"
| "json_of_scalar NullV = json_of_null"
| "json_of_scalar (BoolV b) = json_of_bool b"
| "json_of_scalar (IntV t i) =
     (if is_signed t then json_of_longlong (word_of_int i) else json_of_ulonglong (word_of_int i))"
| "json_of_scalar (CharV c) = json_of_char c"
| "json_of_scalar (DoubleV d) = json_of_double d"

definition vector_assign :: "scalar list \<Rightarrow> json \<Rightarrow> json" where
  "vector_assign xs self = json_assign (json_of_range (map json_of_scalar xs)) self"

fun adapter_is :: "cpp_type \<Rightarrow> json \<Rightarrow> bool" where
  "adapter_is (ScalarT t) v = scalar_is t v"
| "adapter_is ObjectT v = is_object v"
| "adapter_is ArrayT v = is_array v"
| "adapter_is (VectorT T) v = (case v of JArray xs \<Rightarrow> list_all (adapter_is T) xs | _ \<Rightarrow> False)"

text \<open>The conversion operators to \<open>object\<close> and \<open>array\<close> assert the type.\<close>

fun to_object :: "json \<Rightarrow> members result" where
  "to_object (JObject ms) = Inr ms"
| "to_object _ = Inl (Undefined ''assertion failed'')"

fun to_array :: "json \<Rightarrow> json list result" where
  "to_array (JArray xs) = Inr xs"
| "to_array _ = Inl (Undefined ''assertion failed'')"

text \<open>A loop that fills a vector of \<open>n\<close> elements.\<close>

fun fill :: "('i \<Rightarrow> 'a result) \<Rightarrow> 'i list \<Rightarrow> 'a list result" where
  "fill f [] = Inr []"
| "fill f (i # is) = bnd (f i) (\<lambda>x. bnd (fill f is) (\<lambda>xs. Inr (x # xs)))"

fun adapter_as :: "stdio \<Rightarrow> double \<Rightarrow> cpp_type \<Rightarrow> json \<Rightarrow> cpp_value result" where
  "adapter_as io qnan (ScalarT t) v = bnd (scalar_as io qnan t v) (\<lambda>x. Inr (ScalarV x))"
| "adapter_as io qnan ObjectT v = bnd (to_object v) (\<lambda>ms. Inr (ObjectV ms))"
| "adapter_as io qnan ArrayT v = bnd (to_array v) (\<lambda>xs. Inr (ArrayV xs))"
| "adapter_as io qnan (VectorT T) v =
     bnd (fill (\<lambda>i. bnd (json_index i v) (adapter_as io qnan T)) [0..<json_size v]) (\<lambda>xs. Inr (VectorV xs))"

text \<open>\<open>as_vector<T>()\<close> reads the elements by \<open>at(i)\<close>, so objects have them too.\<close>

definition as_vector :: "stdio \<Rightarrow> double \<Rightarrow> cpp_type \<Rightarrow> json \<Rightarrow> cpp_value list result" where
  "as_vector io qnan T v = fill (\<lambda>i. bnd (json_at_index i v) (adapter_as io qnan T)) [0..<json_size v]"

section \<open>Words and the integers they hold\<close>

lemma sint_of_int_small:
  "-(2^15) \<le> i \<Longrightarrow> i < 2^15 \<Longrightarrow> sint (word_of_int i :: 16 word) = i"
  "-(2^31) \<le> j \<Longrightarrow> j < 2^31 \<Longrightarrow> sint (word_of_int j :: 32 word) = j"
  "-(2^63) \<le> k \<Longrightarrow> k < 2^63 \<Longrightarrow> sint (word_of_int k :: 64 word) = k"
  by (simp_all add: signed_take_bit_int_eq_self sint_sbintrunc')

lemma uint_of_int_small:
  "0 \<le> i \<Longrightarrow> i < 2^16 \<Longrightarrow> uint (word_of_int i :: 16 word) = i"
  "0 \<le> j \<Longrightarrow> j < 2^32 \<Longrightarrow> uint (word_of_int j :: 32 word) = j"
  "0 \<le> k \<Longrightarrow> k < 2^64 \<Longrightarrow> uint (word_of_int k :: 64 word) = k"
  by (simp_all add: uint_word_of_int)

lemma low_bits_of_sint: "(ucast w :: 32 word) = word_of_int (sint w)" for w :: "64 word"
proof -
  have "uint w = sint w mod 2 ^ 64"
    using uint_word_of_int[of "sint w", where 'a = 64] by simp
  then have "uint w mod 2 ^ 32 = sint w mod 2 ^ 32" by (simp add: mod_mod_cancel)
  then have "uint (ucast w :: 32 word) = uint (word_of_int (sint w) :: 32 word)"
    by (simp add: uint_word_of_int unsigned_ucast_eq take_bit_eq_mod del: of_int_sint)
  then show ?thesis by (simp only: word_uint_eq_iff)
qed

lemma low_bits_of_uint: "(ucast w :: 32 word) = word_of_int (uint w)" for w :: "64 word"
  by (simp add: ucast_eq del: of_int_uint)

lemma sint_bounds64: "- (2^63) \<le> sint w" "sint w < 2^63" for w :: "64 word"
  using sint_range_size[of w] by (simp_all add: word_size)

lemma sint_eq_uint_small: "uint w < 2^63 \<Longrightarrow> sint w = uint w" for w :: "64 word"
  using sint_of_int_small(3)[of "uint w"] uint_ge_0[of w] by simp

lemma uint_eq_sint_nonneg: "0 \<le> sint w \<Longrightarrow> uint w = sint w" for w :: "64 word"
  using sint_bounds64[of w] uint_of_int_small(3)[of "sint w"] by simp

section \<open>Types of C++ values\<close>

fun scalar_has :: "scalar_type \<Rightarrow> scalar \<Rightarrow> bool" where
  "scalar_has StringT (StringV _) = True"
| "scalar_has NullT NullV = True"
| "scalar_has BoolT (BoolV _) = True"
| "scalar_has (IntT t) (IntV t' i) = (t' = t \<and> int_lo t \<le> i \<and> i \<le> int_hi t)"
| "scalar_has CharT (CharV _) = True"
| "scalar_has DoubleT (DoubleV _) = True"
| "scalar_has _ _ = False"

fun has_type :: "cpp_type \<Rightarrow> cpp_value \<Rightarrow> bool" where
  "has_type (ScalarT t) (ScalarV x) = scalar_has t x"
| "has_type ObjectT (ObjectV _) = True"
| "has_type ArrayT (ArrayV _) = True"
| "has_type (VectorT T) (VectorV xs) = list_all (has_type T) xs"
| "has_type _ _ = False"

text \<open>The C++ value is the JSON value, no digit or element lost.\<close>

fun scalar_denotes :: "scalar \<Rightarrow> json \<Rightarrow> bool" where
  "scalar_denotes (StringV s) (JString s') = (s' = s)"
| "scalar_denotes NullV JNull = True"
| "scalar_denotes (BoolV b) (JBool b') = (b' = b)"
| "scalar_denotes (IntV t i) (JLongLong w) = (sint w = i)"
| "scalar_denotes (IntV t i) (JULongLong w) = (uint w = i)"
| "scalar_denotes (CharV c) (JString s) = (s = [c])"
| "scalar_denotes (DoubleV d) (JDouble d') = (d' = d)"
| "scalar_denotes _ _ = False"

primrec denotes :: "cpp_value \<Rightarrow> json \<Rightarrow> bool" where
  "denotes (ScalarV x) v = scalar_denotes x v"
| "denotes (ObjectV ms) v = (v = JObject ms)"
| "denotes (ArrayV xs) v = (v = JArray xs)"
| "denotes (VectorV xs) v =
     (case v of JArray vs \<Rightarrow> list_all2 (\<lambda>d v. d v) (map denotes xs) vs | _ \<Rightarrow> False)"

fun without_objects :: "cpp_type \<Rightarrow> bool" where
  "without_objects ObjectT = False"
| "without_objects (VectorT T) = without_objects T"
| "without_objects _ = True"

section \<open>Typed access is exact\<close>

lemma int_as_exact:
  assumes "int_is t v"
  shows "\<exists>i. int_as t v = Inr i \<and> int_lo t \<le> i \<and> i \<le> int_hi t \<and> scalar_denotes (IntV t i) v"
proof (cases v)
  case [simp]: (JLongLong w)
  show ?thesis
    using assms sint_bounds64[of w] uint_lt2p[of w]
    by (cases t) (auto simp: to_int32_def low_bits_of_sint sint_of_int_small uint_of_int_small uint_eq_sint_nonneg
        simp del: of_int_sint)
next
  case [simp]: (JULongLong w)
  obtain u where u: "uint w = u" "0 \<le> u" "u < 2^64" using uint_lt2p[of w] by simp
  then have "u < 2^63 \<Longrightarrow> sint w = u" using sint_eq_uint_small[of w] by simp
  then show ?thesis
    using assms u
    by (cases t) (auto simp: to_int32_def low_bits_of_uint sint_of_int_small uint_of_int_small
        simp del: of_int_uint)
qed (use assms in \<open>cases t; simp\<close>)+

text \<open>The test for \<open>object\<close> accepts the empty object, the conversion does not.\<close>

lemma empty_object_conversion_aborts:
  "adapter_is ObjectT EmptyObject" "adapter_as io qnan ObjectT EmptyObject = Inl (Undefined ''assertion failed'')"
  by simp_all

lemma scalar_as_exact:
  assumes "scalar_is t v"
  shows "\<exists>x. scalar_as io qnan t v = Inr x \<and> scalar_has t x \<and> scalar_denotes x v"
proof (cases t)
  case (IntT it)
  then show ?thesis using assms int_as_exact[of it v] by auto
next
  case CharT
  then show ?thesis using assms by (auto simp: length_Suc_conv split: json.splits)
qed (use assms in \<open>cases v; simp\<close>)+

lemma fill_ok:
  assumes "\<And>i. i < n \<Longrightarrow> \<exists>x. f i = Inr x \<and> P i x"
  shows "\<exists>xs. fill f [k..<n] = Inr xs \<and> length xs = n - k \<and> (\<forall>i < n - k. P (k + i) (xs ! i))"
proof (induction "n - k" arbitrary: k)
  case (Suc m)
  then have k: "k < n" by simp
  obtain x where x: "f k = Inr x" "P k x" using assms[OF k] by blast
  obtain xs where xs: "fill f [Suc k..<n] = Inr xs" "length xs = n - Suc k"
    "\<forall>i < n - Suc k. P (Suc k + i) (xs ! i)"
    using Suc(1)[of "Suc k"] Suc(2) by fastforce
  have "\<forall>i < n - k. P (k + i) ((x # xs) ! i)"
    using x(2) xs(3) k by (auto simp: nth_Cons split: nat.split)
  then show ?case
    using x(1) xs(1,2) k by (intro exI[of _ "x # xs"]) (simp add: upt_conv_Cons)
qed simp

lemma adapter_as_exact:
  "adapter_is T v \<Longrightarrow> without_objects T \<Longrightarrow>
    \<exists>x. adapter_as io qnan T v = Inr x \<and> has_type T x \<and> denotes x v"
proof (induction T arbitrary: v)
  case (ScalarT t)
  then show ?case using scalar_as_exact[of t v io qnan] by auto
next
  case (VectorT T)
  then obtain vs where v: "v = JArray vs" and vs: "list_all (adapter_is T) vs"
    by (cases v) auto
  have *: "\<exists>x. bnd (json_index i v) (adapter_as io qnan T) = Inr x \<and> (has_type T x \<and> denotes x (vs ! i))"
    if "i < length vs" for i
    using VectorT.IH[of "vs ! i"] VectorT.prems(2) vs that by (simp add: v list_all_length)
  obtain xs where "fill (\<lambda>i. bnd (json_index i v) (adapter_as io qnan T)) [0..<length vs] = Inr xs"
    "length xs = length vs" "\<forall>i < length vs. has_type T (xs ! i) \<and> denotes (xs ! i) (vs ! i)"
    using fill_ok[of "length vs" "\<lambda>i. bnd (json_index i v) (adapter_as io qnan T)"
        "\<lambda>i x. has_type T x \<and> denotes x (vs ! i)" 0] * by auto
  then show ?case by (simp add: v list_all_length list_all2_conv_all_nth)
next
  case ObjectT
  then show ?case by simp
next
  case ArrayT
  then show ?case by (cases v) simp_all
qed

text \<open>Assigning overwrites whatever the value was.\<close>

lemma assign_simps [simp]:
  "assign_string s self = JString s" "assign_double d self = JDouble d"
  "assign_longlong w self = JLongLong w" "assign_ulonglong w self = JULongLong w"
  "assign_bool b self = JBool b" "assign_null self = JNull" "json_assign v self = v"
  by (simp_all add: assign_string_def assign_double_def assign_longlong_def assign_ulonglong_def
      assign_bool_def assign_null_def json_assign_def json_swap_def json_of_string_def json_of_double_def
      json_of_longlong_def json_of_ulonglong_def json_of_bool_def json_of_null_def)

lemma scalar_assign_eq: "scalar_assign x self = json_of_scalar x"
  by (cases x) (simp_all add: json_of_string_def json_of_double_def json_of_longlong_def
      json_of_ulonglong_def json_of_bool_def json_of_null_def json_of_char_def)

lemma int_stored:
  assumes "int_lo t \<le> i" "i \<le> int_hi t"
  shows "int_is t (json_of_scalar (IntV t i))" "int_as t (json_of_scalar (IntV t i)) = Inr i"
proof -
  have r: "is_signed t \<Longrightarrow> sint (word_of_int i :: 64 word) = i" "\<not> is_signed t \<Longrightarrow> uint (word_of_int i :: 64 word) = i"
    using sint_of_int_small(3)[of i] uint_of_int_small(3)[of i] assms by (cases t; simp)+
  show "int_is t (json_of_scalar (IntV t i))"
    using assms r by (cases t) (auto simp: json_of_longlong_def json_of_ulonglong_def)
  then obtain j where "int_as t (json_of_scalar (IntV t i)) = Inr j" "scalar_denotes (IntV t j) (json_of_scalar (IntV t i))"
    using int_as_exact by blast
  with r show "int_as t (json_of_scalar (IntV t i)) = Inr i"
    by (auto simp: json_of_longlong_def json_of_ulonglong_def split: if_splits)
qed

lemma scalar_stored:
  assumes "scalar_has t x"
  shows "scalar_is t (json_of_scalar x)" "scalar_as io qnan t (json_of_scalar x) = Inr x"
proof -
  have "scalar_is t (json_of_scalar x) \<and> scalar_as io qnan t (json_of_scalar x) = Inr x"
  proof (cases x)
    case (IntV t' i)
    then show ?thesis using assms int_stored[of t' i] by (cases t) auto
  qed (use assms in \<open>cases t; simp add: json_of_string_def json_of_double_def json_of_bool_def
      json_of_null_def json_of_char_def\<close>)+
  then show "scalar_is t (json_of_scalar x)" "scalar_as io qnan t (json_of_scalar x) = Inr x" by simp_all
qed

lemma fill_eq: "(\<And>i. i \<in> set is \<Longrightarrow> f i = Inr (g i)) \<Longrightarrow> fill f is = Inr (map g is)"
  by (induction "is") auto

lemma vector_stored:
  assumes "list_all (scalar_has t) xs"
  shows "adapter_is (VectorT (ScalarT t)) (vector_assign xs self)"
    "adapter_as io qnan (VectorT (ScalarT t)) (vector_assign xs self) = Inr (VectorV (map ScalarV xs))"
proof -
  let ?v = "JArray (map json_of_scalar xs)"
  have v: "vector_assign xs self = ?v" by (simp add: vector_assign_def json_of_range_def)
  show "adapter_is (VectorT (ScalarT t)) (vector_assign xs self)"
    using assms scalar_stored(1) by (auto simp: v list_all_iff)
  have "bnd (json_index i ?v) (adapter_as io qnan (ScalarT t)) = Inr (ScalarV (xs ! i))" if "i \<in> set [0..<length xs]" for i
    using assms scalar_stored(2)[of t "xs ! i"] that by (simp add: list_all_length)
  moreover have "map (\<lambda>i. ScalarV (xs ! i)) [0..<length xs] = map ScalarV xs" by (rule nth_equalityI) auto
  ultimately show "adapter_as io qnan (VectorT (ScalarT t)) (vector_assign xs self) = Inr (VectorV (map ScalarV xs))"
    using fill_eq[of "[0..<length xs]" "\<lambda>i. bnd (json_index i ?v) (adapter_as io qnan (ScalarT t))" "\<lambda>i. ScalarV (xs ! i)"]
    unfolding v adapter_as.simps(4) by (simp del: adapter_as.simps json_index.simps)
qed

text \<open>Multi-dimensional arrays.\<close>

lemma index_set_all:
  "i + length xs = n \<Longrightarrow> length ys = i \<Longrightarrow>
    foldM (\<lambda>i. json_index_set i v) [i..<n] (JArray (ys @ xs)) = Inr (JArray (ys @ replicate (length xs) v))"
proof (induction xs arbitrary: i ys)
  case (Cons x xs)
  then have "vec_set (ys @ x # xs) (int i) v = Inr (ys @ v # xs)" by (simp add: list_update_append)
  then show ?case using Cons.IH[of "Suc i" "ys @ [v]"] Cons.prems by (simp add: upt_conv_Cons)
qed simp

lemma make_2d_array_eq:
  "make_2d_array m n = Inr (JArray (replicate m (JArray (replicate n EmptyObject))))"
  "make_2d_array_with m n v = Inr (JArray (replicate m (JArray (replicate n v))))"
  using index_set_all[of 0 "replicate m EmptyObject" m "[]"]
  by (simp_all add: make_2d_array_def make_2d_array_with_def Let_def json_of_array_def new_json_def
      make_array_n_def make_array_with_def)

lemma make_3d_array_eq:
  "make_3d_array m n k = Inr (JArray (replicate m (JArray (replicate n (JArray (replicate k EmptyObject))))))"
  "make_3d_array_with m n k v = Inr (JArray (replicate m (JArray (replicate n (JArray (replicate k v))))))"
  using index_set_all[of 0 "replicate m EmptyObject" m "[]"]
  by (simp_all add: make_3d_array_def make_3d_array_with_def make_2d_array_eq Let_def json_of_array_def new_json_def)

lemma json_copy_eq [simp]: "json_copy v = v"
  by (induction v) (auto intro: map_idI)
end
