(* ===== verification/JsonProxy.thy ===== *)
theory JsonProxy
  imports JsonAccess "HOL-Library.Sublist"
begin

text \<open>
  Access to the members of a JSON value through \<open>object_key_proxy\<close> (json1.hpp): \<open>v[name]\<close> is
  a proxy that holds a reference to \<open>v\<close> and the name, and forwards to the member when it is
  used, so that chains such as \<open>v["a"]["b"] = x\<close> write deep inside a value.

  A proxy is a temporary, used in the full expression that makes it.  Nothing changes the root
  between taking the references of a chain and using its last proxy, so here a reference is the path
  from the root value to where it points, and using it reads or writes the root.  This does not
  hold for a reference that a program keeps across a modification: members are kept in a
  sorted vector, and one that \<open>json_object::set\<close> inserts moves the others, or all of them to other
  storage, so that references into the object dangle.  Which references an assignment leaves valid
  is \<open>kept\<close>; nothing is stated of the others.
\<close>

section \<open>References\<close>

datatype ref_step = Member string | Element nat

type_synonym ref = "ref_step list"

fun step_get :: "ref_step \<Rightarrow> json \<Rightarrow> json result" where
  "step_get (Member n) v = json_at n v"
| "step_get (Element i) v = json_index i v"

text \<open>Writing through a reference to a member or an element replaces it in its place.\<close>

fun step_put :: "ref_step \<Rightarrow> json \<Rightarrow> json \<Rightarrow> json result" where
  "step_put (Member n) x v = bnd (json_at n v) (\<lambda>_. json_set n x v)"
| "step_put (Element i) x v = json_index_set i x v"

fun deref :: "ref \<Rightarrow> json \<Rightarrow> json result" where
  "deref [] v = Inr v"
| "deref (s # p) v = bnd (step_get s v) (deref p)"

text \<open>Call a member function that may change the value the reference points to.\<close>

fun through :: "(json \<Rightarrow> json result) \<Rightarrow> ref \<Rightarrow> json \<Rightarrow> json result" where
  "through f [] v = f v"
| "through f (s # p) v =
     bnd (step_get s v) (\<lambda>x. bnd (through f p x) (\<lambda>x'. step_put s x' v))"

section \<open>The proxy\<close>

record key_proxy =
  px_val :: ref
  px_name :: string

definition json_key :: "ref \<Rightarrow> string \<Rightarrow> key_proxy" where
  "json_key r name = \<lparr>px_val = r, px_name = name\<rparr>"

text \<open>\<open>val_.at(name_)\<close>, which every member function of the proxy but four starts with.\<close>

definition px_ref :: "key_proxy \<Rightarrow> ref" where
  "px_ref px = px_val px @ [Member (px_name px)]"

definition px_read :: "(json \<Rightarrow> 'a result) \<Rightarrow> key_proxy \<Rightarrow> json \<Rightarrow> 'a result" where
  "px_read f px root = bnd (deref (px_val px) root) (\<lambda>v. bnd (json_at (px_name px) v) f)"

definition px_modify :: "(json \<Rightarrow> json result) \<Rightarrow> key_proxy \<Rightarrow> json \<Rightarrow> json result" where
  "px_modify f px root = through f (px_ref px) root"

subsection \<open>Queries\<close>

definition px_size :: "key_proxy \<Rightarrow> json \<Rightarrow> nat result" where
  "px_size = px_read (\<lambda>v. Inr (json_size v))"

definition px_type :: "key_proxy \<Rightarrow> json \<Rightarrow> value_type result" where
  "px_type = px_read (\<lambda>v. Inr (type_of v))"

definition px_has_member :: "string \<Rightarrow> key_proxy \<Rightarrow> json \<Rightarrow> bool result" where
  "px_has_member name = px_read (\<lambda>v. Inr (has_member name v))"

definition px_is_null :: "key_proxy \<Rightarrow> json \<Rightarrow> bool result" where
  "px_is_null = px_read (\<lambda>v. Inr (is_null v))"

definition px_is_empty :: "key_proxy \<Rightarrow> json \<Rightarrow> bool result" where
  "px_is_empty = px_read (\<lambda>v. Inr (is_empty v))"

definition px_is :: "cpp_type \<Rightarrow> key_proxy \<Rightarrow> json \<Rightarrow> bool result" where
  "px_is T = px_read (\<lambda>v. Inr (adapter_is T v))"

definition px_is_string :: "key_proxy \<Rightarrow> json \<Rightarrow> bool result" where
  "px_is_string = px_read (\<lambda>v. Inr (is_string v))"

definition px_is_numeric :: "key_proxy \<Rightarrow> json \<Rightarrow> bool result" where
  "px_is_numeric = px_read (\<lambda>v. Inr (is_numeric v))"

definition px_is_bool :: "key_proxy \<Rightarrow> json \<Rightarrow> bool result" where
  "px_is_bool = px_read (\<lambda>v. Inr (is_bool v))"

definition px_is_object :: "key_proxy \<Rightarrow> json \<Rightarrow> bool result" where
  "px_is_object = px_read (\<lambda>v. Inr (is_object v))"

definition px_is_array :: "key_proxy \<Rightarrow> json \<Rightarrow> bool result" where
  "px_is_array = px_read (\<lambda>v. Inr (is_array v))"

definition px_as_string :: "stdio \<Rightarrow> key_proxy \<Rightarrow> json \<Rightarrow> string result" where
  "px_as_string io = px_read (as_string io)"

definition px_as_string_with :: "stdio \<Rightarrow> output_format \<Rightarrow> key_proxy \<Rightarrow> json \<Rightarrow> string result" where
  "px_as_string_with io fmt = px_read (as_string_with io fmt)"

definition px_as :: "stdio \<Rightarrow> double \<Rightarrow> cpp_type \<Rightarrow> key_proxy \<Rightarrow> json \<Rightarrow> cpp_value result" where
  "px_as io qnan T = px_read (adapter_as io qnan T)"

definition px_as_char :: "key_proxy \<Rightarrow> json \<Rightarrow> char result" where
  "px_as_char = px_read as_char"

definition px_as_bool :: "key_proxy \<Rightarrow> json \<Rightarrow> bool result" where
  "px_as_bool = px_read as_bool"

definition px_as_double :: "double \<Rightarrow> key_proxy \<Rightarrow> json \<Rightarrow> double result" where
  "px_as_double qnan = px_read (as_double qnan)"

definition px_as_int :: "key_proxy \<Rightarrow> json \<Rightarrow> int result" where
  "px_as_int = px_read as_int"

definition px_as_uint :: "key_proxy \<Rightarrow> json \<Rightarrow> int result" where
  "px_as_uint = px_read as_uint"

definition px_as_long :: "key_proxy \<Rightarrow> json \<Rightarrow> int result" where
  "px_as_long = px_read as_long"

definition px_as_ulong :: "key_proxy \<Rightarrow> json \<Rightarrow> int result" where
  "px_as_ulong = px_read as_ulong"

definition px_as_longlong :: "key_proxy \<Rightarrow> json \<Rightarrow> int result" where
  "px_as_longlong = px_read as_longlong"

definition px_as_ulonglong :: "key_proxy \<Rightarrow> json \<Rightarrow> int result" where
  "px_as_ulonglong = px_read as_ulonglong"

definition px_as_vector :: "stdio \<Rightarrow> double \<Rightarrow> cpp_type \<Rightarrow> key_proxy \<Rightarrow> json \<Rightarrow> cpp_value list result" where
  "px_as_vector io qnan T = px_read (as_vector io qnan T)"

definition px_value :: "key_proxy \<Rightarrow> json \<Rightarrow> json result" where
  "px_value = px_read Inr"

definition px_get :: "string \<Rightarrow> key_proxy \<Rightarrow> json \<Rightarrow> json result" where
  "px_get name = px_read (json_get name)"

definition px_get_default :: "string \<Rightarrow> json \<Rightarrow> key_proxy \<Rightarrow> json \<Rightarrow> json result" where
  "px_get_default name d = px_read (json_get_default name d)"

definition px_at :: "string \<Rightarrow> key_proxy \<Rightarrow> json \<Rightarrow> json result" where
  "px_at name = px_read (json_at name)"

definition px_index :: "nat \<Rightarrow> key_proxy \<Rightarrow> json \<Rightarrow> json result" where
  "px_index i = px_read (json_index i)"

definition px_to_string :: "stdio \<Rightarrow> key_proxy \<Rightarrow> json \<Rightarrow> string result" where
  "px_to_string io = px_read (to_string io)"

definition px_to_string_with :: "stdio \<Rightarrow> output_format \<Rightarrow> key_proxy \<Rightarrow> json \<Rightarrow> string result" where
  "px_to_string_with io fmt = px_read (to_string_with io fmt)"

text \<open>The comparisons look at the value the proxy was taken from, not at the member.\<close>

definition px_eq :: "json \<Rightarrow> key_proxy \<Rightarrow> json \<Rightarrow> bool result" where
  "px_eq rhs px root = bnd (deref (px_val px) root) (\<lambda>v. Inr (json_eq v rhs))"

definition px_neq :: "json \<Rightarrow> key_proxy \<Rightarrow> json \<Rightarrow> bool result" where
  "px_neq rhs px root = bnd (deref (px_val px) root) (\<lambda>v. Inr (json_neq v rhs))"

text \<open>\<open>proxy[name]\<close>: a proxy of the member, which must exist.\<close>

definition px_key :: "string \<Rightarrow> key_proxy \<Rightarrow> json \<Rightarrow> key_proxy result" where
  "px_key name px root = bnd (px_read Inr px root) (\<lambda>_. Inr (json_key (px_ref px) name))"

subsection \<open>Modifiers\<close>

text \<open>\<open>proxy = value\<close> sets the member, which need not exist.\<close>

definition px_assign :: "json \<Rightarrow> key_proxy \<Rightarrow> json \<Rightarrow> json result" where
  "px_assign v px root = through (json_set (px_name px) v) (px_val px) root"

definition px_clear :: "key_proxy \<Rightarrow> json \<Rightarrow> json result" where
  "px_clear = px_modify (\<lambda>v. Inr (json_clear v))"

definition px_remove_range :: "nat \<Rightarrow> nat \<Rightarrow> key_proxy \<Rightarrow> json \<Rightarrow> json result" where
  "px_remove_range i j = px_modify (remove_range i j)"

definition px_remove_member :: "string \<Rightarrow> key_proxy \<Rightarrow> json \<Rightarrow> json result" where
  "px_remove_member name = px_modify (\<lambda>v. Inr (remove_member name v))"

definition px_set :: "string \<Rightarrow> json \<Rightarrow> key_proxy \<Rightarrow> json \<Rightarrow> json result" where
  "px_set name x = px_modify (json_set name x)"

definition px_add :: "json \<Rightarrow> key_proxy \<Rightarrow> json \<Rightarrow> json result" where
  "px_add x = px_modify (json_add x)"

definition px_add_at :: "nat \<Rightarrow> json \<Rightarrow> key_proxy \<Rightarrow> json \<Rightarrow> json result" where
  "px_add_at i x = px_modify (json_add_at i x)"

definition px_reserve :: "nat \<Rightarrow> key_proxy \<Rightarrow> json \<Rightarrow> json result" where
  "px_reserve n = px_modify (\<lambda>v. Inr (reserve n v))"

definition px_resize_array :: "nat \<Rightarrow> key_proxy \<Rightarrow> json \<Rightarrow> json result" where
  "px_resize_array n = px_modify (\<lambda>v. Inr (resize_array n v))"

definition px_resize_array_with :: "nat \<Rightarrow> json \<Rightarrow> key_proxy \<Rightarrow> json \<Rightarrow> json result" where
  "px_resize_array_with n x = px_modify (\<lambda>v. Inr (resize_array_with n x v))"

text \<open>\<open>swap\<close> exchanges the argument with the value the proxy was taken from.\<close>

definition px_swap :: "json \<Rightarrow> key_proxy \<Rightarrow> json \<Rightarrow> (json \<times> json) result" where
  "px_swap b px root = bnd (deref (px_val px) root) (\<lambda>v.
     bnd (through (\<lambda>v. Inr (fst (json_swap v b))) (px_val px) root) (\<lambda>root'. Inr (root', snd (json_swap v b))))"

section \<open>References behave like variables\<close>

locale reference =
  fixes get :: "'v \<Rightarrow> 'v result" and put :: "'v \<Rightarrow> 'v \<Rightarrow> 'v result" and ok :: "'v \<Rightarrow> bool"
  assumes put_defined: "get v = Inr y \<Longrightarrow> \<exists>v'. put x v = Inr v'"
    and get_put: "ok v \<Longrightarrow> put x v = Inr v' \<Longrightarrow> get v' = Inr x"
    and ok_get: "ok v \<Longrightarrow> get v = Inr x \<Longrightarrow> ok x"
    and ok_put: "ok v \<Longrightarrow> ok x \<Longrightarrow> put x v = Inr v' \<Longrightarrow> ok v'"
begin

text \<open>Update in place: read, compute, write back.\<close>

definition update :: "('v \<Rightarrow> 'v result) \<Rightarrow> 'v \<Rightarrow> 'v result" where
  "update f v = bnd (get v) (\<lambda>x. bnd (f x) (\<lambda>x'. put x' v))"

lemma get_update:
  assumes "ok v" "get v = Inr x" "f x = Inr x'" "ok x'"
  shows "\<exists>v'. update f v = Inr v' \<and> ok v' \<and> get v' = Inr x' \<and> put x' v = Inr v'"
proof -
  obtain v' where "put x' v = Inr v'" using put_defined[OF assms(2)] by blast
  moreover from this have "ok v'" "get v' = Inr x'" using assms get_put ok_put by blast+
  ultimately show ?thesis using assms by (simp add: update_def)
qed

end

lemma json_at_Inr: "json_at n v = Inr x \<longleftrightarrow> (\<exists>ms. v = JObject ms \<and> ord_find n ms = Some x)"
  by (cases v) (auto split: option.splits)

lemma ord_find_json_wf: "json_wf (JObject ms) \<Longrightarrow> ord_find n ms = Some x \<Longrightarrow> json_wf x"
  by (auto simp: ord_find_in_set[symmetric])

lemma ord_set_json_wf: "json_wf (JObject ms) \<Longrightarrow> json_wf x \<Longrightarrow> json_wf (JObject (ord_set n x ms))"
  using json_set_wf[of "JObject ms" x n] by simp

lemma step_get_wf: "json_wf v \<Longrightarrow> step_get s v = Inr x \<Longrightarrow> json_wf x"
proof (cases s)
  case (Member n)
  then show "json_wf v \<Longrightarrow> step_get s v = Inr x \<Longrightarrow> ?thesis"
    using ord_find_json_wf[of _ n x] by (auto simp: json_at_Inr)
next
  case (Element i)
  then show "json_wf v \<Longrightarrow> step_get s v = Inr x \<Longrightarrow> ?thesis"
    by (cases v) (auto simp: vec_at_Inr)
qed

lemma step_put_wf: "json_wf v \<Longrightarrow> json_wf x \<Longrightarrow> step_put s x v = Inr v' \<Longrightarrow> json_wf v'"
proof (cases s)
  case (Member n)
  then show "json_wf v \<Longrightarrow> json_wf x \<Longrightarrow> step_put s x v = Inr v' \<Longrightarrow> ?thesis"
    using json_set_wf[of v x n v'] by (auto simp: bnd_eq_Inr)
next
  case (Element i)
  have "json_wf (JArray (xs[i := x]))" if "json_wf (JArray xs)" "json_wf x" for xs
    using that set_update_subset_insert[of xs i x] by auto
  then show "json_wf v \<Longrightarrow> json_wf x \<Longrightarrow> step_put s x v = Inr v' \<Longrightarrow> ?thesis"
    using Element by (cases v) (auto simp: vec_set_def split: if_splits)
qed

interpretation step: reference "step_get s" "step_put s" json_wf for s
proof
  fix v x y v'
  show "step_get s v = Inr y \<Longrightarrow> \<exists>v'. step_put s x v = Inr v'"
    by (cases s; cases v) (auto simp: vec_at_def vec_set_def split: if_splits option.splits)
  show "json_wf v \<Longrightarrow> step_put s x v = Inr v' \<Longrightarrow> step_get s v' = Inr x"
    by (cases s; cases v) (auto simp: vec_set_def ord_find_set bnd_eq_Inr split: if_splits option.splits)
qed (fact step_get_wf step_put_wf)+

lemma through_step: "through f (s # p) v = step.update s (through f p) v"
  by (simp add: step.update_def)

lemma deref_append: "deref (p @ q) v = bnd (deref p v) (deref q)"
  by (induction p arbitrary: v) (simp_all add: bnd_assoc cong: bnd_cong)

lemma deref_single: "deref [s] v = step_get s v"
  by (cases "step_get s v") simp_all

lemma deref_wf: "json_wf v \<Longrightarrow> deref p v = Inr x \<Longrightarrow> json_wf x"
  by (induction p arbitrary: v) (auto simp: bnd_eq_Inr dest: step_get_wf)

text \<open>A member function called through a reference changes what the reference points to.\<close>

lemma through_ok:
  assumes "json_wf v" "deref p v = Inr x" "f x = Inr x'" "json_wf x'"
  shows "\<exists>v'. through f p v = Inr v' \<and> json_wf v' \<and> deref p v' = Inr x'"
  using assms(1,2)
proof (induction p arbitrary: v)
  case (Cons s p)
  then obtain y where y: "step_get s v = Inr y" "deref p y = Inr x" by (auto simp: bnd_eq_Inr)
  have "json_wf y" by (rule step_get_wf[OF Cons.prems(1) y(1)])
  then obtain y' where y': "through f p y = Inr y'" "json_wf y'" "deref p y' = Inr x'"
    using Cons.IH y(2) by blast
  obtain v' where "step.update s (through f p) v = Inr v'" "json_wf v'" "step_get s v' = Inr y'"
    using step.get_update[where f = "through f p", OF Cons.prems(1) y(1) y'(1,2)] by blast
  with y'(3) show ?case by (simp add: through_step del: through.simps)
qed (use assms(3,4) in simp)

text \<open>It changes nothing that the reference does not lead to.\<close>

lemma step_frame:
  "json_wf v \<Longrightarrow> step_put s x v = Inr v' \<Longrightarrow> s' \<noteq> s \<Longrightarrow> step_get s' v' = step_get s' v"
  by (cases s; cases s'; cases v)
    (auto simp: vec_set_def vec_at_def ord_find_set bnd_eq_Inr split: if_splits option.splits)

lemma through_frame:
  "json_wf v \<Longrightarrow> through f p v = Inr v' \<Longrightarrow> q \<parallel> p \<Longrightarrow> deref q v' = deref q v"
proof (induction p arbitrary: v v' q)
  case (Cons s p)
  obtain y y' where y: "step_get s v = Inr y" "through f p y = Inr y'" "step_put s y' v = Inr v'"
    using Cons.prems(2) by (auto simp: bnd_eq_Inr)
  obtain s' q' where q: "q = s' # q'" using Cons.prems(3) by (cases q) auto
  show ?case
  proof (cases "s' = s")
    case True
    then have "q' \<parallel> p" using Cons.prems(3) q by (simp add: parallel_def)
    then have "deref q' y' = deref q' y"
      using Cons.IH[OF step_get_wf[OF Cons.prems(1) y(1)] y(2)] by blast
    moreover have "step_get s v' = Inr y'" by (rule step.get_put[OF Cons.prems(1) y(3)])
    ultimately show ?thesis using True q y(1) by simp
  next
    case False
    then show ?thesis using step_frame[OF Cons.prems(1) y(3)] q by simp
  qed
qed auto

lemma json_set_step:
  assumes "json_wf v" "json_set n x v = Inr v'"
  shows "step_get (Member n) v' = Inr x"
    and "s \<noteq> Member n \<Longrightarrow> step_get s v' = Inr y \<longleftrightarrow> step_get s v = Inr y"
proof -
  obtain ms where v': "v' = JObject (ord_set n x ms)" "v = JObject ms \<or> v = EmptyObject \<and> ms = []" "ord_inv ms"
    using assms by (cases v) auto
  then show "step_get (Member n) v' = Inr x" by (simp add: ord_find_set)
  show "s \<noteq> Member n \<Longrightarrow> step_get s v' = Inr y \<longleftrightarrow> step_get s v = Inr y"
    using v' by (cases s) (auto simp: ord_find_set split: option.splits)
qed

text \<open>
  The references, held elsewhere, that stay valid when \<open>px_assign\<close> sets member \<open>n\<close> of the object at
  \<open>p\<close>: if it has that member, its value is assigned and all but those to it stay; otherwise a
  member is inserted and only those that do not lead into the object stay.
\<close>

definition kept :: "ref \<Rightarrow> string \<Rightarrow> json \<Rightarrow> ref \<Rightarrow> bool" where
  "kept p n obj q = (if has_member n obj then q \<parallel> p @ [Member n] else q \<parallel> p)"

lemma px_assign_ok:
  assumes "json_wf root" "json_wf v" "deref p root = Inr obj" "is_object obj"
  shows "\<exists>root'. px_assign v (json_key p n) root = Inr root' \<and> json_wf root' \<and>
    px_value (json_key p n) root' = Inr v \<and> (\<forall>q. kept p n obj q \<longrightarrow> deref q root' = deref q root)"
proof -
  have obj: "json_wf obj" by (rule deref_wf[OF assms(1,3)])
  obtain obj' where obj': "json_set n v obj = Inr obj'" using assms(4) json_set_total by blast
  then have wf: "json_wf obj'" using json_set_wf obj assms(2) by blast
  obtain root' where r: "through (json_set n v) p root = Inr root'" "json_wf root'" "deref p root' = Inr obj'"
    using through_ok[of root p obj "json_set n v", OF assms(1,3) obj' wf] by blast
  have "deref q root' = deref q root" if q: "kept p n obj q" for q
  proof (cases "q \<parallel> p")
    case True
    then show ?thesis using through_frame[OF assms(1) r(1)] by simp
  next
    case False
    then have h: "has_member n obj" "q \<parallel> p @ [Member n]" using q by (auto simp: kept_def split: if_splits)
    then obtain t where t: "q = p @ t" using False by (auto simp: parallel_def prefix_def)
    then obtain s t' where s: "t = s # t'" "s \<noteq> Member n" using h by (cases t) auto
    have "step_put (Member n) v obj = Inr obj'"
      using h(1) obj' by (cases obj) (auto split: option.splits)
    from step_frame[OF obj this s(2)] show ?thesis
      using t s(1) r(3) assms(3) by (simp add: deref_append)
  qed
  moreover have "px_value (json_key p n) root' = Inr v"
    using json_set_step(1)[OF obj obj'] r(3) by (simp add: px_value_def px_read_def json_key_def)
  ultimately show ?thesis using r(1,2) by (auto simp: px_assign_def json_key_def)
qed

text \<open>The other modifiers act on the member as they act on a value of their own.\<close>

lemma px_modify_ok:
  assumes "json_wf root" "px_value px root = Inr x" "f x = Inr x'" "json_wf x'"
  shows "\<exists>root'. px_modify f px root = Inr root' \<and> json_wf root' \<and> px_value px root' = Inr x' \<and>
    (\<forall>q. q \<parallel> px_ref px \<longrightarrow> deref q root' = deref q root)"
proof -
  have v: "px_value px r = deref (px_ref px) r" for r
    by (simp add: px_value_def px_read_def px_ref_def deref_append deref_single cong: bnd_cong)
  obtain root' where "through f (px_ref px) root = Inr root'" "json_wf root'" "deref (px_ref px) root' = Inr x'"
    using through_ok[of root "px_ref px" x f] assms v by auto
  then show ?thesis using through_frame[OF assms(1)] by (auto simp: px_modify_def v)
qed

end
