(* ===== verification/JsonProperties.thy ===== *)
theory JsonProperties
  imports JsonSafe JsonEstimate JsonProxy
begin

text \<open>The properties of the JSON library as the server uses it.\<close>

section \<open>Values\<close>

text \<open>
  Member access on a well-formed object behaves as a finite map: after \<open>set\<close> the
  member has the new value, every other member is as before, and the value stays well formed,
  its members strictly sorted at every depth.
\<close>

lemma set_member_then_get:
  assumes "json_wf j" "json_wf v" "is_object j"
  shows "\<exists>j'. json_set name v j = Inr j' \<and> json_wf j' \<and>
    (\<forall>name'. json_get name' j' = (if name' = name then Inr v else json_get name' j))"
  using assms json_set_total json_set_wf json_get_set by metis

text \<open>
  \<open>operator==\<close> on objects compares the member names only: two well-formed objects with
  the same names are equal whatever their values are.
\<close>

lemma objects_equal_by_names:
  assumes "json_wf (JObject ms)" "json_wf (JObject rs)"
  shows "json_eq (JObject ms) (JObject rs) \<longleftrightarrow> map fst ms = map fst rs"
  using assms json_object_eq_names by simp

section \<open>Typed access\<close>

text \<open>
  C28. What \<open>is<T>()\<close> accepts, \<open>as<T>()\<close> returns: a C++ value of the type, in its range, that is
  the JSON value without truncation, for vectors element by element.  Types with \<open>object\<close> in
  them are excluded: \<open>is<object>()\<close> accepts the empty object and \<open>as<object>()\<close> aborts on it.
\<close>

theorem typed_access_is_exact:
  assumes "adapter_is T v" "without_objects T"
  shows "\<exists>x. adapter_as io qnan T v = Inr x \<and> has_type T x \<and> denotes x v"
  by (rule adapter_as_exact[OF assms])

theorem typed_access_is_exact_witness:
  "\<forall>io. \<exists>x. adapter_as io 0 (VectorT (ScalarT (IntT ShortI))) (JArray [JLongLong 7, JULongLong 9]) = Inr x \<and>
     has_type (VectorT (ScalarT (IntT ShortI))) x \<and> denotes x (JArray [JLongLong 7, JULongLong 9])"
proof
  fix io
  show "\<exists>x. adapter_as io 0 (VectorT (ScalarT (IntT ShortI))) (JArray [JLongLong 7, JULongLong 9]) = Inr x \<and>
     has_type (VectorT (ScalarT (IntT ShortI))) x \<and> denotes x (JArray [JLongLong 7, JULongLong 9])"
    by (rule typed_access_is_exact) simp_all
qed

text \<open>
  A C++ value assigned to a JSON value of any kind, a scalar or a vector of scalars of one
  type, is then recognised as one of its type and read back unchanged.
\<close>

lemma assigned_value_reads_back:
  assumes "scalar_has t x" "list_all (scalar_has t) xs"
  shows "adapter_is (ScalarT t) (scalar_assign x self) \<and>
    adapter_as io qnan (ScalarT t) (scalar_assign x self) = Inr (ScalarV x) \<and>
    adapter_is (VectorT (ScalarT t)) (vector_assign xs self) \<and>
    adapter_as io qnan (VectorT (ScalarT t)) (vector_assign xs self) = Inr (VectorV (map ScalarV xs))"
  using scalar_stored[OF assms(1)] vector_stored[OF assms(2)]
  by (simp add: scalar_assign_eq del: adapter_as.simps(4) adapter_is.simps(4))

section \<open>Writing\<close>

text \<open>
  C23. The event driven serializer, with its stack of counts and flags, writes the compact text
  of the value given by a plain recursion over it, and with the default format it never fails.
\<close>

theorem serializer_writes_compact_text:
  "to_string io v = json_text io default_output_format v \<and> (\<exists>t. to_string io v = Inr t)"
  using to_string_eq json_text_default(1) by simp

section \<open>Reading\<close>

text \<open>
  C26. The parser ends on every input, with a value or with \<open>json_parse_exception\<close>: none of its
  loops runs forever, it never looks outside its buffer, its assertion on the look-ahead holds,
  and it never takes the back of an empty stack.
\<close>

theorem parser_ends_without_undefined_behaviour:
  "(\<exists>j. parse_string io s = Some (Inr j)) \<or> (\<exists>m. parse_string io s = Some (Inl (JsonParseException m)))"
proof -
  obtain r where "parse_string io s = Some r" using parse_string_ends by blast
  then show ?thesis using parse_string_fine[of io s] by (cases r) auto
qed

text \<open>
  C27. A \<open>readable\<close> object or array is read back as \<open>reread\<close> of itself from the text it is written
  as, if that text is shorter than the reader's buffer.  Readable: at every depth there is no
  double and no integer \<open>-2^63\<close>, strings and names have no backslash and no control character but
  the five with an escape of their own, and the members of an object are sorted by name.
  \<open>reread\<close>: non-negative signed integers come back unsigned, and the empty object comes back with
  an empty list of members; all else is equal.
\<close>

theorem written_text_reads_back:
  assumes "readable v" "is_object v \<or> is_array v" "to_string io v = Inr t" "length t < default_max_buffer_length"
  shows "parse_string io t = Some (Inr (reread v))"
proof -
  have "t = plain_text v" using assms(1,3) json_text_plain(1)[of v io] by (simp add: to_string_eq)
  then show ?thesis using parse_plain_text[OF assms(1,2)] assms(4) by simp
qed

lemma written_text_reads_back_witness:
  "\<forall>io. parse_string io ([CHR ''{'', CHR 0x22, CHR ''a'', CHR 0x22, CHR '':''] @ ''[true,null,7]}'') =
    Some (Inr (JObject [(''a'', JArray [JBool True, JNull, JULongLong 7])]))"
proof
  fix io
  let ?v = "JObject [(''a'', JArray [JBool True, JNull, JULongLong 7])]"
  let ?t = "[CHR ''{'', CHR 0x22, CHR ''a'', CHR 0x22, CHR '':''] @ ''[true,null,7]}''"
  have n: "nat_to_string 7 = ''7''" by code_simp
  have r: "readable ?v" by (simp add: char_ok_def is_control_character_def)
  have "plain_text ?v = ?t" by (simp add: quote_def char_text_def named_escape_def n)
  then have "to_string io ?v = Inr ?t" using json_text_plain(1)[of ?v io] r by (simp add: to_string_eq)
  from written_text_reads_back[OF r _ this]
  show "parse_string io ?t = Some (Inr ?v)" by (simp add: default_max_buffer_length_def)
qed

section \<open>Capacity estimates\<close>

text \<open>
  Whatever the buffer holds, the capacity estimates end without reading outside it; and when
  the buffer holds the rest of a written array or object, up to the window's end, the estimate is
  exactly the number of its elements or members.
\<close>

lemma estimates_are_safe_and_exact:
  assumes "buffer_length st < length (buffer st)"
  shows "(\<exists>m n. estimate_minimum_array_capacity st = Inr m \<and> estimate_minimum_object_capacity st = Inr n) \<and>
    (\<forall>v c t. readable v \<and> plain_text v = c # t \<and>
        text_at st (min (buffer_length st) estimation_buffer_length) (buffer_position st) t \<longrightarrow>
      (is_array v \<longrightarrow> estimate_minimum_array_capacity st = Inr (json_size v)) \<and>
      (is_object v \<longrightarrow> estimate_minimum_object_capacity st = Inr (json_size v)))"
proof -
  have "roomy st (min (buffer_length st) estimation_buffer_length)" using assms by (simp add: roomy_def)
  then have "\<exists>m n. estimate_minimum_array_capacity st = Inr m \<and> estimate_minimum_object_capacity st = Inr n"
    using estimate_array_in estimate_object_in
    unfolding estimate_minimum_array_capacity_def estimate_minimum_object_capacity_def by blast
  moreover have "is_array v \<Longrightarrow> estimate_minimum_array_capacity st = Inr (json_size v)"
    "is_object v \<Longrightarrow> estimate_minimum_object_capacity st = Inr (json_size v)"
    if "readable v" "plain_text v = c # t"
      "text_at st (min (buffer_length st) estimation_buffer_length) (buffer_position st) t" for v c t
    using that estimate_array_counts estimate_object_counts[of _ st] estimate_object_counts[of "[]" st]
    by (cases v; auto simp: estimate_minimum_array_capacity_def estimate_minimum_object_capacity_def)+
  ultimately show ?thesis by blast
qed

end
