(* ===== verification/RedisReply.thy ===== *)
theory RedisReply
  imports Prelude
begin

text \<open>
  Redis replies (cpp_redis): \<open>cpp_redis::reply\<close>, the value handed to callbacks (reply.hpp,
  reply.cpp), and the class hierarchy \<open>cpp_redis::replies::reply\<close> the builders fill
  (replies/*.hpp, replies/*.cpp), here a datatype with one constructor per class.
\<close>

section \<open>Values\<close>

datatype reply_type = TArray | TBulkString | TError | TInteger | TSimpleString | TNull

text \<open>\<open>m_int\<close> is not initialized by most constructors: \<open>None\<close>.\<close>

datatype redis_reply =
  RedisReply (rtype: reply_type) (rows: "redis_reply list") (rstr: string) (rint: "int option")

datatype typed_reply =
    ArrayReply "redis_reply list"
  | BulkStringReply bool string      \<comment> \<open>\<open>m_is_null\<close>, \<open>m_str\<close>\<close>
  | ErrorReply string
  | IntegerReply int
  | SimpleStringReply string

section \<open>\<open>cpp_redis::reply\<close>\<close>

definition null_reply :: redis_reply where
  "null_reply = RedisReply TNull [] [] None"

text \<open>The converting constructors.\<close>

fun make_reply :: "typed_reply \<Rightarrow> redis_reply" where
  "make_reply (ArrayReply rs) = RedisReply TArray rs [] None"
| "make_reply (BulkStringReply null s) = RedisReply (if null then TNull else TBulkString) [] s None"
| "make_reply (ErrorReply s) = RedisReply TError [] s None"
| "make_reply (IntegerReply i) = RedisReply TInteger [] [] (Some i)"
| "make_reply (SimpleStringReply s) = RedisReply TSimpleString [] s None"

text \<open>
  The assignment operators keep the other fields.  The one for integers assigns to \<open>m_str\<close>:
  a string assigned an \<open>int\<close> becomes the character of that code.
\<close>

fun assign_reply :: "typed_reply \<Rightarrow> redis_reply \<Rightarrow> redis_reply" where
  "assign_reply (ArrayReply rs) (RedisReply t rs0 s i) = RedisReply TArray rs s i"
| "assign_reply (BulkStringReply null s') (RedisReply t rs s i) =
     RedisReply (if null then TNull else TBulkString) rs s' i"
| "assign_reply (ErrorReply s') (RedisReply t rs s i) = RedisReply TError rs s' i"
| "assign_reply (IntegerReply n) (RedisReply t rs s i) =
     RedisReply TInteger rs [char_of (nat (n mod 256))] i"
| "assign_reply (SimpleStringReply s') (RedisReply t rs s i) = RedisReply TSimpleString rs s' i"

definition reply_is_array :: "redis_reply \<Rightarrow> bool" where "reply_is_array r = (rtype r = TArray)"
definition reply_is_simple_string :: "redis_reply \<Rightarrow> bool" where
  "reply_is_simple_string r = (rtype r = TSimpleString)"
definition reply_is_bulk_string :: "redis_reply \<Rightarrow> bool" where
  "reply_is_bulk_string r = (rtype r = TBulkString)"
definition reply_is_error :: "redis_reply \<Rightarrow> bool" where "reply_is_error r = (rtype r = TError)"
definition reply_is_integer :: "redis_reply \<Rightarrow> bool" where "reply_is_integer r = (rtype r = TInteger)"
definition reply_is_null :: "redis_reply \<Rightarrow> bool" where "reply_is_null r = (rtype r = TNull)"

definition reply_is_string :: "redis_reply \<Rightarrow> bool" where
  "reply_is_string r = (reply_is_simple_string r \<or> reply_is_bulk_string r \<or> reply_is_error r)"

definition reply_as_integer :: "redis_reply \<Rightarrow> int result" where
  "reply_as_integer r = (case rint r of
     None \<Rightarrow> Inl (Undefined ''uninitialized integer'') | Some i \<Rightarrow> Inr i)"

section \<open>\<open>cpp_redis::replies::reply\<close>\<close>

fun typed_type :: "typed_reply \<Rightarrow> reply_type" where
  "typed_type (ArrayReply _) = TArray"
| "typed_type (BulkStringReply _ _) = TBulkString"
| "typed_type (ErrorReply _) = TError"
| "typed_type (IntegerReply _) = TInteger"
| "typed_type (SimpleStringReply _) = TSimpleString"

text \<open>The checked downcasts.\<close>

definition as_kind :: "reply_type \<Rightarrow> string \<Rightarrow> typed_reply \<Rightarrow> typed_reply result" where
  "as_kind t what r = (if typed_type r \<noteq> t then Inl (RedisError (''Reply is not '' @ what)) else Inr r)"

definition typed_as_array :: "typed_reply \<Rightarrow> typed_reply result" where
  "typed_as_array = as_kind TArray ''an array''"
definition typed_as_bulk_string :: "typed_reply \<Rightarrow> typed_reply result" where
  "typed_as_bulk_string = as_kind TBulkString ''a bulk string''"
definition typed_as_error :: "typed_reply \<Rightarrow> typed_reply result" where
  "typed_as_error = as_kind TError ''an error''"
definition typed_as_integer :: "typed_reply \<Rightarrow> typed_reply result" where
  "typed_as_integer = as_kind TInteger ''an integer''"
definition typed_as_simple_string :: "typed_reply \<Rightarrow> typed_reply result" where
  "typed_as_simple_string = as_kind TSimpleString ''a simple string''"

subsection \<open>\<open>array_reply\<close>\<close>

text \<open>The bound test accepts the index one past the end, which is then dereferenced.\<close>

definition array_get :: "redis_reply list \<Rightarrow> nat \<Rightarrow> redis_reply result" where
  "array_get rs idx = (if idx > length rs then Inl (RedisError ''Index out of range'')
     else if idx = length rs then Inl (Undefined ''end iterator'')
     else Inr (rs ! idx))"

definition add_row :: "redis_reply \<Rightarrow> redis_reply list \<Rightarrow> redis_reply list" where
  "add_row r rs = rs @ [r]"

section \<open>Lemmas\<close>

lemma array_get_cases:
  "array_get rs i = Inr r \<longleftrightarrow> i < length rs \<and> r = rs ! i"
  "array_get rs i = Inl (RedisError ''Index out of range'') \<longleftrightarrow> length rs < i"
  by (auto simp: array_get_def)

text \<open>Each kind of typed reply passes exactly its own downcast.\<close>

lemma as_kind_cases: "as_kind t w r = Inr r' \<longleftrightarrow> r' = r \<and> typed_type r = t"
  by (auto simp: as_kind_def)

text \<open>Constructing a reply and assigning to a fresh one agree, except for integers.\<close>

lemma assign_make:
  "(\<nexists>i. r = IntegerReply i) \<Longrightarrow> assign_reply r null_reply = make_reply r"
  "assign_reply (IntegerReply i) null_reply \<noteq> make_reply (IntegerReply i)"
  by (cases r; simp add: null_reply_def) (simp add: null_reply_def)

end
