(* ===== verification/RedisBuilder.thy ===== *)
theory RedisBuilder
  imports RedisReply
begin

text \<open>
  The incremental parser of the Redis protocol (cpp_redis/builders).  Every builder consumes
  a prefix of a string buffer it is given by reference and keeps its state between calls, so
  \<open>operator<<\<close> returns the exception, if one was thrown, with the builder and the buffer as
  they are then: the objects survive an exception.

  \<open>builder\<close> is the class hierarchy under \<open>builder_iface\<close>.
\<close>

section \<open>State\<close>

record int_builder =
  ib_nbr :: int
  ib_mult :: int                 \<comment> \<open>\<open>m_negative_multiplicator\<close>\<close>
  ib_ready :: bool
  ib_reply :: int

record simple_builder =
  sb_str :: string
  sb_ready :: bool
  sb_reply :: string

record bulk_builder =
  bb_int :: int_builder
  bb_size :: int
  bb_str :: string
  bb_null :: bool
  bb_ready :: bool
  bb_reply :: "bool \<times> string"

text \<open>An array builder: size, \<open>m_array_size\<close> (uninitialized at first), row builder, rows, ready.\<close>

datatype builder =
    SimpleB simple_builder
  | ErrorB simple_builder string
  | IntB int_builder
  | BulkB bulk_builder
  | ArrayB int_builder "nat option" "builder option" "redis_reply list" bool

type_synonym 'a step = "cpp_error option \<times> 'a \<times> string"

definition new_int :: int_builder where
  "new_int = \<lparr>ib_nbr = 0, ib_mult = 1, ib_ready = False, ib_reply = 0\<rparr>"

definition new_simple :: simple_builder where
  "new_simple = \<lparr>sb_str = [], sb_ready = False, sb_reply = []\<rparr>"

definition new_bulk :: bulk_builder where
  "new_bulk = \<lparr>bb_int = new_int, bb_size = 0, bb_str = [], bb_null = False, bb_ready = False,
     bb_reply = (False, [])\<rparr>"

definition new_array :: builder where
  "new_array = ArrayB new_int None None [] False"

definition create_builder :: "char \<Rightarrow> builder result" where
  "create_builder c =
     (if c = CHR ''+'' then Inr (SimpleB new_simple)
      else if c = CHR ''-'' then Inr (ErrorB new_simple [])
      else if c = CHR '':'' then Inr (IntB new_int)
      else if c = CHR ''$'' then Inr (BulkB new_bulk)
      else if c = CHR ''*'' then Inr new_array
      else Inl (RedisError ''Invalid data''))"

section \<open>Integers\<close>

text \<open>
  The loop over the characters before the end sequence.  It updates the builder as it goes;
  an overflow of the \<open>int\<close> is undefined.
\<close>

fun int_loop :: "bool \<Rightarrow> string \<Rightarrow> int_builder \<Rightarrow> cpp_error option \<times> int_builder" where
  "int_loop first [] b = (None, b)"
| "int_loop first (c # s) b =
     (if first \<and> ib_mult b = 1 \<and> c = CHR ''-'' then int_loop False s (b\<lparr>ib_mult := -1\<rparr>)
      else if \<not> is_digit c then
        (Some (RedisError ''Invalid character for integer redis reply''), b)
      else (let n = ib_nbr b * 10 + int (digit_val c) in
            if int_range n then int_loop False s (b\<lparr>ib_nbr := n\<rparr>)
            else (Some (Undefined ''int overflow''), b)))"

definition get_integer :: "int_builder \<Rightarrow> int" where
  "get_integer b = ib_mult b * ib_nbr b"

definition int_feed :: "int_builder \<Rightarrow> string \<Rightarrow> int_builder step" where
  "int_feed b buf =
     (if ib_ready b then (None, b, buf)
      else (case find_crlf buf of
        None \<Rightarrow> (None, b, buf)
      | Some e \<Rightarrow>
         (case int_loop True (take e buf) b of
            (Some err, b) \<Rightarrow> (Some err, b, buf)
          | (None, b) \<Rightarrow>
              (None, b\<lparr>ib_reply := get_integer b, ib_ready := True\<rparr>, drop (e + 2) buf))))"

section \<open>Simple strings and errors\<close>

definition simple_feed :: "simple_builder \<Rightarrow> string \<Rightarrow> simple_builder step" where
  "simple_feed b buf =
     (if sb_ready b then (None, b, buf)
      else (case find_crlf buf of
        None \<Rightarrow> (None, b, buf)
      | Some e \<Rightarrow> (None, b\<lparr>sb_str := take e buf, sb_reply := take e buf, sb_ready := True\<rparr>,
                   drop (e + 2) buf)))"

definition error_feed :: "simple_builder \<Rightarrow> string \<Rightarrow> string \<Rightarrow> builder step" where
  "error_feed b r buf = (case simple_feed b buf of
     (err, b, buf) \<Rightarrow> (err, ErrorB b (if sb_ready b then sb_str b else r), buf))"

section \<open>Bulk strings\<close>

definition bulk_build_reply :: "bulk_builder \<Rightarrow> bulk_builder" where
  "bulk_build_reply b = b\<lparr>bb_reply := (bb_null b, bb_str b), bb_ready := True\<rparr>"

text \<open>\<open>fetch_size\<close>: the boolean is the value returned.\<close>

definition fetch_size :: "bulk_builder \<Rightarrow> string \<Rightarrow> (bool \<times> bulk_builder) step" where
  "fetch_size b buf =
     (if ib_ready (bb_int b) then (None, (True, b), buf)
      else (case int_feed (bb_int b) buf of
        (Some err, ib, buf) \<Rightarrow> (Some err, (False, b\<lparr>bb_int := ib\<rparr>), buf)
      | (None, ib, buf) \<Rightarrow>
          (let b = b\<lparr>bb_int := ib\<rparr> in
           if \<not> ib_ready ib then (None, (False, b), buf)
           else (let b = b\<lparr>bb_size := get_integer ib\<rparr> in
                 if bb_size b = -1 then (None, (True, bulk_build_reply (b\<lparr>bb_null := True\<rparr>)), buf)
                 else (None, (True, b), buf)))))"

text \<open>
  The size is converted to \<open>unsigned int\<close> for the length test but used as an \<open>int\<close> index: a
  negative size, or one whose sum with 2 overflows, makes the indexing undefined.
\<close>

definition fetch_str :: "bulk_builder \<Rightarrow> string \<Rightarrow> bulk_builder step" where
  "fetch_str b buf =
     (if int (length buf) < (bb_size b mod 2^32 + 2) mod 2^32 then (None, b, buf)
      else if bb_size b < 0 \<or> 2^31 \<le> bb_size b + 2 then (Some (Undefined ''string index''), b, buf)
      else (let n = nat (bb_size b) in
        if buf ! n \<noteq> CR \<or> buf ! (n + 1) \<noteq> LF then (Some (RedisError ''Wrong ending sequence''), b, buf)
        else (None, bulk_build_reply (b\<lparr>bb_str := take n buf\<rparr>), drop (n + 2) buf)))"

definition bulk_feed :: "bulk_builder \<Rightarrow> string \<Rightarrow> bulk_builder step" where
  "bulk_feed b buf =
     (if bb_ready b then (None, b, buf)
      else (case fetch_size b buf of
        (Some err, (_, b), buf) \<Rightarrow> (Some err, b, buf)
      | (None, (ok, b), buf) \<Rightarrow> if \<not> ok \<or> bb_ready b then (None, b, buf) else fetch_str b buf))"

section \<open>Arrays, and the interface\<close>

fun reply_ready :: "builder \<Rightarrow> bool" where
  "reply_ready (SimpleB b) = sb_ready b"
| "reply_ready (ErrorB b r) = sb_ready b"
| "reply_ready (IntB b) = ib_ready b"
| "reply_ready (BulkB b) = bb_ready b"
| "reply_ready (ArrayB ib n cur rs ready) = ready"

fun get_reply :: "builder \<Rightarrow> redis_reply" where
  "get_reply (SimpleB b) = make_reply (SimpleStringReply (sb_reply b))"
| "get_reply (ErrorB b r) = make_reply (ErrorReply r)"
| "get_reply (IntB b) = make_reply (IntegerReply (ib_reply b))"
| "get_reply (BulkB b) = make_reply (BulkStringReply (fst (bb_reply b)) (snd (bb_reply b)))"
| "get_reply (ArrayB ib n cur rs ready) = make_reply (ArrayReply rs)"

text \<open>\<open>fetch_array_size\<close>: the boolean is the value returned, the flag sets \<open>m_reply_ready\<close>.\<close>

definition fetch_array_size ::
  "int_builder \<Rightarrow> nat option \<Rightarrow> bool \<Rightarrow> string \<Rightarrow> (bool \<times> int_builder \<times> nat option \<times> bool) step" where
  "fetch_array_size ib n ready buf =
     (if ib_ready ib then (None, (True, ib, n, ready), buf)
      else (case int_feed ib buf of
        (Some err, ib, buf) \<Rightarrow> (Some err, (False, ib, n, ready), buf)
      | (None, ib, buf) \<Rightarrow>
          if \<not> ib_ready ib then (None, (False, ib, n, ready), buf)
          else (let size = get_integer ib in
                if size < 0 then (Some (RedisError ''Invalid array size''), (False, ib, n, ready), buf)
                else (None, (True, ib, Some (nat size), ready \<or> size = 0), buf))))"

fun builder_size :: "builder \<Rightarrow> nat" where
  "builder_size (ArrayB ib n cur rs ready) =
     3 + (case cur of None \<Rightarrow> 0 | Some b \<Rightarrow> 1 + builder_size b)"
| "builder_size b = 1"

text \<open>
  \<open>operator<<\<close> of the builders.  The loop of \<open>array_builder\<close> calls \<open>build_row\<close>, which feeds the
  builder of the current row; the test against an uninitialized \<open>m_array_size\<close> is undefined.
\<close>

function (domintros) feed :: "builder \<Rightarrow> string \<Rightarrow> builder step"
  and rows_loop :: "int_builder \<Rightarrow> nat option \<Rightarrow> builder option \<Rightarrow> redis_reply list \<Rightarrow> bool \<Rightarrow> string
    \<Rightarrow> builder step" where
  "feed (SimpleB b) buf = (case simple_feed b buf of (err, b, buf) \<Rightarrow> (err, SimpleB b, buf))"
| "feed (ErrorB b r) buf = error_feed b r buf"
| "feed (IntB b) buf = (case int_feed b buf of (err, b, buf) \<Rightarrow> (err, IntB b, buf))"
| "feed (BulkB b) buf = (case bulk_feed b buf of (err, b, buf) \<Rightarrow> (err, BulkB b, buf))"
| "feed (ArrayB ib n cur rs ready) buf =
     (if ready then (None, ArrayB ib n cur rs ready, buf)
      else (case fetch_array_size ib n ready buf of
        (Some err, (_, ib, n, ready), buf) \<Rightarrow> (Some err, ArrayB ib n cur rs ready, buf)
      | (None, (ok, ib, n, ready), buf) \<Rightarrow>
          if \<not> ok then (None, ArrayB ib n cur rs ready, buf) else rows_loop ib n cur rs ready buf))"
| "rows_loop ib n cur rs ready buf =
     (if buf = [] \<or> ready then (None, ArrayB ib n cur rs ready, buf)
      else (case (case cur of
                    Some b \<Rightarrow> Inr (b, buf)
                  | None \<Rightarrow> bnd (create_builder (hd buf)) (\<lambda>b. Inr (b, tl buf))) of
        Inl err \<Rightarrow> (Some err, ArrayB ib n cur rs ready, buf)
      | Inr (b, buf) \<Rightarrow>
         (case feed b buf of
            (Some err, b, buf) \<Rightarrow> (Some err, ArrayB ib n (Some b) rs ready, buf)
          | (None, b, buf) \<Rightarrow>
              if \<not> reply_ready b then (None, ArrayB ib n (Some b) rs ready, buf)
              else (case n of
                None \<Rightarrow> (Some (Undefined ''uninitialized array size''),
                         ArrayB ib n None (add_row (get_reply b) rs) ready, buf)
              | Some sz \<Rightarrow>
                  rows_loop ib n None (add_row (get_reply b) rs)
                    (length (add_row (get_reply b) rs) = sz) buf))))"
  by pat_completeness auto

text \<open>Builders only consume, which is why the recursion ends.\<close>

lemma int_feed_length: "int_feed b buf = (err, b', buf') \<Longrightarrow> length buf' \<le> length buf"
  by (auto simp: int_feed_def split: if_splits option.splits prod.splits)

lemma simple_feed_length: "simple_feed b buf = (err, b', buf') \<Longrightarrow> length buf' \<le> length buf"
  by (auto simp: simple_feed_def split: if_splits option.splits)

lemma fetch_size_length: "fetch_size b buf = (err, ob, buf') \<Longrightarrow> length buf' \<le> length buf"
  by (auto simp: fetch_size_def Let_def split: if_splits option.splits prod.splits dest: int_feed_length)

lemma fetch_str_length: "fetch_str b buf = (err, b', buf') \<Longrightarrow> length buf' \<le> length buf"
  by (auto simp: fetch_str_def Let_def split: if_splits)

lemma bulk_feed_length: "bulk_feed b buf = (err, b', buf') \<Longrightarrow> length buf' \<le> length buf"
  by (auto simp: bulk_feed_def split: if_splits option.splits prod.splits
      dest!: fetch_size_length fetch_str_length)

lemma fetch_array_size_length:
  "fetch_array_size ib n ready buf = (err, r, buf') \<Longrightarrow> length buf' \<le> length buf"
  by (auto simp: fetch_array_size_def Let_def split: if_splits option.splits prod.splits
      dest: int_feed_length)

lemma feed_dom_length:
  "feed_rows_loop_dom (Inl (b, buf)) \<Longrightarrow> length (snd (snd (feed b buf))) \<le> length buf"
  "feed_rows_loop_dom (Inr (ib, n, cur, rs, ready, buf)) \<Longrightarrow>
     length (snd (snd (rows_loop ib n cur rs ready buf))) \<le> length buf"
proof (induction b buf and ib n cur rs ready buf rule: feed_rows_loop.pinduct)
  case (1 b buf)
  then show ?case by (auto simp: feed.psimps split: prod.splits dest: simple_feed_length)
next
  case (2 b r buf)
  then show ?case by (auto simp: feed.psimps error_feed_def split: prod.splits dest: simple_feed_length)
next
  case (3 b buf)
  then show ?case by (auto simp: feed.psimps split: prod.splits dest: int_feed_length)
next
  case (4 b buf)
  then show ?case by (auto simp: feed.psimps split: prod.splits dest: bulk_feed_length)
next
  case (5 ib n cur rs ready buf)
  obtain err ok ib' n' ready' buf' where f: "fetch_array_size ib n ready buf = (err, (ok, ib', n', ready'), buf')"
    by (metis prod.exhaust)
  show ?case
    using 5 f fetch_array_size_length[OF f]
    by (cases err) (force simp: feed.psimps)+
next
  case (6 ib n cur rs ready buf)
  define src where "src = (case cur of Some b \<Rightarrow> Inr (b, buf)
    | None \<Rightarrow> bnd (create_builder (hd buf)) (\<lambda>b. Inr (b, tl buf)))"
  show ?case
  proof (cases "buf = [] \<or> ready")
    case True
    then show ?thesis using 6(1) by (simp add: rows_loop.psimps)
  next
    case go: False
    show ?thesis
    proof (cases src)
      case (Inl e)
      then show ?thesis using 6(1) go by (simp add: rows_loop.psimps src_def)
    next
      case (Inr bb)
      obtain b buf1 where bb: "bb = (b, buf1)" by (cases bb)
      have l1: "length buf1 \<le> length buf"
        using Inr bb by (auto simp: src_def bnd_eq_Inr split: option.splits)
      obtain err b2 buf2 where fd: "feed b buf1 = (err, b2, buf2)" by (metis prod.exhaust)
      have l2: "length buf2 \<le> length buf1"
        using 6(2)[OF go, folded src_def, OF Inr bb[symmetric]] fd by simp
      have l3: "length (snd (snd (rows_loop ib (Some sz) None (add_row (get_reply b2) rs)
          (length (add_row (get_reply b2) rs) = sz) buf2))) \<le> length buf2"
        if "err = None" "reply_ready b2" "n = Some sz" for sz
        using 6(3)[OF go, folded src_def, OF Inr bb[symmetric], OF fd[symmetric]] that by simp
      have step: "rows_loop ib n cur rs False buf = (case feed b buf1 of
            (Some err, b, buf) \<Rightarrow> (Some err, ArrayB ib n (Some b) rs False, buf)
          | (None, b, buf) \<Rightarrow>
              if \<not> reply_ready b then (None, ArrayB ib n (Some b) rs False, buf)
              else (case n of
                None \<Rightarrow> (Some (Undefined ''uninitialized array size''),
                         ArrayB ib n None (add_row (get_reply b) rs) False, buf)
              | Some sz \<Rightarrow>
                  rows_loop ib n None (add_row (get_reply b) rs)
                    (length (add_row (get_reply b) rs) = sz) buf))"
        using 6(1) go Inr bb by (simp add: rows_loop.psimps src_def[symmetric])
      have nr: "ready = False" using go by simp
      show ?thesis
      proof (cases "err = None \<and> reply_ready b2 \<and> n \<noteq> None")
        case True
        then obtain sz where "n = Some sz" by blast
        then show ?thesis using nr step True fd l1 l2 l3[of sz] by auto
      next
        case False
        then show ?thesis using nr step fd l1 l2 by (auto split: option.splits)
      qed
    qed
  qed
qed

termination feed
proof (relation "measures [\<lambda>x. case x of Inl (b, buf) \<Rightarrow> length buf | Inr (ib, n, cur, rs, ready, buf) \<Rightarrow> length buf,
    \<lambda>x. case x of Inl (b, buf) \<Rightarrow> builder_size b
      | Inr (ib, n, cur, rs, ready, buf) \<Rightarrow> 2 + (case cur of None \<Rightarrow> 0 | Some b \<Rightarrow> 1 + builder_size b)]",
    goal_cases)
  case (2 ib n cur rs ready buf err y r buf' ok r1 ib' r2 n' ready')
  then have "length buf' \<le> length buf" by (metis fetch_array_size_length)
  then show ?case by (auto simp: 2)
next
  case (3 ib n cur rs ready buf src b buf1)
  then show ?case by (cases buf; cases cur) (auto simp: bnd_eq_Inr)
next
  case (4 ib n cur rs ready buf src b buf1 err y b2 buf2 sz)
  have "length buf2 \<le> length buf1" using feed_dom_length(1) 4 by (metis snd_conv)
  moreover have "length buf1 < length buf \<or> (\<exists>b'. cur = Some b' \<and> buf1 = buf)"
    using 4 by (cases buf; cases cur) (auto simp: bnd_eq_Inr)
  ultimately show ?case by auto
qed simp

lemma feed_dom:
  "feed_rows_loop_dom (Inl (b, buf))" "feed_rows_loop_dom (Inr (ib, n, cur, rs, ready, buf'))"
  by (induction b buf and ib n cur rs ready buf' rule: feed_rows_loop.induct)
    (rule feed_rows_loop.domintros; fastforce)+

declare feed.simps [simp del] rows_loop.simps [simp del]

lemma feed_length: "feed b buf = (err, b', buf') \<Longrightarrow> length buf' \<le> length buf"
  using feed_dom_length(1)[of b buf] feed_dom by auto

section \<open>\<open>reply_builder\<close>\<close>

record reply_builder =
  rb_buffer :: string
  rb_builder :: "builder option"
  rb_replies :: "redis_reply list"

definition new_reply_builder :: reply_builder where
  "new_reply_builder = \<lparr>rb_buffer = [], rb_builder = None, rb_replies = []\<rparr>"

text \<open>\<open>build_reply\<close>, with the value it returns.\<close>

definition build_reply :: "reply_builder \<Rightarrow> cpp_error option \<times> bool \<times> reply_builder" where
  "build_reply R =
     (if rb_buffer R = [] then (None, False, R)
      else (case (case rb_builder R of
                    Some b \<Rightarrow> Inr (b, rb_buffer R)
                  | None \<Rightarrow> bnd (create_builder (hd (rb_buffer R))) (\<lambda>b. Inr (b, tl (rb_buffer R)))) of
        Inl err \<Rightarrow> (Some err, False, R)
      | Inr (b, buf) \<Rightarrow>
         (case feed b buf of
            (Some err, b, buf) \<Rightarrow> (Some err, False, R\<lparr>rb_builder := Some b, rb_buffer := buf\<rparr>)
          | (None, b, buf) \<Rightarrow>
              if reply_ready b
              then (None, True, R\<lparr>rb_builder := None, rb_buffer := buf,
                                  rb_replies := rb_replies R @ [get_reply b]\<rparr>)
              else (None, False, R\<lparr>rb_builder := Some b, rb_buffer := buf\<rparr>))))"

lemma build_reply_measure:
  assumes "build_reply R = (None, True, R')"
  shows "2 * length (rb_buffer R') + (if rb_builder R' = None then 0 else 1) <
    2 * length (rb_buffer R) + (if rb_builder R = None then 0 else 1)"
proof (cases "rb_builder R")
  case None
  then show ?thesis
    using assms by (cases "rb_buffer R")
      (auto simp: build_reply_def split: if_splits sum.splits prod.splits option.splits
        dest!: feed_length simp: bnd_eq_Inr)
next
  case (Some b)
  then show ?thesis
    using assms by (auto simp: build_reply_def split: if_splits prod.splits option.splits dest!: feed_length)
qed

text \<open>\<open>while (build_reply());\<close>\<close>

function build_replies :: "reply_builder \<Rightarrow> cpp_error option \<times> reply_builder" where
  "build_replies R = (case build_reply R of
     (Some err, _, R) \<Rightarrow> (Some err, R)
   | (None, again, R) \<Rightarrow> if again then build_replies R else (None, R))"
  by pat_completeness auto
termination
proof (relation "measure (\<lambda>R. 2 * length (rb_buffer R) + (if rb_builder R = None then 0 else 1))", goal_cases)
  case (2 R err y again R')
  then show ?case using build_reply_measure[of R R'] by (cases y) auto
qed simp

declare build_replies.simps [simp del]

definition rb_feed :: "string \<Rightarrow> reply_builder \<Rightarrow> cpp_error option \<times> reply_builder" where
  "rb_feed data R = build_replies (R\<lparr>rb_buffer := rb_buffer R @ data\<rparr>)"

definition reply_available :: "reply_builder \<Rightarrow> bool" where
  "reply_available R = (length (rb_replies R) > 0)"

definition get_front :: "reply_builder \<Rightarrow> redis_reply result" where
  "get_front R = (if \<not> reply_available R then Inl (RedisError ''No available reply'')
                  else Inr (hd (rb_replies R)))"

definition pop_front :: "reply_builder \<Rightarrow> reply_builder result" where
  "pop_front R = (if \<not> reply_available R then Inl (RedisError ''No available reply'')
                  else Inr (R\<lparr>rb_replies := tl (rb_replies R)\<rparr>))"

end
