(* ===== verification/RedisParse.thy ===== *)
theory RedisParse
  imports RedisBuilder
begin

text \<open>
  What the incremental parser of theory \<open>RedisBuilder\<close> guarantees: the replies do not depend
  on how the stream is cut into reads, and parsing the text of replies gives them back.
\<close>

section \<open>The parser does not depend on how the bytes are cut\<close>

text \<open>
  Feeding \<open>x @ y\<close> at once is feeding \<open>x\<close>, keeping what it left of the buffer, and going on with
  \<open>y\<close>; an error in \<open>x\<close> is the same error.
\<close>

definition resume :: "('a \<Rightarrow> string \<Rightarrow> 'a step) \<Rightarrow> 'a step \<Rightarrow> string \<Rightarrow> 'a step" where
  "resume f r y = (case r of
     (None, b, rest) \<Rightarrow> f b (rest @ y)
   | (Some err, b, rest) \<Rightarrow> (Some err, b, rest @ y))"

lemma int_feed_ready [simp]: "ib_ready b \<Longrightarrow> int_feed b buf = (None, b, buf)"
  by (simp add: int_feed_def)

lemma simple_feed_ready [simp]: "sb_ready b \<Longrightarrow> simple_feed b buf = (None, b, buf)"
  by (simp add: simple_feed_def)

lemma bulk_feed_ready [simp]: "bb_ready b \<Longrightarrow> bulk_feed b buf = (None, b, buf)"
  by (simp add: bulk_feed_def)

lemma int_feed_append: "int_feed b (x @ y) = resume int_feed (int_feed b x) y"
proof (cases "ib_ready b \<or> find_crlf x = None")
  case True
  then show ?thesis by (auto simp: resume_def) (simp add: int_feed_def)
next
  case False
  then obtain e where e: "find_crlf x = Some e" "\<not> ib_ready b" by auto
  have "find_crlf (x @ y) = Some e" "e + 2 \<le> length x"
    using e find_crlf_append find_crlf_bound by auto
  then show ?thesis using e
    by (auto simp: int_feed_def resume_def split: option.splits prod.splits)
qed

lemma simple_feed_append: "simple_feed b (x @ y) = resume simple_feed (simple_feed b x) y"
proof (cases "sb_ready b \<or> find_crlf x = None")
  case True
  then show ?thesis by (auto simp: resume_def) (simp add: simple_feed_def)
next
  case False
  then obtain e where e: "find_crlf x = Some e" "\<not> sb_ready b" by auto
  have "find_crlf (x @ y) = Some e" "e + 2 \<le> length x"
    using e find_crlf_append find_crlf_bound by auto
  then show ?thesis using e by (simp add: simple_feed_def resume_def)
qed

lemma bulk_build_reply_simps [simp]:
  "bb_ready (bulk_build_reply b)" "bb_int (bulk_build_reply b) = bb_int b"
  by (simp_all add: bulk_build_reply_def)

lemma fetch_str_ok:
  assumes "0 \<le> bb_size b" "bb_size b + 2 < 2 ^ 31" "nat (bb_size b) + 2 \<le> length buf"
  shows "fetch_str b buf =
    (if buf ! nat (bb_size b) \<noteq> CR \<or> buf ! (nat (bb_size b) + 1) \<noteq> LF
     then (Some (RedisError ''Wrong ending sequence''), b, buf)
     else (None, bulk_build_reply (b\<lparr>bb_str := take (nat (bb_size b)) buf\<rparr>), drop (nat (bb_size b) + 2) buf))"
proof -
  have "bb_size b mod 2 ^ 32 = bb_size b" "(bb_size b + 2) mod 2 ^ 32 = bb_size b + 2"
    using assms(1,2) by (auto intro: mod_pos_pos_trivial)
  then have e: "(bb_size b mod 2 ^ 32 + 2) mod 2 ^ 32 = bb_size b + 2" by presburger
  have "\<not> int (length buf) < bb_size b + 2" "\<not> (bb_size b < 0 \<or> 2 ^ 31 \<le> bb_size b + 2)"
    using assms by linarith+
  then show ?thesis unfolding fetch_str_def e Let_def by simp
qed

lemma fetch_str_append:
  assumes "ib_ready (bb_int b)" "\<not> bb_ready b"
  shows "fetch_str b (x @ y) = resume bulk_feed (fetch_str b x) y"
proof (cases "int (length x) < (bb_size b mod 2^32 + 2) mod 2^32")
  case True
  then have "fetch_str b x = (None, b, x)" by (simp add: fetch_str_def)
  then show ?thesis using assms by (simp add: resume_def bulk_feed_def fetch_size_def)
next
  case False
  show ?thesis
  proof (cases "bb_size b < 0 \<or> 2^31 \<le> bb_size b + 2")
    case True
    then show ?thesis using False by (simp add: fetch_str_def resume_def)
  next
    case F2: False
    then have r: "0 \<le> bb_size b" "bb_size b + 2 < 2 ^ 31" by auto
    have "(bb_size b mod 2 ^ 32 + 2) mod 2 ^ 32 = bb_size b + 2"
      using r by (simp add: mod_pos_pos_trivial)
    then have l: "nat (bb_size b) + 2 \<le> length x" using False r by linarith
    then have l2: "nat (bb_size b) + 2 \<le> length (x @ y)" by simp
    show ?thesis
      unfolding fetch_str_ok[OF r l] fetch_str_ok[OF r l2] using l
      by (simp add: nth_append resume_def)
  qed
qed

lemma int_feed_unready: "int_feed b x = (None, b', r) \<Longrightarrow> \<not> ib_ready b' \<Longrightarrow> b' = b \<and> r = x"
  by (auto simp: int_feed_def split: if_splits option.splits prod.splits)

text \<open>\<open>operator<<\<close> of the bulk string builder, once its size is known.\<close>

lemma bulk_feed_sized:
  "\<not> bb_ready b \<Longrightarrow> ib_ready (bb_int b) \<Longrightarrow> bulk_feed b buf = fetch_str b buf"
  by (simp add: bulk_feed_def fetch_size_def)

lemma bulk_feed_unsized:
  assumes "\<not> bb_ready b" "\<not> ib_ready (bb_int b)"
  shows "bulk_feed b buf = (case int_feed (bb_int b) buf of
      (Some err, ib, buf) \<Rightarrow> (Some err, b\<lparr>bb_int := ib\<rparr>, buf)
    | (None, ib, buf) \<Rightarrow>
        if \<not> ib_ready ib then (None, b\<lparr>bb_int := ib\<rparr>, buf)
        else if get_integer ib = -1
        then (None, bulk_build_reply (b\<lparr>bb_int := ib, bb_size := -1, bb_null := True\<rparr>), buf)
        else fetch_str (b\<lparr>bb_int := ib, bb_size := get_integer ib\<rparr>) buf)"
  using assms by (cases "int_feed (bb_int b) buf"; cases "fst (int_feed (bb_int b) buf)")
    (auto simp: bulk_feed_def fetch_size_def Let_def)

lemma bulk_feed_append_sized:
  assumes "\<not> bb_ready b" "ib_ready (bb_int b)"
  shows "bulk_feed b (x @ y) = resume bulk_feed (bulk_feed b x) y"
  unfolding bulk_feed_sized[OF assms] by (rule fetch_str_append) (use assms in simp_all)

lemma bulk_feed_append_unsized:
  assumes "\<not> bb_ready b" "\<not> ib_ready (bb_int b)" "int_feed (bb_int b) x = (None, ib, r)" "ib_ready ib"
  shows "bulk_feed b (x @ y) = resume bulk_feed (bulk_feed b x) y"
proof -
  let ?b = "b\<lparr>bb_int := ib, bb_size := get_integer ib\<rparr>"
  note unsized = bulk_feed_unsized[OF assms(1,2)]
  have a: "int_feed (bb_int b) (x @ y) = (None, ib, r @ y)"
    unfolding int_feed_append[of "bb_int b" x] resume_def assms(3) using assms(4) by simp
  show ?thesis
  proof (cases "get_integer ib = -1")
    case True
    have "bulk_feed b x = (None, bulk_build_reply (b\<lparr>bb_int := ib, bb_size := -1, bb_null := True\<rparr>), r)"
      "bulk_feed b (x @ y) =
        (None, bulk_build_reply (b\<lparr>bb_int := ib, bb_size := -1, bb_null := True\<rparr>), r @ y)"
      unfolding unsized assms(3) a using True assms(4) by simp_all
    then show ?thesis by (simp add: resume_def)
  next
    case False
    have "bulk_feed b (x @ y) = fetch_str ?b (r @ y)" "bulk_feed b x = fetch_str ?b r"
      unfolding unsized assms(3) a using False assms(4) by simp_all
    moreover have "fetch_str ?b (r @ y) = resume bulk_feed (fetch_str ?b r) y"
      by (rule fetch_str_append) (use assms in simp_all)
    ultimately show ?thesis by simp
  qed
qed

lemma bulk_feed_append: "bulk_feed b (x @ y) = resume bulk_feed (bulk_feed b x) y"
proof -
  obtain err ib r where f: "int_feed (bb_int b) x = (err, ib, r)" by (metis prod.exhaust)
  consider "bb_ready b" | "\<not> bb_ready b" "ib_ready (bb_int b)"
    | e where "\<not> bb_ready b" "\<not> ib_ready (bb_int b)" "err = Some e"
    | "\<not> bb_ready b" "\<not> ib_ready (bb_int b)" "err = None" "ib_ready ib"
    | "\<not> bb_ready b" "\<not> ib_ready (bb_int b)" "err = None" "\<not> ib_ready ib"
    by (metis option.exhaust)
  then show ?thesis
  proof cases
    case 3
    then have "int_feed (bb_int b) (x @ y) = (Some e, ib, r @ y)"
      using f by (simp add: int_feed_append resume_def)
    then show ?thesis using f 3 by (simp add: bulk_feed_unsized resume_def)
  next
    case 5
    then have e: "ib = bb_int b" "r = x" using int_feed_unready f by auto
    have "bulk_feed b x = (None, b, x)"
      unfolding bulk_feed_unsized[OF 5(1,2)] f using 5 e by simp
    then show ?thesis by (simp add: resume_def)
  qed (use f bulk_feed_append_sized bulk_feed_append_unsized in \<open>auto simp: resume_def\<close>)
qed

text \<open>A builder that has been fed and is ready leaves the buffer alone.\<close>

lemma feed_array: "\<exists>ib' n' cur' rs' ready'. fst (snd (feed (ArrayB ib n cur rs ready) buf)) = ArrayB ib' n' cur' rs' ready'"
  and rows_loop_array: "\<exists>ib' n' cur' rs' ready'. fst (snd (rows_loop ib n cur rs ready buf)) = ArrayB ib' n' cur' rs' ready'"
proof -
  have *: "(\<forall>ib n cur rs ready. b = ArrayB ib n cur rs ready \<longrightarrow>
        (\<exists>ib' n' cur' rs' ready'. fst (snd (feed b buf')) = ArrayB ib' n' cur' rs' ready'))"
    "\<exists>ib' n' cur' rs' ready'. fst (snd (rows_loop ib n cur rs ready buf)) = ArrayB ib' n' cur' rs' ready'" for b buf'
    by (induction b buf' and ib n cur rs ready buf rule: feed_rows_loop.induct)
      (auto simp: feed.simps rows_loop.simps split: option.splits prod.splits sum.splits)
  show "\<exists>ib' n' cur' rs' ready'. fst (snd (feed (ArrayB ib n cur rs ready) buf)) = ArrayB ib' n' cur' rs' ready'"
    using *(1) by blast
  show "\<exists>ib' n' cur' rs' ready'. fst (snd (rows_loop ib n cur rs ready buf)) = ArrayB ib' n' cur' rs' ready'"
    using *(2) .
qed

lemma feed_done:
  assumes "feed b x = (None, b', r)" "reply_ready b'"
  shows "feed b' z = (None, b', z)"
proof (cases b)
  case (ArrayB ib n cur rs ready)
  then obtain ib' n' cur' rs' ready' where "b' = ArrayB ib' n' cur' rs' ready'"
    using assms(1) feed_array[of ib n cur rs ready x] by auto
  then show ?thesis using assms(2) by (simp add: feed.simps)
qed (use assms in \<open>auto simp: feed.simps error_feed_def split: prod.splits if_splits\<close>)

lemma fetch_array_size_append:
  assumes "fetch_array_size ib n ready x = (err, (ok, ib', n', ready'), r)"
  shows "err = Some e \<Longrightarrow> fetch_array_size ib n ready (x @ y) = (Some e, (ok, ib', n', ready'), r @ y)"
    and "err = None \<Longrightarrow> ok \<Longrightarrow> fetch_array_size ib n ready (x @ y) = (None, (True, ib', n', ready'), r @ y) \<and> ib_ready ib'"
    and "err = None \<Longrightarrow> \<not> ok \<Longrightarrow> ib' = ib \<and> n' = n \<and> ready' = ready \<and> r = x"
proof -
  obtain er ib1 r1 where f: "int_feed ib x = (er, ib1, r1)" by (metis prod.exhaust)
  have a: "int_feed ib (x @ y) = resume int_feed (er, ib1, r1) y" using int_feed_append[of ib x y] f by simp
  show "fetch_array_size ib n ready (x @ y) = (Some e, (ok, ib', n', ready'), r @ y)" if "err = Some e"
    using assms that f a
    by (auto simp: fetch_array_size_def resume_def Let_def split: if_splits option.splits)
  show "fetch_array_size ib n ready (x @ y) = (None, (True, ib', n', ready'), r @ y) \<and> ib_ready ib'"
    if "err = None" ok
    using assms that f a
    by (auto simp: fetch_array_size_def resume_def Let_def split: if_splits option.splits)
  show "ib' = ib \<and> n' = n \<and> ready' = ready \<and> r = x" if "err = None" "\<not> ok"
    using assms that f int_feed_unready[of ib x ib1 r1]
    by (auto simp: fetch_array_size_def Let_def split: if_splits option.splits)
qed

text \<open>The body of the row loop, once its builder is known.\<close>

definition row_result where
  "row_result ib n rs fed = (case fed of
     (Some err, b, buf) \<Rightarrow> (Some err, ArrayB ib n (Some b) rs False, buf)
   | (None, b, buf) \<Rightarrow>
       if \<not> reply_ready b then (None, ArrayB ib n (Some b) rs False, buf)
       else (case n of
         None \<Rightarrow> (Some (Undefined ''uninitialized array size''),
                  ArrayB ib n None (add_row (get_reply b) rs) False, buf)
       | Some sz \<Rightarrow> rows_loop ib n None (add_row (get_reply b) rs)
                       (length (add_row (get_reply b) rs) = sz) buf))"

lemma rows_loop_cases:
  "rows_loop ib n cur rs True buf = (None, ArrayB ib n cur rs True, buf)"
  "rows_loop ib n cur rs ready [] = (None, ArrayB ib n cur rs ready, [])"
  "buf \<noteq> [] \<Longrightarrow> rows_loop ib n (Some b) rs False buf = row_result ib n rs (feed b buf)"
  "buf \<noteq> [] \<Longrightarrow> create_builder (hd buf) = Inl e \<Longrightarrow>
     rows_loop ib n None rs False buf = (Some e, ArrayB ib n None rs False, buf)"
  "buf \<noteq> [] \<Longrightarrow> create_builder (hd buf) = Inr b \<Longrightarrow>
     rows_loop ib n None rs False buf = row_result ib n rs (feed b (tl buf))"
  by (simp_all add: rows_loop.simps[of ib n cur rs True] rows_loop.simps[of ib n cur rs ready "[]"]
      rows_loop.simps[of ib n "Some b" rs False buf] rows_loop.simps[of ib n None rs False buf] row_result_def)

lemma row_result_append:
  assumes ib: "ib_ready ib"
    and fed: "\<And>y. feed b (x @ y) = resume feed (feed b x) y"
    and loop: "\<And>b2 r sz y. feed b x = (None, b2, r) \<Longrightarrow> reply_ready b2 \<Longrightarrow> n = Some sz \<Longrightarrow>
      rows_loop ib n None (add_row (get_reply b2) rs) (length (add_row (get_reply b2) rs) = sz) (r @ y) =
      resume feed (rows_loop ib n None (add_row (get_reply b2) rs) (length (add_row (get_reply b2) rs) = sz) r) y"
  shows "row_result ib n rs (feed b (x @ y)) = resume feed (row_result ib n rs (feed b x)) y"
proof -
  obtain err b2 r where f: "feed b x = (err, b2, r)" by (metis prod.exhaust)
  have fy: "feed b (x @ y) = resume feed (err, b2, r) y" for y using fed f by simp
  consider e where "err = Some e" | "err = None" "\<not> reply_ready b2"
    | "err = None" "reply_ready b2" "n = None" | sz where "err = None" "reply_ready b2" "n = Some sz"
    by (metis option.exhaust)
  then show ?thesis
  proof cases
    case 1
    then show ?thesis unfolding fy f by (simp add: resume_def row_result_def)
  next
    case 2
    have rec: "feed (ArrayB ib n (Some b2) rs False) (r @ y) = rows_loop ib n (Some b2) rs False (r @ y)"
      using ib by (simp add: feed.simps fetch_array_size_def)
    have "rows_loop ib n (Some b2) rs False (r @ y) = row_result ib n rs (feed b2 (r @ y))"
    proof (cases "r @ y = []")
      case True
      then have "feed b2 [] = (None, b2, [])" using fy[of "[]"] f 2 by (simp add: resume_def)
      then show ?thesis using True 2 by (simp add: rows_loop_cases row_result_def)
    next
      case False
      then show ?thesis by (rule rows_loop_cases)
    qed
    then show ?thesis unfolding fy f using 2 rec by (simp add: resume_def row_result_def[of ib n rs "(None, b2, r)"])
  next
    case 3
    then have "feed b (x @ y) = (None, b2, r @ y)" using fy f feed_done by (simp add: resume_def)
    then show ?thesis unfolding f using 3 by (simp add: resume_def row_result_def)
  next
    case 4
    then have "feed b (x @ y) = (None, b2, r @ y)" using fy f feed_done by (simp add: resume_def)
    moreover note loop[of b2 r sz y]
    ultimately show ?thesis using 4 f by (simp add: row_result_def)
  qed
qed

lemma feed_append_both:
  "feed b (x @ y) = resume feed (feed b x) y"
  "ib_ready ib \<longrightarrow> rows_loop ib n cur rs ready (x' @ y') = resume feed (rows_loop ib n cur rs ready x') y'"
proof (induction b x and ib n cur rs ready x' arbitrary: y and y' rule: feed_rows_loop.induct)
  case (1 b buf)
  then show ?case using simple_feed_append[of b buf y]
    by (auto simp: feed.simps resume_def split: prod.splits option.splits)
next
  case (2 b r buf)
  obtain e b1 r1 where f: "simple_feed b buf = (e, b1, r1)" by (metis prod.exhaust)
  have e: "e = None" using f by (auto simp: simple_feed_def split: if_splits option.splits)
  have "simple_feed b (buf @ y) = simple_feed b1 (r1 @ y)"
    using f e by (simp add: simple_feed_append resume_def)
  moreover have "b1 = b" if "\<not> sb_ready b1" using f that
    by (auto simp: simple_feed_def split: if_splits option.splits)
  ultimately show ?case using f e
    by (cases "sb_ready b1") (auto simp: feed.simps error_feed_def resume_def split: prod.splits)
next
  case (3 b buf)
  then show ?case using int_feed_append[of b buf y]
    by (auto simp: feed.simps resume_def split: prod.splits option.splits)
next
  case (4 b buf)
  then show ?case using bulk_feed_append[of b buf y]
    by (auto simp: feed.simps resume_def split: prod.splits option.splits)
next
  case (5 ib n cur rs ready buf)
  obtain err ok ib' n' ready' r where f: "fetch_array_size ib n ready buf = (err, (ok, ib', n', ready'), r)"
    by (metis prod.exhaust)
  note fa = fetch_array_size_append[OF f]
  show ?case
  proof (cases ready)
    case True
    then show ?thesis by (simp add: feed.simps resume_def)
  next
    case nr: False
    show ?thesis
    proof (cases err)
      case (Some e)
      then show ?thesis using fa(1)[OF Some, of y] f nr by (simp add: feed.simps resume_def)
    next
      case None
      show ?thesis
      proof (cases ok)
        case True
        then have "rows_loop ib' n' cur rs ready' (r @ y) = resume feed (rows_loop ib' n' cur rs ready' r) y"
          using 5[OF nr] f None fa(2)[OF None] by auto
        then show ?thesis using fa(2)[OF None, of y] f nr None True by (simp add: feed.simps)
      next
        case False
        then show ?thesis using fa(3)[OF None] f nr None by (simp add: feed.simps resume_def)
      qed
    qed
  qed
next
  case (6 ib n cur rs ready buf)
  define src where "src = (case cur of Some b \<Rightarrow> Inr (b, buf)
    | None \<Rightarrow> bnd (create_builder (hd buf)) (\<lambda>b. Inr (b, tl buf)))"
  have done_loop: "rows_loop ib n cur rs ready z = feed (ArrayB ib n cur rs ready) z" if "ib_ready ib" for z
    using that by (simp add: feed.simps fetch_array_size_def rows_loop.simps[of ib n cur rs True])
  have "rows_loop ib n cur rs ready (buf @ y') = resume feed (rows_loop ib n cur rs ready buf) y'"
    if ib: "ib_ready ib"
  proof (cases "buf = [] \<or> ready")
    case True
    then show ?thesis 
      by (auto simp: resume_def rows_loop_cases done_loop[OF ib, symmetric]) (simp add: feed.simps)
  next
    case go: False
    show ?thesis
    proof (cases src)
      case (Inl e)
      then have c: "cur = None" by (simp add: src_def split: option.splits)
      then have "create_builder (hd buf) = Inl e"
        using Inl unfolding src_def by (cases "create_builder (hd buf)") simp_all
      then show ?thesis using go c
        by (simp add: resume_def rows_loop_cases(4)[of "buf @ y'"] rows_loop_cases(4)[of buf])
    next
      case (Inr bb)
      obtain b buf1 where bb: "bb = (b, buf1)" by (cases bb)
      have step: "rows_loop ib n cur rs False buf = row_result ib n rs (feed b buf1)"
        "rows_loop ib n cur rs False (buf @ y') = row_result ib n rs (feed b (buf1 @ y'))"
        using go Inr bb unfolding src_def
        by (auto simp: rows_loop_cases bnd_eq_Inr split: option.splits)
      have "row_result ib n rs (feed b (buf1 @ y')) = resume feed (row_result ib n rs (feed b buf1)) y'"
      proof (rule row_result_append)
        show "feed b (buf1 @ z) = resume feed (feed b buf1) z" for z
          using 6(1)[OF go, folded src_def, OF Inr bb[symmetric]] .
        show "rows_loop ib n None (add_row (get_reply b2) rs) (length (add_row (get_reply b2) rs) = sz) (r @ z) =
            resume feed (rows_loop ib n None (add_row (get_reply b2) rs) (length (add_row (get_reply b2) rs) = sz) r) z"
          if "feed b buf1 = (None, b2, r)" "reply_ready b2" "n = Some sz" for b2 r sz z
          using 6(2)[OF go, folded src_def, OF Inr bb[symmetric], OF that(1)[symmetric]] that ib by simp
      qed (rule ib)
      then show ?thesis using step go by simp
    qed
  qed
  then show ?case by blast
qed

lemmas feed_append = feed_append_both(1)

section \<open>The reply builder\<close>

text \<open>One round of \<open>build_reply\<close> once a builder is at hand.\<close>

definition build_step :: "reply_builder \<Rightarrow> builder step \<Rightarrow> cpp_error option \<times> bool \<times> reply_builder" where
  "build_step R fed = (case fed of
     (Some err, b, buf) \<Rightarrow> (Some err, False, R\<lparr>rb_builder := Some b, rb_buffer := buf\<rparr>)
   | (None, b, buf) \<Rightarrow>
       if reply_ready b
       then (None, True, R\<lparr>rb_builder := None, rb_buffer := buf, rb_replies := rb_replies R @ [get_reply b]\<rparr>)
       else (None, False, R\<lparr>rb_builder := Some b, rb_buffer := buf\<rparr>))"

lemma build_reply_cases:
  "rb_buffer R = [] \<Longrightarrow> build_reply R = (None, False, R)"
  "rb_buffer R \<noteq> [] \<Longrightarrow> rb_builder R = Some b \<Longrightarrow> build_reply R = build_step R (feed b (rb_buffer R))"
  "rb_buffer R \<noteq> [] \<Longrightarrow> rb_builder R = None \<Longrightarrow> create_builder (hd (rb_buffer R)) = Inl e \<Longrightarrow>
     build_reply R = (Some e, False, R)"
  "rb_buffer R \<noteq> [] \<Longrightarrow> rb_builder R = None \<Longrightarrow> create_builder (hd (rb_buffer R)) = Inr b \<Longrightarrow>
     build_reply R = build_step R (feed b (tl (rb_buffer R)))"
  by (simp_all add: build_reply_def build_step_def)

text \<open>Appending to the buffer: at once, or after the replies at hand were built.\<close>

definition append_data :: "string \<Rightarrow> reply_builder \<Rightarrow> reply_builder" where
  "append_data y R = R\<lparr>rb_buffer := rb_buffer R @ y\<rparr>"

definition then_more :: "string \<Rightarrow> cpp_error option \<times> reply_builder \<Rightarrow> cpp_error option \<times> reply_builder" where
  "then_more y r = (case r of (None, R) \<Rightarrow> build_replies (append_data y R) | (Some e, R) \<Rightarrow> (Some e, append_data y R))"

definition build_rest :: "cpp_error option \<times> bool \<times> reply_builder \<Rightarrow> cpp_error option \<times> reply_builder" where
  "build_rest r = (case r of
     (Some err, _, R) \<Rightarrow> (Some err, R)
   | (None, again, R) \<Rightarrow> if again then build_replies R else (None, R))"

lemma build_replies_rest: "build_replies R = build_rest (build_reply R)"
  by (simp add: build_replies.simps[of R] build_rest_def)

lemma build_step_more:
  assumes "\<And>b2 r. feed b x = (None, b2, r) \<Longrightarrow> reply_ready b2 \<Longrightarrow>
      build_replies (append_data y (R\<lparr>rb_builder := None, rb_buffer := r, rb_replies := rb_replies R @ [get_reply b2]\<rparr>)) =
      then_more y (build_replies (R\<lparr>rb_builder := None, rb_buffer := r, rb_replies := rb_replies R @ [get_reply b2]\<rparr>))"
  shows "build_rest (build_step (append_data y R) (feed b (x @ y))) = then_more y (build_rest (build_step R (feed b x)))"
proof -
  obtain err b2 r where f: "feed b x = (err, b2, r)" by (metis prod.exhaust)
  note fy = feed_append[of b x, unfolded f]
  consider e where "err = Some e" | "err = None" "reply_ready b2" | "err = None" "\<not> reply_ready b2"
    by (metis option.exhaust)
  then show ?thesis
  proof cases
    case 1
    then show ?thesis by (simp add: fy f resume_def build_step_def build_rest_def then_more_def append_data_def)
  next
    case 2
    then have "feed b (x @ y) = (None, b2, r @ y)" using fy f feed_done by (simp add: resume_def)
    then show ?thesis using assms[of b2 r] f 2
      by (cases R) (simp add: build_step_def build_rest_def then_more_def append_data_def)
  next
    case 3
    let ?R = "R\<lparr>rb_builder := Some b2, rb_buffer := r @ y\<rparr>"
    have "build_replies ?R = build_rest (build_step R (feed b2 (r @ y)))"
    proof (cases "r @ y = []")
      case True
      then have "feed b2 [] = (None, b2, [])" using fy[of "[]"] f 3 by (simp add: resume_def)
      then show ?thesis using True 3 by (simp add: build_replies_rest build_reply_cases build_step_def build_rest_def)
    next
      case False
      have "build_step ?R z = build_step R z" for z
        by (auto simp: build_step_def split: prod.splits option.splits)
      then show ?thesis using False by (simp add: build_replies_rest build_reply_cases)
    qed
    moreover have "build_step (append_data y R) z = build_step R z" for z
      by (auto simp: build_step_def append_data_def split: prod.splits option.splits)
    ultimately show ?thesis using 3 f
      by (simp add: fy resume_def build_step_def[of R "(None, b2, r)"] build_rest_def[of "(None, False, _)"]
          then_more_def append_data_def)
  qed
qed

lemma build_replies_more: "build_replies (append_data y R) = then_more y (build_replies R)"
proof (induction R rule: build_replies.induct)
  case (1 R)
  show ?case
  proof (cases "rb_buffer R = []")
    case True
    then show ?thesis by (simp add: then_more_def build_replies.simps[of R] build_reply_cases)
  next
    case ne: False
    then have ne': "rb_buffer (append_data y R) \<noteq> []" by (simp add: append_data_def)
    have IH: "build_replies (append_data y R') = then_more y (build_replies R')"
      if "build_reply R = (None, True, R')" for R'
      using 1[OF that[symmetric]] by simp
    have main: ?thesis if b: "build_reply R = build_step R (feed b x)"
      "build_reply (append_data y R) = build_step (append_data y R) (feed b (x @ y))" for b x
      unfolding build_replies_rest b
      by (rule build_step_more) (use b IH in \<open>auto simp: build_step_def\<close>)
    show ?thesis
    proof (cases "rb_builder R")
      case (Some b)
      then show ?thesis using main[of b "rb_buffer R"] ne ne'
        by (simp add: build_reply_cases append_data_def)
    next
      case None
      show ?thesis
      proof (cases "create_builder (hd (rb_buffer R))")
        case (Inl e)
        then show ?thesis using None ne
          by (simp add: build_replies_rest build_reply_cases append_data_def build_rest_def then_more_def)
      next
        case (Inr b)
        then show ?thesis using main[of b "tl (rb_buffer R)"] ne ne' None
          by (simp add: build_reply_cases append_data_def)
      qed
    qed
  qed
qed

section \<open>Parsing the text of replies\<close>

text \<open>
  The protocol's values and their text.  An integer must fit the \<open>int\<close> the builder keeps it in
  without its sign, sizes must leave room for the end sequence, lines cannot contain one.
\<close>

datatype resp =
    RSimple string
  | RError string
  | RInt int
  | RNull
  | RBulk string
  | RArray "resp list"

fun resp_text :: "resp \<Rightarrow> string" where
  "resp_text (RSimple s) = ''+'' @ s @ crlf"
| "resp_text (RError s) = ''-'' @ s @ crlf"
| "resp_text (RInt i) = '':'' @ int_to_string i @ crlf"
| "resp_text RNull = ''$-1'' @ crlf"
| "resp_text (RBulk s) = ''$'' @ nat_to_string (length s) @ crlf @ s @ crlf"
| "resp_text (RArray rs) = ''*'' @ nat_to_string (length rs) @ crlf @ concat (map resp_text rs)"

fun resp_wf :: "resp \<Rightarrow> bool" where
  "resp_wf (RSimple s) = (CR \<notin> set s)"
| "resp_wf (RError s) = (CR \<notin> set s)"
| "resp_wf (RInt i) = (\<bar>i\<bar> < 2 ^ 31)"
| "resp_wf RNull = True"
| "resp_wf (RBulk s) = (length s + 2 < 2 ^ 31)"
| "resp_wf (RArray rs) = (length rs < 2 ^ 31 \<and> list_all resp_wf rs)"

fun resp_reply :: "resp \<Rightarrow> redis_reply" where
  "resp_reply (RSimple s) = make_reply (SimpleStringReply s)"
| "resp_reply (RError s) = make_reply (ErrorReply s)"
| "resp_reply (RInt i) = make_reply (IntegerReply i)"
| "resp_reply RNull = make_reply (BulkStringReply True [])"
| "resp_reply (RBulk s) = make_reply (BulkStringReply False s)"
| "resp_reply (RArray rs) = make_reply (ArrayReply (map resp_reply rs))"

text \<open>Reading digits.\<close>

lemma int_loop_digits:
  assumes "\<forall>c \<in> set s. is_digit c" "digits_val n s < 2 ^ 31" "ib_nbr b = int n"
  shows "int_loop False s b = (None, b\<lparr>ib_nbr := int (digits_val n s)\<rparr>)"
  using assms
proof (induction s arbitrary: b n)
  case (Cons c s)
  have "10 * n + digit_val c < 2 ^ 31"
    using Cons.prems(2) digits_val_ge[of "10 * n + digit_val c" s] by simp
  then have r: "int_range (ib_nbr b * 10 + int (digit_val c))"
    using Cons.prems(3) by (simp add: int_range_def)
  have e: "ib_nbr b * 10 + int (digit_val c) = int (10 * n + digit_val c)"
    using Cons.prems(3) by simp
  show ?case using Cons.prems(1,2) r
      Cons.IH[of "10 * n + digit_val c" "b\<lparr>ib_nbr := int (10 * n + digit_val c)\<rparr>"]
    by (simp add: e)
qed simp

lemma int_loop_nat:
  assumes "n < 2 ^ 31"
  shows "int_loop first (nat_to_string n) new_int = (None, new_int\<lparr>ib_nbr := int n\<rparr>)"
proof -
  obtain c s where cs: "nat_to_string n = c # s" by (metis nat_to_string_nonempty neq_Nil_conv)
  have "c \<noteq> CHR ''-''" using nat_to_string_digits[of n] cs by (auto simp: is_digit_def)
  then have "int_loop first (nat_to_string n) new_int = int_loop False (nat_to_string n) new_int"
    using cs by simp
  then show ?thesis
    using int_loop_digits[of "nat_to_string n" 0 new_int] nat_to_string_digits[of n] assms
    by (simp add: digits_val_nat_to_string new_int_def)
qed

lemma no_CR_digits: "CR \<notin> set (nat_to_string n)" "CR \<notin> set (int_to_string i)"
  using nat_to_string_digits[of n] nat_to_string_digits[of "nat i"] nat_to_string_digits[of "nat (- i)"]
  by (auto simp: int_to_string_def is_digit_def)

definition read_int :: "int \<Rightarrow> int \<Rightarrow> int_builder" where
  "read_int m n = \<lparr>ib_nbr = n, ib_mult = m, ib_ready = True, ib_reply = m * n\<rparr>"

lemma read_int_simps [simp]:
  "get_integer (read_int m n) = m * n" "ib_ready (read_int m n)" "ib_reply (read_int m n) = m * n"
  by (simp_all add: get_integer_def read_int_def)

lemma find_crlf_line: "CR \<notin> set s \<Longrightarrow> find_crlf (s @ crlf @ z) = Some (length s)"
  using find_crlf_no_CR[of s z] by (simp add: crlf_def)

lemma int_feed_nat:
  "n < 2 ^ 31 \<Longrightarrow> int_feed new_int (nat_to_string n @ crlf @ z) = (None, read_int 1 (int n), z)"
  by (simp add: int_feed_def find_crlf_line no_CR_digits int_loop_nat)
    (simp add: new_int_def read_int_def get_integer_def crlf_def)

lemma int_feed_int:
  assumes "\<bar>i\<bar> < 2 ^ 31"
  shows "int_feed new_int (int_to_string i @ crlf @ z) =
    (None, read_int (if i < 0 then -1 else 1) \<bar>i\<bar>, z)"
proof (cases "i < 0")
  case True
  then have n: "nat (- i) < 2 ^ 31" using assms by (simp add: nat_less_iff)
  have "int_loop False (nat_to_string (nat (- i))) (new_int\<lparr>ib_mult := -1\<rparr>) =
      (None, new_int\<lparr>ib_mult := -1, ib_nbr := \<bar>i\<bar>\<rparr>)"
    using int_loop_digits[of "nat_to_string (nat (- i))" 0 "new_int\<lparr>ib_mult := -1\<rparr>"]
      nat_to_string_digits[of "nat (- i)"] n True
    by (simp add: digits_val_nat_to_string new_int_def)
  then have l: "int_loop True (int_to_string i) new_int = (None, new_int\<lparr>ib_mult := -1, ib_nbr := \<bar>i\<bar>\<rparr>)"
    using True by (simp add: int_to_string_def new_int_def)
  show ?thesis using True
    by (simp add: int_feed_def find_crlf_line no_CR_digits l)
      (simp add: new_int_def read_int_def get_integer_def crlf_def)
next
  case False
  then show ?thesis using int_feed_nat[of "nat i" z] assms by (simp add: int_to_string_def)
qed

lemma simple_feed_line:
  "CR \<notin> set s \<Longrightarrow> simple_feed new_simple (s @ crlf @ z) =
     (None, \<lparr>sb_str = s, sb_ready = True, sb_reply = s\<rparr>, z)"
  by (simp add: simple_feed_def find_crlf_line) (simp add: new_simple_def crlf_def)

lemma bulk_feed_text:
  assumes "length s + 2 < 2 ^ 31"
  shows "bulk_feed new_bulk (nat_to_string (length s) @ crlf @ s @ crlf @ z) =
    (None, new_bulk\<lparr>bb_int := read_int 1 (int (length s)), bb_size := int (length s), bb_str := s,
       bb_reply := (False, s), bb_ready := True\<rparr>, z)"
proof -
  let ?b = "new_bulk\<lparr>bb_int := read_int 1 (int (length s)), bb_size := int (length s)\<rparr>"
  have "int_feed new_int (nat_to_string (length s) @ crlf @ s @ crlf @ z) =
      (None, read_int 1 (int (length s)), s @ crlf @ z)"
    using int_feed_nat[of "length s" "s @ crlf @ z"] assms by simp
  then have "bulk_feed new_bulk (nat_to_string (length s) @ crlf @ s @ crlf @ z) = fetch_str ?b (s @ crlf @ z)"
    using bulk_feed_unsized[of new_bulk "nat_to_string (length s) @ crlf @ s @ crlf @ z"]
    by (simp add: new_bulk_def) (simp add: new_int_def)
  also have "\<dots> = (None, bulk_build_reply (?b\<lparr>bb_str := s\<rparr>), z)"
    using fetch_str_ok[of ?b "s @ crlf @ z"] assms by (simp add: crlf_def nth_append)
  finally show ?thesis by (simp add: bulk_build_reply_def new_bulk_def)
qed

lemma bulk_feed_null:
  "\<exists>b. bulk_feed new_bulk (''-1'' @ crlf @ z) = (None, b, z) \<and> bb_ready b \<and> bb_reply b = (True, [])"
proof -
  have "int_to_string (-1) = ''-1''" by code_simp
  then have "int_feed new_int (''-1'' @ crlf @ z) = (None, read_int (-1) 1, z)"
    using int_feed_int[of "-1" z] by simp
  then show ?thesis
    using bulk_feed_unsized[of new_bulk "''-1'' @ crlf @ z"]
    by (simp add: new_bulk_def bulk_build_reply_def) (simp add: new_int_def)
qed

text \<open>\<open>parses b t rep\<close>: fed with the text \<open>t\<close>, the builder \<open>b\<close> ends ready with \<open>rep\<close>.\<close>

definition parses :: "builder \<Rightarrow> string \<Rightarrow> redis_reply \<Rightarrow> bool" where
  "parses b t rep = (\<forall>z. \<exists>b'. feed b (t @ z) = (None, b', z) \<and> reply_ready b' \<and> get_reply b' = rep)"

lemma rows_loop_parses:
  assumes "\<And>x. x \<in> set xs \<Longrightarrow> \<exists>b t. resp_text x = hd (resp_text x) # t \<and>
      create_builder (hd (resp_text x)) = Inr b \<and> parses b t (resp_reply x)"
    and "length rs + length xs = n"
  shows "\<exists>b'. rows_loop ib (Some n) None rs (length rs = n) (concat (map resp_text xs) @ z) = (None, b', z) \<and>
    reply_ready b' \<and> get_reply b' = make_reply (ArrayReply (rs @ map resp_reply xs))"
  using assms
proof (induction xs arbitrary: rs)
  case Nil
  then show ?case by (simp add: rows_loop_cases)
next
  case (Cons x xs)
  obtain b t where x: "resp_text x = hd (resp_text x) # t" "create_builder (hd (resp_text x)) = Inr b"
    "parses b t (resp_reply x)" using Cons.prems(1)[of x] by auto
  let ?z = "concat (map resp_text xs) @ z"
  obtain b' where b': "feed b (t @ ?z) = (None, b', ?z)" "reply_ready b'" "get_reply b' = resp_reply x"
    using x(3) unfolding parses_def by blast
  have "rows_loop ib (Some n) None rs (length rs = n) (concat (map resp_text (x # xs)) @ z) =
      row_result ib (Some n) rs (feed b (t @ ?z))"
  proof -
    have "hd (resp_text x @ ?z) = hd (resp_text x)" "tl (resp_text x @ ?z) = t @ ?z" "resp_text x @ ?z \<noteq> []"
      by (subst x(1), simp)+
    then show ?thesis
      using Cons.prems(2) x(2) rows_loop_cases(5)[of "resp_text x @ ?z" b ib "Some n" rs] by simp
  qed
  also have "\<dots> = rows_loop ib (Some n) None (rs @ [resp_reply x]) (length (rs @ [resp_reply x]) = n) ?z"
    using b' by (simp add: row_result_def add_row_def)
  finally show ?case using Cons.IH[of "rs @ [resp_reply x]"] Cons.prems by auto
qed

definition starts_and_parses :: "resp \<Rightarrow> bool" where
  "starts_and_parses r = (\<exists>b t. resp_text r = hd (resp_text r) # t \<and>
     create_builder (hd (resp_text r)) = Inr b \<and> parses b t (resp_reply r))"

lemma starts_and_parsesI:
  assumes "resp_text r = c # t" "create_builder c = Inr b"
    and "\<And>z. \<exists>b'. feed b (t @ z) = (None, b', z) \<and> reply_ready b' \<and> get_reply b' = resp_reply r"
  shows "starts_and_parses r"
  using assms unfolding starts_and_parses_def parses_def by auto

lemma parses_simple: "CR \<notin> set s \<Longrightarrow> starts_and_parses (RSimple s)"
  by (rule starts_and_parsesI[of _ "CHR ''+''" "s @ crlf" "SimpleB new_simple"])
    (simp_all add: create_builder_def feed.simps simple_feed_line)

lemma parses_error: "CR \<notin> set s \<Longrightarrow> starts_and_parses (RError s)"
  by (rule starts_and_parsesI[of _ "CHR ''-''" "s @ crlf" "ErrorB new_simple []"])
    (simp_all add: create_builder_def feed.simps error_feed_def simple_feed_line)

lemma parses_int: "\<bar>i\<bar> < 2 ^ 31 \<Longrightarrow> starts_and_parses (RInt i)"
  by (rule starts_and_parsesI[of _ "CHR '':''" "int_to_string i @ crlf" "IntB new_int"])
    (simp_all add: create_builder_def feed.simps int_feed_int)

lemma parses_null: "starts_and_parses RNull"
proof (rule starts_and_parsesI[of _ "CHR ''$''" "''-1'' @ crlf" "BulkB new_bulk"])
  show "\<exists>b'. feed (BulkB new_bulk) ((''-1'' @ crlf) @ z) = (None, b', z) \<and> reply_ready b' \<and>
      get_reply b' = resp_reply RNull" for z
    using bulk_feed_null[of z] by (auto simp: feed.simps)
qed (simp_all add: create_builder_def)

lemma parses_bulk:
  assumes "length s + 2 < 2 ^ 31"
  shows "starts_and_parses (RBulk s)"
  by (rule starts_and_parsesI[of _ "CHR ''$''" "nat_to_string (length s) @ crlf @ s @ crlf" "BulkB new_bulk"])
    (simp_all add: create_builder_def feed.simps bulk_feed_text[OF assms])

lemma parses_array:
  assumes "\<And>x. x \<in> set rs \<Longrightarrow> starts_and_parses x" "length rs < 2 ^ 31"
  shows "starts_and_parses (RArray rs)"
proof (rule starts_and_parsesI[of _ "CHR ''*''" "nat_to_string (length rs) @ crlf @ concat (map resp_text rs)" new_array])
  fix z
  let ?z = "concat (map resp_text rs) @ z" and ?ib = "read_int 1 (int (length rs))"
  have "fetch_array_size new_int None False (nat_to_string (length rs) @ crlf @ ?z) =
      (None, (True, ?ib, Some (length rs), length [] = length rs), ?z)"
    using int_feed_nat[OF assms(2), of ?z] by (simp add: fetch_array_size_def) (simp add: new_int_def)
  then have "feed new_array (nat_to_string (length rs) @ crlf @ ?z) =
      rows_loop ?ib (Some (length rs)) None [] (length [] = length rs) ?z"
    by (simp add: new_array_def feed.simps)
  moreover obtain b' where "rows_loop ?ib (Some (length rs)) None [] (length [] = length rs) ?z = (None, b', z)"
      "reply_ready b'" "get_reply b' = make_reply (ArrayReply ([] @ map resp_reply rs))"
    using rows_loop_parses[of rs "[]" "length rs" ?ib z] assms(1) unfolding starts_and_parses_def by auto
  ultimately show "\<exists>b'. feed new_array ((nat_to_string (length rs) @ crlf @ concat (map resp_text rs)) @ z) =
      (None, b', z) \<and> reply_ready b' \<and> get_reply b' = resp_reply (RArray rs)"
    by auto
qed (simp_all add: create_builder_def)

lemma resp_parses: "resp_wf r \<Longrightarrow> starts_and_parses r"
  by (induction r)
    (simp_all add: parses_simple parses_error parses_int parses_null parses_bulk parses_array list_all_iff)

lemma build_replies_texts:
  assumes "\<forall>r \<in> set rs. resp_wf r" "rb_builder R = None" "rb_buffer R = concat (map resp_text rs)"
  shows "build_replies R = (None, R\<lparr>rb_buffer := [], rb_replies := rb_replies R @ map resp_reply rs\<rparr>)"
  using assms
proof (induction rs arbitrary: R)
  case Nil
  then show ?case by (simp add: build_replies_rest build_reply_cases build_rest_def)
next
  case (Cons r rs)
  have "starts_and_parses r" using Cons.prems(1) resp_parses by simp
  then obtain b t where r: "resp_text r = hd (resp_text r) # t" "create_builder (hd (resp_text r)) = Inr b"
    "parses b t (resp_reply r)" by (auto simp: starts_and_parses_def)
  let ?z = "concat (map resp_text rs)"
  obtain b' where b': "feed b (t @ ?z) = (None, b', ?z)" "reply_ready b'" "get_reply b' = resp_reply r"
    using r(3) unfolding parses_def by blast
  have "hd (rb_buffer R) = hd (resp_text r)" "tl (rb_buffer R) = t @ ?z" "rb_buffer R \<noteq> []"
    using Cons.prems(3) by (simp, subst r(1), simp)+
  then have "build_reply R = build_step R (feed b (t @ ?z))"
    using build_reply_cases(4)[of R b] Cons.prems(2) r(2) by simp
  then have "build_replies R =
      build_replies (R\<lparr>rb_builder := None, rb_buffer := ?z, rb_replies := rb_replies R @ [resp_reply r]\<rparr>)"
    using b' by (simp add: build_replies_rest[of R] build_rest_def build_step_def)
  then show ?case using Cons.prems
      Cons.IH[of "R\<lparr>rb_builder := None, rb_buffer := ?z, rb_replies := rb_replies R @ [resp_reply r]\<rparr>"]
    by (cases R) simp
qed

text \<open>
  A stream cut into reads, for any parser that keeps its state between them and stops at the
  first error.  The contract: reading \<open>x @ y\<close> is reading \<open>x\<close> and then \<open>y\<close>, and after an error
  the rest is only kept.
\<close>

fun feeds :: "(string \<Rightarrow> 's \<Rightarrow> 'e option \<times> 's) \<Rightarrow> string list \<Rightarrow> 's \<Rightarrow> 'e option \<times> 's" where
  "feeds f [] s = (None, s)"
| "feeds f (x # xs) s = (case f x s of (Some e, s) \<Rightarrow> (Some e, s) | (None, s) \<Rightarrow> feeds f xs s)"

locale incremental_parser =
  fixes parse :: "string \<Rightarrow> 's \<Rightarrow> 'e option \<times> 's"
    and keep :: "string \<Rightarrow> 's \<Rightarrow> 's"
    and built :: "'s \<Rightarrow> 'o"
  assumes parse_append: "parse (x @ y) s = (case parse x s of
      (None, s') \<Rightarrow> parse y s' | (Some e, s') \<Rightarrow> (Some e, keep y s'))"
    and built_keep: "built (keep y s) = built s"
begin

lemma feeds_concat:
  assumes "xs \<noteq> []"
  shows "fst (feeds parse xs s) = fst (parse (concat xs) s) \<and>
    built (snd (feeds parse xs s)) = built (snd (parse (concat xs) s)) \<and>
    (fst (feeds parse xs s) = None \<longrightarrow> feeds parse xs s = parse (concat xs) s)"
  using assms
proof (induction xs arbitrary: s)
  case (Cons x xs)
  obtain e s1 where f: "parse x s = (e, s1)" by (metis prod.exhaust)
  consider a where "e = Some a" | "e = None" "xs = []" | "e = None" "xs \<noteq> []" by (cases e) auto
  then show ?case
  proof cases
    case 1
    then show ?thesis using f unfolding concat.simps parse_append feeds.simps
      by (simp add: built_keep)
  next
    case 2
    then show ?thesis using f by simp
  next
    case 3
    then have e: "parse (concat (x # xs)) s = parse (concat xs) s1"
      "feeds parse (x # xs) s = feeds parse xs s1"
      unfolding concat.simps parse_append feeds.simps f by simp_all
    show ?thesis unfolding e by (rule Cons.IH[OF 3(2)])
  qed
qed simp

lemma feeds_built:
  "xs \<noteq> [] \<Longrightarrow> map_prod id built (feeds parse xs s) = map_prod id built (parse (concat xs) s)"
  using feeds_concat[of xs s] by (cases "feeds parse xs s"; cases "parse (concat xs) s") auto

end

lemma rb_feed_append:
  "rb_feed (x @ y) R = (case rb_feed x R of
     (None, R') \<Rightarrow> rb_feed y R' | (Some e, R') \<Rightarrow> (Some e, append_data y R'))"
proof -
  have d: "rb_feed z R = build_replies (append_data z R)" for z R
    by (simp add: rb_feed_def append_data_def)
  have "append_data (x @ y) R = append_data y (append_data x R)" by (simp add: append_data_def)
  then have "rb_feed (x @ y) R = then_more y (rb_feed x R)"
    unfolding d by (simp only: build_replies_more)
  then show ?thesis unfolding then_more_def d .
qed

interpretation rp: incremental_parser rb_feed append_data rb_replies
  by unfold_locales (rule rb_feed_append, simp add: append_data_def)

abbreviation rb_feeds :: "string list \<Rightarrow> reply_builder \<Rightarrow> cpp_error option \<times> reply_builder" where
  "rb_feeds \<equiv> feeds rb_feed"

end
