(* ===== verification/RedisNet.thy ===== *)
theory RedisNet
  imports RedisParse
begin

text \<open>
  The network side of cpp_redis: \<open>network::io_service\<close>, \<open>network::tcp_client\<close> and
  \<open>network::redis_connection\<close>.

  Boost.Asio is outside the sources.  What its threads do is a parameter: every completion
  handler is a function of the result the library hands it, to be called when an operation the
  model records as outstanding has completed.  Documented is that \<open>async_write\<close> completes
  without an error only when all bytes it was given were transferred, in their order, and
  \<open>async_read\<close> hands over the bytes of the stream in order.

  The layer above a client is reached through two handlers; \<open>'s\<close> is its state.
\<close>

section \<open>\<open>io_service\<close>\<close>

text \<open>Whether the thread runs, and the functions posted (of type \<open>'f\<close>) it has not yet run.\<close>

record 'f io_service =
  io_thread :: bool
  io_queue :: "'f list"

definition io_service_run :: "'f io_service \<Rightarrow> 'f io_service" where
  "io_service_run s = (if \<not> io_thread s then s\<lparr>io_thread := True\<rparr> else s)"

definition io_service_post :: "'f \<Rightarrow> 'f io_service \<Rightarrow> 'f io_service" where
  "io_service_post f s = s\<lparr>io_queue := io_queue s @ [f]\<rparr>"

section \<open>Waiting for a completion handler\<close>

text \<open>
  \<open>connect\<close> and \<open>disconnect\<close> wait in the same way: the caller tests the flag \<open>is_notified\<close>
  and, if it is not set, waits on a condition variable; the handler, on the thread of the
  service, sets the flag and notifies, without the caller's mutex.  The flag and the condition
  variable are local to the call: a handler that uses them after the call has returned uses
  objects that are gone (\<open>Dangling\<close>, undefined behaviour).
\<close>

datatype caller = Checks | GoesToWait | Waits | Returns
datatype handler = NotRun | FlagSet | Notified | Dangling

type_synonym wait_state = "caller \<times> handler"

inductive wait_step :: "wait_state \<Rightarrow> wait_state \<Rightarrow> bool" where
  check_set: "h \<noteq> NotRun \<Longrightarrow> wait_step (Checks, h) (Returns, h)"
| check_unset: "wait_step (Checks, NotRun) (GoesToWait, NotRun)"
| wait: "wait_step (GoesToWait, h) (Waits, h)"
| set_flag: "wait_step (c, NotRun) (c, if c = Returns then Dangling else FlagSet)"
| notify: "wait_step (c, FlagSet)
    (if c = Waits then Returns else c, if c = Returns then Dangling else Notified)"

text \<open>The wait may also end without a notification, and nothing waits again.\<close>

inductive wakes_up :: "wait_state \<Rightarrow> wait_state \<Rightarrow> bool" where
  spurious: "wakes_up (Waits, h) (Returns, h)"

inductive_cases wait_stepE: "wait_step s s'"
inductive_cases wakes_upE: "wakes_up s s'"
inductive_simps wait_step_simps: "wait_step (c, h) s'"

text \<open>Objects that are gone are used only after the call has returned.\<close>

lemma dangling_returned:
  assumes "(sup wait_step wakes_up)\<^sup>*\<^sup>* (Checks, NotRun) s"
  shows "snd s = Dangling \<longrightarrow> fst s = Returns"
  using assms by induction (auto elim!: wait_stepE wakes_upE split: if_splits)

section \<open>\<open>tcp_client\<close>\<close>

text \<open>
  \<open>tc_capacity\<close>: the capacity of the vector \<open>m_write_buffer\<close>.  \<open>async_write\<close> hands over a pointer
  into the vector; \<open>tc_writing\<close>: the bytes that were there when the outstanding operation started.
  They are still there when it completes unless the vector has moved meanwhile; \<open>tc_moved\<close>: this
  has happened, the operation reads memory that is free, and what the client does from then on is
  undefined.  \<open>tc_wire\<close>: what writes have put on the stream so far, while it is defined.
\<close>

record tcp_client =
  tc_connected :: bool
  tc_open :: bool
  tc_reading :: bool
  tc_write_buffer :: string
  tc_capacity :: nat
  tc_writing :: "string option"
  tc_moved :: bool
  tc_wire :: string

definition new_tcp_client :: tcp_client where
  "new_tcp_client = \<lparr>tc_connected = False, tc_open = False, tc_reading = False,
     tc_write_buffer = [], tc_capacity = 0, tc_writing = None, tc_moved = False, tc_wire = []\<rparr>"

definition READ_SIZE :: nat where "READ_SIZE = 2048"

text \<open>The completion condition of the reads: how many more bytes to wait for.\<close>

definition read_more :: "bool \<Rightarrow> nat \<Rightarrow> nat" where
  "read_more error bytes = (if error \<or> bytes \<noteq> 0 then 0 else READ_SIZE)"

definition async_read :: "tcp_client \<Rightarrow> tcp_client" where
  "async_read c = c\<lparr>tc_reading := True\<rparr>"

definition async_write :: "tcp_client \<Rightarrow> tcp_client" where
  "async_write c = c\<lparr>tc_writing := Some (tc_write_buffer c)\<rparr>"

text \<open>
  \<open>m_write_buffer.insert(m_write_buffer.end(), ...)\<close>: a vector whose capacity is too small moves
  to new memory, of the old size and the larger of the old size and the inserted one (libstdc++).
\<close>

definition insert_bytes :: "string \<Rightarrow> tcp_client \<Rightarrow> tcp_client" where
  "insert_bytes buffer c =
     (let old = length (tc_write_buffer c);
          c = c\<lparr>tc_write_buffer := tc_write_buffer c @ buffer\<rparr> in
      if old + length buffer \<le> tc_capacity c then c
      else c\<lparr>tc_capacity := old + max old (length buffer),
             tc_moved := (tc_moved c \<or> tc_writing c \<noteq> None)\<rparr>)"

lemma insert_bytes_frame [simp]:
  "tc_write_buffer (insert_bytes s c) = tc_write_buffer c @ s" "tc_writing (insert_bytes s c) = tc_writing c"
  "tc_wire (insert_bytes s c) = tc_wire c" "tc_connected (insert_bytes s c) = tc_connected c"
  "tc_reading (insert_bytes s c) = tc_reading c" "tc_open (insert_bytes s c) = tc_open c"
  by (simp_all add: insert_bytes_def Let_def)

text \<open>
  \<open>connect\<close>: the host may not be an address (\<open>from_string\<close> throws); \<open>error\<close> is what
  \<open>async_connect\<close> reports to its handler.
\<close>

definition tcp_connect :: "bool \<Rightarrow> bool \<Rightarrow> string \<Rightarrow> nat \<Rightarrow> tcp_client \<Rightarrow> tcp_client result" where
  "tcp_connect is_address error host port c =
     (if tc_connected c then Inr c
      else if \<not> is_address then Inl SystemError
      else (let c = c\<lparr>tc_open := True\<rparr>;
                c = (if \<not> error then async_read (c\<lparr>tc_connected := True\<rparr>) else c) in
            if \<not> tc_connected c
            then Inl (RedisError (''Fail to connect to '' @ host @ '':'' @ nat_to_string port))
            else Inr c))"

definition tcp_disconnect :: "tcp_client \<Rightarrow> tcp_client" where
  "tcp_disconnect c =
     (if \<not> tc_connected c then c else c\<lparr>tc_connected := False, tc_open := False\<rparr>)"

definition tcp_send :: "string \<Rightarrow> tcp_client \<Rightarrow> tcp_client result" where
  "tcp_send buffer c =
     (if \<not> tc_connected c then Inl (RedisError ''Not connected'')
      else if buffer = [] then Inr c
      else (let bytes_in_buffer = tc_write_buffer c \<noteq> [];
                c = insert_bytes buffer c in
            if bytes_in_buffer then Inr c else Inr (async_write c)))"

definition process_disconnection :: "('s \<Rightarrow> 's) option \<Rightarrow> tcp_client \<times> 's \<Rightarrow> tcp_client \<times> 's" where
  "process_disconnection disconnection_handler cs = (case cs of (c, s) \<Rightarrow>
     (c\<lparr>tc_connected := False, tc_open := False\<rparr>,
      case disconnection_handler of None \<Rightarrow> s | Some h \<Rightarrow> h s))"

text \<open>The completion handlers of the reads and the writes.\<close>

definition read_handler ::
  "('s \<Rightarrow> 's) option \<Rightarrow> (string \<Rightarrow> 's \<Rightarrow> (bool \<times> 's) result) option \<Rightarrow> bool \<Rightarrow> string
    \<Rightarrow> tcp_client \<times> 's \<Rightarrow> (tcp_client \<times> 's) result" where
  "read_handler disconnection_handler receive_handler error bytes cs = (case cs of (c, s) \<Rightarrow>
     (let c = c\<lparr>tc_reading := False\<rparr> in
      if error then Inr (process_disconnection disconnection_handler (c, s))
      else (case receive_handler of
        None \<Rightarrow> Inr (async_read c, s)
      | Some h \<Rightarrow> bnd (h bytes s) (\<lambda>(ok, s).
          if \<not> ok then Inr (process_disconnection disconnection_handler (c, s))
          else Inr (async_read c, s)))))"

definition write_handler ::
  "('s \<Rightarrow> 's) option \<Rightarrow> bool \<Rightarrow> nat \<Rightarrow> tcp_client \<times> 's \<Rightarrow> tcp_client \<times> 's" where
  "write_handler disconnection_handler error n cs = (case cs of (c, s) \<Rightarrow>
     (let op = (case tc_writing c of None \<Rightarrow> [] | Some op \<Rightarrow> op);
          c = c\<lparr>tc_writing := None, tc_wire := tc_wire c @ take n op\<rparr> in
      if error then process_disconnection disconnection_handler (c, s)
      else (let c = c\<lparr>tc_write_buffer := drop n (tc_write_buffer c)\<rparr> in
            (if tc_write_buffer c \<noteq> [] then async_write c else c, s))))"

section \<open>\<open>redis_connection\<close>\<close>

definition build_command :: "string list \<Rightarrow> string" where
  "build_command redis_cmd =
     ''*'' @ nat_to_string (length redis_cmd) @ crlf @
     concat (map (\<lambda>part. ''$'' @ nat_to_string (length part) @ crlf @ part @ crlf) redis_cmd)"

definition connection_send :: "string list \<Rightarrow> tcp_client \<Rightarrow> tcp_client result" where
  "connection_send redis_cmd c = tcp_send (build_command redis_cmd) c"

text \<open>
  The loop of \<open>tcp_client_receive_handler\<close>; \<open>'u\<close> is the state of the object that set the reply
  callback.
\<close>

function deliver_replies ::
  "(redis_reply \<Rightarrow> 'u \<Rightarrow> 'u result) option \<Rightarrow> reply_builder \<times> 'u \<Rightarrow> (reply_builder \<times> 'u) result" where
  "deliver_replies reply_callback (B, u) =
     (if \<not> reply_available B then Inr (B, u)
      else bnd (get_front B) (\<lambda>reply. bnd (pop_front B) (\<lambda>B.
        bnd (case reply_callback of None \<Rightarrow> Inr u | Some f \<Rightarrow> f reply u)
          (\<lambda>u. deliver_replies reply_callback (B, u)))))"
  by pat_completeness auto
termination deliver_replies
  by (relation "measure (\<lambda>(_, B, _). length (rb_replies B))")
    (auto simp: pop_front_def reply_available_def split: if_splits)

declare deliver_replies.simps [simp del]

definition tcp_client_receive_handler ::
  "(redis_reply \<Rightarrow> 'u \<Rightarrow> 'u result) option \<Rightarrow> string \<Rightarrow> reply_builder \<times> 'u
    \<Rightarrow> (bool \<times> reply_builder \<times> 'u) result" where
  "tcp_client_receive_handler reply_callback buffer Bu = (case Bu of (B, u) \<Rightarrow>
     (case rb_feed buffer B of
        (Some (RedisError _), B) \<Rightarrow> Inr (False, B, u)
      | (Some e, B) \<Rightarrow> Inl e
      | (None, B) \<Rightarrow> bnd (deliver_replies reply_callback (B, u)) (\<lambda>Bu. Inr (True, Bu))))"

definition tcp_client_disconnection_handler ::
  "('u \<Rightarrow> 'u) option \<Rightarrow> reply_builder \<times> 'u \<Rightarrow> reply_builder \<times> 'u" where
  "tcp_client_disconnection_handler disconnection_handler Bu = (case Bu of (B, u) \<Rightarrow>
     (B, case disconnection_handler of None \<Rightarrow> u | Some h \<Rightarrow> h u))"

text \<open>What the constructor ties together: a read, or a write, of a connection completes.\<close>

definition connection_read ::
  "('u \<Rightarrow> 'u) option \<Rightarrow> (redis_reply \<Rightarrow> 'u \<Rightarrow> 'u result) option \<Rightarrow> bool \<Rightarrow> string
    \<Rightarrow> tcp_client \<times> reply_builder \<times> 'u \<Rightarrow> (tcp_client \<times> reply_builder \<times> 'u) result" where
  "connection_read disconnection_handler reply_callback =
     read_handler (Some (tcp_client_disconnection_handler disconnection_handler))
       (Some (tcp_client_receive_handler reply_callback))"

definition connection_written ::
  "('u \<Rightarrow> 'u) option \<Rightarrow> bool \<Rightarrow> nat
    \<Rightarrow> tcp_client \<times> reply_builder \<times> 'u \<Rightarrow> tcp_client \<times> reply_builder \<times> 'u" where
  "connection_written disconnection_handler =
     write_handler (Some (tcp_client_disconnection_handler disconnection_handler))"

section \<open>Lemmas\<close>

text \<open>A command is the protocol text of an array of bulk strings.\<close>

lemma build_command_text: "build_command cmd = resp_text (RArray (map RBulk cmd))"
proof -
  have "concat (map (\<lambda>part. ''$'' @ nat_to_string (length part) @ crlf @ part @ crlf) cmd) =
      concat (map resp_text (map RBulk cmd))" by (induction cmd) simp_all
  then show ?thesis by (simp only: build_command_def resp_text.simps length_map)
qed

text \<open>The loop hands the replies over in order.\<close>

fun deliver_all :: "(redis_reply \<Rightarrow> 'u \<Rightarrow> 'u result) option \<Rightarrow> redis_reply list \<Rightarrow> 'u \<Rightarrow> 'u result" where
  "deliver_all None rs u = Inr u"
| "deliver_all (Some f) rs u = foldM f rs u"

lemma deliver_replies_all:
  "deliver_replies cb (B, u) = bnd (deliver_all cb (rb_replies B) u) (\<lambda>u. Inr (B\<lparr>rb_replies := []\<rparr>, u))"
proof (induction "rb_replies B" arbitrary: B u)
  case Nil
  then show ?case
    by (cases cb; cases B) (simp_all add: deliver_replies.simps reply_available_def)
next
  case (Cons r rs)
  have B: "rb_replies B = r # rs" using Cons.hyps(2) by simp
  have IH: "deliver_replies cb (B\<lparr>rb_replies := rs\<rparr>, u) =
      bnd (deliver_all cb rs u) (\<lambda>u. Inr (B\<lparr>rb_replies := []\<rparr>, u))" for u
    using Cons.hyps(1)[of "B\<lparr>rb_replies := rs\<rparr>" u] by simp
  have "deliver_replies cb (B, u) = bnd (case cb of None \<Rightarrow> Inr u | Some f \<Rightarrow> f r u)
      (\<lambda>u. deliver_replies cb (B\<lparr>rb_replies := rs\<rparr>, u))"
    using B by (simp add: deliver_replies.simps[of cb B] reply_available_def get_front_def pop_front_def)
  then show ?case unfolding IH B by (cases cb) (simp_all add: bnd_assoc)
qed

section \<open>What reaches the stream\<close>

text \<open>
  The client's own events: bytes handed to \<open>send\<close>, the outstanding write completing, and a
  failure of a write.  \<open>tcp_event\<close> is what the client then does, nothing when no write is
  outstanding.
\<close>

datatype net_event = Send string | WriteDone | WriteFailed nat | Reconnect | Disconnect

definition tcp_event :: "net_event \<Rightarrow> tcp_client \<Rightarrow> tcp_client" where
  "tcp_event e c = (case e of
     Send s \<Rightarrow> (case tcp_send s c of Inr c \<Rightarrow> c | Inl _ \<Rightarrow> c)
   | WriteDone \<Rightarrow> (case tc_writing c of None \<Rightarrow> c
       | Some op \<Rightarrow> fst (write_handler None False (length op) (c, ())))
   | WriteFailed n \<Rightarrow> (case tc_writing c of None \<Rightarrow> c
       | Some op \<Rightarrow> fst (write_handler None True n (c, ())))
   | Reconnect \<Rightarrow> (case tcp_connect True False [] 0 c of Inr c \<Rightarrow> c | Inl _ \<Rightarrow> c)
   | Disconnect \<Rightarrow> tcp_disconnect c)"

definition tcp_events :: "net_event list \<Rightarrow> tcp_client \<Rightarrow> tcp_client" where
  "tcp_events = fold tcp_event"

text \<open>
  Everything handed over is either on the stream or in the buffer, in order, and a write of a
  prefix of the buffer is outstanding exactly when the buffer is not empty.
\<close>

definition wire_inv :: "string \<Rightarrow> tcp_client \<Rightarrow> bool" where
  "wire_inv sent c \<longleftrightarrow> tc_wire c @ tc_write_buffer c = sent \<and>
     (case tc_writing c of None \<Rightarrow> tc_write_buffer c = []
      | Some op \<Rightarrow> op \<noteq> [] \<and> take (length op) (tc_write_buffer c) = op)"

lemma tcp_send_connected:
  "tc_connected c \<Longrightarrow> tcp_send s c = Inr (
     if s = [] then c
     else if tc_write_buffer c \<noteq> [] then insert_bytes s c
     else (insert_bytes s c)\<lparr>tc_writing := Some s\<rparr>)"
  by (simp add: tcp_send_def async_write_def Let_def)

lemma wire_inv_send:
  assumes "wire_inv sent c" "tc_connected c"
  shows "\<exists>c'. tcp_send s c = Inr c' \<and> wire_inv (sent @ s) c' \<and> tc_connected c'"
proof (cases "tc_writing c")
  case None
  then show ?thesis using assms by (auto simp: tcp_send_connected wire_inv_def)
next
  case (Some op)
  then have op: "op \<noteq> []" "take (length op) (tc_write_buffer c) = op" using assms by (auto simp: wire_inv_def)
  then have l: "length op \<le> length (tc_write_buffer c)" by (metis length_take min.cobounded1)
  have ne: "tc_write_buffer c \<noteq> []" using op by auto
  have "take (length op) (tc_write_buffer c @ s) = op" using op l by simp
  then have "wire_inv (sent @ s) (insert_bytes s c)"
    using Some assms(1) op(1) by (simp add: wire_inv_def)
  moreover have "wire_inv (sent @ s) c" if "s = []" using assms(1) that by simp
  ultimately show ?thesis using ne assms(2) by (simp add: tcp_send_connected)
qed

lemma wire_inv_written:
  assumes "wire_inv sent c" "tc_writing c = Some op"
  shows "wire_inv sent (fst (write_handler h False (length op) (c, s)))"
proof -
  have "take (length op) (tc_write_buffer c) = op" using assms by (simp add: wire_inv_def)
  then obtain rest where r: "tc_write_buffer c = op @ rest" by (metis append_take_drop_id)
  have "tc_wire c @ op @ rest = sent" using assms(1) r by (simp add: wire_inv_def)
  then show ?thesis using assms(2) r
    by (cases "rest = []") (simp_all add: wire_inv_def write_handler_def async_write_def Let_def)
qed

definition sends :: "net_event list \<Rightarrow> string" where
  "sends es = concat (map (\<lambda>e. case e of Send s \<Rightarrow> s | _ \<Rightarrow> []) es)"

definition undisturbed :: "net_event list \<Rightarrow> bool" where
  "undisturbed es = list_all (\<lambda>e. case e of Send s \<Rightarrow> True | WriteDone \<Rightarrow> True | _ \<Rightarrow> False) es"

lemma tcp_events_wire:
  assumes "undisturbed es" "wire_inv sent c" "tc_connected c"
  shows "wire_inv (sent @ sends es) (tcp_events es c) \<and> tc_connected (tcp_events es c)"
  using assms
proof (induction es arbitrary: c sent)
  case Nil
  then show ?case by (simp add: tcp_events_def sends_def)
next
  case (Cons e es)
  have step: "wire_inv (sent @ sends [e]) (tcp_event e c) \<and> tc_connected (tcp_event e c)"
  proof (cases e)
    case (Send s)
    then show ?thesis using wire_inv_send[OF Cons.prems(2,3), of s] by (auto simp: tcp_event_def sends_def)
  next
    case WriteDone
    then show ?thesis using Cons.prems(2,3) wire_inv_written[OF Cons.prems(2)]
      by (cases "tc_writing c")
        (simp_all add: tcp_event_def sends_def, simp add: write_handler_def async_write_def Let_def)
  qed (use Cons.prems(1) in \<open>simp_all add: undisturbed_def\<close>)
  have "sends (e # es) = sends [e] @ sends es" "tcp_events (e # es) c = tcp_events es (tcp_event e c)"
    by (simp_all add: sends_def tcp_events_def)
  then show ?case
    using Cons.IH[of "sent @ sends [e]" "tcp_event e c"] step Cons.prems(1) by (simp add: undisturbed_def)
qed

text \<open>
  The first bytes handed over make the vector as large as they are; more of them, before the write
  completes, move it.
\<close>

lemma second_send_moves:
  assumes "tcp_connect True False host port new_tcp_client = Inr c" "s \<noteq> []" "t \<noteq> []"
  shows "tc_moved (tcp_events (Send s # Send t # es) c)"
proof -
  have stays: "tc_moved d \<Longrightarrow> tc_moved (tcp_event e d)" for e d
    by (cases e) (auto simp: tcp_event_def tcp_send_def insert_bytes_def async_write_def write_handler_def
        process_disconnection_def tcp_connect_def async_read_def tcp_disconnect_def Let_def split: option.split)
  then have "tc_moved d \<Longrightarrow> tc_moved (tcp_events es d)" for d
    by (induction es arbitrary: d) (simp_all add: tcp_events_def)
  moreover have "tc_moved (tcp_event (Send t) (tcp_event (Send s) c))"
    using assms by (auto simp: tcp_connect_def new_tcp_client_def async_read_def tcp_event_def tcp_send_connected
        insert_bytes_def Let_def)
  ultimately show ?thesis by (simp add: tcp_events_def)
qed

text \<open>A buffer left over by a failed write is never written again: \<open>send\<close> only appends to it.\<close>

definition stuck :: "tcp_client \<Rightarrow> bool" where
  "stuck c \<longleftrightarrow> tc_writing c = None \<and> tc_write_buffer c \<noteq> []"

lemma tcp_event_stuck: "stuck c \<Longrightarrow> stuck (tcp_event e c) \<and> tc_wire (tcp_event e c) = tc_wire c"
  by (cases e)
    (auto simp: stuck_def tcp_event_def tcp_send_def tcp_connect_def tcp_disconnect_def async_read_def Let_def
      split: option.splits)

lemma tcp_events_stuck:
  "stuck c \<Longrightarrow> stuck (tcp_events es c) \<and> tc_wire (tcp_events es c) = tc_wire c"
proof (induction es arbitrary: c)
  case (Cons e es)
  then show ?case using tcp_event_stuck[OF Cons.prems, of e] Cons.IH[of "tcp_event e c"]
    by (simp add: tcp_events_def)
qed (simp add: tcp_events_def)

end
