(* ===== verification/RedisClient.thy ===== *)
theory RedisClient
  imports RedisNet Message
begin

text \<open>
  The users of a Redis connection: \<open>cpp_redis::redis_client\<close> and \<open>redis_subscriber\<close>, and on
  top of the former the server's \<open>RedisClient\<close> and \<open>RedisGameLogger\<close> (communication/).

  A callback is a non-empty \<open>std::function\<close>, here a value of a type \<open>'cb\<close>; that it was called
  is recorded in \<open>events\<close>.  The mutexes are held while a callback runs: callbacks do not call
  back into the object.
\<close>

section \<open>\<open>redis_client\<close>\<close>

datatype 'cb client_event = Called 'cb redis_reply | Disconnected

record 'cb client_state =
  cl_callbacks :: "'cb option list"
  cl_handler :: bool                      \<comment> \<open>\<open>m_disconnection_handler\<close> is set\<close>
  cl_events :: "'cb client_event list"

type_synonym 'cb redis_client = "tcp_client \<times> reply_builder \<times> 'cb client_state"

definition new_client_state :: "'cb client_state" where
  "new_client_state = \<lparr>cl_callbacks = [], cl_handler = False, cl_events = []\<rparr>"

definition redis_client_connect :: "bool \<Rightarrow> bool \<Rightarrow> string \<Rightarrow> nat \<Rightarrow> 'cb redis_client \<Rightarrow> 'cb redis_client result" where
  "redis_client_connect is_address error host port cl = (case cl of (c, B, u) \<Rightarrow>
     bnd (tcp_connect is_address error host port c) (\<lambda>c. Inr (c, B, u)))"

definition redis_client_disconnect :: "'cb redis_client \<Rightarrow> 'cb redis_client" where
  "redis_client_disconnect cl = (case cl of (c, B, u) \<Rightarrow> (tcp_disconnect c, B, u))"

definition redis_client_send :: "string list \<Rightarrow> 'cb option \<Rightarrow> 'cb redis_client \<Rightarrow> 'cb redis_client result" where
  "redis_client_send redis_cmd callback cl = (case cl of (c, B, u) \<Rightarrow>
     bnd (connection_send redis_cmd c) (\<lambda>c.
       Inr (c, B, u\<lparr>cl_callbacks := cl_callbacks u @ [callback]\<rparr>)))"

definition client_receive_handler :: "redis_reply \<Rightarrow> 'cb client_state \<Rightarrow> 'cb client_state" where
  "client_receive_handler reply u =
     (case cl_callbacks u of
        [] \<Rightarrow> u
      | cb # cbs \<Rightarrow> u\<lparr>cl_events := cl_events u @ (case cb of None \<Rightarrow> [] | Some f \<Rightarrow> [Called f reply]),
                    cl_callbacks := cbs\<rparr>)"

definition clear_callbacks :: "'cb client_state \<Rightarrow> 'cb client_state" where
  "clear_callbacks u = u\<lparr>cl_callbacks := []\<rparr>"

definition call_disconnection_handler :: "'cb client_state \<Rightarrow> 'cb client_state" where
  "call_disconnection_handler u =
     (if cl_handler u then u\<lparr>cl_events := cl_events u @ [Disconnected]\<rparr> else u)"

definition client_disconnection_handler :: "'cb client_state \<Rightarrow> 'cb client_state" where
  "client_disconnection_handler u = call_disconnection_handler (clear_callbacks u)"

text \<open>A read, and a write, of the connection completes.\<close>

definition redis_client_read :: "bool \<Rightarrow> string \<Rightarrow> 'cb redis_client \<Rightarrow> 'cb redis_client result" where
  "redis_client_read = connection_read (Some client_disconnection_handler)
     (Some (\<lambda>reply u. Inr (client_receive_handler reply u)))"

definition redis_client_written :: "bool \<Rightarrow> nat \<Rightarrow> 'cb redis_client \<Rightarrow> 'cb redis_client" where
  "redis_client_written = connection_written (Some client_disconnection_handler)"

section \<open>\<open>redis_subscriber\<close>\<close>

datatype 'cb sub_event = Published 'cb string string | SubDisconnected

record 'cb sub_state =
  su_channels :: "(string, 'cb) ordmap"     \<comment> \<open>\<open>m_subscribed_channels\<close>\<close>
  su_patterns :: "(string, 'cb) ordmap"     \<comment> \<open>\<open>m_psubscribed_channels\<close>\<close>
  su_handler :: bool
  su_events :: "'cb sub_event list"

type_synonym 'cb redis_subscriber = "tcp_client \<times> reply_builder \<times> 'cb sub_state"

definition new_sub_state :: "'cb sub_state" where
  "new_sub_state = \<lparr>su_channels = [], su_patterns = [], su_handler = False, su_events = []\<rparr>"

text \<open>The callback is registered before the command is sent, which may throw.\<close>

definition sub_send :: "string list \<Rightarrow> 'cb redis_subscriber \<Rightarrow> cpp_error option \<times> 'cb redis_subscriber" where
  "sub_send cmd s = (case s of (c, B, u) \<Rightarrow>
     (case connection_send cmd c of Inl e \<Rightarrow> (Some e, c, B, u) | Inr c \<Rightarrow> (None, c, B, u)))"

definition subscribe ::
  "string \<Rightarrow> 'cb \<Rightarrow> 'cb redis_subscriber \<Rightarrow> cpp_error option \<times> 'cb redis_subscriber" where
  "subscribe channel callback s = (case s of (c, B, u) \<Rightarrow>
     sub_send [''SUBSCRIBE'', channel]
       (c, B, u\<lparr>su_channels := ord_set channel callback (su_channels u)\<rparr>))"

definition psubscribe ::
  "string \<Rightarrow> 'cb \<Rightarrow> 'cb redis_subscriber \<Rightarrow> cpp_error option \<times> 'cb redis_subscriber" where
  "psubscribe pattern callback s = (case s of (c, B, u) \<Rightarrow>
     sub_send [''PSUBSCRIBE'', pattern]
       (c, B, u\<lparr>su_patterns := ord_set pattern callback (su_patterns u)\<rparr>))"

definition unsubscribe ::
  "string \<Rightarrow> 'cb redis_subscriber \<Rightarrow> cpp_error option \<times> 'cb redis_subscriber" where
  "unsubscribe channel s = (case s of (c, B, u) \<Rightarrow>
     if ord_find channel (su_channels u) = None then (None, s)
     else (case sub_send [''UNSUBSCRIBE'', channel] s of
        (Some e, s) \<Rightarrow> (Some e, s)
      | (None, c, B, u) \<Rightarrow> (None, c, B, u\<lparr>su_channels := ord_erase channel (su_channels u)\<rparr>)))"

definition punsubscribe ::
  "string \<Rightarrow> 'cb redis_subscriber \<Rightarrow> cpp_error option \<times> 'cb redis_subscriber" where
  "punsubscribe pattern s = (case s of (c, B, u) \<Rightarrow>
     if ord_find pattern (su_patterns u) = None then (None, s)
     else (case sub_send [''PUNSUBSCRIBE'', pattern] s of
        (Some e, s) \<Rightarrow> (Some e, s)
      | (None, c, B, u) \<Rightarrow> (None, c, B, u\<lparr>su_patterns := ord_erase pattern (su_patterns u)\<rparr>)))"

definition handle_subscribe_reply :: "redis_reply list \<Rightarrow> 'cb sub_state \<Rightarrow> 'cb sub_state" where
  "handle_subscribe_reply reply u = (case reply of
     [title, channel, message] \<Rightarrow>
       if \<not> reply_is_string title \<or> \<not> reply_is_string channel \<or> \<not> reply_is_string message then u
       else if rstr title \<noteq> ''message'' then u
       else (case ord_find (rstr channel) (su_channels u) of
          None \<Rightarrow> u
        | Some cb \<Rightarrow> u\<lparr>su_events := su_events u @ [Published cb (rstr channel) (rstr message)]\<rparr>)
   | _ \<Rightarrow> u)"

definition handle_psubscribe_reply :: "redis_reply list \<Rightarrow> 'cb sub_state \<Rightarrow> 'cb sub_state" where
  "handle_psubscribe_reply reply u = (case reply of
     [title, pchannel, channel, message] \<Rightarrow>
       if \<not> reply_is_string title \<or> \<not> reply_is_string pchannel \<or> \<not> reply_is_string channel
         \<or> \<not> reply_is_string message then u
       else if rstr title \<noteq> ''pmessage'' then u
       else (case ord_find (rstr pchannel) (su_patterns u) of
          None \<Rightarrow> u
        | Some cb \<Rightarrow> u\<lparr>su_events := su_events u @ [Published cb (rstr channel) (rstr message)]\<rparr>)
   | _ \<Rightarrow> u)"

definition sub_receive_handler :: "redis_reply \<Rightarrow> 'cb sub_state \<Rightarrow> 'cb sub_state" where
  "sub_receive_handler reply u =
     (if \<not> reply_is_array reply then u
      else if length (rows reply) = 3 then handle_subscribe_reply (rows reply) u
      else if length (rows reply) = 4 then handle_psubscribe_reply (rows reply) u
      else u)"

definition sub_disconnection_handler :: "'cb sub_state \<Rightarrow> 'cb sub_state" where
  "sub_disconnection_handler u =
     (if su_handler u then u\<lparr>su_events := su_events u @ [SubDisconnected]\<rparr> else u)"

definition redis_subscriber_read ::
  "bool \<Rightarrow> string \<Rightarrow> 'cb redis_subscriber \<Rightarrow> 'cb redis_subscriber result" where
  "redis_subscriber_read = connection_read (Some sub_disconnection_handler)
     (Some (\<lambda>reply u. Inr (sub_receive_handler reply u)))"

section \<open>\<open>RedisClient\<close> and \<open>RedisGameLogger\<close>\<close>

text \<open>The constructor connects to the default address and then sets a handler that prints.\<close>

definition RedisClient :: "bool \<Rightarrow> 'cb redis_client result" where
  "RedisClient error =
     bnd (redis_client_connect True error ''127.0.0.1'' 6379 (new_tcp_client, new_reply_builder, new_client_state))
       (\<lambda>(c, B, u). Inr (c, B, u\<lparr>cl_handler := True\<rparr>))"

definition RedisClient_Send :: "string list \<Rightarrow> 'cb redis_client \<Rightarrow> 'cb redis_client result" where
  "RedisClient_Send redis_cmd cl = redis_client_send redis_cmd None cl"

record game_logger =
  gl_channel :: string

definition RedisGameLogger :: "int \<Rightarrow> game_logger" where
  "RedisGameLogger game_id = \<lparr>gl_channel = ''match:'' @ int_to_string game_id\<rparr>"

definition logger_Log :: "stdio \<Rightarrow> game_logger \<Rightarrow> message \<Rightarrow> 'cb redis_client \<Rightarrow> 'cb redis_client result" where
  "logger_Log io l message cl =
     bnd (ToString io message) (\<lambda>s. RedisClient_Send [''PUBLISH'', gl_channel l, s] cl)"

definition logger_Create :: "int \<Rightarrow> game_logger" where
  "logger_Create game_id = RedisGameLogger game_id"

section \<open>Reading a stream in pieces\<close>

text \<open>The replies already built play no role in building more.\<close>

definition prepend_replies :: "redis_reply list \<Rightarrow> reply_builder \<Rightarrow> reply_builder" where
  "prepend_replies rs R = R\<lparr>rb_replies := rs @ rb_replies R\<rparr>"

lemma build_reply_prepend:
  "build_reply (prepend_replies rs R) =
     (case build_reply R of (e, again, R') \<Rightarrow> (e, again, prepend_replies rs R'))"
  by (cases R)
    (simp add: build_reply_def prepend_replies_def split: option.splits sum.splits prod.splits)

lemma build_replies_prepend:
  "build_replies (prepend_replies rs R) = (case build_replies R of (e, R') \<Rightarrow> (e, prepend_replies rs R'))"
proof (induction R rule: build_replies.induct)
  case (1 R)
  obtain e again R' where b: "build_reply R = (e, again, R')" by (metis prod.exhaust)
  show ?case
  proof (cases "e = None \<and> again")
    case True
    then show ?thesis using 1[of None "(True, R')" True R'] b
      by (simp add: build_replies_rest[of R] build_replies_rest[of "prepend_replies rs R"]
          build_reply_prepend build_rest_def)
  next
    case False
    then show ?thesis using b
      by (cases e)
        (auto simp: build_replies_rest[of R] build_replies_rest[of "prepend_replies rs R"]
          build_reply_prepend build_rest_def)
  qed
qed

lemma rb_feed_prepend:
  "rb_feed x (prepend_replies rs R) = (case rb_feed x R of (e, R') \<Rightarrow> (e, prepend_replies rs R'))"
proof -
  have "prepend_replies rs R\<lparr>rb_buffer := rb_buffer R @ x\<rparr> = prepend_replies rs (R\<lparr>rb_buffer := rb_buffer R @ x\<rparr>)"
    by (simp add: prepend_replies_def)
  then show ?thesis using build_replies_prepend[of rs "R\<lparr>rb_buffer := rb_buffer R @ x\<rparr>"]
    by (cases R) (simp add: rb_feed_def prepend_replies_def)
qed

lemma rb_feeds_prepend:
  "rb_feeds xs (prepend_replies rs R) = (case rb_feeds xs R of (e, R') \<Rightarrow> (e, prepend_replies rs R'))"
  by (induction xs arbitrary: R) (auto simp: rb_feed_prepend split: prod.splits option.splits)

definition connection_reads ::
  "('u \<Rightarrow> 'u) option \<Rightarrow> (redis_reply \<Rightarrow> 'u \<Rightarrow> 'u result) option \<Rightarrow> string list
    \<Rightarrow> tcp_client \<times> reply_builder \<times> 'u \<Rightarrow> (tcp_client \<times> reply_builder \<times> 'u) result" where
  "connection_reads dh cb = foldM (connection_read dh cb False)"

lemma foldM_pure: "foldM (\<lambda>x s. Inr (f x s)) xs s = Inr (fold f xs s)"
  by (induction xs arbitrary: s) simp_all

text \<open>
  Reads of a stream the parser accepts hand its replies to the callback, in order, whatever the
  cut.
\<close>

lemma connection_reads_ok:
  assumes "rb_feeds chunks B = (None, B')" "rb_replies B = []" "tc_reading c"
  shows "connection_reads dh (Some (\<lambda>r u. Inr (f r u))) chunks (c, B, u) =
    Inr (c, B'\<lparr>rb_replies := []\<rparr>, fold f (rb_replies B') u)"
  using assms
proof (induction chunks arbitrary: B B' u)
  case Nil
  then show ?case by (cases B) (simp add: connection_reads_def)
next
  case (Cons x xs)
  let ?cb = "Some (\<lambda>r u. Inr (f r u))"
  obtain B1 where B1: "rb_feed x B = (None, B1)" "rb_feeds xs B1 = (None, B')"
    using Cons.prems(1) by (auto split: prod.splits option.splits)
  let ?D = "B1\<lparr>rb_replies := []\<rparr>"
  obtain e D' where D': "rb_feeds xs ?D = (e, D')" by (metis prod.exhaust)
  have "B1 = prepend_replies (rb_replies B1) ?D" by (simp add: prepend_replies_def)
  then have eq: "e = None" "B' = prepend_replies (rb_replies B1) D'"
    using B1(2) D' rb_feeds_prepend[of xs "rb_replies B1" ?D] by auto
  have "connection_read dh ?cb False x (c, B, u) = Inr (c, ?D, fold f (rb_replies B1) u)"
    using B1(1) Cons.prems(3)
    by (simp add: connection_read_def read_handler_def tcp_client_receive_handler_def deliver_replies_all
        foldM_pure async_read_def Let_def)
  moreover have "connection_reads dh ?cb xs (c, ?D, fold f (rb_replies B1) u) =
      Inr (c, D'\<lparr>rb_replies := []\<rparr>, fold f (rb_replies D') (fold f (rb_replies B1) u))"
    using Cons.IH[of ?D] D' eq(1) Cons.prems(3) by simp
  ultimately show ?case
    by (simp add: connection_reads_def eq(2) prepend_replies_def)
qed

section \<open>Handlers over a list of replies\<close>

text \<open>Callbacks are taken from the queue one per reply.\<close>

fun answers :: "'cb option list \<Rightarrow> redis_reply list \<Rightarrow> 'cb client_event list" where
  "answers (cb # cbs) (r # rs) = (case cb of None \<Rightarrow> [] | Some f \<Rightarrow> [Called f r]) @ answers cbs rs"
| "answers _ _ = []"

lemma client_receive_fold:
  "fold client_receive_handler rs u =
     u\<lparr>cl_callbacks := drop (length rs) (cl_callbacks u), cl_events := cl_events u @ answers (cl_callbacks u) rs\<rparr>"
proof (induction rs arbitrary: u)
  case (Cons r rs)
  then show ?case
    by (cases "cl_callbacks u"; cases u) (auto simp: client_receive_handler_def split: option.split)
qed simp

text \<open>The text of a published message, and what a subscriber's table makes of a list of them.\<close>

definition publication :: "string \<times> string \<Rightarrow> resp" where
  "publication p = RArray [RBulk ''message'', RBulk (fst p), RBulk (snd p)]"

definition deliveries :: "(string, 'cb) ordmap \<Rightarrow> (string \<times> string) list \<Rightarrow> 'cb sub_event list" where
  "deliveries m ps = concat (map (\<lambda>(ch, s). case ord_find ch m of
     None \<Rightarrow> [] | Some cb \<Rightarrow> [Published cb ch s]) ps)"

lemma sub_receive_publication:
  "sub_receive_handler (resp_reply (publication p)) u =
     u\<lparr>su_events := su_events u @ deliveries (su_channels u) [p]\<rparr>"
  by (cases u; cases p)
    (simp add: sub_receive_handler_def publication_def handle_subscribe_reply_def reply_is_array_def
      reply_is_string_def reply_is_bulk_string_def deliveries_def split: option.split)

lemma sub_receive_publications:
  "fold sub_receive_handler (map (resp_reply \<circ> publication) ps) u =
     u\<lparr>su_events := su_events u @ deliveries (su_channels u) ps\<rparr>"
proof (induction ps arbitrary: u)
  case (Cons p ps)
  have "deliveries m (p # ps) = deliveries m [p] @ deliveries m ps" for m :: "(string, 'a) ordmap"
    by (simp add: deliveries_def)
  then show ?case using Cons by (cases u) (simp add: sub_receive_publication)
qed (simp add: deliveries_def)

text \<open>A read the parser rejects ends the connection.\<close>

lemma redis_client_read_error:
  assumes "rb_feed x B = (Some (RedisError w), B')"
  shows "redis_client_read False x (c, B, u) =
    Inr (c\<lparr>tc_reading := False, tc_connected := False, tc_open := False\<rparr>, B', client_disconnection_handler u)"
  using assms
  by (simp add: redis_client_read_def connection_read_def read_handler_def tcp_client_receive_handler_def
      process_disconnection_def tcp_client_disconnection_handler_def Let_def)

end
