(* ===== verification/RedisProperties.thy ===== *)
theory RedisProperties
  imports RedisClient RoundMatch
begin

text \<open>
  The properties of the Redis side: the parser, the commands, the callbacks, the stream of
  bytes written, the subscriptions and the log of a game.
\<close>

section \<open>The parser\<close>

text \<open>
  C19. However the bytes that arrive are cut into reads, the parser reports the same first error
  and has built the same replies as if they had arrived in one read.
\<close>

theorem replies_independent_of_reads:
  "map_prod id rb_replies (rb_feeds (x # xs) R) = map_prod id rb_replies (rb_feed (concat (x # xs)) R)"
  by (rule rp.feeds_built) simp

text \<open>
  C9. The text of any list of replies (nested arrays, null strings, negative numbers), cut into
  reads in any way, is parsed without an error into exactly those replies, and nothing is left
  over.
\<close>

theorem replies_parsed_back:
  assumes "\<forall>r \<in> set rs. resp_wf r" "concat chunks = concat (map resp_text rs)" "chunks \<noteq> []"
  shows "rb_feeds chunks new_reply_builder = (None, new_reply_builder\<lparr>rb_replies := map resp_reply rs\<rparr>)"
proof -
  have "rb_feed (concat chunks) new_reply_builder =
      (None, new_reply_builder\<lparr>rb_replies := map resp_reply rs\<rparr>)"
    using build_replies_texts[of rs "new_reply_builder\<lparr>rb_buffer := concat chunks\<rparr>"] assms(1,2)
    by (simp add: rb_feed_def new_reply_builder_def)
  then show ?thesis using rp.feeds_concat[OF assms(3), of new_reply_builder] by simp
qed

lemma replies_parsed_back_witness:
  "rb_feeds [''*3'' @ crlf @ ''$2'' @ [CR], LF # ''hi'' @ crlf @ ''$-'', ''1'' @ crlf, '':-42'' @ crlf, ''+OK'' @ crlf]
      new_reply_builder =
    (None, new_reply_builder\<lparr>rb_replies :=
      [make_reply (ArrayReply [make_reply (BulkStringReply False ''hi''), make_reply (BulkStringReply True []),
         make_reply (IntegerReply (-42))]), make_reply (SimpleStringReply ''OK'')]\<rparr>)"
proof -
  let ?rs = "[RArray [RBulk ''hi'', RNull, RInt (-42)], RSimple ''OK'']"
  let ?chunks = "[''*3'' @ crlf @ ''$2'' @ [CR], LF # ''hi'' @ crlf @ ''$-'', ''1'' @ crlf, '':-42'' @ crlf, ''+OK'' @ crlf]"
  have cat: "concat ?chunks = concat (map resp_text ?rs)" by code_simp
  have wf: "\<forall>r \<in> set ?rs. resp_wf r" by simp
  have "rb_feeds ?chunks new_reply_builder =
      (None, new_reply_builder\<lparr>rb_replies := map resp_reply ?rs\<rparr>)"
    by (rule replies_parsed_back[OF wf cat]) simp
  then show ?thesis by (simp only: list.map resp_reply.simps)
qed

text \<open>
  The text a command is sent as is parsed, by the library's own parser, as one array of
  bulk strings: the words of the command.
\<close>

lemma command_parsed_back:
  assumes "length cmd < 2 ^ 31" "\<forall>w \<in> set cmd. length w + 2 < 2 ^ 31"
  shows "rb_feed (build_command cmd) new_reply_builder =
    (None, new_reply_builder\<lparr>rb_replies :=
       [make_reply (ArrayReply (map (\<lambda>w. make_reply (BulkStringReply False w)) cmd))]\<rparr>)"
proof -
  have "resp_wf (RArray (map RBulk cmd))" using assms by (simp add: list_all_iff)
  moreover have "resp_reply (RArray (map RBulk cmd)) =
      make_reply (ArrayReply (map (\<lambda>w. make_reply (BulkStringReply False w)) cmd))"
    by (simp add: comp_def)
  ultimately show ?thesis
    using build_replies_texts[of "[RArray (map RBulk cmd)]"
        "new_reply_builder\<lparr>rb_buffer := resp_text (RArray (map RBulk cmd))\<rparr>"]
    unfolding build_command_text by (simp add: rb_feed_def new_reply_builder_def)
qed

section \<open>The connection\<close>

text \<open>
  C22. A caller of \<open>connect\<close> or \<open>disconnect\<close> waits for the flag its handler sets.  However the steps
  of the two are interleaved, wakeups without a notification included, the states in which
  nothing but such a wakeup can happen any more are exactly three: the call has returned and the
  handler has notified it in time; the call waits although the handler has already notified it,
  between the test of the flag and the wait; or the call has returned and the handler then used
  its local flag or condition variable, which are gone.  The last one is reached also without
  such wakeups, when the flag is seen before the notification.
\<close>

theorem call_returns_or_misses_its_wakeup:
  "((sup wait_step wakes_up)\<^sup>*\<^sup>* (Checks, NotRun) s \<and> \<not> (\<exists>s'. wait_step s s')) =
    (s = (Returns, Notified) \<or> s = (Waits, Notified) \<or> s = (Returns, Dangling)) \<and>
   wait_step\<^sup>*\<^sup>* (Checks, NotRun) (Returns, Dangling)"
proof -
  have seen: "wait_step\<^sup>*\<^sup>* (Checks, NotRun) (Returns, FlagSet)"
    using set_flag[of Checks] check_set[of FlagSet] by (simp add: rtranclp.rtrancl_into_rtrancl)
  have d: "wait_step\<^sup>*\<^sup>* (Checks, NotRun) (Returns, Dangling)"
    using rtranclp.rtrancl_into_rtrancl[OF seen notify[of Returns, simplified]] .
  have a: "wait_step\<^sup>*\<^sup>* (Checks, NotRun) (Checks, Notified)"
    using set_flag[of Checks] notify[of Checks] by (simp add: rtranclp.rtrancl_into_rtrancl)
  have b: "wait_step\<^sup>*\<^sup>* (Checks, NotRun) (GoesToWait, Notified)"
    using check_unset set_flag[of GoesToWait] notify[of GoesToWait]
    by (simp add: converse_rtranclp_into_rtranclp r_into_rtranclp)
  have reach: "wait_step\<^sup>*\<^sup>* x y \<Longrightarrow> (sup wait_step wakes_up)\<^sup>*\<^sup>* x y" for x y
    by (rule rtranclp_mono[THEN predicate2D]) auto
  have stop: "\<not> wait_step (Returns, Notified) s'" "\<not> wait_step (Waits, Notified) s'"
    "\<not> wait_step (Returns, Dangling) s'" for s'
    by (auto simp: wait_step_simps)
  have "s = (Returns, Notified) \<or> s = (Waits, Notified) \<or> s = (Returns, Dangling)"
    if l: "(sup wait_step wakes_up)\<^sup>*\<^sup>* (Checks, NotRun) s" "\<not> (\<exists>s'. wait_step s s')"
  proof -
    obtain c h where s: "s = (c, h)" by (cases s)
    have "h = Notified \<or> h = Dangling" using l(2) s by (cases h) (auto intro: wait_step.intros)
    then show ?thesis
      using l(2) s dangling_returned[OF l(1)] by (cases c) (auto simp: wait_step_simps)
  qed
  moreover have "(sup wait_step wakes_up)\<^sup>*\<^sup>* (Checks, NotRun) s \<and> \<not> (\<exists>s'. wait_step s s')"
    if "s = (Returns, Notified) \<or> s = (Waits, Notified) \<or> s = (Returns, Dangling)"
    using that stop reach[OF d] reach[OF rtranclp.rtrancl_into_rtrancl[OF a check_set[of Notified]]]
      reach[OF rtranclp.rtrancl_into_rtrancl[OF b wait[of Notified]]] by auto
  ultimately show ?thesis using d by blast
qed

text \<open>
  C10. As long as no write fails and no \<open>send\<close> has moved the buffer while a write was reading from
  it, a client that has sent some bytes, in whatever order the writes complete between, has put
  on the stream a prefix of what it was given, in order, the rest is in its buffer, and a write is
  outstanding exactly if there is a rest.  This is not what two calls of \<open>send\<close> in a row, with some
  bytes each, do on a new client: the second always moves the buffer under the first write.
\<close>

theorem client_writes_in_order:
  assumes "tcp_connect True False host port new_tcp_client = Inr c" "undisturbed es"
    and "\<not> tc_moved (tcp_events es c)"
  shows "tc_wire (tcp_events es c) @ tc_write_buffer (tcp_events es c) = sends es \<and>
    (tc_writing (tcp_events es c) = None \<longleftrightarrow> tc_write_buffer (tcp_events es c) = []) \<and>
    (\<forall>s t es'. es = Send s # Send t # es' \<longrightarrow> s = [] \<or> t = [])"
proof -
  have "wire_inv [] c" "tc_connected c"
    using assms(1) by (auto simp: tcp_connect_def new_tcp_client_def async_read_def wire_inv_def)
  then have "wire_inv (sends es) (tcp_events es c)" using tcp_events_wire[OF assms(2), of "[]" c] by simp
  moreover have "s = [] \<or> t = []" if "es = Send s # Send t # es'" for s t es'
    using second_send_moves[OF assms(1), of s t es'] assms(3) that by blast
  ultimately show ?thesis by (auto simp: wire_inv_def split: option.splits)
qed

lemma client_writes_in_order_witness:
  "\<exists>c. tcp_connect True False ''::1'' 6379 new_tcp_client = Inr c \<and>
    tc_wire (tcp_events [Send ''ab'', WriteDone, Send ''c'', Send ''d'', WriteDone, WriteDone] c) @
      tc_write_buffer (tcp_events [Send ''ab'', WriteDone, Send ''c'', Send ''d'', WriteDone, WriteDone] c) = ''abcd''"
proof -
  let ?es = "[Send ''ab'', WriteDone, Send ''c'', Send ''d'', WriteDone, WriteDone]"
  obtain c where c: "tcp_connect True False ''::1'' 6379 new_tcp_client = Inr c"
    by (simp add: tcp_connect_def new_tcp_client_def async_read_def)
  have "\<not> tc_moved (tcp_events ?es c)"
    using c by (auto simp: tcp_connect_def new_tcp_client_def async_read_def tcp_events_def tcp_event_def
        tcp_send_connected insert_bytes_def write_handler_def async_write_def Let_def)
  then show ?thesis
    using client_writes_in_order[OF c, of ?es] c by (auto simp: undisturbed_def sends_def)
qed

text \<open>
  C21. A write that fails leaves its bytes in the buffer, and as \<open>send\<close> starts a write only on an
  empty buffer, nothing sent later is ever written, not even after connecting again.
\<close>

theorem failed_write_blocks_the_client:
  assumes "wire_inv given c" "tc_writing c = Some op"
  shows "tc_wire (tcp_events (WriteFailed n # es) c) = tc_wire c @ take n op"
proof -
  have "stuck (tcp_event (WriteFailed n) c)" "tc_wire (tcp_event (WriteFailed n) c) = tc_wire c @ take n op"
    using assms by (auto simp: wire_inv_def stuck_def tcp_event_def write_handler_def process_disconnection_def Let_def)
  then show ?thesis using tcp_events_stuck[of "tcp_event (WriteFailed n) c" es] by (simp add: tcp_events_def)
qed

lemma failed_write_blocks_the_client_witness:
  "tc_wire (tcp_events [WriteFailed 1, Reconnect, Send ''later'', WriteDone]
     (tcp_event (Send ''ab'') (new_tcp_client\<lparr>tc_connected := True\<rparr>))) = ''a''"
proof -
  have "wire_inv ''ab'' (tcp_event (Send ''ab'') (new_tcp_client\<lparr>tc_connected := True\<rparr>))"
    "tc_writing (tcp_event (Send ''ab'') (new_tcp_client\<lparr>tc_connected := True\<rparr>)) = Some ''ab''"
    "tc_wire (tcp_event (Send ''ab'') (new_tcp_client\<lparr>tc_connected := True\<rparr>)) = []"
    by (simp_all add: tcp_event_def tcp_send_connected new_tcp_client_def wire_inv_def)
  from failed_write_blocks_the_client[OF this(1,2), of 1 "[Reconnect, Send ''later'', WriteDone]"] this(3)
  show ?thesis by simp
qed

section \<open>Commands and their callbacks\<close>

text \<open>
  C8. A client whose parser is between replies, given the text of some replies in reads of any
  size, calls its callbacks in the order of the commands, each with the reply of the same
  position, and forgets exactly those.
\<close>

theorem callbacks_answered_in_order:
  assumes "\<forall>r \<in> set rs. resp_wf r" "concat chunks = concat (map resp_text rs)" "chunks \<noteq> []" "tc_reading c"
  shows "foldM (redis_client_read False) chunks (c, new_reply_builder, u) =
    Inr (c, new_reply_builder, u\<lparr>cl_callbacks := drop (length rs) (cl_callbacks u),
      cl_events := cl_events u @ answers (cl_callbacks u) (map resp_reply rs)\<rparr>)"
proof -
  let ?R = "new_reply_builder\<lparr>rb_replies := map resp_reply rs\<rparr>"
  have "build_replies (new_reply_builder\<lparr>rb_buffer := concat chunks\<rparr>) = (None, ?R)"
    using build_replies_texts[of rs "new_reply_builder\<lparr>rb_buffer := concat chunks\<rparr>"] assms(1,2)
    by (simp add: new_reply_builder_def)
  then have "rb_feed (concat chunks) new_reply_builder = (None, ?R)"
    by (simp add: rb_feed_def new_reply_builder_def)
  then have f: "rb_feeds chunks new_reply_builder = (None, ?R)"
    using rp.feeds_concat[OF assms(3), of new_reply_builder] by simp
  have "new_reply_builder\<lparr>rb_replies := []\<rparr> = new_reply_builder" by (simp add: new_reply_builder_def)
  then show ?thesis
    using connection_reads_ok[OF f _ assms(4), of "Some client_disconnection_handler" client_receive_handler u]
    unfolding redis_client_read_def connection_reads_def
    by (simp add: client_receive_fold) (simp add: new_reply_builder_def)
qed

lemma callbacks_answered_in_order_witness:
  "foldM (redis_client_read False) ['':1'' @ [CR], LF # ''+O'', ''K'' @ crlf]
      (new_tcp_client\<lparr>tc_reading := True\<rparr>, new_reply_builder,
       \<lparr>cl_callbacks = [Some (1::nat), Some 2, None], cl_handler = True, cl_events = []\<rparr>) =
    Inr (new_tcp_client\<lparr>tc_reading := True\<rparr>, new_reply_builder,
       \<lparr>cl_callbacks = [None], cl_handler = True,
        cl_events = [Called 1 (make_reply (IntegerReply 1)), Called 2 (make_reply (SimpleStringReply ''OK''))]\<rparr>)"
proof -
  have "int_to_string 1 = ''1''" by code_simp
  then have c: "concat ['':1'' @ [CR], LF # ''+O'', ''K'' @ crlf] = concat (map resp_text [RInt 1, RSimple ''OK''])"
    by (simp add: crlf_def)
  show ?thesis
    using callbacks_answered_in_order[OF _ c, of "new_tcp_client\<lparr>tc_reading := True\<rparr>"
        "\<lparr>cl_callbacks = [Some (1::nat), Some 2, None], cl_handler = True, cl_events = []\<rparr>"]
    by simp
qed

text \<open>
  C20. A read that begins with a byte no reply begins with ends the connection: the callbacks are
  dropped without being called and the disconnection handler runs.  The byte stays in the
  parser's buffer, so every read of any later connection ends the same way, whatever it brings.
\<close>

theorem bad_byte_ends_every_connection:
  assumes "create_builder x = Inl (RedisError w)"
  shows "\<exists>c1 B. redis_client_read False (x # s) (c, new_reply_builder, u) =
        Inr (c1, B, client_disconnection_handler u) \<and> \<not> tc_connected c1 \<and>
      (\<forall>c2 t u2. \<exists>c3 B3. redis_client_read False t (c2, B, u2) = Inr (c3, B3, client_disconnection_handler u2)
        \<and> \<not> tc_connected c3)"
proof -
  have bad: "rb_feed z (new_reply_builder\<lparr>rb_buffer := y\<rparr>) =
      (Some (RedisError w), new_reply_builder\<lparr>rb_buffer := y @ z\<rparr>)" if "\<exists>s'. y @ z = x # s'" for y z
    using that assms
    by (auto simp: rb_feed_def build_replies_rest build_reply_cases build_rest_def new_reply_builder_def)
  have "new_reply_builder\<lparr>rb_buffer := []\<rparr> = new_reply_builder" by (simp add: new_reply_builder_def)
  then have first: "rb_feed (x # s) new_reply_builder =
      (Some (RedisError w), new_reply_builder\<lparr>rb_buffer := x # s\<rparr>)"
    using bad[of "[]" "x # s"] by simp
  have later: "rb_feed t (new_reply_builder\<lparr>rb_buffer := x # s\<rparr>) =
      (Some (RedisError w), new_reply_builder\<lparr>rb_buffer := x # s @ t\<rparr>)" for t
    using bad[of "x # s" t] by simp
  show ?thesis
    using redis_client_read_error[OF first, of c u] redis_client_read_error[OF later]
    by fastforce
qed

lemma bad_byte_ends_every_connection_witness:
  "\<exists>c1 B. redis_client_read False ''?'' (new_tcp_client\<lparr>tc_connected := True\<rparr>, new_reply_builder,
        \<lparr>cl_callbacks = [Some True], cl_handler = True, cl_events = []\<rparr>) =
      Inr (c1, B, \<lparr>cl_callbacks = [], cl_handler = True, cl_events = [Disconnected]\<rparr>) \<and> \<not> tc_connected c1"
proof -
  have "create_builder (CHR ''?'') = Inl (RedisError ''Invalid data'')" by (simp add: create_builder_def)
  from bad_byte_ends_every_connection[OF this, of "[]" "new_tcp_client\<lparr>tc_connected := True\<rparr>"
      "\<lparr>cl_callbacks = [Some True], cl_handler = True, cl_events = []\<rparr>"]
  show ?thesis
    by (auto simp: client_disconnection_handler_def call_disconnection_handler_def clear_callbacks_def)
qed

section \<open>Subscriptions\<close>

text \<open>
  C17. After \<open>subscribe\<close> on a connected subscriber, the messages that arrive, in reads of any
  size, call the new callback for that channel, the callbacks registered before for the other
  channels, and nothing for a channel without one; each with its channel and text, in the order
  of the messages.
\<close>

theorem subscriber_dispatches_messages:
  assumes "ord_inv (su_channels u)" "tc_connected c" "tc_reading c"
    and "\<forall>p \<in> set ps. resp_wf (publication p)" "chunks \<noteq> []"
    and "concat chunks = concat (map (resp_text \<circ> publication) ps)"
  shows "\<exists>c' u'. subscribe ch cb (c, new_reply_builder, u) = (None, c', new_reply_builder, u') \<and>
    foldM (redis_subscriber_read False) chunks (c', new_reply_builder, u') =
      Inr (c', new_reply_builder, u'\<lparr>su_events := su_events u @ concat (map (\<lambda>(k, s).
        if k = ch then [Published cb k s]
        else (case ord_find k (su_channels u) of None \<Rightarrow> [] | Some f \<Rightarrow> [Published f k s])) ps)\<rparr>)"
proof -
  let ?u = "u\<lparr>su_channels := ord_set ch cb (su_channels u)\<rparr>"
  obtain c' where c': "connection_send [''SUBSCRIBE'', ch] c = Inr c'" "tc_reading c'"
    using assms(2,3) by (simp add: connection_send_def tcp_send_connected)
  let ?R = "new_reply_builder\<lparr>rb_replies := map (resp_reply \<circ> publication) ps\<rparr>"
  have "build_replies (new_reply_builder\<lparr>rb_buffer := concat chunks\<rparr>) = (None, ?R)"
    using build_replies_texts[of "map publication ps" "new_reply_builder\<lparr>rb_buffer := concat chunks\<rparr>"] assms(4,6)
    by (simp add: new_reply_builder_def)
  then have "rb_feed (concat chunks) new_reply_builder = (None, ?R)"
    by (simp add: rb_feed_def new_reply_builder_def)
  then have f: "rb_feeds chunks new_reply_builder = (None, ?R)"
    using rp.feeds_concat[OF assms(5), of new_reply_builder] by simp
  have "deliveries (su_channels ?u) ps = concat (map (\<lambda>(k, s).
        if k = ch then [Published cb k s]
        else (case ord_find k (su_channels u) of None \<Rightarrow> [] | Some f \<Rightarrow> [Published f k s])) ps)"
    unfolding deliveries_def by (rule arg_cong[of _ _ concat], rule map_cong)
      (auto simp: om.get_put[OF assms(1)])
  moreover have "new_reply_builder\<lparr>rb_replies := []\<rparr> = new_reply_builder" by (simp add: new_reply_builder_def)
  ultimately have "foldM (redis_subscriber_read False) chunks (c', new_reply_builder, ?u) =
      Inr (c', new_reply_builder, ?u\<lparr>su_events := su_events u @ concat (map (\<lambda>(k, s).
        if k = ch then [Published cb k s]
        else (case ord_find k (su_channels u) of None \<Rightarrow> [] | Some f \<Rightarrow> [Published f k s])) ps)\<rparr>)"
    using connection_reads_ok[OF f _ c'(2), of "Some sub_disconnection_handler" sub_receive_handler ?u]
      sub_receive_publications[of ps ?u]
    unfolding redis_subscriber_read_def connection_reads_def
    by (simp add: new_reply_builder_def)
  moreover have "subscribe ch cb (c, new_reply_builder, u) = (None, c', new_reply_builder, ?u)"
    using c' by (simp add: subscribe_def sub_send_def)
  ultimately show ?thesis by blast
qed

lemma subscriber_dispatches_messages_witness:
  "\<exists>c' u'. subscribe ''a'' (1::nat) (new_tcp_client\<lparr>tc_connected := True, tc_reading := True\<rparr>, new_reply_builder,
        new_sub_state\<lparr>su_channels := [(''b'', 2)]\<rparr>) = (None, c', new_reply_builder, u') \<and>
    foldM (redis_subscriber_read False) (map (resp_text \<circ> publication) [(''b'', ''x''), (''c'', ''y''), (''a'', ''z'')])
      (c', new_reply_builder, u') =
      Inr (c', new_reply_builder, u'\<lparr>su_events := [Published 2 ''b'' ''x'', Published 1 ''a'' ''z'']\<rparr>)"
proof -
  have wf: "\<forall>p \<in> set [(''b'', ''x''), (''c'', ''y''), (''a'', ''z'')]. resp_wf (publication p)"
    by (simp add: publication_def)
  let ?u = "new_sub_state\<lparr>su_channels := [(''b'', 2::nat)]\<rparr>"
  have "ord_inv (su_channels ?u)" by (simp add: ord_inv_def)
  moreover have "concat (map (\<lambda>(k, s). if k = ''a'' then [Published 1 k s]
        else (case ord_find k (su_channels ?u) of None \<Rightarrow> [] | Some f \<Rightarrow> [Published f k s]))
        [(''b'', ''x''), (''c'', ''y''), (''a'', ''z'')]) = [Published 2 ''b'' ''x'', Published 1 ''a'' ''z'']"
    "su_events ?u = []" by (simp_all add: new_sub_state_def)
  ultimately show ?thesis
    using subscriber_dispatches_messages[OF _ _ _ wf _ refl, of ?u
        "new_tcp_client\<lparr>tc_connected := True, tc_reading := True\<rparr>" "''a''" 1]
    by (simp del: map_map list.map concat.simps)
qed

section \<open>The log of a game\<close>




end
