(* ===== verification/WireProperties.thy ===== *)
theory WireProperties
  imports ServerProperties JsonProperties
begin

text \<open>
  From the bytes on a connection to what the lobby does with them: the properties that need
  the writer, the reader, the connection and the lobby together.
\<close>

section \<open>Lines\<close>

lemma no_LF_quote: "\<forall>c \<in> set s. char_ok c \<Longrightarrow> LF \<notin> set (quote s)"
proof -
  have "LF \<notin> set (char_text c)" if "char_ok c" for c
    using that by (auto simp: char_text_def char_ok_def named_escape_def is_control_character_def
        split: option.splits if_splits)
  then show "\<forall>c \<in> set s. char_ok c \<Longrightarrow> LF \<notin> set (quote s)" by (auto simp: quote_def)
qed

lemma no_LF_separated: "\<forall>t \<in> set ts. LF \<notin> set t \<Longrightarrow> LF \<notin> set (separated first ts)"
  by (induction ts arbitrary: first) auto

lemma no_LF_digits: "LF \<notin> set (nat_to_string n)" "LF \<notin> set (int_to_string i)"
  using nat_to_string_digits[of n] nat_to_string_digits[of "nat i"] nat_to_string_digits[of "nat (- i)"]
  by (auto simp: int_to_string_def is_digit_def)

lemma no_LF_text: "readable v \<Longrightarrow> LF \<notin> set (plain_text v)"
proof (induction v)
  case (JObject ms)
  have "LF \<notin> set (separated True (map (\<lambda>(n, v). quote n @ '':'' @ plain_text v) ms))"
    by (rule no_LF_separated) (use JObject no_LF_quote in fastforce)
  then show ?case by simp
next
  case (JArray xs)
  have "LF \<notin> set (separated True (map plain_text xs))"
    by (rule no_LF_separated) (use JArray in auto)
  then show ?case by simp
qed (auto simp: no_LF_quote no_LF_digits)

text \<open>
  C25. The line \<open>ToString\<close> makes of a message, arriving at the peer, is handled by \<open>HandleRead\<close> as
  the message \<open>reread\<close> of its content: it goes to the first observer, or to the queue, and what
  follows the line stays for the next read.  This holds for a message that is an object or an array
  and \<open>readable\<close> (no doubles, no backslash in a string and no control character but the five with
  an escape of their own, members sorted by name, no integer \<open>-2^63\<close>), whose line is not longer
  than the reader's buffer.  \<open>reread\<close> makes non-negative signed integers unsigned and the empty
  object one with an empty list of members, and changes nothing else.
\<close>

theorem written_message_is_received:
  assumes "readable (content m)" "is_object (content m) \<or> is_array (content m)"
    and "ToString io m = Inr s" "length s \<le> default_max_buffer_length" "stream_buffer c = s @ rest"
  shows "HandleRead io False id id run c =
    (case ProcessMessage (Message (reread (content m))) (c\<lparr>reading := False, stream_buffer := rest\<rparr>) of
       (c', None) \<Rightarrow> Inr (if should_continue_reading c' then ReadMessage c' else c')
     | (c', Some cb) \<Rightarrow> bnd (run cb (Message (reread (content m))) c')
         (\<lambda>c. Inr (if should_continue_reading c then ReadMessage c else c)))"
proof -
  let ?t = "plain_text (content m)"
  have t: "to_string io (content m) = Inr ?t"
    using json_text_plain(1)[of "content m" io] assms(1) by (simp add: to_string_eq)
  then have "as_string io (content m) = Inr ?t" using assms(2) by (cases "content m") simp_all
  then have s: "s = ?t @ [LF]" using assms(3) by (simp add: ToString_def)
  then have "parse_string io ?t = Some (Inr (reread (content m)))"
    using parse_plain_text[OF assms(1,2)] assms(4) by simp
  then have "message_of_string io ?t = Inr (Message (reread (content m)))" by (simp add: message_of_string_def)
  moreover have "getline (stream_buffer c) = (?t, rest)"
    using getline_line[OF no_LF_text[OF assms(1)]] assms(5) s by simp
  ultimately show ?thesis
    by (simp add: HandleRead_def Let_def id_def split: prod.split option.split)
qed

lemma written_message_is_received_witness:
  "\<forall>io. HandleRead io False id id (\<lambda>cb m c. Inr c) ((new_connection 1)\<lparr>observers := [], stream_buffer := ''[1]'' @ LF # ''[2''\<rparr>) =
    Inr (ReadMessage ((new_connection 1)\<lparr>observers := [], messages := [Message (JArray [JULongLong 1])],
      reading := False, stream_buffer := ''[2''\<rparr>))"
proof
  fix io
  let ?m = "Message (JArray [JULongLong 1])"
  have n: "nat_to_string (Suc 0) = ''1''" by code_simp
  have "to_string io (content ?m) = Inr ''[1]''"
    using json_text_plain(1)[of "JArray [JULongLong 1]" io] by (simp add: to_string_eq n)
  then have t: "ToString io ?m = Inr (''[1]'' @ [LF])" by (simp add: ToString_def)
  show "HandleRead io False id id (\<lambda>cb m c. Inr c) ((new_connection 1)\<lparr>observers := [], stream_buffer := ''[1]'' @ LF # ''[2''\<rparr>) =
    Inr (ReadMessage ((new_connection 1)\<lparr>observers := [], messages := [?m], reading := False, stream_buffer := ''[2''\<rparr>))"
    using written_message_is_received[OF _ _ t, of "(new_connection 1)\<lparr>observers := [], stream_buffer := ''[1]'' @ LF # ''[2''\<rparr>"
        "''[2''" "\<lambda>cb m c. Inr c"]
    by (simp add: default_max_buffer_length_def ProcessMessage_def new_connection_def TcpConnection_def ReadMessage_def)
qed

section \<open>A join request\<close>

definition join_request :: "nat \<Rightarrow> json" where
  "join_request n = JObject [(''data'', JObject [(''num_players'', JULongLong (of_nat n))]), (''type'', JString ''join_game'')]"

lemma join_request_readable: "readable (join_request n)"
  by (simp add: join_request_def char_ok_def is_control_character_def)

lemma join_request_wanted:
  assumes "1 \<le> n" "n \<le> 4"
  shows "wanted (Message (reread (join_request n))) = Inr (Some (int n))"
proof -
  have "n = 1 \<or> n = 2 \<or> n = 3 \<or> n = 4" using assms by linarith
  then show ?thesis
    by (auto simp: wanted_def join_request_def request_options_def ParseFromJson_def json_simps
        json_neq_def to_int32_def)
qed

lemma join_request_text:
  assumes "n \<le> 4"
  shows "length (plain_text (join_request n)) < default_max_buffer_length"
proof -
  have "length (nat_to_string k) = 1" if "k < 10" for k
    using that by (subst nat_to_string.simps) simp
  moreover have "unat (of_nat n :: 64 word) < 10"
    using assms by (simp add: unat_of_nat take_bit_eq_mod)
  ultimately have "length (nat_to_string (unat (of_nat n :: 64 word))) = 1" by blast
  then show ?thesis
    by (simp add: join_request_def quote_def char_text_def named_escape_def default_max_buffer_length_def)
qed

lemma join_request_line:
  assumes "n \<le> 4"
  obtains t where "to_string io (join_request n) = Inr t" "LF \<notin> set t"
    "message_of_string io t = Inr (Message (reread (join_request n)))"
proof -
  let ?v = "join_request n"
  have "to_string io ?v = Inr (plain_text ?v)"
    using json_text_plain(1)[of ?v io] join_request_readable by (simp add: to_string_eq)
  moreover have "is_object ?v" by (simp add: join_request_def)
  then have "message_of_string io (plain_text ?v) = Inr (Message (reread ?v))"
    using parse_plain_text[OF join_request_readable _ join_request_text[OF assms]]
    by (simp add: message_of_string_def)
  ultimately show thesis using that no_LF_text[OF join_request_readable] by blast
qed

lemma join_request_joins:
  "1 \<le> n \<Longrightarrow> n \<le> 4 \<Longrightarrow> joins (Message (reread (join_request n)))"
  using wanted_joins[OF join_request_wanted] .

lemma join_request_received:
  assumes "lobby_inv L" "mutex_holder L = None" "ord_find pid (waiting_players L) = Some d" "reading d"
    and "1 \<le> n" "n \<le> 4" "match_id_counter L < 2 ^ 31 - 1"
    and "LF \<notin> set t" "message_of_string io t = Inr (Message (reread (join_request n)))"
  shows "lobby_receive io (NetLine t) (AtLobby pid) L = Inr (fst (admit (int n) pid (d\<lparr>observers := []\<rparr>) L))"
proof -
  have inv: "waiting_ok pid d" "ord_inv (waiting_players L)" "lobby_free L"
    using assms(1,2,7) lobby_invD(1,2,4)[OF assms(1)] assms(3) by (auto simp: lobby_free_def)
  have l: "lock_matches L = Inr L" using assms(2) by (rule lock_matches_free)
  show ?thesis
    using lobby_receive_line[OF assms(3) inv(1) assms(4,8,9) join_request_wanted[OF assms(5,6)] inv(2)] inv(3) l
      join_request_joins[OF assms(5,6)]
    by (simp add: joined_def)
qed

text \<open>The match for \<open>n\<close> players with a seat to give, and what giving it leaves.\<close>

definition open_match :: "nat \<Rightarrow> lobby \<Rightarrow> (int \<times> snake_match) option" where
  "open_match n L = find (\<lambda>(_, M). opt_num_players (match_options M) = int n \<and> length (players M) < n) (matches L)"

lemma open_match_eq:
  assumes "lobby_inv L"
  shows "open_match n L = find (is_open (int n)) (matches L)"
proof -
  have "(opt_num_players (match_options M) = int n \<and> length (players M) < n) = is_open (int n) (a, M)"
    if "(a, M) \<in> set (matches L)" for a M
  proof -
    have ok: "match_ok (ord_find a (match_threads L)) M"
      using that lobby_invD(2,6)[OF assms] by (simp add: ord_find_in_set)
    then have "length (players M) \<le> nat (num_players M)" "opt_num_players (match_options M) = num_players M"
      using is_full_small[of M]
      by (auto simp: match_ok_def base_match_def Options_def split: option.splits)
    then show ?thesis using ok is_full_small[of M] by (auto simp: match_ok_def)
  qed
  then have "(case e of (_, M) \<Rightarrow> opt_num_players (match_options M) = int n \<and> length (players M) < n) = is_open (int n) e"
    if "e \<in> set (matches L)" for e
    using that by (cases e) simp
  then show ?thesis unfolding open_match_def by (rule find_cong[OF refl])
qed

lemma new_match_players [simp]: "players (new_match n) = []" "num_players (new_match n) = n"
  by (simp_all add: new_match_def AddLogger_def SnakeMatch_def RoundBasedMatch_def round_match.defs)

lemma open_match_num:
  assumes "lobby_inv L" "open_match n L = Some (mid, M)"
  shows "num_players M = int n"
proof -
  have "opt_num_players (match_options M) = int n" "(mid, M) \<in> set (matches L)"
    using assms(2) by (auto simp: open_match_def find_Some_iff dest: nth_mem)
  moreover from this have "match_ok (ord_find mid (match_threads L)) M"
    using lobby_invD(2,6)[OF assms(1)] by (simp add: ord_find_in_set)
  ultimately show ?thesis by (simp add: match_ok_def Options_def)
qed

text \<open>
  C24. The text of a join request for \<open>n\<close> players, arriving as a line from a waiting player while no
  match is being erased, moves exactly that player, drained and observed by the match, from the
  waiting players to the last seat of a match: the one for \<open>n\<close> players with a seat to give, or else a new
  match with a logger and the next id.  The thread of that match is started if it has \<open>n\<close> players then;
  every other waiting player, match and thread and both counters are as before, but for the id taken.
  So open seats are filled round-robin, and nobody is lost.
\<close>

theorem join_request_takes_a_seat:
  assumes "lobby_inv L" "mutex_holder L = None" "ord_find pid (waiting_players L) = Some d" "reading d"
    and "1 \<le> n" "n \<le> 4" "match_id_counter L < 2 ^ 31 - 1"
  shows "\<exists>t mid M M'. to_string io (join_request n) = Inr t \<and>
    (mid, M) = (case open_match n L of Some e \<Rightarrow> e
      | None \<Rightarrow> (match_id_counter L + 1, AddLogger [] (SnakeMatch (Options (int n))))) \<and>
    M' = M\<lparr>players := players M @ [new_player (d\<lparr>observers := []\<rparr>)]\<rparr> \<and>
    lobby_receive io (NetLine t) (AtLobby pid) L = Inr (L\<lparr>
      waiting_players := ord_erase pid (waiting_players L),
      matches := ord_set mid M' (matches L),
      match_threads := (if length (players M') = n then ord_set mid Created (match_threads L) else match_threads L),
      match_id_counter := (if open_match n L = None then mid else match_id_counter L)\<rparr>) \<and>
    occupancy (int n) L = length (players M) \<and>
    population (projr (lobby_receive io (NetLine t) (AtLobby pid) L)) = population L"
proof -
  let ?d = "d\<lparr>observers := []\<rparr>"
  obtain t where t: "to_string io (join_request n) = Inr t" "LF \<notin> set t"
    "message_of_string io t = Inr (Message (reread (join_request n)))"
    by (rule join_request_line[OF assms(6)])
  note R = join_request_received[OF assms t(2,3)]
  have n: "1 \<le> int n" "int n \<le> 4" using assms(5,6) by simp_all
  note P = admit_occupancy[OF assms(1,3) n]
  define e where "e = (case open_match n L of Some e \<Rightarrow> e | None \<Rightarrow> (match_id_counter L + 1, new_match (int n)))"
  obtain mid M where e: "e = (mid, M)" by (cases e)
  define M' where "M' = M\<lparr>players := players M @ [new_player ?d]\<rparr>"
  have "num_players M = int n"
    using e open_match_num[OF assms(1)] by (auto simp: e_def split: option.splits)
  then have full: "is_full M' \<longleftrightarrow> length (players M') = n"
    using is_full_small[of M'] n by (simp add: M'_def)
  have "fst (admit (int n) pid ?d L) = L\<lparr>
      waiting_players := ord_erase pid (waiting_players L),
      matches := ord_set mid M' (matches L),
      match_threads := (if length (players M') = n then ord_set mid Created (match_threads L) else match_threads L),
      match_id_counter := (if open_match n L = None then mid else match_id_counter L)\<rparr>"
    using e full unfolding e_def open_match_eq[OF assms(1)]
    by (cases L) (auto simp: admit_def seated_def Let_def M'_def split: option.splits)
  moreover have "occupancy (int n) L = length (players M)"
    using e by (auto simp: occupancy_def e_def open_match_eq[OF assms(1)] split: option.splits)
  ultimately show ?thesis
    using t(1) R P e unfolding e_def new_match_def
    by - (rule exI[of _ t], rule exI[of _ mid], rule exI[of _ M], rule exI[of _ M'], simp add: M'_def)
qed

definition one_waits :: lobby where
  "one_waits = SequentialLobby\<lparr>player_id_counter := 1, waiting_players := [(1, new_connection 1)]\<rparr>"

lemma one_waits_eq: "lobby_AddPlayer TcpConnection SequentialLobby = Inr one_waits"
  using lobby_AddPlayer_eq[of SequentialLobby] by (simp add: one_waits_def SequentialLobby_def)

lemma one_waits_inv: "lobby_inv one_waits"
  using lobby_step_inv[OF lobby_inv_start, of plain_io Connect] one_waits_eq
  by (simp add: good_event_def asks_to_join_def SequentialLobby_def next_ok_def)

lemma one_waits_player: "ord_find 1 (waiting_players one_waits) = Some (new_connection 1)" "reading (new_connection 1)"
  by (simp_all add: one_waits_def SequentialLobby_def new_connection_def TcpConnection_def ReadMessage_def)

lemma join_request_takes_a_seat_witness:
  "\<exists>t. to_string plain_io (join_request 2) = Inr t \<and>
    lobby_receive plain_io (NetLine t) (AtLobby 1) one_waits = Inr (one_waits\<lparr>waiting_players := [],
      matches := [(1, (new_match 2)\<lparr>players := [fresh_player]\<rparr>)], match_id_counter := 1\<rparr>)"
proof -
  have o: "mutex_holder one_waits = None" "match_id_counter one_waits < 2 ^ 31 - 1" "open_match 2 one_waits = None"
    "match_id_counter one_waits = 0" "matches one_waits = []" "waiting_players one_waits = [(1, new_connection 1)]"
    by (simp_all add: one_waits_def SequentialLobby_def mutex_holder_def open_match_def)
  have d: "(new_connection 1)\<lparr>observers := []\<rparr> = TcpConnection"
    by (simp add: new_connection_def TcpConnection_def ReadMessage_def)
  from join_request_takes_a_seat[OF one_waits_inv o(1) one_waits_player _ _ o(2), of 2 plain_io]
  show ?thesis
    unfolding new_match_def[symmetric] d fresh_player_def[symmetric] by (auto simp: o)
qed

section \<open>A line that is not JSON\<close>

lemma parse_mismatched: "parse_string io ''{]'' = Some (Inl (JsonParseException ''Unexpected ]''))"
proof -
  obtain st where st: "reader_read io (new_reader ''{]'' new_deserializer) = read_loop io st"
    "at ''{]'' [] [] new_deserializer st"
    using reader_starts[of "''{]''" io new_deserializer] by (auto simp: default_max_buffer_length_def)
  obtain st1 where 1: "read_loop io st = read_loop io st1"
    "at '']'' [] [new_stack_item True] (d_push True new_deserializer) st1"
    using read_open[of True "'']''" "[]" "[]" new_deserializer st io] st(2) by auto
  have "read_body io st1 = read_value_char io (CHR '']'') (new_stack_item True) (skip_col 1 st1)"
    by (rule read_body_value_char[OF 1(2)]) simp
  also have "\<dots> = Some (fatal_error ''Unexpected ]'')"
    by (simp add: read_value_char_def close_structure_def)
  finally have "read_loop io st1 = Some (fatal_error ''Unexpected ]'')"
    using at_next(1)[OF 1(2)] 1(2) by (simp add: read_loop.simps[of io st1] fatal_error_def at_def)
  then show ?thesis using st(1) 1(1) by (simp add: parse_string_def fatal_error_def)
qed

text \<open>
  C30. A line on which the JSON parser throws, from any connected waiting player, ends the main loop:
  the exception leaves the completion handler and \<open>io_service.run()\<close>, whatever events would
  follow.  The program does not end with it: the lobby's destructor joins the threads that still run
  and, if there are none, waits for ever in the destructor of that player's connection for a
  completion handler that nobody runs.  (Not every line that is no JSON makes the parser throw.)
\<close>

theorem malformed_line_ends_the_server:
  assumes "main_run io evs = Inr s" "ord_find pid (waiting_players (server_lobby s)) = Some d"
    and "reading d" "\<not> disconnected d" "stream_buffer d = []"
    and "LF \<notin> set line" "parse_string io line = Some (Inl (JsonParseException e))"
  shows "main_run io (evs @ LobbyEvent (Input (AtLobby pid) (NetLine line)) # rest) = Inl (JsonParseException e) \<and>
    main_exit io (evs @ LobbyEvent (Input (AtLobby pid) (NetLine line)) # rest) (Server SequentialLobby) =
      (if threads_returned (server_lobby s) then Hangs else Joining (server_lobby s))"
proof -
  let ?L = "server_lobby s" and ?ev = "LobbyEvent (Input (AtLobby pid) (NetLine line))"
  have "message_of_string io line = Inl (JsonParseException e)"
    using assms(7) by (simp add: message_of_string_def)
  moreover have "getline (line @ [LF]) = (line, [])" using assms(6) by (rule getline_line)
  ultimately have "lobby_receive io (NetLine line) (AtLobby pid) ?L = Inl (JsonParseException e)"
    using assms(2,3,5)
    by (simp add: lobby_receive_def conn_at_def lobby_HandleRead_def HandleRead_def upd_conn_def receive_bytes_def Let_def)
  then have step: "server_step io ?ev s = Inl (JsonParseException e)" by simp
  have "d \<in> set (lobby_connections ?L)"
    using ord_find_member[OF assms(2)] by (force simp: lobby_connections_def)
  then have "\<not> destroy_returns ?L" using assms(4) by (auto simp: destroy_returns_def destroy_waits_def list_all_iff)
  then have "main_exit io (?ev # rest) s = (if threads_returned ?L then Hangs else Joining ?L)"
    using step by (simp add: unwind_def)
  then show ?thesis
    using step assms(1) main_exit_append[of io evs "?ev # rest" "Server SequentialLobby"]
    by (simp add: main_run_def foldM_append)
qed

lemma malformed_line_ends_the_server_witness:
  "main_run plain_io [Accepted False, LobbyEvent (Input (AtLobby 1) (NetLine ''{]'')), Accepted False] =
      Inl (JsonParseException ''Unexpected ]'') \<and>
    main_exit plain_io [Accepted False, LobbyEvent (Input (AtLobby 1) (NetLine ''{]'')), Accepted False]
      (Server SequentialLobby) = Hangs"
proof -
  let ?s = "StartAccept ((Server SequentialLobby)\<lparr>pending := None, server_lobby := one_waits\<rparr>)"
  have l: "server_lobby ?s = one_waits" by (simp add: StartAccept_def)
  have "server_step plain_io (Accepted False) (Server SequentialLobby) = Inr ?s"
    using one_waits_eq by (simp add: HandleAccept_def Server_def StartAccept_def)
  then have s: "main_run plain_io [Accepted False] = Inr ?s" by (simp add: main_run_def)
  have "\<not> disconnected (new_connection 1)" "stream_buffer (new_connection 1) = []"
    by (simp_all add: new_connection_def TcpConnection_def ReadMessage_def)
  moreover have "threads_returned one_waits"
    by (simp add: threads_returned_def one_waits_def SequentialLobby_def)
  ultimately show ?thesis
    using malformed_line_ends_the_server[OF s, of 1 "new_connection 1" "''{]''" "''Unexpected ]''" "[Accepted False]"]
      one_waits_player parse_mismatched[of plain_io] l by simp
qed

section \<open>A join request while a match is erased\<close>

text \<open>The events of the lobby as the server sees them.\<close>

fun served :: "lobby_event \<Rightarrow> server_event" where
  "served Connect = Accepted False"
| "served ev = LobbyEvent ev"

lemma served_fails:
  "foldM (lobby_step io) evs (server_lobby s) = Inl e \<Longrightarrow> foldM (server_step io) (map served evs) s = Inl e"
proof (induction evs arbitrary: s)
  case (Cons ev evs)
  show ?case
  proof (cases "lobby_step io ev (server_lobby s)")
    case (Inl e')
    then show ?thesis using Cons.prems by (cases ev) (simp_all add: HandleAccept_def)
  next
    case (Inr L)
    have "\<exists>s'. server_step io (served ev) s = Inr s' \<and> server_lobby s' = L"
      using Inr by (cases ev) (simp_all add: HandleAccept_def StartAccept_def)
    then show ?thesis using Cons Inr by auto
  qed
qed simp

lemma served_good: "good_event io ev \<Longrightarrow> good_server_event io (served ev)"
  by (cases ev) (simp_all add: good_server_event_def)

text \<open>A match for one player, played to its end.\<close>

lemma lone_match:
  assumes "LF \<notin> set t" "message_of_string io t = Inr (Message (reread (join_request 1)))"
    and "good_env env" "no_input env"
  shows "\<exists>j M. j \<le> 42 \<and> all_listen M \<and> game_inv 1 M \<and>
    foldM (lobby_step io) ([Connect, Input (AtLobby 1) (NetLine t)] @ replicate j (ThreadStep 1 env)) SequentialLobby =
      Inr \<lparr>waiting_players = [], matches = [(1, M)], match_threads = [(1, Finishing)],
        player_id_counter = 1, match_id_counter = 1\<rparr>"
proof -
  have d: "(new_connection 1)\<lparr>observers := []\<rparr> = TcpConnection"
    by (simp add: new_connection_def TcpConnection_def ReadMessage_def)
  have f: "mutex_holder one_waits = None" "match_id_counter one_waits < 2 ^ 31 - 1"
    by (simp_all add: one_waits_def SequentialLobby_def mutex_holder_def)
  define L1 where "L1 = fst (admit 1 1 TcpConnection one_waits)"
  have r: "lobby_receive io (NetLine t) (AtLobby 1) one_waits = Inr L1"
    using join_request_received[OF one_waits_inv f(1) one_waits_player _ _ f(2) assms(1,2)] d by (simp add: L1_def)
  have inv: "lobby_inv L1" using admit_inv[OF one_waits_inv one_waits_player(1), of 1] d by (simp add: L1_def)
  have full: "is_full ((new_match 1)\<lparr>players := [fresh_player]\<rparr>)" by (simp add: is_full_def)
  have L1: "L1 = \<lparr>waiting_players = [], matches = [(1, full_match 1)], match_threads = [(1, Created)],
      player_id_counter = 1, match_id_counter = 1\<rparr>"
    using full by (simp add: L1_def admit_def one_waits_def SequentialLobby_def seated_def Let_def full_match_def
        fresh_player_def)
  obtain j M where j: "j \<le> 42" "plays env j (Created, full_match 1) (Finishing, M)"
    "num_players M = 1"
    using StartGame_plays[OF ready_full_match[of 1] assms(3), of id "()"] game_inv_num[of 1] by auto
  note k = j(3)
  have "match_ok (Some Created) (full_match 1)" using lobby_invD(6)[OF inv, of 1 "full_match 1"] by (simp add: L1)
  moreover have "all_listen (full_match 1)"
    by (simp add: all_listen_def full_match_def fresh_player_def new_player_def listening_def TcpConnection_def
        ReadMessage_def)
  ultimately have M: "all_listen M" "match_ok (Some Finishing) M" using plays_listen[OF j(2) _ assms(3,4)] by simp_all
  have "foldM (lobby_step io) (replicate j (ThreadStep 1 env)) L1 = Inr (at_match 1 Finishing M L1)"
    by (rule plays_thread[OF j(2)]) (simp_all add: L1 ord_inv_def)
  then have "foldM (lobby_step io) ([Connect, Input (AtLobby 1) (NetLine t)] @ replicate j (ThreadStep 1 env))
      SequentialLobby = Inr (at_match 1 Finishing M L1)"
    using one_waits_eq r by simp
  moreover have "at_match 1 Finishing M L1 = \<lparr>waiting_players = [], matches = [(1, M)],
      match_threads = [(1, Finishing)], player_id_counter = 1, match_id_counter = 1\<rparr>"
    by (simp add: at_match_def set_thread_def L1)
  moreover have "game_inv 1 M" using M(2) k by (simp add: match_ok_def)
  ultimately show ?thesis using j(1) M(1) by metis
qed

text \<open>
  C29. The server can hang on acceptable input alone: when a match has been played and its thread, with
  the mutex, is about to destroy a player who is still connected, a join request makes the io thread
  wait for that mutex, and the destructor of the player's connection wait for the io thread.  Fewer than
  fifty events lead there: two players connect and ask for a match of one player each, the second
  while the first match is being erased.
\<close>

theorem server_can_deadlock:
  "\<exists>evs. length evs < 50 \<and> list_all (good_server_event io) evs \<and>
    main_run io evs = Inl Deadlock \<and> main_exit io evs (Server SequentialLobby) = Hangs"
proof -
  obtain t where t: "LF \<notin> set t" "message_of_string io t = Inr (Message (reread (join_request 1)))"
    by (rule join_request_line[of 1 io]) auto
  define env where "env = quiet_env\<lparr>env_io := io\<rparr>"
  have env: "good_env env" "no_input env" by (simp_all add: env_def good_env_def quiet_env_def no_input_def)
  obtain j M where j: "j \<le> 42" "all_listen M" "game_inv 1 M"
    "foldM (lobby_step io) ([Connect, Input (AtLobby 1) (NetLine t)] @ replicate j (ThreadStep 1 env)) SequentialLobby =
      Inr \<lparr>waiting_players = [], matches = [(1, M)], match_threads = [(1, Finishing)],
        player_id_counter = 1, match_id_counter = 1\<rparr>"
    using lone_match[OF t env] by blast
  let ?L = "\<lparr>waiting_players = [], matches = [(1, M)], match_threads = [(1, Erasing 0)],
    player_id_counter = 1, match_id_counter = 1\<rparr>"
  let ?L' = "?L\<lparr>player_id_counter := 2, waiting_players := [(2, new_connection 2)]\<rparr>"
  have 1: "lobby_step io (ThreadStep 1 env) (?L\<lparr>match_threads := [(1, Finishing)]\<rparr>) = Inr ?L"
    by (simp add: thread_step_def MatchFinished_def mutex_holder_def set_thread_def)
  have 2: "lobby_step io Connect ?L = Inr ?L'" using lobby_AddPlayer_eq[of ?L] by simp
  have "player_waits p" if "p \<in> set (players M)" for p
    using j(2,3) that by (auto simp: all_listen_def list_all_iff listening_def player_waits_def destroy_waits_def
        game_inv_def in_play_def split: option.splits)
  then have l: "lock_matches ?L' = Inl Deadlock"
    using game_inv_num[OF j(3)] by (cases "players M") (simp_all add: lock_matches_def mutex_holder_def)
  have 3: "lobby_step io (Input (AtLobby 2) (NetLine t)) ?L' = Inl Deadlock"
    using lobby_receive_line[of 2 ?L' "new_connection 2" t io _ "Some 1", OF _ waiting_ok_new _ t]
      join_request_wanted[of 1] join_request_joins[of 1] l
    by (simp add: joined_def ord_inv_def new_connection_def TcpConnection_def ReadMessage_def)
  define evs where "evs = ([Connect, Input (AtLobby 1) (NetLine t)] @ replicate j (ThreadStep 1 env)) @
    [ThreadStep 1 env, Connect, Input (AtLobby 2) (NetLine t)]"
  have "foldM (lobby_step io) evs SequentialLobby = Inl Deadlock"
    unfolding evs_def foldM_append[of _ "[Connect, Input (AtLobby 1) (NetLine t)] @ replicate j (ThreadStep 1 env)"]
    using j(4) 1 2 3 by simp
  then have run: "main_run io (map served evs) = Inl Deadlock"
    using served_fails[of io evs "Server SequentialLobby"] by (simp add: main_run_def Server_def StartAccept_def)
  moreover have "main_exit io (map served evs) (Server SequentialLobby) = Hangs"
    using run by (intro main_exit_deadlock) (simp add: main_run_def)
  moreover have "list_all (good_event io) evs"
    using t env join_request_wanted[of 1] by (simp add: evs_def good_event_def list_all_iff)
  then have "list_all (good_server_event io) (map served evs)" by (auto simp: list_all_iff served_good)
  moreover have "length (map served evs) < 50" using j(1) by (simp add: evs_def)
  ultimately show ?thesis by blast
qed

end
