(* ===== verification/FlagValue.thy ===== *)
theory FlagValue
  imports JsonValue
begin

text \<open>
  The values of command line flags (\<open>FlagValue\<close>, gflags.cc): parsed from and printed as strings.
  A C string is a string without the character zero.  What the flags library takes from its
  surroundings is the parameter \<open>flag_env\<close>: \<open>strtod\<close> and \<open>printf("%.17g")\<close>, the files and the
  environment, \<open>fnmatch\<close>, and the validators that were registered, by number.  \<open>strtoll\<close> and
  \<open>strtoull\<close> are modelled.
\<close>

section \<open>Types and values\<close>

datatype flag_type = FV_BOOL | FV_INT32 | FV_INT64 | FV_UINT64 | FV_DOUBLE | FV_STRING

datatype flag_value =
    BoolF bool
  | Int32F "32 word"
  | Int64F "64 word"
  | UInt64F "64 word"
  | DoubleF double
  | StringF string

record flag_env =
  strtod :: "string \<Rightarrow> double \<times> string \<times> bool"   \<comment> \<open>value, what is left, \<open>errno\<close> set\<close>
  print_g17 :: "double \<Rightarrow> string"
  read_file :: "string \<Rightarrow> string option"
  getenv :: "string \<Rightarrow> string option"
  fnmatch :: "string \<Rightarrow> string \<Rightarrow> bool"
  validators :: "nat \<Rightarrow> string \<Rightarrow> flag_value \<Rightarrow> bool"

fun type_of_value :: "flag_value \<Rightarrow> flag_type" where
  "type_of_value (BoolF _) = FV_BOOL"
| "type_of_value (Int32F _) = FV_INT32"
| "type_of_value (Int64F _) = FV_INT64"
| "type_of_value (UInt64F _) = FV_UINT64"
| "type_of_value (DoubleF _) = FV_DOUBLE"
| "type_of_value (StringF _) = FV_STRING"

fun TypeName :: "flag_type \<Rightarrow> string" where
  "TypeName FV_BOOL = ''bool''"
| "TypeName FV_INT32 = ''int32''"
| "TypeName FV_INT64 = ''int64''"
| "TypeName FV_UINT64 = ''uint64''"
| "TypeName FV_DOUBLE = ''double''"
| "TypeName FV_STRING = ''string''"

definition flag_types :: "flag_type list" where
  "flag_types = [FV_BOOL, FV_INT32, FV_INT64, FV_UINT64, FV_DOUBLE, FV_STRING]"

text \<open>The constructor looks the type up by its name; an unknown name fails its assertion.\<close>

definition type_named :: "string \<Rightarrow> flag_type result" where
  "type_named name = (case find (\<lambda>t. TypeName t = name) flag_types of
     Some t \<Rightarrow> Inr t | None \<Rightarrow> Inl (Undefined ''assertion failed''))"

fun new_value :: "flag_type \<Rightarrow> flag_value" where
  "new_value FV_BOOL = BoolF False"
| "new_value FV_INT32 = Int32F 0"
| "new_value FV_INT64 = Int64F 0"
| "new_value FV_UINT64 = UInt64F 0"
| "new_value FV_DOUBLE = DoubleF 0"
| "new_value FV_STRING = StringF []"

fun value_equal :: "flag_value \<Rightarrow> flag_value \<Rightarrow> bool" where
  "value_equal (BoolF a) (BoolF b) = (a = b)"
| "value_equal (Int32F a) (Int32F b) = (a = b)"
| "value_equal (Int64F a) (Int64F b) = (a = b)"
| "value_equal (UInt64F a) (UInt64F b) = (a = b)"
| "value_equal (DoubleF a) (DoubleF b) = dbl_eq a b"
| "value_equal (StringF a) (StringF b) = (a = b)"
| "value_equal _ _ = False"

text \<open>\<open>CopyFrom\<close> overwrites the value and keeps the type, which must agree.\<close>

definition copy_value :: "flag_value \<Rightarrow> flag_value \<Rightarrow> flag_value result" where
  "copy_value x self = (if type_of_value x = type_of_value self then Inr x
     else Inl (Undefined ''assertion failed''))"

section \<open>Reading integers\<close>

definition is_space :: "char \<Rightarrow> bool" where
  "is_space c \<longleftrightarrow> c \<in> {CHR '' '', CHR 0x09, CHR 0x0A, CHR 0x0B, CHR 0x0C, CHR 0x0D}"

definition to_lower :: "char \<Rightarrow> char" where
  "to_lower c = (let n = of_char c :: nat in if 65 \<le> n \<and> n \<le> 90 then char_of (n + 32) else c)"

definition strcasecmp_eq :: "string \<Rightarrow> string \<Rightarrow> bool" where
  "strcasecmp_eq s t \<longleftrightarrow> map to_lower s = map to_lower t"

definition digit_value :: "char \<Rightarrow> nat" where
  "digit_value c = (let n = of_char c :: nat in
     if 48 \<le> n \<and> n \<le> 57 then n - 48
     else if 97 \<le> n \<and> n \<le> 122 then n - 87
     else if 65 \<le> n \<and> n \<le> 90 then n - 55 else 99)"

definition base_digit :: "nat \<Rightarrow> char \<Rightarrow> bool" where
  "base_digit base c \<longleftrightarrow> digit_value c < base"

definition digits_value :: "nat \<Rightarrow> string \<Rightarrow> nat" where
  "digits_value base ds = foldl (\<lambda>n c. n * base + digit_value c) 0 ds"

fun strip_sign :: "string \<Rightarrow> bool \<times> string" where
  "strip_sign (c # s) = (if c = CHR ''-'' then (True, s) else if c = CHR ''+'' then (False, s) else (False, c # s))"
| "strip_sign [] = (False, [])"

fun strip_0x :: "nat \<Rightarrow> string \<Rightarrow> string" where
  "strip_0x base (z # x # d # s) =
     (if base = 16 \<and> z = CHR ''0'' \<and> (x = CHR ''x'' \<or> x = CHR ''X'') \<and> base_digit 16 d then d # s else z # x # d # s)"
| "strip_0x base s = s"

text \<open>Sign, absolute value and what is left, if there is a number.\<close>

definition scan_integer :: "nat \<Rightarrow> string \<Rightarrow> (bool \<times> nat \<times> string) option" where
  "scan_integer base s =
     (let (neg, s1) = strip_sign (dropWhile is_space s);
          s2 = strip_0x base s1;
          ds = takeWhile (base_digit base) s2
      in if ds = [] then None else Some (neg, digits_value base ds, dropWhile (base_digit base) s2))"

text \<open>\<open>strtoll\<close> and \<open>strtoull\<close>: value, what is left, and whether \<open>errno\<close> is set.\<close>

definition strto64 :: "nat \<Rightarrow> string \<Rightarrow> int \<times> string \<times> bool" where
  "strto64 base s = (case scan_integer base s of
     None \<Rightarrow> (0, s, False)
   | Some (neg, n, rest) \<Rightarrow> let v = (if neg then - int n else int n) in
       if v < - (2^63) then (- (2^63), rest, True)
       else if 2^63 \<le> v then (2^63 - 1, rest, True) else (v, rest, False))"

definition strtou64 :: "nat \<Rightarrow> string \<Rightarrow> int \<times> string \<times> bool" where
  "strtou64 base s = (case scan_integer base s of
     None \<Rightarrow> (0, s, False)
   | Some (neg, n, rest) \<Rightarrow>
       if 2^64 \<le> n then (2^64 - 1, rest, True)
       else ((if neg then - int n else int n) mod 2^64, rest, False))"

section \<open>Parsing and printing\<close>

definition true_words :: "string list" where
  "true_words = [''1'', ''t'', ''true'', ''y'', ''yes'']"

definition false_words :: "string list" where
  "false_words = [''0'', ''f'', ''false'', ''n'', ''no'']"

text \<open>The loop compares with the words of both lists in turn.\<close>

fun parse_bool :: "(string \<times> string) list \<Rightarrow> string \<Rightarrow> bool option" where
  "parse_bool [] value = None"
| "parse_bool ((t, f) # ws) value =
     (if strcasecmp_eq value t then Some True
      else if strcasecmp_eq value f then Some False else parse_bool ws value)"

fun int_base :: "string \<Rightarrow> nat" where
  "int_base (z # x # _) = (if z = CHR ''0'' \<and> (x = CHR ''x'' \<or> x = CHR ''X'') then 16 else 10)"
| "int_base _ = 10"

definition ParseFrom :: "flag_env \<Rightarrow> flag_type \<Rightarrow> string \<Rightarrow> flag_value option" where
  "ParseFrom env t value = (case t of
     FV_BOOL \<Rightarrow> map_option BoolF (parse_bool (zip true_words false_words) value)
   | FV_STRING \<Rightarrow> Some (StringF value)
   | _ \<Rightarrow> if value = [] then None
       else let base = int_base value in (case t of
         FV_INT32 \<Rightarrow> (let (r, rest, errno) = strto64 base value in
           if errno \<or> rest \<noteq> [] then None
           else if sint (word_of_int r :: 32 word) \<noteq> r then None
           else Some (Int32F (word_of_int r)))
       | FV_INT64 \<Rightarrow> (let (r, rest, errno) = strto64 base value in
           if errno \<or> rest \<noteq> [] then None else Some (Int64F (word_of_int r)))
       | FV_UINT64 \<Rightarrow> (let value = dropWhile (\<lambda>c. c = CHR '' '') value in
           if value \<noteq> [] \<and> hd value = CHR ''-'' then None
           else let (r, rest, errno) = strtou64 base value in
             if errno \<or> rest \<noteq> [] then None else Some (UInt64F (word_of_int r)))
       | _ \<Rightarrow> (let (r, rest, errno) = strtod env value in
           if errno \<or> rest \<noteq> [] then None else Some (DoubleF r))))"

fun flag_text :: "flag_env \<Rightarrow> flag_value \<Rightarrow> string" where
  "flag_text env (BoolF b) = (if b then ''true'' else ''false'')"
| "flag_text env (Int32F w) = int_to_string (sint w)"
| "flag_text env (Int64F w) = int_to_string (sint w)"
| "flag_text env (UInt64F w) = nat_to_string (unat w)"
| "flag_text env (DoubleF d) = print_g17 env d"
| "flag_text env (StringF s) = s"

section \<open>A printed value is read back\<close>

lemma digit_facts:
  assumes "is_digit c"
  shows "base_digit 10 c" "\<not> is_space c" "c \<noteq> CHR ''-''" "c \<noteq> CHR ''+''" "c \<noteq> CHR ''x''" "c \<noteq> CHR ''X''" "c \<noteq> CHR '' ''"
  using assms by (auto simp: is_digit_def base_digit_def digit_value_def is_space_def Let_def)

lemma digit_value_char: "d < 10 \<Longrightarrow> digit_value (digit_char d) = d"
  by (simp add: digit_value_def)

lemma digits_value_snoc: "digits_value base (ds @ [c]) = digits_value base ds * base + digit_value c"
  by (simp add: digits_value_def)

lemma digits_value_nat: "digits_value 10 (nat_to_string n) = n"
proof (induction n rule: nat_to_string.induct)
  case (1 n)
  show ?case
  proof (cases "n < 10")
    case True
    then show ?thesis by (simp add: nat_to_string.simps[of n] digits_value_def digit_value_char)
  next
    case False
    then show ?thesis using 1 by (simp add: nat_to_string.simps[of n] digits_value_snoc digit_value_char)
  qed
qed

lemma nat_text:
  obtains c s where "nat_to_string n = c # s" "is_digit c" "\<forall>c \<in> set s. is_digit c"
  using nat_to_string_digits[of n] nat_to_string_nonempty[of n] by (cases "nat_to_string n") auto

lemma scan_digits:
  assumes "\<forall>c \<in> set ds. is_digit c" "ds \<noteq> []"
  shows "takeWhile (base_digit 10) ds = ds" "dropWhile (base_digit 10) ds = []"
    "dropWhile is_space ds = ds" "strip_sign ds = (False, ds)" "strip_0x 10 ds = ds" "int_base ds = 10"
proof -
  show "takeWhile (base_digit 10) ds = ds" "dropWhile (base_digit 10) ds = []"
    using assms digit_facts(1) by (simp_all add: takeWhile_eq_all_conv)
  show "dropWhile is_space ds = ds" "strip_sign ds = (False, ds)"
    using assms digit_facts by (cases ds; simp)+
  show "strip_0x 10 ds = ds" by (cases "(10 :: nat, ds)" rule: strip_0x.cases) auto
  show "int_base ds = 10" using assms digit_facts(5,6) by (cases ds rule: int_base.cases) auto
qed

lemma scan_nat: "scan_integer 10 (nat_to_string n) = Some (False, n, [])"
proof -
  note s = scan_digits[OF nat_to_string_digits nat_to_string_nonempty, of n]
  show ?thesis by (simp add: scan_integer_def s digits_value_nat)
qed

lemma scan_int: "scan_integer 10 (int_to_string i) = Some (i < 0, nat \<bar>i\<bar>, [])"
proof (cases "i < 0")
  case True
  note s = scan_digits[OF nat_to_string_digits nat_to_string_nonempty, of "nat (- i)"]
  show ?thesis using True by (simp add: scan_integer_def int_to_string_def s digits_value_nat is_space_def)
qed (simp add: int_to_string_def scan_nat)

lemma int_base_int: "int_base (int_to_string i) = 10"
proof (cases "i < 0")
  case True
  then show ?thesis by (cases "nat_to_string (nat (- i))") (simp_all add: int_to_string_def)
next
  case False
  then show ?thesis
    using scan_digits(6)[OF nat_to_string_digits nat_to_string_nonempty, of "nat i"] by (simp add: int_to_string_def)
qed

lemma strto64_text: "- (2^63) \<le> i \<Longrightarrow> i < 2^63 \<Longrightarrow> strto64 10 (int_to_string i) = (i, [], False)"
  by (simp add: strto64_def scan_int)

lemma strtou64_text: "n < 2^64 \<Longrightarrow> strtou64 10 (nat_to_string n) = (int n, [], False)"
  by (simp add: strtou64_def scan_nat)

text \<open>What \<open>printf("%.17g")\<close> and \<open>strtod\<close> promise for a finite double.\<close>

definition double_reads_back :: "flag_env \<Rightarrow> double \<Rightarrow> bool" where
  "double_reads_back env d \<longleftrightarrow> print_g17 env d \<noteq> [] \<and> strtod env (print_g17 env d) = (d, [], False)"

fun value_reads_back :: "flag_env \<Rightarrow> flag_value \<Rightarrow> bool" where
  "value_reads_back env (DoubleF d) = double_reads_back env d"
| "value_reads_back env _ = True"

lemma int_to_string_nonempty [simp]: "int_to_string i \<noteq> []"
  by (simp add: int_to_string_def)

lemma ParseFrom_text:
  assumes "value_reads_back env v"
  shows "ParseFrom env (type_of_value v) (flag_text env v) = Some v"
proof (cases v)
  case (BoolF b)
  have "parse_bool (zip true_words false_words) ''true'' = Some True"
    "parse_bool (zip true_words false_words) ''false'' = Some False" by code_simp+
  then show ?thesis using BoolF by (simp add: ParseFrom_def)
next
  case (Int32F w)
  have "- (2^63) \<le> sint w" "sint w < 2^63" using sint_range_size[of w] by (simp_all add: word_size)
  then show ?thesis using Int32F by (simp add: ParseFrom_def Let_def int_base_int strto64_text)
next
  case (Int64F w)
  have "- (2^63) \<le> sint w" "sint w < 2^63" using sint_range_size[of w] by (simp_all add: word_size)
  then show ?thesis using Int64F by (simp add: ParseFrom_def Let_def int_base_int strto64_text)
next
  case (UInt64F w)
  obtain c s where t: "nat_to_string (unat w) = c # s" "is_digit c" by (rule nat_text)
  have "unat w < 2 ^ LENGTH(64)" by (rule unsigned_less)
  then have "unat w < 2^64" by simp
  then have "strtou64 10 (c # s) = (int (unat w), [], False)" using strtou64_text[of "unat w"] by (simp only: t)
  moreover have "int_base (c # s) = 10"
    using scan_digits(6)[OF nat_to_string_digits nat_to_string_nonempty, of "unat w"] by (simp only: t)
  ultimately show ?thesis
    using UInt64F digit_facts(3,7)[OF t(2)] by (simp add: ParseFrom_def Let_def t(1))
next
  case (DoubleF d)
  then show ?thesis using assms by (simp add: ParseFrom_def Let_def double_reads_back_def)
qed (simp add: ParseFrom_def)

text \<open>Parsing never changes the type.\<close>

lemma ParseFrom_type:
  assumes "ParseFrom env t value = Some v"
  shows "type_of_value v = t"
proof (cases t)
  case FV_BOOL
  then show ?thesis using assms by (auto simp: ParseFrom_def)
next
  case FV_INT32
  then show ?thesis
    using assms by (cases "strto64 (int_base value) value") (simp add: ParseFrom_def Let_def split: if_split_asm, force)
next
  case FV_INT64
  then show ?thesis
    using assms by (cases "strto64 (int_base value) value") (simp add: ParseFrom_def Let_def split: if_split_asm, force)
next
  case FV_UINT64
  then show ?thesis
    using assms by (cases "strtou64 (int_base value) (dropWhile (\<lambda>c. c = CHR '' '') value)")
      (simp add: ParseFrom_def Let_def split: if_split_asm, force)
next
  case FV_DOUBLE
  then show ?thesis
    using assms by (cases "strtod env value") (simp add: ParseFrom_def Let_def split: if_split_asm, force)
next
  case FV_STRING
  then show ?thesis using assms by (auto simp: ParseFrom_def)
qed

lemma type_of_new_value [simp]: "type_of_value (new_value t) = t"
  by (cases t) simp_all

text \<open>Where the parser of unsigned numbers accepts what it means to reject.\<close>

lemma uint64_of_blanks:
  "ParseFrom env FV_UINT64 '' '' = Some (UInt64F 0)"
  "ParseFrom env FV_UINT64 [CHR 0x09, CHR ''-'', CHR ''1''] = Some (UInt64F (- 1))"
  by (simp_all add: ParseFrom_def Let_def strtou64_def scan_integer_def is_space_def base_digit_def
      digit_value_def digits_value_def)

end
