(* ===== verification/FlagRegistry.thy ===== *)
theory FlagRegistry
  imports FlagValue
begin

text \<open>
  Command line flags and their registry (\<open>CommandLineFlag\<close>, \<open>FlagRegistry\<close>, \<open>FlagSaverImpl\<close>,
  gflags.cc).  The two maps of the registry share the flags through pointers: here the flags are
  in the map by name, and the map by the address of the variable holds the name.  \<open>FLAGS_x\<close> is the
  current value of the flag \<open>x\<close>.  A validator is a number, \<open>None\<close> where the code has a null pointer.
\<close>

section \<open>Flags\<close>

record cflag =
  fl_name :: string
  fl_help :: string
  fl_file :: string
  fl_modified :: bool
  fl_default :: flag_value
  fl_current :: flag_value
  fl_validator :: "nat option"
  fl_ptr :: nat                 \<comment> \<open>the address of the variable \<open>FLAGS_name\<close>\<close>

definition CommandLineFlag :: "string \<Rightarrow> string \<Rightarrow> string \<Rightarrow> nat \<Rightarrow> flag_value \<Rightarrow> flag_value \<Rightarrow> cflag" where
  "CommandLineFlag name help file ptr cur dflt =
     \<lparr>fl_name = name, fl_help = help, fl_file = file, fl_modified = False, fl_default = dflt,
      fl_current = cur, fl_validator = None, fl_ptr = ptr\<rparr>"

definition flag_type_name :: "cflag \<Rightarrow> string" where
  "flag_type_name fl = TypeName (type_of_value (fl_default fl))"

definition UpdateModifiedBit :: "cflag \<Rightarrow> cflag" where
  "UpdateModifiedBit fl =
     (if \<not> fl_modified fl \<and> \<not> value_equal (fl_current fl) (fl_default fl) then fl\<lparr>fl_modified := True\<rparr> else fl)"

definition flag_copy_from :: "cflag \<Rightarrow> cflag \<Rightarrow> cflag result" where
  "flag_copy_from src fl =
     bnd (if value_equal (fl_current fl) (fl_current src) then Inr (fl_current fl)
          else copy_value (fl_current src) (fl_current fl)) (\<lambda>cur.
     bnd (if value_equal (fl_default fl) (fl_default src) then Inr (fl_default fl)
          else copy_value (fl_default src) (fl_default fl)) (\<lambda>dflt.
     Inr (fl\<lparr>fl_modified := fl_modified src, fl_current := cur, fl_default := dflt,
             fl_validator := fl_validator src\<rparr>)))"

definition flag_validate :: "flag_env \<Rightarrow> cflag \<Rightarrow> flag_value \<Rightarrow> bool" where
  "flag_validate env fl v = (case fl_validator fl of None \<Rightarrow> True | Some k \<Rightarrow> validators env k (fl_name fl) v)"

text \<open>What the interface tells of a flag.\<close>

record flag_info =
  fi_name :: string
  fi_type :: string
  fi_description :: string
  fi_current_value :: string
  fi_default_value :: string
  fi_filename :: string
  fi_is_default :: bool
  fi_has_validator :: bool
  fi_ptr :: nat

text \<open>\<open>FillCommandLineFlagInfo\<close> updates the modified bit on the way.\<close>

definition FillCommandLineFlagInfo :: "flag_env \<Rightarrow> cflag \<Rightarrow> flag_info \<times> cflag" where
  "FillCommandLineFlagInfo env fl = (let fl' = UpdateModifiedBit fl in
     (\<lparr>fi_name = fl_name fl, fi_type = flag_type_name fl, fi_description = fl_help fl,
       fi_current_value = flag_text env (fl_current fl), fi_default_value = flag_text env (fl_default fl),
       fi_filename = fl_file fl, fi_is_default = (\<not> fl_modified fl'),
       fi_has_validator = (fl_validator fl \<noteq> None), fi_ptr = fl_ptr fl\<rparr>, fl'))"

section \<open>The registry\<close>

record registry =
  rg_flags :: "(string, cflag) ordmap"
  rg_by_ptr :: "(nat, string) ordmap"

definition new_registry :: registry where
  "new_registry = \<lparr>rg_flags = [], rg_by_ptr = []\<rparr>"

definition find_flag :: "string \<Rightarrow> registry \<Rightarrow> cflag option" where
  "find_flag name R = ord_find name (rg_flags R)"

definition find_flag_via_ptr :: "nat \<Rightarrow> registry \<Rightarrow> cflag option" where
  "find_flag_via_ptr ptr R = (case ord_find ptr (rg_by_ptr R) of
     None \<Rightarrow> None | Some name \<Rightarrow> find_flag name R)"

text \<open>Change a flag in place.\<close>

definition put_flag :: "cflag \<Rightarrow> registry \<Rightarrow> registry" where
  "put_flag fl R = R\<lparr>rg_flags := ord_set (fl_name fl) fl (rg_flags R)\<rparr>"

text \<open>A second flag of the same name is reported and ends the program.\<close>

definition RegisterFlag :: "cflag \<Rightarrow> registry \<Rightarrow> registry result" where
  "RegisterFlag fl R =
     (if find_flag (fl_name fl) R \<noteq> None then Inl (ExitWith 1)
      else Inr ((put_flag fl R)\<lparr>rg_by_ptr := ord_set (fl_ptr fl) (fl_name fl) (rg_by_ptr R)\<rparr>))"

text \<open>
  The global constructor behind \<open>DEFINE_type\<close>: the type's name without its namespace; a missing
  help text is empty.
\<close>

definition after_last :: "char \<Rightarrow> string \<Rightarrow> string" where
  "after_last c s = rev (takeWhile (\<lambda>x. x \<noteq> c) (rev s))"

definition FlagRegisterer ::
  "string \<Rightarrow> string \<Rightarrow> string option \<Rightarrow> string \<Rightarrow> nat \<Rightarrow> flag_value \<Rightarrow> registry \<Rightarrow> registry result" where
  "FlagRegisterer name type help file ptr v R =
     bnd (type_named (if CHR '':'' \<in> set type then after_last (CHR '':'') type else type)) (\<lambda>t.
       if type_of_value v \<noteq> t then Inl (Undefined ''storage of another type'')
       else RegisterFlag (CommandLineFlag name (case help of None \<Rightarrow> [] | Some h \<Rightarrow> h) file ptr v v) R)"

definition kError :: string where "kError = ''ERROR: ''"

text \<open>
  \<open>SplitArgumentLocked\<close>: the flag an argument \<open>flag\<close> or \<open>flag=value\<close> (without its dashes) names, the
  key, the value if there is one, and the error message.
\<close>

definition split_eq :: "string \<Rightarrow> string \<times> string option" where
  "split_eq arg = (let key = takeWhile (\<lambda>c. c \<noteq> CHR ''='') arg in
     (key, if length key < length arg then Some (drop (length key + 1) arg) else None))"

definition unknown_flag :: "string \<Rightarrow> string" where
  "unknown_flag key = kError @ ''unknown command line flag '' @ CHR 0x27 # key @ CHR 0x27 # [LF]"

fun strip_no :: "string \<Rightarrow> string option" where
  "strip_no (a # b # rest) = (if a = CHR ''n'' \<and> b = CHR ''o'' then Some rest else None)"
| "strip_no _ = None"

definition SplitArgumentLocked :: "string \<Rightarrow> registry \<Rightarrow> cflag option \<times> string \<times> string option \<times> string" where
  "SplitArgumentLocked arg R = (let (key, v) = split_eq arg in
     case find_flag key R of
       Some fl \<Rightarrow> (Some fl, key, if v = None \<and> flag_type_name fl = ''bool'' then Some ''1'' else v, [])
     | None \<Rightarrow> (case strip_no key of
         None \<Rightarrow> (None, key, v, unknown_flag key)
       | Some name \<Rightarrow> (case find_flag name R of
           None \<Rightarrow> (None, key, v, unknown_flag key)
         | Some fl \<Rightarrow>
             if flag_type_name fl \<noteq> ''bool'' then
               (None, key, v, kError @ ''boolean value ('' @ key @ '') specified for '' @ flag_type_name fl @
                  '' command line flag'' @ [LF])
             else (Some fl, name, Some ''0'', []))))"

section \<open>Setting a flag\<close>

datatype set_mode = SET_FLAGS_VALUE | SET_FLAG_IF_DEFAULT | SET_FLAGS_DEFAULT

text \<open>\<open>TryParseLocked\<close>: the new value of the same type, or nothing, and the message appended.\<close>

definition TryParseLocked :: "flag_env \<Rightarrow> cflag \<Rightarrow> flag_value \<Rightarrow> string \<Rightarrow> flag_value option \<times> string" where
  "TryParseLocked env fl target value =
     (case ParseFrom env (type_of_value target) value of
        None \<Rightarrow> (None, kError @ ''illegal value '' @ CHR 0x27 # value @ CHR 0x27 # '' specified for '' @
                  flag_type_name fl @ '' flag '' @ CHR 0x27 # fl_name fl @ CHR 0x27 # [LF])
      | Some v \<Rightarrow>
          if \<not> flag_validate env fl v then
            (None, kError @ ''failed validation of new value '' @ CHR 0x27 # flag_text env v @ CHR 0x27 #
                  '' for flag '' @ CHR 0x27 # fl_name fl @ CHR 0x27 # [LF])
          else (Some v, fl_name fl @ '' set to '' @ flag_text env v @ [LF]))"

text \<open>\<open>SetFlagLocked\<close>: whether it succeeded, the flag afterwards, the message.\<close>

definition SetFlagLocked :: "flag_env \<Rightarrow> set_mode \<Rightarrow> string \<Rightarrow> cflag \<Rightarrow> bool \<times> cflag \<times> string" where
  "SetFlagLocked env mode value fl0 = (let fl = UpdateModifiedBit fl0 in
     case mode of
       SET_FLAGS_VALUE \<Rightarrow> (case TryParseLocked env fl (fl_current fl) value of
           (None, msg) \<Rightarrow> (False, fl, msg)
         | (Some v, msg) \<Rightarrow> (True, fl\<lparr>fl_current := v, fl_modified := True\<rparr>, msg))
     | SET_FLAG_IF_DEFAULT \<Rightarrow>
         if \<not> fl_modified fl then (case TryParseLocked env fl (fl_current fl) value of
             (None, msg) \<Rightarrow> (False, fl, msg)
           | (Some v, msg) \<Rightarrow> (True, fl\<lparr>fl_current := v, fl_modified := True\<rparr>, msg))
         else (True, fl, fl_name fl @ '' set to '' @ flag_text env (fl_current fl))
     | SET_FLAGS_DEFAULT \<Rightarrow> (case TryParseLocked env fl (fl_default fl) value of
           (None, msg) \<Rightarrow> (False, fl, msg)
         | (Some v, msg) \<Rightarrow> (let fl = fl\<lparr>fl_default := v\<rparr> in
             (True, if \<not> fl_modified fl then (case TryParseLocked env fl (fl_current fl) value of
                 (None, _) \<Rightarrow> fl | (Some v, _) \<Rightarrow> fl\<lparr>fl_current := v\<rparr>) else fl, msg))))"

section \<open>Validators\<close>

text \<open>\<open>AddFlagValidator\<close>: at most one for each flag.\<close>

definition AddFlagValidator :: "nat \<Rightarrow> nat option \<Rightarrow> registry \<Rightarrow> bool \<times> registry" where
  "AddFlagValidator ptr fn R = (case find_flag_via_ptr ptr R of
     None \<Rightarrow> (False, R)
   | Some fl \<Rightarrow>
       if fn = fl_validator fl then (True, R)
       else if fn \<noteq> None \<and> fl_validator fl \<noteq> None then (False, R)
       else (True, put_flag (fl\<lparr>fl_validator := fn\<rparr>) R))"

section \<open>Saving and restoring\<close>

definition backup_flag :: "cflag \<Rightarrow> cflag result" where
  "backup_flag main = flag_copy_from main
     (CommandLineFlag (fl_name main) (fl_help main) (fl_file main) 0
        (new_value (type_of_value (fl_current main))) (new_value (type_of_value (fl_default main))))"

definition SaveFromRegistry :: "registry \<Rightarrow> cflag list result" where
  "SaveFromRegistry R = foldM (\<lambda>main saved. bnd (backup_flag main) (\<lambda>b. Inr (saved @ [b]))) (map snd (rg_flags R)) []"

definition RestoreToRegistry :: "cflag list \<Rightarrow> registry \<Rightarrow> registry result" where
  "RestoreToRegistry saved R = foldM (\<lambda>b R. case find_flag (fl_name b) R of
       None \<Rightarrow> Inr R
     | Some main \<Rightarrow> bnd (flag_copy_from b main) (\<lambda>fl. Inr (put_flag fl R))) saved R"

end
