(* ===== verification/FlagParser.thy ===== *)
theory FlagParser
  imports FlagRegistry
begin

text \<open>
  Parsing the command line, flag files and the environment (\<open>CommandLineFlagParser\<close> and the
  functions around it, gflags.cc).  The flags \<open>flagfile\<close>, \<open>fromenv\<close> and \<open>tryfromenv\<close> set other flags
  as soon as they are set, which can set them again: a call of \<open>ProcessSingleOptionLocked\<close> has fuel,
  the number of such calls it may nest, and \<open>None\<close> means that the fuel did not suffice.
\<close>

section \<open>State\<close>

record gflags =
  gf_registry :: registry
  gf_set_argv :: bool            \<comment> \<open>\<open>called_set_argv\<close>\<close>
  gf_argv0 :: string
  gf_cmdline :: string
  gf_argvs :: "string list"
  gf_argv_sum :: "32 word"
  gf_usage :: "string option"
  gf_version :: "string option"
  gf_allow_reparsing :: bool

record parser =
  ps_gflags :: gflags
  ps_errors :: "(string, string) ordmap"       \<comment> \<open>\<open>error_flags_\<close>\<close>
  ps_undefined :: "(string, string) ordmap"    \<comment> \<open>\<open>undefined_names_\<close>\<close>

abbreviation ps_registry :: "parser \<Rightarrow> registry" where
  "ps_registry P \<equiv> gf_registry (ps_gflags P)"

definition CommandLineFlagParser :: "gflags \<Rightarrow> parser" where
  "CommandLineFlagParser G = \<lparr>ps_gflags = G, ps_errors = [], ps_undefined = []\<rparr>"

definition set_registry :: "registry \<Rightarrow> parser \<Rightarrow> parser" where
  "set_registry R P = P\<lparr>ps_gflags := (ps_gflags P)\<lparr>gf_registry := R\<rparr>\<rparr>"

definition note_error :: "string \<Rightarrow> string \<Rightarrow> parser \<Rightarrow> parser" where
  "note_error name msg P = P\<lparr>ps_errors := ord_set name msg (ps_errors P)\<rparr>"

definition note_undefined :: "string \<Rightarrow> parser \<Rightarrow> parser" where
  "note_undefined name P = P\<lparr>ps_undefined := ord_set name [] (ps_undefined P)\<rparr>"

text \<open>\<open>FLAGS_name\<close> for a string flag the library itself defines.\<close>

definition FLAGS_string :: "string \<Rightarrow> registry \<Rightarrow> string" where
  "FLAGS_string name R = (case find_flag name R of
     Some fl \<Rightarrow> (case fl_current fl of StringF s \<Rightarrow> s | _ \<Rightarrow> []) | None \<Rightarrow> [])"

definition FLAGS_bool :: "string \<Rightarrow> registry \<Rightarrow> bool" where
  "FLAGS_bool name R = (case find_flag name R of
     Some fl \<Rightarrow> (case fl_current fl of BoolF b \<Rightarrow> b | _ \<Rightarrow> False) | None \<Rightarrow> False)"

definition ProgramInvocationName :: "gflags \<Rightarrow> string" where
  "ProgramInvocationName G = gf_argv0 G"

definition ProgramInvocationShortName :: "gflags \<Rightarrow> string" where
  "ProgramInvocationShortName G = after_last (CHR ''/'') (gf_argv0 G)"

section \<open>Lists of flags\<close>

text \<open>
  \<open>ParseFlagList\<close>: the entries between commas.  An empty entry or one that begins with a dash ends
  the program; nothing follows a comma at the end.
\<close>

function ParseFlagList :: "string \<Rightarrow> string list result" where
  "ParseFlagList value =
     (if value = [] then Inr []
      else let w = takeWhile (\<lambda>c. c \<noteq> CHR '','') value; rest = dropWhile (\<lambda>c. c \<noteq> CHR '','') value in
        if w = [] then Inl (ExitWith 1)
        else if hd value = CHR ''-'' then Inl (ExitWith 1)
        else bnd (ParseFlagList (drop 1 rest)) (\<lambda>ws. Inr (w # ws)))"
  by pat_completeness auto

termination ParseFlagList
proof (relation "measure length")
  fix v w rest :: string
  assume "v \<noteq> []" "rest = dropWhile (\<lambda>c. c \<noteq> CHR '','') v"
  then have "length rest \<le> length v" "length v > 0"
    using length_dropWhile_le[of "\<lambda>c. c \<noteq> CHR '',''" v] by simp_all
  then have "length rest - 1 < length v" by linarith
  then show "(drop 1 rest, v) \<in> measure length" by simp
qed simp

declare ParseFlagList.simps [simp del]

definition ReadFileIntoString :: "flag_env \<Rightarrow> string \<Rightarrow> string result" where
  "ReadFileIntoString env filename = (case read_file env filename of None \<Rightarrow> Inl (ExitWith 1) | Some s \<Rightarrow> Inr s)"

section \<open>One option, and the options that set others\<close>

text \<open>
  The functions below take the recursive call of \<open>ProcessSingleOptionLocked\<close> as a parameter: the
  name of the flag, its new value, the parser; the result is the message and the parser.
\<close>

type_synonym single = "string \<Rightarrow> string \<Rightarrow> parser \<Rightarrow> (string \<times> parser) result option"

text \<open>A loop that appends the messages of its steps.\<close>

fun append_loop :: "('i \<Rightarrow> parser \<Rightarrow> (string \<times> parser) result option) \<Rightarrow> 'i list \<Rightarrow> parser \<Rightarrow> (string \<times> parser) result option" where
  "append_loop f [] P = Some (Inr ([], P))"
| "append_loop f (i # is) P = obind (f i P) (\<lambda>(m, P). obind (append_loop f is P) (\<lambda>(ms, P). Some (Inr (m @ ms, P))))"

definition fromenv_step :: "single \<Rightarrow> flag_env \<Rightarrow> bool \<Rightarrow> string \<Rightarrow> parser \<Rightarrow> (string \<times> parser) result option" where
  "fromenv_step single env fatal flagname P =
     (case find_flag flagname (ps_registry P) of
        None \<Rightarrow> Some (Inr ([], note_undefined flagname (note_error flagname
          (kError @ ''unknown command line flag '' @ CHR 0x27 # flagname @ CHR 0x27 #
           '' (via --fromenv or --tryfromenv)'' @ [LF]) P)))
      | Some fl \<Rightarrow> (case getenv env (''FLAGS_'' @ flagname) of
          None \<Rightarrow> Some (Inr ([], if fatal
            then note_error flagname (kError @ ''FLAGS_'' @ flagname @ '' not found in environment'' @ [LF]) P else P))
        | Some envval \<Rightarrow>
            if envval = ''fromenv'' \<or> envval = ''tryfromenv'' then
              Some (Inr ([], note_error flagname
                (kError @ ''infinite recursion on environment flag '' @ CHR 0x27 # envval @ CHR 0x27 # [LF]) P))
            else single flagname envval P))"

definition ProcessFromenvLocked :: "single \<Rightarrow> flag_env \<Rightarrow> string \<Rightarrow> bool \<Rightarrow> parser \<Rightarrow> (string \<times> parser) result option" where
  "ProcessFromenvLocked single env flagval fatal P =
     (if flagval = [] then Some (Inr ([], P))
      else obind (Some (ParseFlagList flagval)) (\<lambda>flaglist. append_loop (fromenv_step single env fatal) flaglist P))"

text \<open>
  A flag file: its lines set flags, if the program's name matches one of the patterns on the lines
  before them, or if no patterns came yet.  White space before a line is skipped, empty lines with it.
\<close>

record file_section =
  flags_are_relevant :: bool
  in_filename_section :: bool

fun split_spaces :: "string \<Rightarrow> string list" where
  "split_spaces [] = [[]]"
| "split_spaces (c # s) = (if c = CHR '' '' then [] # split_spaces s
     else (case split_spaces s of w # ws \<Rightarrow> (c # w) # ws | [] \<Rightarrow> [[c]]))"

text \<open>The patterns of a line; behind a space at its end there is an empty one.\<close>

definition matches_program :: "flag_env \<Rightarrow> gflags \<Rightarrow> string \<Rightarrow> bool" where
  "matches_program env G glob \<longleftrightarrow> glob = ProgramInvocationName G \<or> glob = ProgramInvocationShortName G \<or>
     fnmatch env glob (ProgramInvocationName G) \<or> fnmatch env glob (ProgramInvocationShortName G)"

definition flag_line :: "single \<Rightarrow> string \<Rightarrow> parser \<Rightarrow> (string \<times> parser) result option" where
  "flag_line single line P =
     (let name_and_val = (case drop 1 line of c # s \<Rightarrow> if c = CHR ''-'' then s else c # s | [] \<Rightarrow> []) in
      case SplitArgumentLocked name_and_val (ps_registry P) of
        (Some fl, _, Some value, _) \<Rightarrow> single (fl_name fl) value P
      | _ \<Rightarrow> Some (Inr ([], P)))"

definition file_line :: "single \<Rightarrow> flag_env \<Rightarrow> string \<Rightarrow> file_section \<Rightarrow> parser \<Rightarrow> (string \<times> file_section \<times> parser) result option" where
  "file_line single env line sec P =
     (if line = [] \<or> hd line = CHR ''#'' then Some (Inr ([], sec, P))
      else if hd line = CHR ''-'' then
        (let sec = sec\<lparr>in_filename_section := False\<rparr> in
         if \<not> flags_are_relevant sec then Some (Inr ([], sec, P))
         else obind (flag_line single line P) (\<lambda>(m, P). Some (Inr (m, sec, P))))
      else
        (let sec = (if \<not> in_filename_section sec
                    then \<lparr>flags_are_relevant = False, in_filename_section = True\<rparr> else sec) in
         Some (Inr ([], sec\<lparr>flags_are_relevant := flags_are_relevant sec \<or>
            list_ex (matches_program env (ps_gflags P)) (split_spaces line)\<rparr>, P))))"

function options_loop :: "single \<Rightarrow> flag_env \<Rightarrow> string \<Rightarrow> file_section \<Rightarrow> parser \<Rightarrow> (string \<times> parser) result option" where
  "options_loop single env contents sec P =
     (let s = dropWhile is_space contents;
          line = takeWhile (\<lambda>c. c \<noteq> LF) s;
          rest = dropWhile (\<lambda>c. c \<noteq> LF) s
      in obind (file_line single env line sec P) (\<lambda>(m, sec, P).
           if rest = [] then Some (Inr (m, P))
           else obind (options_loop single env (tl rest) sec P) (\<lambda>(ms, P). Some (Inr (m @ ms, P)))))"
  by pat_completeness auto

termination options_loop
proof (relation "measure (\<lambda>(single, env, contents, sec, P). length contents)")
  fix single :: single and env contents sec P s line rest and x :: "string \<times> file_section \<times> parser" and m y sec' P'
  assume "s = dropWhile is_space contents" "rest = dropWhile (\<lambda>c. c \<noteq> LF) s" "rest \<noteq> []"
  then have "length rest \<le> length contents" "length (tl rest) < length rest"
    by (auto intro: order_trans[OF length_dropWhile_le length_dropWhile_le])
  then show "((single, env, tl rest, sec', P'), single, env, contents, sec, P)
      \<in> measure (\<lambda>(single, env, contents, sec, P). length contents)" by (cases rest) simp_all
qed simp

declare options_loop.simps [simp del]

definition ProcessOptionsFromStringLocked :: "single \<Rightarrow> flag_env \<Rightarrow> string \<Rightarrow> parser \<Rightarrow> (string \<times> parser) result option" where
  "ProcessOptionsFromStringLocked single env contentdata P =
     options_loop single env (takeWhile (\<lambda>c. c \<noteq> CHR 0x00) contentdata)
       \<lparr>flags_are_relevant = True, in_filename_section = False\<rparr> P"

definition ProcessFlagfileLocked :: "single \<Rightarrow> flag_env \<Rightarrow> string \<Rightarrow> parser \<Rightarrow> (string \<times> parser) result option" where
  "ProcessFlagfileLocked single env flagval P =
     (if flagval = [] then Some (Inr ([], P))
      else obind (Some (ParseFlagList flagval)) (\<lambda>filename_list.
        append_loop (\<lambda>file P. obind (Some (ReadFileIntoString env file)) (\<lambda>s.
          ProcessOptionsFromStringLocked single env s P)) filename_list P))"

text \<open>\<open>ProcessSingleOptionLocked\<close> sets the flag, and then looks at the variable of a recursive one.\<close>

definition set_option :: "flag_env \<Rightarrow> set_mode \<Rightarrow> string \<Rightarrow> string \<Rightarrow> parser \<Rightarrow> bool \<times> string \<times> parser" where
  "set_option env mode name value P = (case find_flag name (ps_registry P) of
     None \<Rightarrow> (False, [], P)
   | Some fl \<Rightarrow> (let (ok, fl', msg) = SetFlagLocked env mode value fl;
                     P = set_registry (put_flag fl' (ps_registry P)) P
                 in if ok then (True, msg, P) else (False, [], note_error name msg P)))"

fun ProcessSingleOptionLocked :: "nat \<Rightarrow> flag_env \<Rightarrow> set_mode \<Rightarrow> single" where
  "ProcessSingleOptionLocked 0 env mode name value P = None"
| "ProcessSingleOptionLocked (Suc fuel) env mode name value P =
     (let (ok, msg, P) = set_option env mode name value P; single = ProcessSingleOptionLocked fuel env mode in
      if \<not> ok then Some (Inr ([], P))
      else obind
        (if name = ''flagfile'' then ProcessFlagfileLocked single env (FLAGS_string ''flagfile'' (ps_registry P)) P
         else if name = ''fromenv'' then ProcessFromenvLocked single env (FLAGS_string ''fromenv'' (ps_registry P)) True P
         else if name = ''tryfromenv'' then ProcessFromenvLocked single env (FLAGS_string ''tryfromenv'' (ps_registry P)) False P
         else Some (Inr ([], P)))
        (\<lambda>(m, P). Some (Inr (msg @ m, P))))"

section \<open>The command line\<close>

text \<open>
  The loop over \<open>argv\<close>: \<open>i\<close> is the next argument, the arguments from \<open>first\<close> on are not options.
  An argument that is no option moves to the end of \<open>argv\<close>.
\<close>

definition is_option :: "string \<Rightarrow> bool" where
  "is_option arg \<longleftrightarrow> arg \<noteq> [] \<and> hd arg = CHR ''-'' \<and> tl arg \<noteq> []"

definition strip_dashes :: "string \<Rightarrow> string" where
  "strip_dashes arg = (case tl arg of c # s \<Rightarrow> if c = CHR ''-'' then s else c # s | [] \<Rightarrow> [])"

definition missing_argument :: "string \<Rightarrow> cflag \<Rightarrow> string" where
  "missing_argument arg fl = kError @ ''flag '' @ CHR 0x27 # arg @ CHR 0x27 # '' is missing its argument'' @
     (case fl_help fl of c # _ \<Rightarrow> if 1 < (of_char c :: nat) \<and> (of_char c :: nat) < 128
        then ''; flag description: '' @ fl_help fl else [] | [] \<Rightarrow> []) @ [LF]"

function parse_loop :: "single \<Rightarrow> nat \<Rightarrow> nat \<Rightarrow> string list \<Rightarrow> parser \<Rightarrow> (nat \<times> string list \<times> parser) result option" where
  "parse_loop single i first argv P =
     (if \<not> i < first then Some (Inr (first, argv, P))
      else obind (Some (vec_at argv (int i))) (\<lambda>arg.
        if \<not> is_option arg then parse_loop single i (first - 1) (take i argv @ drop (i + 1) argv @ [arg]) P
        else if strip_dashes arg = [] then Some (Inr (i + 1, argv, P))
        else (case SplitArgumentLocked (strip_dashes arg) (ps_registry P) of
            (None, key, _, error_message) \<Rightarrow>
              parse_loop single (i + 1) first argv (note_error key error_message (note_undefined key P))
          | (Some fl, key, Some v, _) \<Rightarrow>
              obind (single (fl_name fl) v P) (\<lambda>(_, P). parse_loop single (i + 1) first argv P)
          | (Some fl, key, None, _) \<Rightarrow>
              if i + 1 \<ge> first then Some (Inr (first, argv, note_error key (missing_argument arg fl) P))
              else obind (Some (vec_at argv (int (i + 1)))) (\<lambda>v.
                obind (single (fl_name fl) v P) (\<lambda>(_, P). parse_loop single (i + 2) first argv P)))))"
  by pat_completeness auto

termination parse_loop by (relation "measure (\<lambda>(single, i, first, argv, P). first - i)") auto

declare parse_loop.simps [simp del]

definition ParseNewCommandLineFlags ::
  "single \<Rightarrow> string list \<Rightarrow> bool \<Rightarrow> parser \<Rightarrow> (nat \<times> string list \<times> parser) result option" where
  "ParseNewCommandLineFlags single argv remove_flags P =
     obind (parse_loop single 1 (length argv) argv P) (\<lambda>(first, argv, P).
       if remove_flags then
         obind (Some (vec_at argv 0)) (\<lambda>prog.
         obind (Some (vec_set argv (int first - 1) prog)) (\<lambda>argv. Some (Inr (1, drop (first - 1) argv, P))))
       else Some (Inr (first, argv, P)))"

section \<open>Validation and errors\<close>

definition validate_step :: "flag_env \<Rightarrow> cflag \<Rightarrow> parser \<Rightarrow> parser" where
  "validate_step env fl P =
     (if flag_validate env fl (fl_current fl) then P
      else (case ord_find (fl_name fl) (ps_errors P) of
          Some (_ # _) \<Rightarrow> P
        | _ \<Rightarrow> note_error (fl_name fl) (kError @ ''--'' @ fl_name fl @
            '' must be set on the commandline (default value fails validation)'' @ [LF]) P))"

definition ValidateAllFlags :: "flag_env \<Rightarrow> parser \<Rightarrow> parser" where
  "ValidateAllFlags env P = fold (validate_step env) (map snd (rg_flags (ps_registry P))) P"

text \<open>Errors about undefined flags are dropped if \<open>undefok\<close> lists the flag, or if reparsing is allowed.\<close>

definition undefok_step :: "string \<Rightarrow> parser \<Rightarrow> parser" where
  "undefok_step name P =
     (if ord_find name (ps_undefined P) \<noteq> None then note_error name [] P
      else if ord_find (''no'' @ name) (ps_undefined P) \<noteq> None then note_error (''no'' @ name) [] P else P)"

definition ReportErrors :: "parser \<Rightarrow> (bool \<times> string \<times> parser) result" where
  "ReportErrors P =
     bnd (let undefok = FLAGS_string ''undefok'' (ps_registry P) in
          if undefok = [] then Inr P
          else bnd (ParseFlagList undefok) (\<lambda>flaglist. Inr (fold undefok_step flaglist P))) (\<lambda>P.
     let P = (if gf_allow_reparsing (ps_gflags P) then fold (\<lambda>u. note_error (fst u) []) (ps_undefined P) P else P);
         error_message = concat (map snd (ps_errors P))
     in Inr (list_ex (\<lambda>e. snd e \<noteq> []) (ps_errors P), error_message, P))"

section \<open>Parsing everything\<close>

definition SetArgv :: "string list \<Rightarrow> gflags \<Rightarrow> gflags result" where
  "SetArgv argv G =
     (if gf_set_argv G then Inr G
      else if argv = [] then Inl (Undefined ''assertion failed'')
      else let line = hd argv @ concat (map (\<lambda>a. CHR '' '' # a) (tl argv)) in
        Inr (G\<lparr>gf_set_argv := True, gf_argv0 := hd argv, gf_argvs := gf_argvs G @ argv, gf_cmdline := line,
               gf_argv_sum := foldl (\<lambda>n c. n + scast (of_char c :: 8 word)) (gf_argv_sum G) line\<rparr>))"

text \<open>The flags that print and exit.  What they print is in the theories FlagReporting and FlagCompletion;
  that printing it never fails, so that it may be left out here, is shown in FlagExit.\<close>

definition HandleCommandLineHelpFlags :: "gflags \<Rightarrow> unit result" where
  "HandleCommandLineHelpFlags G = (let R = gf_registry G in
     if FLAGS_string ''tab_completion_word'' R \<noteq> [] then Inl (ExitWith 0)
     else if FLAGS_bool ''helpshort'' R then Inl (ExitWith 1)
     else if FLAGS_bool ''help'' R \<or> FLAGS_bool ''helpfull'' R then Inl (ExitWith 1)
     else if FLAGS_string ''helpon'' R \<noteq> [] then Inl (ExitWith 1)
     else if FLAGS_string ''helpmatch'' R \<noteq> [] then Inl (ExitWith 1)
     else if FLAGS_bool ''helppackage'' R then Inl (ExitWith 1)
     else if FLAGS_bool ''helpxml'' R then Inl (ExitWith 1)
     else if FLAGS_bool ''version'' R then Inl (ExitWith 0)
     else Inr ())"

definition ParseCommandLineFlagsInternal ::
  "nat \<Rightarrow> flag_env \<Rightarrow> string list \<Rightarrow> bool \<Rightarrow> bool \<Rightarrow> gflags \<Rightarrow> (nat \<times> string list \<times> gflags) result option" where
  "ParseCommandLineFlagsInternal fuel env argv remove_flags do_report G =
     obind (Some (SetArgv argv G)) (\<lambda>G.
     let single = ProcessSingleOptionLocked fuel env SET_FLAGS_VALUE; P = CommandLineFlagParser G in
     obind (ProcessFlagfileLocked single env (FLAGS_string ''flagfile'' (ps_registry P)) P) (\<lambda>(_, P).
     obind (ProcessFromenvLocked single env (FLAGS_string ''fromenv'' (ps_registry P)) True P) (\<lambda>(_, P).
     obind (ProcessFromenvLocked single env (FLAGS_string ''tryfromenv'' (ps_registry P)) False P) (\<lambda>(_, P).
     obind (ParseNewCommandLineFlags single argv remove_flags P) (\<lambda>(r, argv, P).
     obind (Some (if do_report then HandleCommandLineHelpFlags (ps_gflags P) else Inr ())) (\<lambda>_.
     obind (Some (ReportErrors (ValidateAllFlags env P))) (\<lambda>(found_error, _, P).
     if found_error then Some (Inl (ExitWith 1)) else Some (Inr (r, argv, ps_gflags P)))))))))"

definition ParseCommandLineFlags ::
  "nat \<Rightarrow> flag_env \<Rightarrow> string list \<Rightarrow> bool \<Rightarrow> gflags \<Rightarrow> (nat \<times> string list \<times> gflags) result option" where
  "ParseCommandLineFlags fuel env argv remove_flags G = ParseCommandLineFlagsInternal fuel env argv remove_flags True G"

definition ParseCommandLineNonHelpFlags ::
  "nat \<Rightarrow> flag_env \<Rightarrow> string list \<Rightarrow> bool \<Rightarrow> gflags \<Rightarrow> (nat \<times> string list \<times> gflags) result option" where
  "ParseCommandLineNonHelpFlags fuel env argv remove_flags G =
     ParseCommandLineFlagsInternal fuel env argv remove_flags False G"

definition AllowCommandLineReparsing :: "gflags \<Rightarrow> gflags" where
  "AllowCommandLineReparsing G = G\<lparr>gf_allow_reparsing := True\<rparr>"

definition ReparseCommandLineNonHelpFlags :: "nat \<Rightarrow> flag_env \<Rightarrow> gflags \<Rightarrow> gflags result option" where
  "ReparseCommandLineNonHelpFlags fuel env G =
     obind (ParseCommandLineNonHelpFlags fuel env (gf_argvs G) False G) (\<lambda>(_, _, G). Some (Inr G))"

end
