(* ===== verification/FlagApi.thy ===== *)
theory FlagApi
  imports FlagParser Server "HOL-Library.Product_Lexorder"
begin

text \<open>
  What the flags library offers a program (gflags.h, gflags.cc) besides parsing the command line:
  reading and setting flags by name, writing them to a string or file and reading them back, the
  environment; and \<open>main\<close> (src/main.cpp) with its flag \<open>port\<close>.
\<close>

section \<open>Information\<close>

definition GetCommandLineOption :: "flag_env \<Rightarrow> string \<Rightarrow> gflags \<Rightarrow> string option" where
  "GetCommandLineOption env name G = map_option (\<lambda>fl. flag_text env (fl_current fl)) (find_flag name (gf_registry G))"

definition GetCommandLineFlagInfo :: "flag_env \<Rightarrow> string \<Rightarrow> gflags \<Rightarrow> flag_info option \<times> gflags" where
  "GetCommandLineFlagInfo env name G = (case find_flag name (gf_registry G) of
     None \<Rightarrow> (None, G)
   | Some fl \<Rightarrow> (let (info, fl') = FillCommandLineFlagInfo env fl in
       (Some info, G\<lparr>gf_registry := put_flag fl' (gf_registry G)\<rparr>)))"

definition GetCommandLineFlagInfoOrDie :: "flag_env \<Rightarrow> string \<Rightarrow> gflags \<Rightarrow> (flag_info \<times> gflags) result" where
  "GetCommandLineFlagInfoOrDie env name G = (case GetCommandLineFlagInfo env name G of
     (None, G) \<Rightarrow> Inl (ExitWith 1) | (Some info, G) \<Rightarrow> Inr (info, G))"

text \<open>All flags, by file name and then by name.\<close>

definition GetAllFlags :: "flag_env \<Rightarrow> gflags \<Rightarrow> flag_info list \<times> gflags" where
  "GetAllFlags env G = (let fs = map (\<lambda>(n, fl). (n, FillCommandLineFlagInfo env fl)) (rg_flags (gf_registry G)) in
     (sort_key (\<lambda>fi. (fi_filename fi, fi_name fi)) (map (\<lambda>(n, fi, fl). fi) fs),
      G\<lparr>gf_registry := (gf_registry G)\<lparr>rg_flags := map (\<lambda>(n, fi, fl). (n, fl)) fs\<rparr>\<rparr>))"

definition SetUsageMessage :: "string \<Rightarrow> gflags \<Rightarrow> gflags result" where
  "SetUsageMessage usage G = (if gf_usage G \<noteq> None then Inl (ExitWith 1) else Inr (G\<lparr>gf_usage := Some usage\<rparr>))"

definition ProgramUsage :: "gflags \<Rightarrow> string" where
  "ProgramUsage G = (case gf_usage G of Some u \<Rightarrow> u | None \<Rightarrow> ''Warning: SetUsageMessage() never called'')"

definition SetVersionString :: "string \<Rightarrow> gflags \<Rightarrow> gflags result" where
  "SetVersionString version G = (if gf_version G \<noteq> None then Inl (ExitWith 1) else Inr (G\<lparr>gf_version := Some version\<rparr>))"

definition VersionString :: "gflags \<Rightarrow> string" where
  "VersionString G = (case gf_version G of Some v \<Rightarrow> v | None \<Rightarrow> [])"

section \<open>Setting a flag by its name\<close>

text \<open>The errors stay in a parser that is thrown away.\<close>

definition SetCommandLineOptionWithMode ::
  "nat \<Rightarrow> flag_env \<Rightarrow> string \<Rightarrow> string \<Rightarrow> set_mode \<Rightarrow> gflags \<Rightarrow> (string \<times> gflags) result option" where
  "SetCommandLineOptionWithMode fuel env name v mode G = (case find_flag name (gf_registry G) of
     None \<Rightarrow> Some (Inr ([], G))
   | Some fl \<Rightarrow> obind (ProcessSingleOptionLocked fuel env mode (fl_name fl) v (CommandLineFlagParser G))
       (\<lambda>(msg, P). Some (Inr (msg, ps_gflags P))))"

definition SetCommandLineOption :: "nat \<Rightarrow> flag_env \<Rightarrow> string \<Rightarrow> string \<Rightarrow> gflags \<Rightarrow> (string \<times> gflags) result option" where
  "SetCommandLineOption fuel env name v G = SetCommandLineOptionWithMode fuel env name v SET_FLAGS_VALUE G"

definition RegisterFlagValidator :: "nat \<Rightarrow> nat option \<Rightarrow> gflags \<Rightarrow> bool \<times> gflags" where
  "RegisterFlagValidator ptr fn G = (let (ok, R) = AddFlagValidator ptr fn (gf_registry G) in (ok, G\<lparr>gf_registry := R\<rparr>))"

section \<open>Flags as text\<close>

definition TheseCommandlineFlagsIntoString :: "flag_info list \<Rightarrow> string" where
  "TheseCommandlineFlagsIntoString infos =
     concat (map (\<lambda>fi. ''--'' @ fi_name fi @ ''='' @ fi_current_value fi @ [LF]) infos)"

definition CommandlineFlagsIntoString :: "flag_env \<Rightarrow> gflags \<Rightarrow> string \<times> gflags" where
  "CommandlineFlagsIntoString env G = (let (infos, G) = GetAllFlags env G in
     (TheseCommandlineFlagsIntoString infos, G))"

text \<open>
  Reading flags from a string is all or nothing: after an error every flag is restored, or the
  program ends.
\<close>

definition ReadFlagsFromString :: "nat \<Rightarrow> flag_env \<Rightarrow> string \<Rightarrow> bool \<Rightarrow> gflags \<Rightarrow> (bool \<times> gflags) result option" where
  "ReadFlagsFromString fuel env contents errors_are_fatal G =
     obind (Some (SaveFromRegistry (gf_registry G))) (\<lambda>saved.
     obind (ProcessOptionsFromStringLocked (ProcessSingleOptionLocked fuel env SET_FLAGS_VALUE) env contents
       (CommandLineFlagParser G)) (\<lambda>(_, P).
     obind (Some (HandleCommandLineHelpFlags (ps_gflags P))) (\<lambda>_.
     obind (Some (ReportErrors P)) (\<lambda>(found_error, _, P).
     if \<not> found_error then Some (Inr (True, ps_gflags P))
     else if errors_are_fatal then Some (Inl (ExitWith 1))
     else obind (Some (RestoreToRegistry saved (ps_registry P))) (\<lambda>R.
       Some (Inr (False, (ps_gflags P)\<lparr>gf_registry := R\<rparr>)))))))"

text \<open>What is appended to the file: the program's name, and all flags but \<open>flagfile\<close>.\<close>

definition AppendFlagsIntoFile :: "flag_env \<Rightarrow> string option \<Rightarrow> gflags \<Rightarrow> string \<times> gflags" where
  "AppendFlagsIntoFile env prog_name G = (let (infos, G) = GetAllFlags env G;
     infos = takeWhile (\<lambda>fi. fi_name fi \<noteq> ''flagfile'') infos @ drop 1 (dropWhile (\<lambda>fi. fi_name fi \<noteq> ''flagfile'') infos)
     in ((case prog_name of Some p \<Rightarrow> p @ [LF] | None \<Rightarrow> []) @ TheseCommandlineFlagsIntoString infos, G))"

definition ReadFromFlagsFile :: "nat \<Rightarrow> flag_env \<Rightarrow> string \<Rightarrow> bool \<Rightarrow> gflags \<Rightarrow> (bool \<times> gflags) result option" where
  "ReadFromFlagsFile fuel env filename errors_are_fatal G =
     obind (Some (ReadFileIntoString env filename)) (\<lambda>s. ReadFlagsFromString fuel env s errors_are_fatal G)"

text \<open>A default from the environment; a value that does not parse ends the program.\<close>

definition GetFromEnv :: "flag_env \<Rightarrow> string \<Rightarrow> flag_type \<Rightarrow> flag_value \<Rightarrow> flag_value result" where
  "GetFromEnv env varname t dflt = (case getenv env varname of
     None \<Rightarrow> Inr dflt
   | Some s \<Rightarrow> (case ParseFrom env t s of None \<Rightarrow> Inl (ExitWith 1) | Some v \<Rightarrow> Inr v))"

definition StringFromEnv :: "flag_env \<Rightarrow> string \<Rightarrow> string \<Rightarrow> string" where
  "StringFromEnv env varname dflt = (case getenv env varname of Some v \<Rightarrow> v | None \<Rightarrow> dflt)"

section \<open>The program\<close>

text \<open>The flags defined by the library and by main.cpp: type, name, default, help, file.\<close>

definition flag_definitions :: "(string \<times> string \<times> flag_value \<times> string \<times> string) list" where
  "flag_definitions =
    [(''string'', ''flagfile'', StringF [], ''load flags from file'', ''gflags.cc''),
     (''string'', ''fromenv'', StringF [], ''set flags from the environment [use 'export FLAGS_flag1=value']'', ''gflags.cc''),
     (''string'', ''tryfromenv'', StringF [], ''set flags from the environment if present'', ''gflags.cc''),
     (''string'', ''undefok'', StringF [], ''comma-separated list of flag names that it is okay to specify on the command line even if the program does not define a flag with that name.  IMPORTANT: flags in this list that have arguments MUST use the flag=value format'', ''gflags.cc''),
     (''string'', ''tab_completion_word'', StringF [], ''If non-empty, HandleCommandLineCompletions() will hijack the process and attempt to do bash-style command line flag completion on this value.'', ''gflags_completions.cc''),
     (''gflags::int32'', ''tab_completion_columns'', Int32F 80, ''Number of columns to use in output for tab completion'', ''gflags_completions.cc''),
     (''bool'', ''help'', BoolF False, ''show help on all flags [tip: all flags can have two dashes]'', ''gflags_reporting.cc''),
     (''bool'', ''helpfull'', BoolF False, ''show help on all flags -- same as -help'', ''gflags_reporting.cc''),
     (''bool'', ''helpshort'', BoolF False, ''show help on only the main module for this program'', ''gflags_reporting.cc''),
     (''string'', ''helpon'', StringF [], ''show help on the modules named by this flag value'', ''gflags_reporting.cc''),
     (''string'', ''helpmatch'', StringF [], ''show help on modules whose name contains the specified substr'', ''gflags_reporting.cc''),
     (''bool'', ''helppackage'', BoolF False, ''show help on all modules in the main package'', ''gflags_reporting.cc''),
     (''bool'', ''helpxml'', BoolF False, ''produce an xml version of help'', ''gflags_reporting.cc''),
     (''bool'', ''version'', BoolF False, ''show version and build info and exit'', ''gflags_reporting.cc''),
     (''gflags::int32'', ''port'', Int32F 8091, ''Port to start a server on.'', ''main.cpp'')]"

definition register_all :: "registry result" where
  "register_all = foldM (\<lambda>(i, type, name, v, help, file). FlagRegisterer name type (Some help) file i v)
     (zip [0..<length flag_definitions] flag_definitions) new_registry"

definition new_gflags :: "registry \<Rightarrow> gflags" where
  "new_gflags R = \<lparr>gf_registry = R, gf_set_argv = False, gf_argv0 = ''UNKNOWN'', gf_cmdline = [], gf_argvs = [],
     gf_argv_sum = 0, gf_usage = None, gf_version = None, gf_allow_reparsing = False\<rparr>"

definition FLAGS_port :: "gflags \<Rightarrow> int" where
  "FLAGS_port G = (case find_flag ''port'' (gf_registry G) of
     Some fl \<Rightarrow> (case fl_current fl of Int32F w \<Rightarrow> sint w | _ \<Rightarrow> 0) | None \<Rightarrow> 0)"

text \<open>
  \<open>main\<close> up to \<open>io_service.run()\<close>: the global constructors, the command line, and the port the
  acceptor listens on: \<open>tcp::endpoint\<close> takes an \<open>unsigned short\<close>.
\<close>

definition main_port :: "nat \<Rightarrow> flag_env \<Rightarrow> string list \<Rightarrow> int result option" where
  "main_port fuel env argv =
     obind (Some register_all) (\<lambda>R.
     obind (ParseCommandLineFlags fuel env argv True (new_gflags R)) (\<lambda>(_, _, G).
     Some (Inr (uint (word_of_int (FLAGS_port G) :: 16 word)))))"

definition main_start ::
  "nat \<Rightarrow> flag_env \<Rightarrow> stdio \<Rightarrow> string list \<Rightarrow> server_event list \<Rightarrow> (int \<times> main_outcome) result option" where
  "main_start fuel env io argv evs = obind (main_port fuel env argv) (\<lambda>port.
     Some (Inr (port, main_exit io evs (Server SequentialLobby))))"

end
