(* ===== verification/FlagProperties.thy ===== *)
theory FlagProperties
  imports FlagApi
begin

text \<open>
  Correctness of the command line flags: the loop over \<open>argv\<close> against a recursive reading of the
  argument list, flags written and read back, errors that leave the flags alone, and the port that
  \<open>main\<close> takes from the command line.
\<close>

section \<open>The arguments\<close>

text \<open>
  The argument list read once from left to right: \<open>ns\<close> are the arguments so far that are no options.
  The result is what stays in \<open>argv\<close> behind the program's name.
\<close>

fun scan_args :: "single \<Rightarrow> string list \<Rightarrow> string list \<Rightarrow> parser \<Rightarrow> (string list \<times> parser) result option" where
  "scan_args single [] ns P = Some (Inr (ns, P))"
| "scan_args single (arg # as) ns P =
     (if \<not> is_option arg then scan_args single as (ns @ [arg]) P
      else if strip_dashes arg = [] then Some (Inr (as @ ns, P))
      else (case SplitArgumentLocked (strip_dashes arg) (ps_registry P) of
          (None, key, _, msg) \<Rightarrow> scan_args single as ns (note_error key msg (note_undefined key P))
        | (Some fl, key, Some v, _) \<Rightarrow> obind (single (fl_name fl) v P) (\<lambda>(_, P). scan_args single as ns P)
        | (Some fl, key, None, _) \<Rightarrow> (case as of
            [] \<Rightarrow> Some (Inr (ns, note_error key (missing_argument arg fl) P))
          | v # as \<Rightarrow> obind (single (fl_name fl) v P) (\<lambda>(_, P). scan_args single as ns P))))"

lemma obind_assoc: "obind (obind r f) g = obind r (\<lambda>x. obind (f x) g)"
  by (cases "(r, f)" rule: obind.cases) auto

lemma obind_eqI: "(\<And>x. r = Some (Inr x) \<Longrightarrow> f x = g x) \<Longrightarrow> obind r f = obind r g"
  by (cases "(r, f)" rule: obind.cases) auto

text \<open>What is done to \<open>argv\<close> at the end, if the options are removed.\<close>

abbreviation remove_options :: "nat \<times> string list \<times> parser \<Rightarrow> (nat \<times> string list \<times> parser) result option" where
  "remove_options \<equiv> \<lambda>(first, argv, P).
     obind (Some (vec_at argv 0)) (\<lambda>prog.
     obind (Some (vec_set argv (int first - 1) prog)) (\<lambda>argv. Some (Inr (1, drop (first - 1) argv, P))))"

lemma remove_options_append:
  assumes "pre \<noteq> []"
  shows "remove_options (length pre, pre @ rest, P) = Some (Inr (1, hd pre # rest, P))"
proof -
  obtain p ps where "pre = p # ps" using assms by (cases pre) auto
  moreover have "int (Suc (length ps)) - 1 = int (length ps)" by simp
  ultimately show ?thesis by (simp add: upd_conv_take_nth_drop del: list_update.simps)
qed

text \<open>The state of the loop: the arguments done, those to come, and the others moved behind them.\<close>

definition loop_at :: "single \<Rightarrow> string list \<Rightarrow> string list \<Rightarrow> string list \<Rightarrow> parser \<Rightarrow> (nat \<times> string list \<times> parser) result option" where
  "loop_at single pre as ns P = parse_loop single (length pre) (length pre + length as) (pre @ as @ ns) P"

lemma loop_at_Cons:
  "loop_at single pre (arg # as) ns P =
     (if \<not> is_option arg then loop_at single pre as (ns @ [arg]) P
      else if strip_dashes arg = [] then Some (Inr (length (pre @ [arg]), (pre @ [arg]) @ as @ ns, P))
      else (case SplitArgumentLocked (strip_dashes arg) (ps_registry P) of
          (None, key, _, msg) \<Rightarrow> loop_at single (pre @ [arg]) as ns (note_error key msg (note_undefined key P))
        | (Some fl, key, Some v, _) \<Rightarrow> obind (single (fl_name fl) v P) (\<lambda>(_, P). loop_at single (pre @ [arg]) as ns P)
        | (Some fl, key, None, _) \<Rightarrow> (case as of
            [] \<Rightarrow> Some (Inr (length (pre @ [arg]), (pre @ [arg]) @ ns, note_error key (missing_argument arg fl) P))
          | v # as \<Rightarrow> obind (single (fl_name fl) v P) (\<lambda>(_, P). loop_at single (pre @ [arg, v]) as ns P))))"
proof -
  obtain fl key v msg where split: "SplitArgumentLocked (strip_dashes arg) (ps_registry P) = (fl, key, v, msg)"
    by (metis prod_cases4)
  have "nat (1 + int (length pre)) = Suc (length pre)" by simp
  then show ?thesis
    unfolding loop_at_def parse_loop.simps[of single "length pre" "length pre + length (arg # as)"]
    by (cases fl; cases v; cases as) (simp_all add: nth_append split)
qed

lemma parse_loop_scan:
  assumes "pre \<noteq> []" "hd pre = p"
    and last: "\<And>pre rest P. pre \<noteq> [] \<Longrightarrow> hd pre = p \<Longrightarrow> f (length pre, pre @ rest, P) = g (rest, P)"
  shows "obind (loop_at single pre as ns P) f = obind (scan_args single as ns P) g"
  using assms(1,2)
proof (induction single as ns P arbitrary: pre rule: scan_args.induct)
  case (1 single ns P)
  then show ?case by (simp add: loop_at_def parse_loop.simps last)
next
  case (2 single arg as ns P)
  have pre: "pre @ xs \<noteq> []" "hd (pre @ xs) = p" for xs using 2(5,6) by simp_all
  note final = last[OF pre]
  consider (other) "\<not> is_option arg" | (stop) "is_option arg" "strip_dashes arg = []"
    | (opt) fl key v msg where "is_option arg" "strip_dashes arg \<noteq> []"
        "SplitArgumentLocked (strip_dashes arg) (ps_registry P) = (fl, key, v, msg)" 
    by (metis prod_cases4)
  then show ?case
  proof cases
    case other
    then show ?thesis unfolding loop_at_Cons using 2(1)[OF _ 2(5,6)] by simp
  next
    case stop
    then show ?thesis unfolding loop_at_Cons using final[of "[arg]"] by simp
  next
    case opt
    note IH = 2(2)[OF _ _ opt(3)[symmetric]] 2(3)[OF _ _ opt(3)[symmetric]] 2(4)[OF _ _ opt(3)[symmetric]]
    show ?thesis
    proof (cases fl)
      case None
      then show ?thesis unfolding loop_at_Cons using opt 2(2)[OF _ _ opt(3)[symmetric] _ refl refl pre]
        by simp
    next
      case (Some f)
      then show ?thesis unfolding loop_at_Cons
        using opt 2(3)[OF _ _ opt(3)[symmetric]] 2(4)[OF _ _ opt(3)[symmetric]] pre final[of "[arg]"]
        by (auto simp: obind_assoc intro!: obind_eqI split: option.splits list.splits)
    qed
  qed
qed

lemma ParseNew_scan:
  "ParseNewCommandLineFlags single (prog # args) True P =
     obind (scan_args single args [] P) (\<lambda>(rest, P). Some (Inr (1, prog # rest, P)))"
proof -
  have "obind (loop_at single [prog] args [] P) remove_options =
      obind (scan_args single args [] P) (\<lambda>(rest, P). Some (Inr (1, prog # rest, P)))"
    by (rule parse_loop_scan) (use remove_options_append in auto)
  then show ?thesis by (simp add: ParseNewCommandLineFlags_def loop_at_def)
qed

text \<open>
  C31. The loop over \<open>argv\<close>, which moves the arguments that are no options to the end while it runs,
  reads the arguments once from left to right: \<open>argv\<close> afterwards holds the program's name, what
  follows a lone \<open>--\<close>, and then the other arguments in their order; no access is out of bounds.
\<close>

theorem arguments_are_read_left_to_right:
  "ParseNewCommandLineFlags single (prog # args) True P =
     obind (scan_args single args [] P) (\<lambda>(rest, P). Some (Inr (1, prog # rest, P)))"
  by (rule ParseNew_scan)

text \<open>Unlike \<open>getopt\<close>, what stands before \<open>--\<close> ends up behind what follows it.\<close>

lemma double_dash_swaps:
  "ParseNewCommandLineFlags single [''prog'', ''a'', ''--'', ''b''] True P = Some (Inr (1, [''prog'', ''b'', ''a''], P))"
  by (simp add: ParseNew_scan is_option_def strip_dashes_def)

section \<open>Well formed registries\<close>

definition registry_wf :: "registry \<Rightarrow> bool" where
  "registry_wf R \<longleftrightarrow> ord_inv (rg_flags R) \<and> (\<forall>(n, fl) \<in> set (rg_flags R). fl_name fl = n)"

lemma find_flag_name: "registry_wf R \<Longrightarrow> find_flag name R = Some fl \<Longrightarrow> fl_name fl = name"
  by (auto simp: registry_wf_def find_flag_def ord_find_map_of dest: map_of_SomeD)

lemma find_put_flag:
  "registry_wf R \<Longrightarrow> find_flag name (put_flag fl R) = (if fl_name fl = name then Some fl else find_flag name R)"
  by (simp add: registry_wf_def find_flag_def put_flag_def ord_find_set)

lemma registry_wf_put [simp]: "registry_wf R \<Longrightarrow> registry_wf (put_flag fl R)"
  using set_ord_set_subset[of "fl_name fl" fl "rg_flags R"]
  by (auto simp: registry_wf_def put_flag_def ord_inv_set)

lemma registry_wf_new [simp]: "registry_wf new_registry"
  by (simp add: registry_wf_def new_registry_def)

lemma set_registry_simps [simp]:
  "ps_gflags (set_registry R P) = (ps_gflags P)\<lparr>gf_registry := R\<rparr>"
  "ps_errors (set_registry R P) = ps_errors P" "ps_undefined (set_registry R P) = ps_undefined P"
  by (simp_all add: set_registry_def)

lemma UpdateModifiedBit_simps [simp]:
  "fl_name (UpdateModifiedBit fl) = fl_name fl" "fl_current (UpdateModifiedBit fl) = fl_current fl"
  "fl_default (UpdateModifiedBit fl) = fl_default fl" "fl_validator (UpdateModifiedBit fl) = fl_validator fl"
  "fl_help (UpdateModifiedBit fl) = fl_help fl" "fl_file (UpdateModifiedBit fl) = fl_file fl"
  "fl_ptr (UpdateModifiedBit fl) = fl_ptr fl"
  by (simp_all add: UpdateModifiedBit_def)

text \<open>What setting a flag does to a parser.\<close>

lemma set_option_ok:
  assumes "registry_wf (ps_registry P)" "find_flag name (ps_registry P) = Some fl"
    "ParseFrom env (type_of_value (fl_current fl)) text = Some v" "flag_validate env fl v"
  shows "\<exists>msg fl'. set_option env SET_FLAGS_VALUE name text P = (True, msg, set_registry (put_flag fl' (ps_registry P)) P) \<and>
    fl' = (UpdateModifiedBit fl)\<lparr>fl_current := v, fl_modified := True\<rparr>"
  using assms by (simp add: set_option_def SetFlagLocked_def TryParseLocked_def flag_validate_def Let_def split: option.splits)

section \<open>Flag files\<close>

text \<open>A file of one line that sets a flag.\<close>

definition one_line :: "string \<Rightarrow> bool" where
  "one_line s \<longleftrightarrow> LF \<notin> set s \<and> CHR 0x00 \<notin> set s"

lemma takeWhile_other:
  assumes "c \<notin> set s"
  shows "takeWhile (\<lambda>x. x \<noteq> c) s = s" "dropWhile (\<lambda>x. x \<noteq> c) s = []"
    "takeWhile (\<lambda>x. x \<noteq> c) (s @ t) = s @ takeWhile (\<lambda>x. x \<noteq> c) t"
    "dropWhile (\<lambda>x. x \<noteq> c) (s @ t) = dropWhile (\<lambda>x. x \<noteq> c) t"
proof -
  have "\<forall>x \<in> set s. x \<noteq> c" using assms by blast
  then show "takeWhile (\<lambda>x. x \<noteq> c) s = s" "dropWhile (\<lambda>x. x \<noteq> c) s = []"
    "takeWhile (\<lambda>x. x \<noteq> c) (s @ t) = s @ takeWhile (\<lambda>x. x \<noteq> c) t"
    "dropWhile (\<lambda>x. x \<noteq> c) (s @ t) = dropWhile (\<lambda>x. x \<noteq> c) t"
    by (simp_all add: takeWhile_append dropWhile_append)
qed

lemma split_eq_append: "CHR ''='' \<notin> set key \<Longrightarrow> split_eq (key @ ''='' @ v) = (key, Some v)"
  by (simp add: split_eq_def Let_def takeWhile_other)

lemma SplitArgument_found:
  assumes "CHR ''='' \<notin> set key" "find_flag key R = Some fl"
  shows "SplitArgumentLocked (key @ ''='' @ v) R = (Some fl, key, Some v, [])"
  using assms split_eq_append[OF assms(1), of v] by (simp add: SplitArgumentLocked_def)

definition flag_line_text :: "string \<Rightarrow> string \<Rightarrow> string" where
  "flag_line_text name v = ''--'' @ name @ ''='' @ v"

lemma file_line_sets:
  assumes "CHR ''='' \<notin> set name" "find_flag name (ps_registry P) = Some fl" "flags_are_relevant sec"
  shows "file_line single env (flag_line_text name v) sec P =
    obind (single (fl_name fl) v P) (\<lambda>(m, P). Some (Inr (m, sec\<lparr>in_filename_section := False\<rparr>, P)))"
  using assms SplitArgument_found[OF assms(1,2), of v]
  by (simp add: file_line_def flag_line_text_def flag_line_def Let_def)

lemma ParseFlagList_single:
  assumes "CHR '','' \<notin> set f" "f \<noteq> []" "hd f \<noteq> CHR ''-''"
  shows "ParseFlagList f = Inr [f]"
  using assms by (simp add: ParseFlagList.simps takeWhile_other Let_def)

text \<open>The file \<open>f\<close> sets \<open>flagfile\<close> to \<open>f\<close>: setting it reads the file again, whatever the fuel.\<close>

definition flagfile_settable :: "gflags \<Rightarrow> bool" where
  "flagfile_settable G \<longleftrightarrow> registry_wf (gf_registry G) \<and>
     (\<exists>fl s. find_flag ''flagfile'' (gf_registry G) = Some fl \<and> fl_current fl = StringF s \<and> fl_validator fl = None)"

lemma self_including_file_diverges:
  assumes "read_file env f = Some (flag_line_text ''flagfile'' f)"
    and f: "f \<noteq> []" "hd f \<noteq> CHR ''-''" "CHR '','' \<notin> set f" "one_line f"
    and "flagfile_settable (ps_gflags P)"
  shows "ProcessSingleOptionLocked fuel env SET_FLAGS_VALUE ''flagfile'' f P = None"
  using assms(6)
proof (induction fuel arbitrary: P)
  case (Suc fuel)
  obtain fl s where fl: "registry_wf (ps_registry P)" "find_flag ''flagfile'' (ps_registry P) = Some fl"
    "fl_current fl = StringF s" "fl_validator fl = None"
    using Suc.prems by (auto simp: flagfile_settable_def)
  have "ParseFrom env (type_of_value (fl_current fl)) f = Some (StringF f)" "flag_validate env fl (StringF f)"
    using fl by (simp_all add: ParseFrom_def flag_validate_def)
  from set_option_ok[OF fl(1,2) this] obtain msg fl' where
    set: "set_option env SET_FLAGS_VALUE ''flagfile'' f P = (True, msg, set_registry (put_flag fl' (ps_registry P)) P)"
    and fl': "fl' = (UpdateModifiedBit fl)\<lparr>fl_current := StringF f, fl_modified := True\<rparr>" by blast
  define P' where "P' = set_registry (put_flag fl' (ps_registry P)) P"
  have found: "find_flag ''flagfile'' (ps_registry P') = Some fl'"
    using fl(1) find_flag_name[OF fl(1,2)] by (simp add: P'_def find_put_flag fl')
  have "flagfile_settable (ps_gflags P')"
    using found fl(1,4) by (simp add: flagfile_settable_def P'_def fl')
  note IH = Suc.IH[OF this]
  have "fl_name fl' = ''flagfile''" using find_flag_name[OF fl(1,2)] by (simp add: fl')
  moreover have "dropWhile is_space (flag_line_text ''flagfile'' f) = flag_line_text ''flagfile'' f"
    by (simp add: flag_line_text_def is_space_def)
  moreover have "LF \<notin> set (flag_line_text ''flagfile'' f)" "CHR 0x00 \<notin> set (flag_line_text ''flagfile'' f)"
    using f(4) by (auto simp: flag_line_text_def one_line_def)
  ultimately have "ProcessOptionsFromStringLocked (ProcessSingleOptionLocked fuel env SET_FLAGS_VALUE) env
      (flag_line_text ''flagfile'' f) P' = None"
    using IH file_line_sets[OF _ found]
    by (simp add: ProcessOptionsFromStringLocked_def options_loop.simps Let_def takeWhile_other)
  moreover have "FLAGS_string ''flagfile'' (ps_registry P') = f" by (simp add: FLAGS_string_def found fl')
  ultimately show ?case
    using assms(1) f by (simp add: set ProcessFlagfileLocked_def ParseFlagList_single ReadFileIntoString_def flip: P'_def)
qed simp

section \<open>The current values of the flags\<close>

definition current_of :: "string \<Rightarrow> registry \<Rightarrow> flag_value option" where
  "current_of name R = map_option fl_current (find_flag name R)"

lemma FLAGS_current:
  "FLAGS_string name R = (case current_of name R of Some (StringF s) \<Rightarrow> s | _ \<Rightarrow> [])"
  "FLAGS_bool name R = (case current_of name R of Some (BoolF b) \<Rightarrow> b | _ \<Rightarrow> False)"
  "FLAGS_port G = (case current_of ''port'' (gf_registry G) of Some (Int32F w) \<Rightarrow> sint w | _ \<Rightarrow> 0)"
  by (auto simp: FLAGS_string_def FLAGS_bool_def FLAGS_port_def current_of_def split: option.splits flag_value.splits)

lemma current_of_put:
  "registry_wf R \<Longrightarrow> current_of name (put_flag fl R) = (if fl_name fl = name then Some (fl_current fl) else current_of name R)"
  by (simp add: current_of_def find_put_flag)

lemma current_of_list:
  "current_of name R = ord_find name (map (\<lambda>(n, fl). (n, fl_current fl)) (rg_flags R))"
proof -
  have "map_option fl_current (ord_find name m) = ord_find name (map (\<lambda>(n, fl). (n, fl_current fl)) m)" for m
    by (induction m) auto
  then show ?thesis by (simp add: current_of_def find_flag_def)
qed

text \<open>Flags without validators.\<close>

definition no_validators :: "registry \<Rightarrow> bool" where
  "no_validators R \<longleftrightarrow> (\<forall>(n, fl) \<in> set (rg_flags R). fl_validator fl = None)"

lemma find_no_validator: "registry_wf R \<Longrightarrow> no_validators R \<Longrightarrow> find_flag name R = Some fl \<Longrightarrow> fl_validator fl = None"
  by (auto simp: no_validators_def registry_wf_def find_flag_def ord_find_map_of dest: map_of_SomeD)

lemma no_validators_put: "no_validators R \<Longrightarrow> fl_validator fl = None \<Longrightarrow> no_validators (put_flag fl R)"
  using set_ord_set_subset[of "fl_name fl" fl "rg_flags R"] by (auto simp: no_validators_def put_flag_def)

lemma ValidateAllFlags_none:
  assumes "no_validators (ps_registry P)"
  shows "ValidateAllFlags env P = P"
proof -
  have "fold (validate_step env) fls P = P" if "\<forall>fl \<in> set fls. fl_validator fl = None" for fls
    using that by (induction fls) (simp_all add: validate_step_def flag_validate_def)
  moreover have "\<forall>fl \<in> set (map snd (rg_flags (ps_registry P))). fl_validator fl = None"
    using assms by (auto simp: no_validators_def)
  ultimately show ?thesis unfolding ValidateAllFlags_def by blast
qed

text \<open>One option, not one of those that set others.\<close>

definition recursive_flags :: "string list" where
  "recursive_flags = [''flagfile'', ''fromenv'', ''tryfromenv'']"

lemma single_plain:
  assumes "name \<notin> set recursive_flags"
  shows "ProcessSingleOptionLocked (Suc fuel) env mode name v P =
    (let (ok, msg, P) = set_option env mode name v P in Some (Inr (msg, P)))"
  using assms by (cases "the (find_flag name (ps_registry P))")
    (auto simp: recursive_flags_def Let_def set_option_def split: option.splits prod.splits)

section \<open>The port of the server\<close>

definition program_flags :: registry where
  "program_flags = projr register_all"

lemma register_all_ok: "register_all = Inr program_flags"
proof -
  have "\<not> isl register_all" by code_simp
  then show ?thesis by (simp add: program_flags_def)
qed

lemma program_flags_wf: "registry_wf program_flags" "no_validators program_flags"
proof -
  have "ord_inv (rg_flags program_flags)" by code_simp
  moreover have "list_all (\<lambda>(n, fl). fl_name fl = n \<and> fl_validator fl = None) (rg_flags program_flags)" by code_simp
  ultimately show "registry_wf program_flags" "no_validators program_flags"
    by (auto simp: registry_wf_def no_validators_def list_all_iff)
qed

lemma program_flags_current:
  "map (\<lambda>(n, fl). (n, fl_current fl)) (rg_flags program_flags) =
    [(''flagfile'', StringF []), (''fromenv'', StringF []), (''help'', BoolF False), (''helpfull'', BoolF False),
     (''helpmatch'', StringF []), (''helpon'', StringF []), (''helppackage'', BoolF False), (''helpshort'', BoolF False),
     (''helpxml'', BoolF False), (''port'', Int32F 8091), (''tab_completion_columns'', Int32F 80),
     (''tab_completion_word'', StringF []), (''tryfromenv'', StringF []), (''undefok'', StringF []),
     (''version'', BoolF False)]"
  by code_simp


lemma parse_program:
  assumes "SetArgv (prog # args) (new_gflags program_flags) = Inr G"
  shows "main_port fuel env (prog # args) =
    obind (scan_args (ProcessSingleOptionLocked fuel env SET_FLAGS_VALUE) args [] (CommandLineFlagParser G)) (\<lambda>(_, P).
    obind (Some (HandleCommandLineHelpFlags (ps_gflags P))) (\<lambda>_.
    obind (Some (ReportErrors (ValidateAllFlags env P))) (\<lambda>(found_error, _, P).
      if found_error then Some (Inl (ExitWith 1))
      else Some (Inr (uint (word_of_int (FLAGS_port (ps_gflags P)) :: 16 word))))))"
proof -
  have G: "gf_registry G = program_flags"
    using assms by (auto simp: SetArgv_def new_gflags_def Let_def)
  have empty: "FLAGS_string ''flagfile'' program_flags = []" "FLAGS_string ''fromenv'' program_flags = []"
    "FLAGS_string ''tryfromenv'' program_flags = []"
    by (simp_all add: FLAGS_current current_of_list program_flags_current)
  show ?thesis
    using assms empty
    by (auto simp: main_port_def register_all_ok ParseCommandLineFlags_def ParseCommandLineFlagsInternal_def Let_def
        ProcessFlagfileLocked_def ProcessFromenvLocked_def CommandLineFlagParser_def G ParseNew_scan obind_assoc
        intro!: obind_eqI split: prod.splits)
qed

lemma ReportErrors_simple:
  assumes "FLAGS_string ''undefok'' (ps_registry P) = []" "\<not> gf_allow_reparsing (ps_gflags P)"
  shows "ReportErrors P = Inr (list_ex (\<lambda>e. snd e \<noteq> []) (ps_errors P), concat (map snd (ps_errors P)), P)"
  using assms by (simp add: ReportErrors_def)

lemma port_argument:
  "main_port (Suc fuel) env [prog, ''--port='' @ text] = (case ParseFrom env FV_INT32 text of
     Some (Int32F w) \<Rightarrow> Some (Inr (uint (word_of_int (sint w) :: 16 word))) | _ \<Rightarrow> Some (Inl (ExitWith 1)))"
proof -
  define arg where "arg = ''--port='' @ text"
  obtain G where G: "SetArgv [prog, arg] (new_gflags program_flags) = Inr G"
      "gf_registry G = program_flags" "\<not> gf_allow_reparsing G"
    by (simp add: SetArgv_def new_gflags_def Let_def)
  define P where "P = CommandLineFlagParser G"
  have P: "ps_gflags P = G" "ps_errors P = []" by (simp_all add: P_def CommandLineFlagParser_def)
  have "current_of ''port'' program_flags = Some (Int32F 8091)"
    by (simp add: current_of_list program_flags_current)
  then obtain fl where fl: "find_flag ''port'' program_flags = Some fl" "fl_current fl = Int32F 8091"
    by (auto simp: current_of_def)
  have fl': "fl_name fl = ''port''" "fl_validator fl = None"
    using find_flag_name[OF _ fl(1)] find_no_validator[OF _ _ fl(1)] program_flags_wf by simp_all
  obtain ok fl1 msg where set: "SetFlagLocked env SET_FLAGS_VALUE text fl = (ok, fl1, msg)" by (metis prod_cases3)
  have "is_option arg" "strip_dashes arg = ''port'' @ ''='' @ text"
    by (simp_all add: arg_def is_option_def strip_dashes_def)
  moreover have "SplitArgumentLocked (''port'' @ ''='' @ text) (ps_registry P) = (Some fl, ''port'', Some text, [])"
    by (rule SplitArgument_found) (simp_all add: P G fl)
  ultimately have scan: "scan_args (ProcessSingleOptionLocked (Suc fuel) env SET_FLAGS_VALUE) [arg] [] P =
      Some (Inr ([], if ok then set_registry (put_flag fl1 program_flags) P
        else note_error ''port'' msg (set_registry (put_flag fl1 program_flags) P)))"
    by (simp add: single_plain recursive_flags_def fl' set_option_def P G fl set Let_def)
  have fl1: "fl_name fl1 = ''port''" "fl_validator fl1 = None"
    and new: "case ParseFrom env FV_INT32 text of Some v \<Rightarrow> ok \<and> fl_current fl1 = v | None \<Rightarrow> \<not> ok \<and> msg \<noteq> []"
    using set fl fl'
    by (auto simp: SetFlagLocked_def TryParseLocked_def flag_validate_def Let_def kError_def split: option.splits if_splits)
  define R where "R = put_flag fl1 program_flags"
  have R: "current_of name R = (if name = ''port'' then Some (fl_current fl1) else current_of name program_flags)" for name
    using program_flags_wf fl1 by (simp add: R_def current_of_put)
  note vals = FLAGS_current R current_of_list[of _ program_flags] program_flags_current
  have "HandleCommandLineHelpFlags (G\<lparr>gf_registry := R\<rparr>) = Inr ()"
    by (simp add: HandleCommandLineHelpFlags_def Let_def vals)
  moreover have "FLAGS_string ''undefok'' R = []" by (simp add: vals)
  moreover have "ValidateAllFlags env Q = Q" if "gf_registry (ps_gflags Q) = R" for Q
    using that program_flags_wf fl1 by (intro ValidateAllFlags_none) (simp add: R_def no_validators_put)
  moreover have "FLAGS_port (G\<lparr>gf_registry := R\<rparr>) = (case fl_current fl1 of Int32F w \<Rightarrow> sint w | _ \<Rightarrow> 0)"
    by (simp add: vals)
  ultimately have "main_port (Suc fuel) env [prog, arg] = (case ParseFrom env FV_INT32 text of
      Some (Int32F w) \<Rightarrow> Some (Inr (uint (word_of_int (sint w) :: 16 word))) | _ \<Rightarrow> Some (Inl (ExitWith 1)))"
    using parse_program[OF G(1), of "Suc fuel" env] scan new ParseFrom_type[of env FV_INT32 "text"] G(2,3) P
    by (cases "ParseFrom env FV_INT32 text"; cases "fl_current fl1")
      (auto simp flip: R_def P_def simp: ReportErrors_simple note_error_def)
  then show ?thesis by (simp only: arg_def)
qed

lemma fits_int32: "sint (word_of_int r :: 32 word) = r \<longleftrightarrow> - (2^31) \<le> r \<and> r < 2^31"
  by (simp add: sint_sbintrunc' signed_take_bit_int_eq_self_iff)

lemma ParseFrom_int_text:
  "ParseFrom env FV_INT32 (int_to_string n) =
    (if - (2^31) \<le> n \<and> n < 2^31 then Some (Int32F (word_of_int n)) else None)"
  using fits_int32[of n] fits_int32[of "-(2^63)"] fits_int32[of "2^63-1"]
  by (auto simp: ParseFrom_def Let_def int_base_int strto64_def scan_int)

lemma default_port: "main_port fuel env [prog] = Some (Inr 8091)"
proof -
  obtain G where G: "SetArgv [prog] (new_gflags program_flags) = Inr G"
      "gf_registry G = program_flags" "\<not> gf_allow_reparsing G"
    by (simp add: SetArgv_def new_gflags_def Let_def)
  note vals = FLAGS_current current_of_list[of _ program_flags] program_flags_current
  have "HandleCommandLineHelpFlags G = Inr ()" "FLAGS_string ''undefok'' program_flags = []" "FLAGS_port G = 8091"
    by (simp_all add: HandleCommandLineHelpFlags_def Let_def vals G)
  then show ?thesis
    using parse_program[OF G(1)] program_flags_wf G(2,3)
    by (simp add: CommandLineFlagParser_def ValidateAllFlags_none ReportErrors_simple)
qed

text \<open>
  C32. \<open>main\<close> reads the port of the server from \<open>--port=n\<close>.  A number that fits in 32 bits is accepted
  and the server listens on its value modulo 65536; any other number ends the program.  Without
  arguments the server listens on port 8091.
\<close>

theorem server_listens_on_the_port_given:
  "main_port (Suc fuel) env [prog, ''--port='' @ int_to_string n] =
    Some (if - (2^31) \<le> n \<and> n < 2^31 then Inr (n mod 65536) else Inl (ExitWith 1)) \<and>
   main_port fuel env [prog] = Some (Inr 8091)"
proof (intro conjI default_port)
  have mod: "uint (word_of_int n :: 16 word) = n mod 65536" by (simp add: uint_word_of_int)
  show "main_port (Suc fuel) env [prog, ''--port='' @ int_to_string n] =
    Some (if - (2^31) \<le> n \<and> n < 2^31 then Inr (n mod 65536) else Inl (ExitWith 1))"
  proof (cases "- (2^31) \<le> n \<and> n < 2^31")
    case True
    then have "sint (word_of_int n :: 32 word) = n" by (simp only: fits_int32)
    then show ?thesis using True by (simp only: port_argument ParseFrom_int_text if_True option.case flag_value.case mod simp_thms)
  next
    case False
    then show ?thesis by (simp only: port_argument ParseFrom_int_text if_False option.case simp_thms)
  qed
qed

text \<open>
  C33. A flag file that names itself: \<open>main\<close> does not come to an end, however deep its calls may nest.
  The guard against recursion looks at the environment only.
\<close>

theorem flagfile_including_itself_never_ends:
  assumes "read_file env f = Some (flag_line_text ''flagfile'' f)"
    and "f \<noteq> []" "hd f \<noteq> CHR ''-''" "CHR '','' \<notin> set f" "one_line f"
  shows "main_port fuel env [prog, flag_line_text ''flagfile'' f] = None"
proof -
  let ?arg = "flag_line_text ''flagfile'' f"
  obtain G where G: "SetArgv [prog, ?arg] (new_gflags program_flags) = Inr G" "gf_registry G = program_flags"
    by (simp add: SetArgv_def new_gflags_def Let_def)
  have "current_of ''flagfile'' program_flags = Some (StringF [])"
    by (simp add: current_of_list program_flags_current)
  then obtain fl where fl: "find_flag ''flagfile'' program_flags = Some fl" "fl_current fl = StringF []"
    by (auto simp: current_of_def)
  have fl': "fl_name fl = ''flagfile''" "fl_validator fl = None"
    using find_flag_name[OF _ fl(1)] find_no_validator[OF _ _ fl(1)] program_flags_wf by simp_all
  define P where "P = CommandLineFlagParser G"
  have P: "ps_gflags P = G" by (simp add: P_def CommandLineFlagParser_def)
  have "ProcessSingleOptionLocked fuel env SET_FLAGS_VALUE ''flagfile'' f P = None"
    by (rule self_including_file_diverges) (use assms fl fl' program_flags_wf in \<open>simp_all add: flagfile_settable_def P G\<close>)
  moreover have "is_option ?arg" "strip_dashes ?arg = ''flagfile'' @ ''='' @ f"
    by (simp_all add: flag_line_text_def is_option_def strip_dashes_def)
  moreover have "SplitArgumentLocked (''flagfile'' @ ''='' @ f) (ps_registry P) = (Some fl, ''flagfile'', Some f, [])"
    by (rule SplitArgument_found) (simp_all add: P G fl)
  ultimately have "scan_args (ProcessSingleOptionLocked fuel env SET_FLAGS_VALUE) [?arg] [] P = None"
    by (simp add: fl')
  then show ?thesis using parse_program[OF G(1), of fuel env] by (simp add: P_def)
qed

theorem flagfile_including_itself_never_ends_witness:
  "\<forall>fuel. main_port fuel \<lparr>strtod = \<lambda>s. (0, s, False), print_g17 = \<lambda>_. [], read_file = \<lambda>_. Some ''--flagfile=a'',
     getenv = \<lambda>_. None, fnmatch = \<lambda>_ _. False, validators = \<lambda>_ _ _. True\<rparr> [''server'', ''--flagfile=a''] = None"
proof -
  have "''--flagfile=a'' = flag_line_text ''flagfile'' ''a''" by (simp add: flag_line_text_def)
  then show ?thesis by (simp only:) (intro allI flagfile_including_itself_never_ends; simp add: one_line_def)
qed

end
