(* ===== verification/FlagStore.thy ===== *)
theory FlagStore
  imports FlagProperties
begin

text \<open>
  Flags as text: what \<open>CommandlineFlagsIntoString\<close> writes \<open>ReadFlagsFromString\<close> reads back, and a text
  with an error leaves the flags as they were.
\<close>

section \<open>What no operation changes\<close>

definition same_flag :: "cflag \<Rightarrow> cflag \<Rightarrow> bool" where
  "same_flag a b \<longleftrightarrow> fl_name b = fl_name a \<and> fl_help b = fl_help a \<and> fl_file b = fl_file a \<and> fl_ptr b = fl_ptr a \<and>
     fl_validator b = fl_validator a \<and> type_of_value (fl_current b) = type_of_value (fl_current a) \<and>
     type_of_value (fl_default b) = type_of_value (fl_default a)"

definition same_registry :: "registry \<Rightarrow> registry \<Rightarrow> bool" where
  "same_registry R R' \<longleftrightarrow> registry_wf R' \<and> rg_by_ptr R' = rg_by_ptr R \<and>
     (\<forall>name. rel_option same_flag (find_flag name R) (find_flag name R'))"

definition same_flags :: "gflags \<Rightarrow> gflags \<Rightarrow> bool" where
  "same_flags G G' \<longleftrightarrow> (\<exists>R. G' = G\<lparr>gf_registry := R\<rparr> \<and> same_registry (gf_registry G) R)"

lemma same_flag_refl [simp]: "same_flag a a"
  by (simp add: same_flag_def)

lemma same_flag_trans: "same_flag a b \<Longrightarrow> same_flag b c \<Longrightarrow> same_flag a c"
  by (simp add: same_flag_def)

lemma same_registry_refl: "registry_wf R \<Longrightarrow> same_registry R R"
  by (simp add: same_registry_def option.rel_refl)

lemma same_flags_refl: "registry_wf (gf_registry G) \<Longrightarrow> same_flags G G"
  using same_registry_refl[of "gf_registry G"] by (auto simp: same_flags_def intro: exI[of _ "gf_registry G"])

lemma same_registry_find:
  assumes "same_registry R R'"
  shows "rel_option same_flag (find_flag name R) (find_flag name R')"
  using assms by (simp add: same_registry_def)

lemma same_registry_put:
  assumes "same_registry R R'" "find_flag name R' = Some old" "same_flag old new"
  shows "same_registry R (put_flag new R')"
proof -
  have wf: "registry_wf R'" using assms(1) by (simp add: same_registry_def)
  have name: "fl_name new = name" using find_flag_name[OF wf assms(2)] assms(3) by (simp add: same_flag_def)
  have "rel_option same_flag (find_flag n R) (find_flag n (put_flag new R'))" for n
    using same_registry_find[OF assms(1), of n] assms(2,3) same_flag_trans[OF _ assms(3)]
    by (auto simp: find_put_flag[OF wf] name elim: option.rel_cases)
  then show ?thesis using assms(1) wf registry_wf_put[OF wf, of new] by (auto simp: same_registry_def put_flag_def)
qed

lemma same_flag_set:
  assumes "SetFlagLocked env mode v fl = (ok, fl', msg)"
  shows "same_flag fl fl'"
  using assms
  by (auto simp: SetFlagLocked_def same_flag_def TryParseLocked_def Let_def dest!: ParseFrom_type
      split: set_mode.splits option.splits if_splits)

text \<open>Every step of the parser keeps them.\<close>

definition keeps_flags :: "gflags \<Rightarrow> (parser \<Rightarrow> (string \<times> parser) result option) \<Rightarrow> bool" where
  "keeps_flags G f \<longleftrightarrow> (\<forall>P m P'. same_flags G (ps_gflags P) \<longrightarrow> f P = Some (Inr (m, P')) \<longrightarrow> same_flags G (ps_gflags P'))"

lemma keeps_flagsD: "keeps_flags G f \<Longrightarrow> f P = Some (Inr (m, P')) \<Longrightarrow> same_flags G (ps_gflags P) \<Longrightarrow> same_flags G (ps_gflags P')"
  by (auto simp: keeps_flags_def)

lemma obind_Inr: "obind r f = Some (Inr y) \<longleftrightarrow> (\<exists>x. r = Some (Inr x) \<and> f x = Some (Inr y))"
  by (cases "(r, f)" rule: obind.cases) auto

lemma note_simps [simp]: "ps_gflags (note_error name msg P) = ps_gflags P" "ps_gflags (note_undefined name P) = ps_gflags P"
  by (simp_all add: note_error_def note_undefined_def)

lemma keeps_append_loop: "(\<And>i. keeps_flags G (f i)) \<Longrightarrow> keeps_flags G (append_loop f is)"
proof (induction "is")
  case (Cons i "is")
  then have IH: "keeps_flags G (append_loop f is)" by blast
  show ?case
    by (auto simp: keeps_flags_def obind_Inr dest: keeps_flagsD[OF IH] keeps_flagsD[OF Cons.prems])
qed (simp add: keeps_flags_def)

lemma keeps_set_option:
  assumes "set_option env mode name v P = (ok, msg, P')" "same_flags G (ps_gflags P)"
  shows "same_flags G (ps_gflags P')"
proof (cases "find_flag name (ps_registry P)")
  case (Some fl)
  obtain ok1 fl1 msg1 where s: "SetFlagLocked env mode v fl = (ok1, fl1, msg1)" by (metis prod_cases3)
  then have "ps_gflags P' = (ps_gflags P)\<lparr>gf_registry := put_flag fl1 (ps_registry P)\<rparr>"
    using assms(1) Some by (auto simp: set_option_def Let_def split: if_splits)
  moreover obtain R where "ps_gflags P = G\<lparr>gf_registry := R\<rparr>" "same_registry (gf_registry G) R"
    using assms(2) by (auto simp: same_flags_def)
  ultimately show ?thesis
    using Some same_registry_put[of "gf_registry G" R name fl fl1] same_flag_set[OF s] by (auto simp: same_flags_def)
qed (use assms in \<open>simp add: set_option_def\<close>)

lemma keeps_flag_line:
  "(\<And>name v. keeps_flags G (single name v)) \<Longrightarrow> keeps_flags G (flag_line single line)"
  by (auto simp: keeps_flags_def flag_line_def Let_def split: prod.splits option.splits)

lemma keeps_file_line:
  assumes "\<And>name v. keeps_flags G (single name v)" "same_flags G (ps_gflags P)"
    "file_line single env line sec P = Some (Inr (m, sec', P'))"
  shows "same_flags G (ps_gflags P')"
  using assms(2,3)
  by (auto simp: file_line_def Let_def obind_Inr split: if_splits dest: keeps_flagsD[OF keeps_flag_line[OF assms(1)]])

lemma options_loop_keeps:
  assumes "\<And>name v. keeps_flags G (single name v)"
  shows "options_loop single env contents sec P = Some (Inr (m, P')) \<Longrightarrow> same_flags G (ps_gflags P) \<Longrightarrow>
    same_flags G (ps_gflags P')"
  using assms
proof (induction single env contents sec P arbitrary: m P' rule: options_loop.induct)
  case (1 single env contents sec P)
  let ?s = "dropWhile is_space contents"
  from 1(2) obtain m1 sec1 P1 where f: "file_line single env (takeWhile (\<lambda>c. c \<noteq> LF) ?s) sec P = Some (Inr (m1, sec1, P1))"
    and r: "(if dropWhile (\<lambda>c. c \<noteq> LF) ?s = [] then Some (Inr (m1, P1))
      else obind (options_loop single env (tl (dropWhile (\<lambda>c. c \<noteq> LF) ?s)) sec1 P1) (\<lambda>(ms, P). Some (Inr (m1 @ ms, P))))
      = Some (Inr (m, P'))"
    unfolding options_loop.simps[of single env contents] Let_def obind_Inr by auto
  have P1: "same_flags G (ps_gflags P1)" by (rule keeps_file_line[OF 1(4,3) f])
  show ?case
  proof (cases "dropWhile (\<lambda>c. c \<noteq> LF) ?s = []")
    case True
    then show ?thesis using r P1 by simp
  next
    case False
    from r obtain ms where "options_loop single env (tl (dropWhile (\<lambda>c. c \<noteq> LF) ?s)) sec1 P1 = Some (Inr (ms, P'))"
      unfolding if_not_P[OF False] obind_Inr by auto
    then show ?thesis by (rule 1(1)[OF refl refl refl False _ P1 1(4)])
  qed
qed

lemma keeps_recursive:
  assumes "\<And>name v. keeps_flags G (single name v)"
  shows "keeps_flags G (ProcessOptionsFromStringLocked single env contents)"
    "keeps_flags G (ProcessFlagfileLocked single env f)"
    "keeps_flags G (ProcessFromenvLocked single env names fatal)"
proof -
  show c: "keeps_flags G (ProcessOptionsFromStringLocked single env contents)" for contents
    unfolding ProcessOptionsFromStringLocked_def keeps_flags_def using options_loop_keeps[of G single, OF assms] by blast
  have one: "keeps_flags G (\<lambda>P. obind (Some (ReadFileIntoString env name)) (\<lambda>s.
      ProcessOptionsFromStringLocked single env s P))" for name
    by (auto simp: keeps_flags_def obind_Inr dest: keeps_flagsD[OF c])
  show "keeps_flags G (ProcessFlagfileLocked single env f)"
    by (auto simp: keeps_flags_def ProcessFlagfileLocked_def obind_Inr split: if_splits
        dest: keeps_flagsD[OF keeps_append_loop[OF one]])
  have step: "keeps_flags G (fromenv_step single env fatal name)" for name
    by (auto simp: keeps_flags_def fromenv_step_def split: if_splits option.splits dest: keeps_flagsD[OF assms])
  show "keeps_flags G (ProcessFromenvLocked single env names fatal)"
    by (auto simp: keeps_flags_def ProcessFromenvLocked_def obind_Inr split: if_splits
        dest: keeps_flagsD[OF keeps_append_loop[OF step]])
qed

lemma keeps_single: "keeps_flags G (ProcessSingleOptionLocked fuel env mode name v)"
proof (induction fuel arbitrary: name v)
  case (Suc fuel)
  note rec = keeps_recursive[OF Suc.IH]
  show ?case
    by (auto simp: keeps_flags_def obind_Inr Let_def split: prod.splits if_splits
        dest!: keeps_flagsD[OF rec(2)] keeps_flagsD[OF rec(3)] intro: keeps_set_option)
qed (simp add: keeps_flags_def)

section \<open>Saving and restoring\<close>

text \<open>Equal values, or values the code takes for equal: zeros of either sign.\<close>

definition value_same :: "flag_value \<Rightarrow> flag_value \<Rightarrow> bool" where
  "value_same a b \<longleftrightarrow> a = b \<or> value_equal a b"

lemma value_equal_iff: "value_equal a b \<longleftrightarrow>
    (\<exists>x y. a = DoubleF x \<and> b = DoubleF y \<and> dbl_eq x y) \<or> (a = b \<and> type_of_value a \<noteq> FV_DOUBLE)"
  by (cases "(a, b)" rule: value_equal.cases) auto

lemma value_same_refl [simp]: "value_same a a"
  by (simp add: value_same_def)

lemma value_same_sym: "value_same a b \<Longrightarrow> value_same b a"
  by (auto simp: value_same_def value_equal_iff dbl_eq_def)

lemma value_same_trans: "value_same a b \<Longrightarrow> value_same b c \<Longrightarrow> value_same a c"
  by (auto simp: value_same_def value_equal_iff dbl_eq_def)

lemma value_same_type: "value_same a b \<Longrightarrow> type_of_value b = type_of_value a"
  by (auto simp: value_same_def value_equal_iff)

definition restored :: "cflag \<Rightarrow> cflag \<Rightarrow> bool" where
  "restored a b \<longleftrightarrow> fl_modified b = fl_modified a \<and> fl_validator b = fl_validator a \<and> fl_name b = fl_name a \<and>
     value_same (fl_current a) (fl_current b) \<and> value_same (fl_default a) (fl_default b)"

lemma restored_trans: "restored a b \<Longrightarrow> restored b c \<Longrightarrow> restored a c"
  by (auto simp: restored_def intro: value_same_trans)

lemma copy_value_same:
  assumes "type_of_value b = type_of_value a"
  shows "\<exists>v. (if value_equal b a then Inr b else copy_value a b) = Inr v \<and> value_same a v"
  using assms value_same_sym[of b a] by (auto simp: copy_value_def value_same_def)

lemma copy_from:
  assumes "type_of_value (fl_current fl) = type_of_value (fl_current src)"
    "type_of_value (fl_default fl) = type_of_value (fl_default src)" "fl_name fl = fl_name src"
  shows "\<exists>fl'. flag_copy_from src fl = Inr fl' \<and> restored src fl' \<and>
    fl_help fl' = fl_help fl \<and> fl_file fl' = fl_file fl \<and> fl_ptr fl' = fl_ptr fl"
  using copy_value_same[OF assms(1)] copy_value_same[OF assms(2)] assms(3)
  by (auto simp: flag_copy_from_def restored_def)

lemma backup_ok: "\<exists>b. backup_flag fl = Inr b \<and> restored fl b"
proof -
  let ?b = "CommandLineFlag (fl_name fl) (fl_help fl) (fl_file fl) 0
    (new_value (type_of_value (fl_current fl))) (new_value (type_of_value (fl_default fl)))"
  have "\<exists>b. flag_copy_from fl ?b = Inr b \<and> restored fl b"
    using copy_from[of ?b fl] by (auto simp: CommandLineFlag_def)
  then show ?thesis by (simp add: backup_flag_def)
qed

lemma restored_same:
  assumes "restored src fl'" "same_flag src fl"
    "fl_help fl' = fl_help fl" "fl_file fl' = fl_file fl" "fl_ptr fl' = fl_ptr fl"
  shows "same_flag fl fl'"
  using assms by (auto simp: restored_def same_flag_def dest: value_same_type)

lemma save_ok:
  "\<exists>saved. foldM (\<lambda>main saved. bnd (backup_flag main) (\<lambda>b. Inr (saved @ [b]))) fls acc = Inr (acc @ saved) \<and>
     list_all2 restored fls saved"
proof (induction fls arbitrary: acc)
  case (Cons fl fls)
  obtain b where b: "backup_flag fl = Inr b" "restored fl b" using backup_ok by blast
  obtain saved where "foldM (\<lambda>main saved. bnd (backup_flag main) (\<lambda>b. Inr (saved @ [b]))) fls (acc @ [b]) =
      Inr (acc @ b # saved)" "list_all2 restored fls saved"
    using Cons[of "acc @ [b]"] by auto
  then show ?case using b by (intro exI[of _ "b # saved"]) simp
qed simp

text \<open>Restoring a list of saved flags.\<close>

lemma restored_flags:
  assumes "list_all2 restored fls saved" "\<forall>fl \<in> set fls. find_flag (fl_name fl) R0 = Some fl" "same_registry R0 R"
  shows "\<exists>R'. RestoreToRegistry saved R = Inr R' \<and> same_registry R0 R' \<and>
    (\<forall>fl \<in> set fls. \<exists>fl'. find_flag (fl_name fl) R' = Some fl' \<and> restored fl fl') \<and>
    (\<forall>name. name \<notin> fl_name ` set fls \<longrightarrow> find_flag name R' = find_flag name R)"
  using assms
proof (induction fls saved arbitrary: R rule: list_all2_induct)
  case Nil
  then show ?case by (simp add: RestoreToRegistry_def)
next
  case (Cons fl fls b saved)
  have wf: "registry_wf R" using Cons.prems(2) by (simp add: same_registry_def)
  obtain main where main: "find_flag (fl_name fl) R = Some main" "same_flag fl main"
    using same_registry_find[OF Cons.prems(2), of "fl_name fl"] Cons.prems(1) by (auto elim: option.rel_cases)
  have "type_of_value (fl_current main) = type_of_value (fl_current b)"
    "type_of_value (fl_default main) = type_of_value (fl_default b)" "fl_name main = fl_name b"
    using Cons.hyps(1) main(2) by (auto simp: restored_def same_flag_def dest: value_same_type)
  from copy_from[OF this] obtain fl' where fl': "flag_copy_from b main = Inr fl'" "restored b fl'"
    "fl_help fl' = fl_help main" "fl_file fl' = fl_file main" "fl_ptr fl' = fl_ptr main" by blast
  have r: "restored fl fl'" by (rule restored_trans[OF Cons.hyps(1) fl'(2)])
  have "same_registry R0 (put_flag fl' R)"
    using same_registry_put[OF Cons.prems(2) main(1)] restored_same[OF r main(2) fl'(3-5)] by blast
  from Cons.IH[OF _ this] Cons.prems(1) obtain R' where R': "RestoreToRegistry saved (put_flag fl' R) = Inr R'"
    "same_registry R0 R'" "\<forall>fl \<in> set fls. \<exists>fl'. find_flag (fl_name fl) R' = Some fl' \<and> restored fl fl'"
    "\<forall>name. name \<notin> fl_name ` set fls \<longrightarrow> find_flag name R' = find_flag name (put_flag fl' R)" by auto
  have names: "fl_name b = fl_name fl" "fl_name fl' = fl_name fl"
    using Cons.hyps(1) r by (simp_all add: restored_def)
  have "RestoreToRegistry (b # saved) R = Inr R'"
    using R'(1) fl'(1) main(1) by (simp add: RestoreToRegistry_def names)
  moreover have "\<exists>fl'. find_flag (fl_name fl) R' = Some fl' \<and> restored fl fl'"
  proof (cases "fl_name fl \<in> fl_name ` set fls")
    case True
    then obtain g where g: "g \<in> set fls" "fl_name g = fl_name fl" by auto
    then have "g = fl" using Cons.prems(1) by fastforce
    then show ?thesis using R'(3) g by blast
  next
    case False
    then show ?thesis using R'(4) r names wf by (simp add: find_put_flag)
  qed
  ultimately show ?case using R'(2-4) names wf by (auto simp: find_put_flag)
qed

lemma ReportErrors_keeps: "ReportErrors P = Inr (e, m, P') \<Longrightarrow> ps_gflags P' = ps_gflags P"
proof -
  have "ps_gflags (fold undefok_step names Q) = ps_gflags Q" for names Q
    by (induction names arbitrary: Q) (simp_all add: undefok_step_def)
  moreover have "ps_gflags (fold (\<lambda>u. note_error (fst u) []) us Q) = ps_gflags Q" for us :: "(string \<times> string) list" and Q
    by (induction us arbitrary: Q) simp_all
  ultimately show "ReportErrors P = Inr (e, m, P') \<Longrightarrow> ps_gflags P' = ps_gflags P"
    by (auto simp: ReportErrors_def bnd_eq_Inr Let_def split: if_splits)
qed

lemma registry_wf_find:
  "registry_wf R \<Longrightarrow> fl \<in> set (map snd (rg_flags R)) \<Longrightarrow> find_flag (fl_name fl) R = Some fl"
proof -
  assume wf: "registry_wf R" and "fl \<in> set (map snd (rg_flags R))"
  then obtain n where n: "(n, fl) \<in> set (rg_flags R)" by auto
  have "distinct (map fst (rg_flags R))"
    using wf strict_sorted_iff by (auto simp: registry_wf_def ord_inv_def strict_sorted_iff)
  then show ?thesis using wf n by (auto simp: registry_wf_def find_flag_def ord_find_map_of)
qed

lemma find_flag_mem: "registry_wf R \<Longrightarrow> find_flag name R = Some fl \<Longrightarrow> fl \<in> set (map snd (rg_flags R))"
  by (auto simp: registry_wf_def find_flag_def ord_find_map_of dest!: map_of_SomeD intro: rev_image_eqI)

text \<open>
  C34. If \<open>ReadFlagsFromString\<close> returns false, each flag is afterwards what it was before: its
  value and default are the same or equal as doubles compare (\<open>value_same\<close>: the code compares, and
  a zero may have changed its sign), whether it was modified and its validator are the same, no flag
  has come or gone, and the library's other state is untouched.  Nothing is said of a call that
  returns true; it skips lines it does not know.
\<close>

theorem failed_read_leaves_the_flags:
  assumes "registry_wf (gf_registry G)"
    and "ReadFlagsFromString fuel env contents fatal G = Some (Inr (False, G'))"
  shows "\<not> fatal \<and> (\<exists>R. G' = G\<lparr>gf_registry := R\<rparr> \<and>
    (\<forall>name. rel_option restored (find_flag name (gf_registry G)) (find_flag name R)))"
proof -
  obtain saved where saved: "SaveFromRegistry (gf_registry G) = Inr saved"
    "list_all2 restored (map snd (rg_flags (gf_registry G))) saved"
    using save_ok[of "map snd (rg_flags (gf_registry G))" "[]"] by (auto simp: SaveFromRegistry_def)
  from assms(2) obtain m P e P' R' where P: "ProcessOptionsFromStringLocked (ProcessSingleOptionLocked fuel env SET_FLAGS_VALUE)
        env contents (CommandLineFlagParser G) = Some (Inr (m, P))"
    and "ReportErrors P = Inr (True, e, P')" and fatal: "\<not> fatal"
    and R': "RestoreToRegistry saved (ps_registry P') = Inr R'" "G' = (ps_gflags P')\<lparr>gf_registry := R'\<rparr>"
    by (auto simp: ReadFlagsFromString_def saved(1) obind_Inr split: if_splits)
  then have P': "ps_gflags P' = ps_gflags P" by (auto dest: ReportErrors_keeps)
  have "same_flags G (ps_gflags P)"
    using keeps_flagsD[OF keeps_recursive(1)[OF keeps_single] P] same_flags_refl[OF assms(1)]
    by (simp add: CommandLineFlagParser_def)
  then obtain R where R: "ps_gflags P = G\<lparr>gf_registry := R\<rparr>" "same_registry (gf_registry G) R"
    by (auto simp: same_flags_def)
  obtain R'' where R'': "RestoreToRegistry saved R = Inr R''" "same_registry (gf_registry G) R''"
    "\<forall>fl \<in> set (map snd (rg_flags (gf_registry G))). \<exists>fl'. find_flag (fl_name fl) R'' = Some fl' \<and> restored fl fl'"
    using restored_flags[OF saved(2) _ R(2)] registry_wf_find[OF assms(1)] by auto
  have "rel_option restored (find_flag name (gf_registry G)) (find_flag name R'')" for name
    using same_registry_find[OF R''(2), of name] R''(3) find_flag_mem[OF assms(1), of name]
      find_flag_name[OF assms(1), of name]
    by (cases "find_flag name (gf_registry G)") (auto elim!: option.rel_cases)
  then show ?thesis using fatal R R' R''(1) P' by (intro conjI exI[of _ R'']) simp_all
qed

text \<open>An environment without files, variables and validators that refuse.\<close>

definition plain_env :: flag_env where
  "plain_env = \<lparr>strtod = \<lambda>s. (0, s, False), print_g17 = \<lambda>_. [], read_file = \<lambda>_. None, getenv = \<lambda>_. None,
     fnmatch = \<lambda>_ _. False, validators = \<lambda>_ _ _. True\<rparr>"

theorem failed_read_leaves_the_flags_witness:
  "\<exists>G'. ReadFlagsFromString 1 plain_env (''--port=1'' @ LF # ''--port=x'') False (new_gflags program_flags) =
      Some (Inr (False, G')) \<and>
    (\<forall>name. rel_option restored (find_flag name program_flags) (find_flag name (gf_registry G')))"
proof -
  have "case ReadFlagsFromString 1 plain_env (''--port=1'' @ LF # ''--port=x'') False (new_gflags program_flags) of
      Some (Inr (ok, _)) \<Rightarrow> \<not> ok | _ \<Rightarrow> False"
    by code_simp
  then obtain G' where G': "ReadFlagsFromString 1 plain_env (''--port=1'' @ LF # ''--port=x'') False (new_gflags program_flags) =
      Some (Inr (False, G'))"
    by (auto split: option.splits sum.splits)
  show ?thesis
    using failed_read_leaves_the_flags[OF _ G'] G' program_flags_wf by (auto simp: new_gflags_def)
qed

section \<open>Writing and reading back\<close>

definition writable :: "flag_env \<Rightarrow> cflag \<Rightarrow> bool" where
  "writable env fl \<longleftrightarrow> CHR ''='' \<notin> set (fl_name fl) \<and> one_line (fl_name fl) \<and>
     one_line (flag_text env (fl_current fl)) \<and> value_reads_back env (fl_current fl) \<and>
     flag_validate env fl (fl_current fl) \<and> (fl_name fl \<in> set recursive_flags \<longrightarrow> fl_current fl = StringF [])"

lemma single_sets:
  assumes "registry_wf (ps_registry P)" "find_flag name (ps_registry P) = Some fl"
    "ParseFrom env (type_of_value (fl_current fl)) text = Some v" "flag_validate env fl v"
    "name \<in> set recursive_flags \<Longrightarrow> v = StringF []"
  shows "\<exists>msg fl'. ProcessSingleOptionLocked (Suc fuel) env SET_FLAGS_VALUE name text P =
      Some (Inr (msg, set_registry (put_flag fl' (ps_registry P)) P)) \<and>
    fl' = (UpdateModifiedBit fl)\<lparr>fl_current := v, fl_modified := True\<rparr>"
proof -
  obtain msg fl' where set: "set_option env SET_FLAGS_VALUE name text P = (True, msg, set_registry (put_flag fl' (ps_registry P)) P)"
    and fl': "fl' = (UpdateModifiedBit fl)\<lparr>fl_current := v, fl_modified := True\<rparr>"
    using set_option_ok[OF assms(1-4)] by blast
  show ?thesis
  proof (cases "name \<in> set recursive_flags")
    case True
    have "find_flag name (put_flag fl' (ps_registry P)) = Some fl'"
      using assms(1) find_flag_name[OF assms(1,2)] by (simp add: find_put_flag fl')
    then have "FLAGS_string name (put_flag fl' (ps_registry P)) = []"
      using assms(5)[OF True] by (simp add: FLAGS_string_def fl')
    then show ?thesis
      using True set fl' by (auto simp: recursive_flags_def ProcessFlagfileLocked_def ProcessFromenvLocked_def)
  next
    case False
    then show ?thesis unfolding single_plain[OF False] set Let_def using fl' by auto
  qed
qed

lemma options_loop_line:
  assumes "one_line name" "one_line v" "CHR ''='' \<notin> set name" "find_flag name (ps_registry P) = Some fl"
    "fl_name fl = name" "flags_are_relevant sec"
    "single name v P = Some (Inr (m, P'))"
  shows "options_loop single env (flag_line_text name v @ LF # contents) sec P =
    obind (options_loop single env contents (sec\<lparr>in_filename_section := False\<rparr>) P') (\<lambda>(ms, P). Some (Inr (m @ ms, P)))"
proof -
  have "LF \<notin> set (flag_line_text name v)" using assms(1,2) by (auto simp: flag_line_text_def one_line_def)
  then have "takeWhile (\<lambda>c. c \<noteq> LF) (flag_line_text name v @ LF # contents) = flag_line_text name v"
    "dropWhile (\<lambda>c. c \<noteq> LF) (flag_line_text name v @ LF # contents) = LF # contents"
    by (simp_all add: takeWhile_other)
  moreover have "dropWhile is_space (flag_line_text name v @ LF # contents) = flag_line_text name v @ LF # contents"
    by (simp add: flag_line_text_def is_space_def)
  ultimately show ?thesis
    using file_line_sets[OF assms(3,4,6), of single env v] assms(5,7) by (simp add: options_loop.simps Let_def)
qed

text \<open>The lines written for a list of flags, read one after the other.\<close>

lemma flags_read_back:
  assumes "\<forall>fi \<in> set infos. \<exists>fl. find_flag (fi_name fi) R0 = Some fl \<and> fl_name fl = fi_name fi \<and>
      fi_current_value fi = flag_text env (fl_current fl) \<and> writable env fl"
    and "same_registry R0 (ps_registry P)" "flags_are_relevant sec"
  shows "\<exists>m R. options_loop (ProcessSingleOptionLocked (Suc fuel) env SET_FLAGS_VALUE) env
      (TheseCommandlineFlagsIntoString infos) sec P = Some (Inr (m, set_registry R P)) \<and> same_registry R0 R \<and>
    (\<forall>fi \<in> set infos. current_of (fi_name fi) R = current_of (fi_name fi) R0) \<and>
    (\<forall>name. name \<notin> fi_name ` set infos \<longrightarrow> current_of name R = current_of name (ps_registry P))"
  using assms
proof (induction infos arbitrary: sec P)
  case Nil
  have "set_registry (ps_registry P) P = P" by (simp add: set_registry_def)
  then show ?case
    using Nil by (auto simp: TheseCommandlineFlagsIntoString_def options_loop.simps file_line_def intro!: exI[of _ "ps_registry P"])
next
  case (Cons fi infos)
  obtain fl where fl: "find_flag (fi_name fi) R0 = Some fl" "fl_name fl = fi_name fi"
    "fi_current_value fi = flag_text env (fl_current fl)" "writable env fl" using Cons.prems(1) by auto
  obtain old where old: "find_flag (fi_name fi) (ps_registry P) = Some old" "same_flag fl old"
    using same_registry_find[OF Cons.prems(2), of "fi_name fi"] fl(1) by (auto elim: option.rel_cases)
  have wf: "registry_wf (ps_registry P)" using Cons.prems(2) by (simp add: same_registry_def)
  have "ParseFrom env (type_of_value (fl_current old)) (fi_current_value fi) = Some (fl_current fl)"
    "flag_validate env old (fl_current fl)" "fi_name fi \<in> set recursive_flags \<Longrightarrow> fl_current fl = StringF []"
    using fl old(2) ParseFrom_text[of env "fl_current fl"]
    by (auto simp: writable_def same_flag_def flag_validate_def split: option.splits)
  from single_sets[OF wf old(1) this] obtain msg new where
    step: "ProcessSingleOptionLocked (Suc fuel) env SET_FLAGS_VALUE (fi_name fi) (fi_current_value fi) P =
      Some (Inr (msg, set_registry (put_flag new (ps_registry P)) P))"
    and new: "new = (UpdateModifiedBit old)\<lparr>fl_current := fl_current fl, fl_modified := True\<rparr>" by blast
  define P1 where "P1 = set_registry (put_flag new (ps_registry P)) P"
  have name: "fl_name new = fi_name fi" using old(2) fl(2) by (simp add: new same_flag_def)
  have like: "same_registry R0 (ps_registry P1)"
    using same_registry_put[OF Cons.prems(2) old(1), of new] old(2) by (simp add: P1_def new same_flag_def)
  have cur: "current_of n (ps_registry P1) = (if n = fi_name fi then current_of n R0 else current_of n (ps_registry P))" for n
  proof -
    have "current_of (fi_name fi) R0 = Some (fl_current new)" by (simp add: current_of_def fl(1) new)
    then show ?thesis using wf name by (simp add: P1_def current_of_put)
  qed
  let ?sec = "sec\<lparr>in_filename_section := False\<rparr>"
  have "flags_are_relevant ?sec" "\<forall>fi \<in> set infos. \<exists>fl. find_flag (fi_name fi) R0 = Some fl \<and> fl_name fl = fi_name fi \<and>
      fi_current_value fi = flag_text env (fl_current fl) \<and> writable env fl" using Cons.prems by simp_all
  from Cons.IH[OF this(2) like this(1)] obtain m R where
    R: "options_loop (ProcessSingleOptionLocked (Suc fuel) env SET_FLAGS_VALUE) env
      (TheseCommandlineFlagsIntoString infos) ?sec P1 = Some (Inr (m, set_registry R P1))" "same_registry R0 R"
    "\<forall>fi \<in> set infos. current_of (fi_name fi) R = current_of (fi_name fi) R0"
    "\<forall>name. name \<notin> fi_name ` set infos \<longrightarrow> current_of name R = current_of name (ps_registry P1)" by (elim exE conjE) blast
  have line: "TheseCommandlineFlagsIntoString (fi # infos) =
      flag_line_text (fi_name fi) (fi_current_value fi) @ LF # TheseCommandlineFlagsIntoString infos"
    by (simp add: TheseCommandlineFlagsIntoString_def flag_line_text_def)
  have "options_loop (ProcessSingleOptionLocked (Suc fuel) env SET_FLAGS_VALUE) env
      (TheseCommandlineFlagsIntoString (fi # infos)) sec P = Some (Inr (msg @ m, set_registry R P1))"
    unfolding line
    by (subst options_loop_line[where single = "ProcessSingleOptionLocked (Suc fuel) env SET_FLAGS_VALUE",
          OF _ _ _ old(1) _ Cons.prems(3) step])
      (use fl old(2) in \<open>simp_all add: writable_def same_flag_def P1_def[symmetric] R(1) del: ProcessSingleOptionLocked.simps\<close>)
  moreover have "set_registry R P1 = set_registry R P" by (simp add: P1_def set_registry_def)
  moreover have "current_of (fi_name fi) R = current_of (fi_name fi) R0"
  proof (cases "fi_name fi \<in> fi_name ` set infos")
    case True
    then obtain fi' where "fi' \<in> set infos" "fi_name fi' = fi_name fi" by auto
    then show ?thesis using bspec[OF R(3)] by metis
  next
    case False
    then show ?thesis using R(4) cur by simp
  qed
  ultimately show ?case
    using R(2-4) cur by (intro exI[of _ "msg @ m"] exI[of _ R]) (auto simp del: ProcessSingleOptionLocked.simps)
qed

lemma all_flags_infos:
  assumes "registry_wf (gf_registry G)" "fst (CommandlineFlagsIntoString env G) = contents"
  obtains infos where "contents = TheseCommandlineFlagsIntoString infos"
    "\<forall>fi \<in> set infos. \<exists>fl. find_flag (fi_name fi) (gf_registry G) = Some fl \<and> fl_name fl = fi_name fi \<and>
      fi_current_value fi = flag_text env (fl_current fl)"
    "\<forall>name fl. find_flag name (gf_registry G) = Some fl \<longrightarrow> name \<in> fi_name ` set infos"
proof -
  define infos where "infos = fst (GetAllFlags env G)"
  have set_infos: "set infos = (\<lambda>fl. fst (FillCommandLineFlagInfo env fl)) ` set (map snd (rg_flags (gf_registry G)))"
    by (auto simp: infos_def GetAllFlags_def Let_def case_prod_unfold image_image)
  show ?thesis
  proof (rule that[of infos])
    show "contents = TheseCommandlineFlagsIntoString infos"
      using assms(2) by (simp add: CommandlineFlagsIntoString_def infos_def case_prod_unfold Let_def)
    show "\<forall>fi \<in> set infos. \<exists>fl. find_flag (fi_name fi) (gf_registry G) = Some fl \<and> fl_name fl = fi_name fi \<and>
      fi_current_value fi = flag_text env (fl_current fl)"
      using registry_wf_find[OF assms(1)] unfolding set_infos by (fastforce simp: FillCommandLineFlagInfo_def Let_def)
    show "\<forall>name fl. find_flag name (gf_registry G) = Some fl \<longrightarrow> name \<in> fi_name ` set infos"
    proof (intro allI impI)
      fix name fl
      assume "find_flag name (gf_registry G) = Some fl"
      then have "fl \<in> set (map snd (rg_flags (gf_registry G)))" "fl_name fl = name"
        using find_flag_mem[OF assms(1)] find_flag_name[OF assms(1)] by blast+
      then show "name \<in> fi_name ` set infos"
        unfolding set_infos by (force simp: FillCommandLineFlagInfo_def Let_def)
    qed
  qed
qed

lemma help_flags_current:
  assumes "\<And>name. current_of name (gf_registry G) = current_of name (gf_registry G')"
  shows "HandleCommandLineHelpFlags G = HandleCommandLineHelpFlags G'"
  by (simp add: HandleCommandLineHelpFlags_def FLAGS_current assms Let_def)

text \<open>
  C35. The flags of a program, written to a string and read by a program with the same flags - whatever
  values they have there - come back with the values they were written with.  Every flag must be
  \<open>writable\<close>: its name has no equals sign and is, like the text of its value, of one line (no newline
  and no NUL), a double prints to a text that reads back as it, its
  validator accepts its value, and \<open>flagfile\<close>, \<open>fromenv\<close> and \<open>tryfromenv\<close>, which make the program
  read more flags, are empty.  \<open>undefok\<close> must be empty too, and none of the flags that make the
  program print something and exit may be set.
\<close>

theorem written_flags_are_read_back:
  assumes "registry_wf (gf_registry G)" "same_registry (gf_registry G) (gf_registry G')"
    and "\<And>name fl. find_flag name (gf_registry G) = Some fl \<Longrightarrow> writable env fl"
    and "HandleCommandLineHelpFlags G = Inr ()" "FLAGS_string ''undefok'' (gf_registry G) = []"
  shows "\<exists>R. ReadFlagsFromString (Suc fuel) env (fst (CommandlineFlagsIntoString env G)) fatal G' =
      Some (Inr (True, G'\<lparr>gf_registry := R\<rparr>)) \<and>
    (\<forall>name. current_of name R = current_of name (gf_registry G))"
proof -
  define contents where "contents = fst (CommandlineFlagsIntoString env G)"
  obtain infos where infos: "contents = TheseCommandlineFlagsIntoString infos"
    "\<forall>fi \<in> set infos. \<exists>fl. find_flag (fi_name fi) (gf_registry G) = Some fl \<and> fl_name fl = fi_name fi \<and>
      fi_current_value fi = flag_text env (fl_current fl)"
    "\<forall>name fl. find_flag name (gf_registry G) = Some fl \<longrightarrow> name \<in> fi_name ` set infos"
    by (rule all_flags_infos[OF assms(1) contents_def[symmetric]])
  have ok: "\<forall>fi \<in> set infos. \<exists>fl. find_flag (fi_name fi) (gf_registry G) = Some fl \<and> fl_name fl = fi_name fi \<and>
      fi_current_value fi = flag_text env (fl_current fl) \<and> writable env fl"
    using infos(2) assms(3) by blast
  have "CHR 0x00 \<notin> set (fi_name fi) \<and> CHR 0x00 \<notin> set (fi_current_value fi)" if "fi \<in> set infos" for fi
    using ok that by (fastforce simp: writable_def one_line_def)
  then have "CHR 0x00 \<notin> set contents"
    by (auto simp: infos(1) TheseCommandlineFlagsIntoString_def)
  then have contents: "takeWhile (\<lambda>c. c \<noteq> CHR 0x00) contents = contents" by (rule takeWhile_other(1))
  let ?P = "CommandLineFlagParser G'"
  have P: "ps_gflags ?P = G'" "ps_errors ?P = []" "ps_undefined ?P = []" by (simp_all add: CommandLineFlagParser_def)
  obtain m R where R: "ProcessOptionsFromStringLocked (ProcessSingleOptionLocked (Suc fuel) env SET_FLAGS_VALUE) env contents ?P =
      Some (Inr (m, set_registry R ?P))" "same_registry (gf_registry G) R"
    "\<forall>fi \<in> set infos. current_of (fi_name fi) R = current_of (fi_name fi) (gf_registry G)"
    using flags_read_back[OF ok, of ?P "\<lparr>flags_are_relevant = True, in_filename_section = False\<rparr>" fuel] assms(2)
    by (auto simp: P ProcessOptionsFromStringLocked_def contents infos(1)[symmetric])
  have cur: "current_of name R = current_of name (gf_registry G)" for name
  proof (cases "find_flag name (gf_registry G)")
    case None
    then show ?thesis using same_registry_find[OF R(2), of name] by (simp add: current_of_def)
  next
    case (Some fl)
    then obtain fi where "fi \<in> set infos" "fi_name fi = name" using infos(3) by auto
    then show ?thesis using R(3) by auto
  qed
  obtain saved where "SaveFromRegistry (gf_registry G') = Inr saved"
    using save_ok[of "map snd (rg_flags (gf_registry G'))" "[]"] by (auto simp: SaveFromRegistry_def)
  moreover have "HandleCommandLineHelpFlags (G'\<lparr>gf_registry := R\<rparr>) = Inr ()"
    using help_flags_current[of "G'\<lparr>gf_registry := R\<rparr>" G] cur assms(4) by simp
  moreover have "FLAGS_string ''undefok'' R = []" using assms(5) cur by (simp add: FLAGS_current)
  ultimately show ?thesis
    using R(1) cur by (auto simp: ReadFlagsFromString_def P ReportErrors_def Let_def contents_def[symmetric])
qed

lemma one_line_int: "one_line (int_to_string i)"
  using nat_to_string_digits[of "nat i"] nat_to_string_digits[of "nat (- i)"]
  by (auto simp: one_line_def int_to_string_def is_digit_def)

lemma ord_find_mem: "ord_find k m = Some v \<Longrightarrow> (k, v) \<in> set m"
  by (induction m) (auto split: if_splits)

lemma program_flags_writable:
  assumes "find_flag name program_flags = Some fl"
  shows "writable plain_env fl"
proof -
  have fl: "fl_name fl = name" "fl_validator fl = None"
    using find_flag_name[OF _ assms] find_no_validator[OF _ _ assms] program_flags_wf by simp_all
  have "(name, fl_current fl) \<in> set (map (\<lambda>(n, fl). (n, fl_current fl)) (rg_flags program_flags))"
    using assms current_of_list[of name program_flags] by (intro ord_find_mem) (simp add: current_of_def)
  then have "CHR ''='' \<notin> set name \<and> one_line name \<and> one_line (flag_text plain_env (fl_current fl)) \<and>
      value_reads_back plain_env (fl_current fl) \<and> (name \<in> set recursive_flags \<longrightarrow> fl_current fl = StringF [])"
    unfolding program_flags_current list.set insert_iff empty_iff
    by (elim disjE) (simp_all add: one_line_int recursive_flags_def, simp_all add: one_line_def)
  then show ?thesis by (simp add: writable_def fl flag_validate_def)
qed

theorem written_flags_are_read_back_witness:
  "\<exists>R. ReadFlagsFromString 1 plain_env (fst (CommandlineFlagsIntoString plain_env (new_gflags program_flags))) False
      (new_gflags (put_flag ((the (find_flag ''port'' program_flags))\<lparr>fl_current := Int32F 4464\<rparr>) program_flags)) =
    Some (Inr (True, new_gflags R)) \<and> current_of ''port'' R = Some (Int32F 8091)"
proof -
  let ?G = "new_gflags program_flags"
  have cur: "current_of name program_flags = ord_find name (map (\<lambda>(n, fl). (n, fl_current fl)) (rg_flags program_flags))" for name
    by (rule current_of_list)
  obtain fl where fl: "find_flag ''port'' program_flags = Some fl" "fl_current fl = Int32F 8091"
    using cur[of "''port''"] by (auto simp: program_flags_current current_of_def)
  let ?fl = "fl\<lparr>fl_current := Int32F 4464\<rparr>"
  have G: "gf_registry ?G = program_flags" by (simp add: new_gflags_def)
  have like: "same_registry program_flags (put_flag ?fl program_flags)"
    by (rule same_registry_put[OF same_registry_refl[OF program_flags_wf(1)] fl(1)]) (simp add: same_flag_def fl(2))
  have "HandleCommandLineHelpFlags ?G = Inr ()" "FLAGS_string ''undefok'' program_flags = []"
    by (simp_all add: HandleCommandLineHelpFlags_def Let_def FLAGS_current G cur program_flags_current)
  then have "\<exists>R. ReadFlagsFromString (Suc 0) plain_env (fst (CommandlineFlagsIntoString plain_env ?G)) False
      (new_gflags (put_flag ?fl program_flags)) = Some (Inr (True, (new_gflags (put_flag ?fl program_flags))\<lparr>gf_registry := R\<rparr>)) \<and>
      (\<forall>name. current_of name R = current_of name (gf_registry ?G))"
    using like program_flags_wf(1) program_flags_writable
    by (intro written_flags_are_read_back) (simp_all add: new_gflags_def)
  moreover have "current_of ''port'' program_flags = Some (Int32F 8091)" by (simp add: current_of_def fl)
  ultimately show ?thesis using fl by (auto simp: new_gflags_def)
qed

end
