(* ===== verification/FlagReporting.thy ===== *)
theory FlagReporting
  imports FlagProperties "HOL-Library.Sublist"
begin

text \<open>
  What \<open>--help\<close> and its relatives print (gflags_reporting.cc): the text of the help flags that end the
  program.  \<open>HandleCommandLineHelpFlags\<close> (theory FlagParser) says which flag ends it with which
  status; here is the output on \<open>stdout\<close>.
\<close>

section \<open>One flag\<close>

definition kLineLength :: nat where "kLineLength = 80"

definition wrap_indent :: string where "wrap_indent = LF # replicate 6 (CHR '' '')"

text \<open>\<open>AddString\<close>: the text so far and the characters in its last line.\<close>

definition AddString :: "string \<Rightarrow> string \<times> nat \<Rightarrow> string \<times> nat" where
  "AddString s st = (let (final_string, chars_in_line) = st;
       (final_string, chars_in_line) =
         (if chars_in_line + 1 + length s \<ge> kLineLength then (final_string @ wrap_indent, 6)
          else (final_string @ '' '', chars_in_line + 1))
     in (final_string @ s, chars_in_line + length s))"

definition PrintStringFlagsWithQuotes :: "flag_info \<Rightarrow> string \<Rightarrow> bool \<Rightarrow> string" where
  "PrintStringFlagsWithQuotes flag label current =
     (let c_string = (if current then fi_current_value flag else fi_default_value flag) in
      if fi_type flag = ''string'' then label @ '': '' @ [CHR 0x22] @ c_string @ [CHR 0x22]
      else label @ '': '' @ c_string)"

text \<open>A character of a C string; behind the last one is a zero, and nothing may be read behind that.\<close>

definition cstr_at :: "string \<Rightarrow> nat \<Rightarrow> char result" where
  "cstr_at s i = (if i < length s then Inr (s ! i) else if i = length s then Inr (CHR 0x00)
     else Inl (Undefined ''read behind the end of a string''))"

text \<open>The last white space at or before a position, or 0.\<close>

fun last_space :: "string \<Rightarrow> nat \<Rightarrow> nat result" where
  "last_space s 0 = Inr 0"
| "last_space s (Suc w) = bnd (cstr_at s (Suc w)) (\<lambda>c. if is_space c then Inr (Suc w) else last_space s w)"

text \<open>The first position from a given one on that holds no white space: at the latest the zero.\<close>

function skip_spaces :: "string \<Rightarrow> nat \<Rightarrow> nat result" where
  "skip_spaces s w = bnd (cstr_at s w) (\<lambda>c. if is_space c then skip_spaces s (w + 1) else Inr w)"
  by pat_completeness auto

termination skip_spaces
proof (relation "measure (\<lambda>(s, w). length s - w)")
  fix s w x
  assume "cstr_at s w = Inr x" "is_space x"
  then have "w < length s" by (auto simp: cstr_at_def is_space_def split: if_splits)
  then show "((s, w + 1), s, w) \<in> measure (\<lambda>(s, w). length s - w)" by simp
qed simp

declare skip_spaces.simps [simp del]

text \<open>
  The loop of \<open>DescribeOneFlag\<close>: what is left of the text, the characters in the line, the output.  The
  line ends at a newline of the text that is near enough, or at the last white space that fits, or
  not at all.
\<close>

function describe_loop :: "string \<Rightarrow> nat \<Rightarrow> string \<Rightarrow> (string \<times> nat) result" where
  "describe_loop c_string chars_in_line final_string =
     (let line = takeWhile (\<lambda>c. c \<noteq> LF) c_string; newline = length line < length c_string in
      if \<not> newline \<and> chars_in_line + length c_string < kLineLength then
        Inr (final_string @ c_string, chars_in_line + length c_string)
      else if newline \<and> int (length line) < int kLineLength - int chars_in_line then
        (let rest = drop (length line + 1) c_string; final_string = final_string @ line in
         if rest = [] then Inr (final_string, chars_in_line)
         else describe_loop rest 6 (final_string @ wrap_indent))
      else
        bnd (last_space c_string (kLineLength - chars_in_line - 1)) (\<lambda>whitespace.
          if whitespace = 0 then Inr (final_string @ c_string, kLineLength)
          else bnd (skip_spaces c_string whitespace) (\<lambda>next_word.
            let final_string = final_string @ take whitespace c_string; rest = drop next_word c_string in
            if rest = [] then Inr (final_string, chars_in_line + whitespace)
            else describe_loop rest 6 (final_string @ wrap_indent))))"
  by pat_completeness auto

lemma last_space_le: "last_space s w = Inr w' \<Longrightarrow> w' \<le> w"
  by (induction s w arbitrary: w' rule: last_space.induct) (force simp: bnd_eq_Inr split: if_splits)+

lemma skip_spaces_ge: "skip_spaces s w = Inr w' \<Longrightarrow> w \<le> w'"
proof (induction s w arbitrary: w' rule: skip_spaces.induct)
  case (1 s w)
  then show ?case by (subst (asm) skip_spaces.simps) (force simp: bnd_eq_Inr split: if_splits)
qed

termination describe_loop
proof (relation "measure (\<lambda>(c_string, _, _). length c_string)")
  fix c :: string and n :: nat and out line newline rest final
  assume "line = takeWhile (\<lambda>c. c \<noteq> LF) c" "rest = drop (length line + 1) c" "rest \<noteq> []"
  then show "((rest, 6, final @ wrap_indent), c, n, out) \<in> measure (\<lambda>(c_string, _, _). length c_string)"
    by auto
next
  fix c :: string and n :: nat and out line newline x y final rest
  assume "skip_spaces c x = Inr y" "x \<noteq> 0" "rest = drop y c" "rest \<noteq> []"
  then have "0 < y" "y < length c" using skip_spaces_ge by fastforce+
  then show "((rest, 6, final @ wrap_indent), c, n, out) \<in> measure (\<lambda>(c_string, _, _). length c_string)"
    using \<open>rest = drop y c\<close> by simp
qed simp

declare describe_loop.simps [simp del]

definition flag_main_part :: "flag_info \<Rightarrow> string" where
  "flag_main_part flag = ''    -'' @ fi_name flag @ '' ('' @ fi_description flag @ '')''"

definition DescribeOneFlag :: "flag_info \<Rightarrow> string result" where
  "DescribeOneFlag flag = bnd (describe_loop (flag_main_part flag) 0 []) (\<lambda>st.
     let st = AddString (''type: '' @ fi_type flag) st;
         st = AddString (PrintStringFlagsWithQuotes flag ''default'' False) st;
         st = (if \<not> fi_is_default flag then AddString (PrintStringFlagsWithQuotes flag ''currently'' True) st else st)
     in Inr (fst st @ [LF]))"

section \<open>XML\<close>

text \<open>
  Every occurrence of a character is replaced.  The search goes on behind the first character put in,
  which makes no difference: what follows it in \<open>&amp;\<close> and \<open>&lt;\<close> is not searched for.
\<close>

function replace_all :: "char \<Rightarrow> string \<Rightarrow> string \<Rightarrow> string" where
  "replace_all c s txt =
     (let pre = takeWhile (\<lambda>x. x \<noteq> c) txt; rest = dropWhile (\<lambda>x. x \<noteq> c) txt in
      if rest = [] then pre else pre @ s @ replace_all c s (tl rest))"
  by pat_completeness auto

termination replace_all
proof (relation "measure (\<lambda>(_, _, t). length t)")
  fix c :: char and s str pre rest :: string
  assume "rest = dropWhile (\<lambda>x. x \<noteq> c) str" "rest \<noteq> []"
  then have "length (tl rest) < length rest" "length rest \<le> length str"
    by (cases rest; simp add: length_dropWhile_le)+
  then show "((c, s, tl rest), c, s, str) \<in> measure (\<lambda>(_, _, t). length t)" by simp
qed simp

declare replace_all.simps [simp del]

definition XMLText :: "string \<Rightarrow> string" where
  "XMLText txt = replace_all (CHR ''<'') ''&lt;'' (replace_all (CHR ''&'') ''&amp;'' txt)"

definition AddXMLTag :: "string \<Rightarrow> string \<Rightarrow> string \<Rightarrow> string" where
  "AddXMLTag r tag txt = r @ ''<'' @ tag @ ''>'' @ XMLText txt @ ''</'' @ tag @ ''>''"

definition DescribeOneFlagInXML :: "flag_info \<Rightarrow> string" where
  "DescribeOneFlagInXML flag =
     (let r = ''<flag>'';
          r = AddXMLTag r ''file'' (fi_filename flag);
          r = AddXMLTag r ''name'' (fi_name flag);
          r = AddXMLTag r ''meaning'' (fi_description flag);
          r = AddXMLTag r ''default'' (fi_default_value flag);
          r = AddXMLTag r ''current'' (fi_current_value flag);
          r = AddXMLTag r ''type'' (fi_type flag)
      in r @ ''</flag>'')"

section \<open>All flags\<close>

definition Basename :: "string \<Rightarrow> string" where
  "Basename filename = after_last (CHR ''/'') filename"

text \<open>Up to the last slash; nothing if there is none.\<close>

definition Dirname :: "string \<Rightarrow> string" where
  "Dirname filename = (if CHR ''/'' \<in> set filename then take (length filename - length (Basename filename) - 1) filename else [])"

definition FileMatchesSubstring :: "string \<Rightarrow> string list \<Rightarrow> bool" where
  "FileMatchesSubstring filename substrings \<longleftrightarrow>
     list_ex (\<lambda>target. sublist target filename \<or>
       target \<noteq> [] \<and> hd target = CHR ''/'' \<and> prefix (tl target) filename) substrings"

definition kStrippedFlagHelp :: string where
  "kStrippedFlagHelp = [CHR 0x01, CHR 0x02, CHR 0x03, CHR 0x04] @ '' (unknown) '' @ [CHR 0x04, CHR 0x03, CHR 0x02, CHR 0x01]"

text \<open>The loop over the flags: the last file, whether no directory was seen yet, whether a flag matched, the output.\<close>

record usage_state =
  us_last_filename :: string
  us_first_directory :: bool
  us_found_match :: bool
  us_out :: string

definition usage_step :: "string list \<Rightarrow> flag_info \<Rightarrow> usage_state \<Rightarrow> usage_state result" where
  "usage_step substrings flag u =
     (if (substrings = [] \<or> FileMatchesSubstring (fi_filename flag) substrings) \<and>
         fi_description flag \<noteq> kStrippedFlagHelp then
        (let u = u\<lparr>us_found_match := True\<rparr>;
             u = (if fi_filename flag \<noteq> us_last_filename u then
                    (let u = (if Dirname (fi_filename flag) \<noteq> Dirname (us_last_filename u) then
                                u\<lparr>us_out := us_out u @ (if us_first_directory u then [] else [LF, LF]),
                                  us_first_directory := False\<rparr> else u)
                     in u\<lparr>us_out := us_out u @ [LF] @ ''  Flags from '' @ fi_filename flag @ '':'' @ [LF],
                          us_last_filename := fi_filename flag\<rparr>) else u)
         in bnd (DescribeOneFlag flag) (\<lambda>txt. Inr (u\<lparr>us_out := us_out u @ txt\<rparr>)))
      else Inr u)"

definition ShowUsageWithFlagsMatching :: "flag_env \<Rightarrow> string \<Rightarrow> string list \<Rightarrow> gflags \<Rightarrow> (string \<times> gflags) result" where
  "ShowUsageWithFlagsMatching env argv0 substrings G =
     (let (flags, G) = GetAllFlags env G in
      bnd (foldM (usage_step substrings) flags
        \<lparr>us_last_filename = [], us_first_directory = True, us_found_match = False,
         us_out = Basename argv0 @ '': '' @ ProgramUsage G @ [LF]\<rparr>) (\<lambda>u.
      Inr (us_out u @ (if \<not> us_found_match u \<and> substrings \<noteq> []
             then [LF] @ ''  No modules matched: use -help'' @ [LF] else []), G)))"

definition ShowUsageWithFlagsRestrict :: "flag_env \<Rightarrow> string \<Rightarrow> string \<Rightarrow> gflags \<Rightarrow> (string \<times> gflags) result" where
  "ShowUsageWithFlagsRestrict env argv0 restrict G =
     ShowUsageWithFlagsMatching env argv0 (if restrict \<noteq> [] then [restrict] else []) G"

definition ShowUsageWithFlags :: "flag_env \<Rightarrow> string \<Rightarrow> gflags \<Rightarrow> (string \<times> gflags) result" where
  "ShowUsageWithFlags env argv0 G = ShowUsageWithFlagsRestrict env argv0 [] G"

definition ShowXMLOfFlags :: "flag_env \<Rightarrow> string \<Rightarrow> gflags \<Rightarrow> string \<times> gflags" where
  "ShowXMLOfFlags env prog_name G = (let (flags, G) = GetAllFlags env G in
     (''<?xml version='' @ [CHR 0x22] @ ''1.0'' @ [CHR 0x22] @ ''?>'' @ [LF] @ ''<AllFlags>'' @ [LF] @
      ''<program>'' @ XMLText (Basename prog_name) @ ''</program>'' @ [LF] @
      ''<usage>'' @ XMLText (ProgramUsage G) @ ''</usage>'' @ [LF] @
      concat (map (\<lambda>flag. if fi_description flag \<noteq> kStrippedFlagHelp
        then DescribeOneFlagInXML flag @ [LF] else []) flags) @
      ''</AllFlags>'' @ [LF], G))"

text \<open>\<open>debug\<close>: whether the library was built without \<open>NDEBUG\<close>.\<close>

definition ShowVersion :: "bool \<Rightarrow> gflags \<Rightarrow> string" where
  "ShowVersion debug G =
     (if VersionString G \<noteq> [] then ProgramInvocationShortName G @ '' version '' @ VersionString G @ [LF]
      else ProgramInvocationShortName G @ [LF]) @
     (if debug then ''Debug build (NDEBUG not #defined)'' @ [LF] else [])"

definition AppendPrognameStrings :: "string list \<Rightarrow> string \<Rightarrow> string list" where
  "AppendPrognameStrings substrings progname = (let r = CHR ''/'' # progname in
     substrings @ [r @ ''.'', r @ ''-main.'', r @ ''_main.''])"

section \<open>The help flags\<close>

text \<open>\<open>--helppackage\<close>: the directories of the files that are named like the program.\<close>

definition package_step ::
  "flag_env \<Rightarrow> string \<Rightarrow> string list \<Rightarrow> flag_info \<Rightarrow> string \<times> string \<times> gflags \<Rightarrow> (string \<times> string \<times> gflags) result" where
  "package_step env progname substrings flag st = (let (last_package, out, G) = st in
     if \<not> FileMatchesSubstring (fi_filename flag) substrings then Inr st
     else let package = Dirname (fi_filename flag) @ ''/'' in
       if package \<noteq> last_package then
         bnd (ShowUsageWithFlagsRestrict env progname package G) (\<lambda>(txt, G). Inr (package, out @ txt, G))
       else Inr st)"

text \<open>What is printed on \<open>stdout\<close>; nothing if no help flag is set.  Completion comes
  first: see \<open>HandleCommandLineHelpFlags_out\<close> in theory FlagExit.\<close>

definition help_output :: "flag_env \<Rightarrow> bool \<Rightarrow> gflags \<Rightarrow> (string \<times> gflags) result" where
  "help_output env debug G =
     (let progname = ProgramInvocationShortName G; substrings = AppendPrognameStrings [] progname; R = gf_registry G in
      if FLAGS_bool ''helpshort'' R then ShowUsageWithFlagsMatching env progname substrings G
      else if FLAGS_bool ''help'' R \<or> FLAGS_bool ''helpfull'' R then ShowUsageWithFlagsRestrict env progname [] G
      else if FLAGS_string ''helpon'' R \<noteq> [] then
        ShowUsageWithFlagsRestrict env progname (''/'' @ FLAGS_string ''helpon'' R @ ''.'') G
      else if FLAGS_string ''helpmatch'' R \<noteq> [] then
        ShowUsageWithFlagsRestrict env progname (FLAGS_string ''helpmatch'' R) G
      else if FLAGS_bool ''helppackage'' R then
        (let (flags, G) = GetAllFlags env G in
         bnd (foldM (package_step env progname substrings) flags ([], [], G)) (\<lambda>(_, out, G). Inr (out, G)))
      else if FLAGS_bool ''helpxml'' R then Inr (ShowXMLOfFlags env progname G)
      else if FLAGS_bool ''version'' R then Inr (ShowVersion debug G, G)
      else Inr ([], G))"

end
