(* ===== verification/FlagCompletion.thy ===== *)
theory FlagCompletion
  imports FlagReporting
begin

text \<open>
  Completion of flag names for the shell (gflags_completions.cc): the word at the cursor, the flags it
  matches, and the lines that are printed.  A pointer to a flag is its position in the vector of all
  flags together with the flag; a set of pointers is a list in the order of the positions, which is
  the order of the addresses.
\<close>

type_synonym flag_ref = "nat \<times> flag_info"

definition flag_refs :: "flag_info list \<Rightarrow> flag_ref list" where
  "flag_refs flags = zip [0..<length flags] flags"

section \<open>Searching in strings\<close>

text \<open>\<open>std::string::find\<close> from a position on; \<open>None\<close> is \<open>npos\<close>.\<close>

definition find_from :: "string \<Rightarrow> string \<Rightarrow> nat \<Rightarrow> nat option" where
  "find_from pat s pos = find (\<lambda>i. prefix pat (drop i s)) [pos..<length s + 1]"

text \<open>\<open>std::string::replace\<close>; a position behind the end throws.\<close>

definition string_replace :: "nat option \<Rightarrow> nat \<Rightarrow> string \<Rightarrow> string \<Rightarrow> string result" where
  "string_replace pos n by s = (case pos of
     Some p \<Rightarrow> if p \<le> length s then Inr (take p s @ by @ drop (p + n) s) else Inl (StdException ''std::out_of_range'')
   | None \<Rightarrow> Inl (StdException ''std::out_of_range''))"

section \<open>The search word\<close>

record CompletionOptions =
  flag_name_substring_search :: bool
  flag_location_substring_search :: bool
  flag_description_substring_search :: bool
  return_all_matching_flags :: bool
  force_no_update :: bool

definition no_options :: CompletionOptions where
  "no_options = \<lparr>flag_name_substring_search = False, flag_location_substring_search = False,
     flag_description_substring_search = False, return_all_matching_flags = False, force_no_update = False\<rparr>"

definition RemoveTrailingChar :: "string \<Rightarrow> char \<Rightarrow> string option" where
  "RemoveTrailingChar str c = (if str \<noteq> [] \<and> last str = c then Some (butlast str) else None)"

text \<open>Up to three question marks and one plus at the end, in any order.\<close>

function strip_suffixes :: "nat \<Rightarrow> nat \<Rightarrow> string \<Rightarrow> nat \<times> nat \<times> string" where
  "strip_suffixes found_question_marks found_plusses token =
     (if found_question_marks < 3 \<and> RemoveTrailingChar token (CHR ''?'') \<noteq> None then
        strip_suffixes (found_question_marks + 1) found_plusses (the (RemoveTrailingChar token (CHR ''?'')))
      else if found_plusses < 1 \<and> RemoveTrailingChar token (CHR ''+'') \<noteq> None then
        strip_suffixes found_question_marks (found_plusses + 1) (the (RemoveTrailingChar token (CHR ''+'')))
      else (found_question_marks, found_plusses, token))"
  by pat_completeness auto

termination strip_suffixes
  by (relation "measure (\<lambda>(_, _, token). length token)") (auto simp: RemoveTrailingChar_def split: if_splits)

declare strip_suffixes.simps [simp del]

definition CanonicalizeCursorWordAndSearchOptions :: "string \<Rightarrow> string \<times> CompletionOptions" where
  "CanonicalizeCursorWordAndSearchOptions cursor_word =
     (if cursor_word = [] then ([], no_options)
      else let token = (if hd cursor_word = CHR 0x22 then tl cursor_word else cursor_word);
               token = dropWhile (\<lambda>c. c = CHR ''-'') token;
               (found_question_marks, found_plusses, token) = strip_suffixes 0 0 token
        in (token, no_options\<lparr>flag_name_substring_search := 1 \<le> found_question_marks,
              flag_location_substring_search := 2 \<le> found_question_marks,
              flag_description_substring_search := 3 \<le> found_question_marks,
              return_all_matching_flags := 0 < found_plusses\<rparr>))"

section \<open>Matching flags\<close>

definition DoesSingleFlagMatch :: "flag_info \<Rightarrow> CompletionOptions \<Rightarrow> string \<Rightarrow> bool" where
  "DoesSingleFlagMatch flag options match_token \<longleftrightarrow>
     (let pos = find_from match_token (fi_name flag) 0 in
      pos = Some 0 \<or> flag_name_substring_search options \<and> pos \<noteq> None \<or>
      flag_location_substring_search options \<and> find_from match_token (fi_filename flag) 0 \<noteq> None \<or>
      flag_description_substring_search options \<and> find_from match_token (fi_description flag) 0 \<noteq> None)"

text \<open>The prefix so far, cut where the name differs.\<close>

fun cut_prefix :: "string \<Rightarrow> string \<Rightarrow> string" where
  "cut_prefix (a # p) (b # s) = (if a = b then a # cut_prefix p s else [])"
| "cut_prefix _ _ = []"

text \<open>The loop over all flags: the matches and their longest common prefix, empty if nothing matched.\<close>

definition match_step ::
  "CompletionOptions \<Rightarrow> string \<Rightarrow> flag_ref \<Rightarrow> flag_ref list \<times> bool \<times> string \<Rightarrow> flag_ref list \<times> bool \<times> string" where
  "match_step options match_token r st = (let (all_matches, first_match, common) = st in
     if DoesSingleFlagMatch (snd r) options match_token then
       (all_matches @ [r], False, if first_match then fi_name (snd r) else cut_prefix common (fi_name (snd r)))
     else st)"

definition FindMatchingFlags :: "flag_info list \<Rightarrow> CompletionOptions \<Rightarrow> string \<Rightarrow> flag_ref list \<times> string" where
  "FindMatchingFlags all_flags options match_token =
     (let (all_matches, _, common) = fold (match_step options match_token) (flag_refs all_flags) ([], True, [])
      in (all_matches, common))"

section \<open>Categories\<close>

record NotableFlags =
  perfect_match_flag :: "flag_ref list"
  module_flags :: "flag_ref list"
  package_flags :: "flag_ref list"
  most_common_flags :: "flag_ref list"
  subpackage_flags :: "flag_ref list"

definition categorize_step :: "string \<Rightarrow> string \<Rightarrow> string \<Rightarrow> flag_ref \<Rightarrow> NotableFlags \<Rightarrow> NotableFlags" where
  "categorize_step search_token module package_dir r N =
     (let flag = snd r;
          pos = (if package_dir \<noteq> [] then find_from package_dir (fi_filename flag) 0 else None);
          slash = (case pos of None \<Rightarrow> None
            | Some p \<Rightarrow> find_from ''/'' (fi_filename flag) (p + length package_dir + 1))
      in if fi_name flag = search_token then N\<lparr>perfect_match_flag := perfect_match_flag N @ [r]\<rparr>
         else if module \<noteq> [] \<and> fi_filename flag = module then N\<lparr>module_flags := module_flags N @ [r]\<rparr>
         else if package_dir \<noteq> [] \<and> pos \<noteq> None \<and> slash = None then N\<lparr>package_flags := package_flags N @ [r]\<rparr>
         else if package_dir \<noteq> [] \<and> pos \<noteq> None \<and> slash \<noteq> None then
           N\<lparr>subpackage_flags := subpackage_flags N @ [r]\<rparr>
         else N)"

definition CategorizeAllMatchingFlags :: "flag_ref list \<Rightarrow> string \<Rightarrow> string \<Rightarrow> string \<Rightarrow> NotableFlags" where
  "CategorizeAllMatchingFlags all_matches search_token module package_dir =
     fold (categorize_step search_token module package_dir) all_matches
       \<lparr>perfect_match_flag = [], module_flags = [], package_flags = [], most_common_flags = [], subpackage_flags = []\<rparr>"

text \<open>The file of the first flag that is named like the program, and its directory.\<close>

definition PushNameWithSuffix :: "gflags \<Rightarrow> string \<Rightarrow> string" where
  "PushNameWithSuffix G suf = ''/'' @ ProgramInvocationShortName G @ suf"

definition TryFindModuleAndPackageDir :: "gflags \<Rightarrow> flag_info list \<Rightarrow> string \<times> string" where
  "TryFindModuleAndPackageDir G all_flags =
     (let suffixes = map (PushNameWithSuffix G)
            [''.'', ''-main.'', ''_main.'', ''-test.'', ''_test.'', ''-unittest.'', ''_unittest.''] in
      case find (\<lambda>flag. list_ex (\<lambda>suf. find_from suf (fi_filename flag) 0 \<noteq> None) suffixes) all_flags of
        None \<Rightarrow> ([], [])
      | Some flag \<Rightarrow> (fi_filename flag, Dirname (fi_filename flag)))"

section \<open>The line of a flag\<close>

definition FLAGS_int32 :: "string \<Rightarrow> registry \<Rightarrow> int" where
  "FLAGS_int32 name R = (case find_flag name R of
     Some fl \<Rightarrow> (case fl_current fl of Int32F w \<Rightarrow> sint w | _ \<Rightarrow> 0) | None \<Rightarrow> 0)"

text \<open>
  The description is cut to what is left of the line.  Where less than three columns are left, the
  count given to \<open>substr\<close> is negative, which as a \<open>size_t\<close> is the whole rest.
\<close>

definition GetShortFlagLine :: "int \<Rightarrow> string \<Rightarrow> flag_info \<Rightarrow> string" where
  "GetShortFlagLine columns line_indentation info =
     (let quote = (if fi_type info = ''string'' then [CHR 0x27] else []);
          front = line_indentation @ ''--'' @ fi_name info @ '' ['' @ quote @ fi_default_value info @ quote @ ''] '';
          remainder = columns - int (length front);
          back = (if remainder > 0 then
                    (if int (length (fi_description info)) > remainder then
                       (if remainder - 3 < 0 then fi_description info
                        else take (nat (remainder - 3)) (fi_description info)) @ ''...''
                     else fi_description info)
                  else [])
      in front @ back)"

text \<open>The doubled newlines: a newline, five blanks and a newline become one newline, as long as there are any.\<close>

definition doubled_newlines :: string where
  "doubled_newlines = LF # replicate 5 (CHR '' '') @ [LF]"

function join_newlines :: "string \<Rightarrow> string" where
  "join_newlines output_text = (case find_from doubled_newlines output_text 0 of
     None \<Rightarrow> output_text
   | Some p \<Rightarrow> join_newlines (take p output_text @ [LF] @ drop (p + length doubled_newlines) output_text))"
  by pat_completeness auto

lemma find_from_Some: "find_from pat s pos = Some p \<Longrightarrow> pos \<le> p \<and> p \<le> length s \<and> prefix pat (drop p s)"
  by (auto simp: find_from_def find_Some_iff simp del: upt_Suc)

lemma find_from_bound: "find_from pat s pos = Some p \<Longrightarrow> p + length pat \<le> length s"
  using find_from_Some[of pat s pos p] prefix_length_le[of pat "drop p s"] by auto

termination join_newlines
proof (relation "measure length")
  fix s p
  assume "find_from doubled_newlines s 0 = Some p"
  then have "p + 7 \<le> length s" using find_from_bound by (fastforce simp: doubled_newlines_def)
  then show "(take p s @ [LF] @ drop (p + length doubled_newlines) s, s) \<in> measure length"
    by (simp add: doubled_newlines_def)
qed simp

declare join_newlines.simps [simp del]

text \<open>
  Each newline becomes blanks up to the next line of the terminal.  The blanks are taken from the
  second one of a line of blanks on, so there is one less than \<open>columns\<close> at most.
\<close>

function pad_newlines :: "int \<Rightarrow> string \<Rightarrow> string result" where
  "pad_newlines columns output_text = (case find_from [LF] output_text 0 of
     None \<Rightarrow> Inr output_text
   | Some newline \<Rightarrow>
       if columns = 0 then Inl (Undefined ''division by zero'')
       else let missing_spaces = columns - int newline mod columns in
         pad_newlines columns (take newline output_text @
           replicate (nat (min missing_spaces (columns - 1))) (CHR '' '') @ drop (newline + 1) output_text))"
  by pat_completeness auto

lemma find_newline: "find_from [LF] s 0 = Some p \<Longrightarrow> p < length s \<and> s ! p = LF"
  using find_from_Some[of "[LF]" s 0 p] find_from_bound[of "[LF]" s 0 p]
  by (auto simp: prefix_def hd_drop_conv_nth[symmetric])

termination pad_newlines
proof (relation "measure (\<lambda>(_, s). length (filter (\<lambda>c. c = LF) s))")
  fix columns :: int and s p and missing :: int
  assume "find_from [LF] s 0 = Some p"
  then have "s = take p s @ LF # drop (Suc p) s" using find_newline[of s p] by (metis id_take_nth_drop)
  then have "filter (\<lambda>c. c = LF) s = filter (\<lambda>c. c = LF) (take p s) @ LF # filter (\<lambda>c. c = LF) (drop (Suc p) s)"
    by (metis (mono_tags, lifting) filter.simps(2) filter_append)
  then show "((columns, take p s @ replicate (nat (min missing (columns - 1))) (CHR '' '') @ drop (p + 1) s), columns, s)
      \<in> measure (\<lambda>(_, s). length (filter (\<lambda>c. c = LF) s))"
    by simp
qed simp

declare pad_newlines.simps [simp del]

text \<open>
  The description of \<open>DescribeOneFlag\<close>, with two dashes, line breaks before the type and the default,
  and where the flag is defined.
\<close>

definition GetLongFlagLine :: "int \<Rightarrow> string \<Rightarrow> flag_info \<Rightarrow> string result" where
  "GetLongFlagLine columns line_indentation info =
     (let old_flagname = ''-'' @ fi_name info; indent = LF # replicate 4 (CHR '' '') in
      bnd (DescribeOneFlag info) (\<lambda>s.
      bnd (string_replace (find_from old_flagname s 0) (length old_flagname) (''-'' @ old_flagname) s) (\<lambda>s.
      bnd (string_replace (find_from '' type:'' s 0) 1 indent s) (\<lambda>s.
      bnd (string_replace (find_from '' default:'' s 0) 1 indent s) (\<lambda>s.
      let s = line_indentation @ '' Details for '' @ [CHR 0x27] @ ''--'' @ fi_name info @ [CHR 0x27] @ '':'' @ [LF] @
              s @ ''    defined: '' @ fi_filename info
      in if columns < 0 then Inl (StdException ''std::length_error'')
         else pad_newlines columns (join_newlines s))))))"

section \<open>The groups of lines\<close>

record DisplayInfoGroup =
  dg_header :: string
  dg_footer :: string
  dg_group :: "flag_ref list"

definition SizeInLines :: "DisplayInfoGroup \<Rightarrow> int" where
  "SizeInLines g = int (length (dg_group g)) + 1 + (if dg_header g \<noteq> [] then 1 else 0) + (if dg_footer g \<noteq> [] then 1 else 0)"

text \<open>A group is taken if it has flags and the lines so far do not exceed the limit.\<close>

definition take_group :: "int \<Rightarrow> DisplayInfoGroup \<Rightarrow> int \<times> DisplayInfoGroup list \<Rightarrow> int \<times> DisplayInfoGroup list" where
  "take_group max_desired_lines g st = (let (lines_so_far, output_groups) = st in
     if lines_so_far < max_desired_lines \<and> dg_group g \<noteq> []
     then (lines_so_far + SizeInLines g, output_groups @ [g]) else st)"

definition RetrieveUnusedFlags :: "flag_ref list \<Rightarrow> NotableFlags \<Rightarrow> flag_ref list" where
  "RetrieveUnusedFlags matching_flags N = filter (\<lambda>r. \<not> (r \<in> set (perfect_match_flag N) \<or> r \<in> set (module_flags N) \<or>
     r \<in> set (package_flags N) \<or> r \<in> set (most_common_flags N) \<or> r \<in> set (subpackage_flags N))) matching_flags"

definition notable_groups :: "NotableFlags \<Rightarrow> DisplayInfoGroup list" where
  "notable_groups N =
    [\<lparr>dg_header = [], dg_footer = ''=========='', dg_group = perfect_match_flag N\<rparr>,
     \<lparr>dg_header = ''-* Matching module flags *-'', dg_footer = replicate 27 (CHR ''=''), dg_group = module_flags N\<rparr>,
     \<lparr>dg_header = ''-* Matching package flags *-'', dg_footer = replicate 28 (CHR ''=''), dg_group = package_flags N\<rparr>,
     \<lparr>dg_header = ''-* Commonly used flags *-'', dg_footer = replicate 25 (CHR ''=''), dg_group = most_common_flags N\<rparr>,
     \<lparr>dg_header = ''-* Matching sub-package flags *-'', dg_footer = replicate 32 (CHR ''=''), dg_group = subpackage_flags N\<rparr>]"

definition choose_groups :: "int \<Rightarrow> flag_ref list \<Rightarrow> NotableFlags \<Rightarrow> DisplayInfoGroup list" where
  "choose_groups max_desired_lines matching_flags N =
     (let st = fold (take_group max_desired_lines) (notable_groups N) (0, []) in
      snd (take_group max_desired_lines
        \<lparr>dg_header = ''-* Other flags *-'', dg_footer = [], dg_group = RetrieveUnusedFlags matching_flags N\<rparr> st))"

text \<open>The output: the lines that may still be printed, the flags printed, the lines.\<close>

type_synonym output_state = "int \<times> nat \<times> string list"

fun output_flags :: "(flag_info \<Rightarrow> string result) \<Rightarrow> flag_ref list \<Rightarrow> output_state \<Rightarrow> output_state result" where
  "output_flags line [] st = Inr st"
| "output_flags line (r # rs) st = (let (remaining, shown, completions) = st in
     if remaining > 0 then
       bnd (line (snd r)) (\<lambda>l. output_flags line rs (remaining - 1, shown + 1, completions @ [l]))
     else Inr st)"

definition OutputSingleGroupWithLimit ::
  "int \<Rightarrow> nat \<Rightarrow> bool \<Rightarrow> DisplayInfoGroup \<Rightarrow> output_state \<Rightarrow> output_state result" where
  "OutputSingleGroupWithLimit columns indent long_output_format g st =
     (let (remaining, shown, completions) = st; line_indentation = replicate indent (CHR '' '') in
      if dg_group g = [] then Inr st
      else if dg_header g \<noteq> [] \<and> remaining < 2 then Inr st
      else
        (let st = (if dg_header g = [] then st
                   else (remaining - 2, shown, completions @ [line_indentation @ dg_header g,
                           line_indentation @ replicate (length (dg_header g)) (CHR ''-'')])) in
         bnd (output_flags (\<lambda>info. if long_output_format then GetLongFlagLine columns line_indentation info
                                   else Inr (GetShortFlagLine columns line_indentation info)) (dg_group g) st)
           (\<lambda>(remaining, shown, completions).
              if dg_footer g = [] then Inr (remaining, shown, completions)
              else if remaining < 1 then Inr (remaining, shown, completions)
              else Inr (remaining - 1, shown, completions @ [line_indentation @ dg_footer g]))))"

text \<open>The indentation falls from group to group; only the perfect match is printed at length.\<close>

fun output_groups :: "int \<Rightarrow> bool \<Rightarrow> DisplayInfoGroup list \<Rightarrow> output_state \<Rightarrow> output_state result" where
  "output_groups columns long_output_format [] st = Inr st"
| "output_groups columns long_output_format (g # gs) st =
     bnd (OutputSingleGroupWithLimit columns (length gs) long_output_format g st) (output_groups columns False gs)"

definition max_desired_lines :: "CompletionOptions \<Rightarrow> int" where
  "max_desired_lines options = (if return_all_matching_flags options then 999999 else 98)"

definition hidden_line :: string where "hidden_line = ''~ (Remaining flags hidden) ~''"

definition FinalizeCompletionOutput ::
  "int \<Rightarrow> flag_ref list \<Rightarrow> CompletionOptions \<Rightarrow> NotableFlags \<Rightarrow> (CompletionOptions \<times> string list) result" where
  "FinalizeCompletionOutput columns matching_flags options N =
     (let max_lines = max_desired_lines options in
      bnd (output_groups columns (perfect_match_flag N \<noteq> []) (choose_groups max_lines matching_flags N) (max_lines, 0, []))
        (\<lambda>(_, completions_output, completions).
          if completions_output \<noteq> length matching_flags
          then Inr (options\<lparr>force_no_update := False\<rparr>, completions @ [hidden_line])
          else Inr (options\<lparr>force_no_update := True\<rparr>, completions)))"

section \<open>The text printed\<close>

text \<open>The lines for the flags that match; none if nothing matches or their common prefix says more.\<close>

definition completion_lines :: "int \<Rightarrow> gflags \<Rightarrow> flag_info list \<Rightarrow> CompletionOptions \<Rightarrow> string \<Rightarrow> flag_ref list \<Rightarrow> string list result" where
  "completion_lines columns G all_flags options canonical_token matching_flags =
     (let (module, package_dir) = TryFindModuleAndPackageDir G all_flags;
          N = CategorizeAllMatchingFlags matching_flags canonical_token module package_dir in
      bnd (FinalizeCompletionOutput columns matching_flags options N) (\<lambda>(options, completions).
        Inr (if force_no_update options then completions @ [''~''] else completions)))"

definition PrintFlagCompletionInfo :: "flag_env \<Rightarrow> gflags \<Rightarrow> string result" where
  "PrintFlagCompletionInfo env G =
     (let cursor_word = FLAGS_string ''tab_completion_word'' (gf_registry G);
          (canonical_token, options) = CanonicalizeCursorWordAndSearchOptions cursor_word;
          (all_flags, G) = GetAllFlags env G;
          (matching_flags, longest_common_prefix) = FindMatchingFlags all_flags options canonical_token
      in if length longest_common_prefix > length canonical_token then Inr (''--'' @ longest_common_prefix)
         else if matching_flags = [] then Inr []
         else bnd (completion_lines (FLAGS_int32 ''tab_completion_columns'' (gf_registry G)) G all_flags options
                     canonical_token matching_flags)
                (\<lambda>completions. Inr (concat (map (\<lambda>l. l @ [LF]) completions))))"

text \<open>After the text the program ends with status 0.\<close>

definition HandleCommandLineCompletions :: "flag_env \<Rightarrow> gflags \<Rightarrow> string \<times> unit result" where
  "HandleCommandLineCompletions env G =
     (if FLAGS_string ''tab_completion_word'' (gf_registry G) = [] then ([], Inr ())
      else case PrintFlagCompletionInfo env G of Inl e \<Rightarrow> ([], Inl e) | Inr s \<Rightarrow> (s, Inl (ExitWith 0)))"

end
