(* ===== verification/FlagComplete.thy ===== *)
theory FlagComplete
  imports FlagCompletion "HOL-Library.Multiset"
begin

text \<open>
  Correctness of the completion of flag names: the common prefix is the longest one, a screen is not
  exceeded, and no matching flag is left out without notice.
\<close>

section \<open>The common prefix\<close>

lemma cut_prefix_iff: "prefix q (cut_prefix p s) \<longleftrightarrow> prefix q p \<and> prefix q s"
proof (induction p s arbitrary: q rule: cut_prefix.induct)
  case (1 a p b s)
  then show ?case by (cases q) auto
qed auto

definition flag_matches :: "CompletionOptions \<Rightarrow> string \<Rightarrow> flag_ref \<Rightarrow> bool" where
  "flag_matches options token r = DoesSingleFlagMatch (snd r) options token"

lemma match_fold:
  assumes "fold (match_step options token) rs ([], True, []) = (ms, first, common)"
  shows "ms = filter (flag_matches options token) rs \<and> (first \<longleftrightarrow> ms = []) \<and>
    (ms \<noteq> [] \<longrightarrow> (\<forall>q. prefix q common \<longleftrightarrow> (\<forall>r \<in> set ms. prefix q (fi_name (snd r)))))"
  using assms
proof (induction rs arbitrary: ms first common rule: rev_induct)
  case (snoc r rs)
  obtain ms' first' common' where f: "fold (match_step options token) rs ([], True, []) = (ms', first', common')"
    by (metis prod_cases3)
  have "match_step options token r (ms', first', common') = (ms, first, common)" using snoc.prems f by simp
  with snoc.IH[OF f] show ?case
    by (auto simp: match_step_def flag_matches_def cut_prefix_iff Let_def split: if_splits)
qed auto

text \<open>
  Of the flags that match the word at the cursor, the common prefix that is printed is the longest:
  it begins every one of their names, and so does no longer text.
\<close>

lemma completion_prefix_is_longest:
  assumes "FindMatchingFlags flags options token = (ms, common)" "ms \<noteq> []"
  shows "ms = filter (\<lambda>r. DoesSingleFlagMatch (snd r) options token) (flag_refs flags) \<and>
    (\<forall>q. prefix q common \<longleftrightarrow> (\<forall>r \<in> set ms. prefix q (fi_name (snd r))))"
proof -
  obtain first where "fold (match_step options token) (flag_refs flags) ([], True, []) = (ms, first, common)"
    using assms(1) by (auto simp: FindMatchingFlags_def case_prod_unfold Let_def prod_eq_iff)
  then show ?thesis using match_fold assms(2) by (fastforce simp: flag_matches_def[abs_def])
qed

definition sample_flag :: "string \<Rightarrow> string \<Rightarrow> flag_info" where
  "sample_flag name description = \<lparr>fi_name = name, fi_type = ''int32'', fi_description = description,
     fi_current_value = ''8091'', fi_default_value = ''8091'', fi_filename = ''main.cpp'', fi_is_default = True,
     fi_has_validator = False, fi_ptr = 0\<rparr>"

definition sample_flags :: "flag_info list" where
  "sample_flags = [sample_flag ''help'' ''show help'', sample_flag ''port'' ''the port'', sample_flag ''portal'' ''a door'']"

section \<open>The lines\<close>

text \<open>What is printed and what may still be printed add up; a flag is shown by its line.\<close>

definition shows_flag :: "int \<Rightarrow> string list \<Rightarrow> flag_ref \<Rightarrow> bool" where
  "shows_flag columns ls r \<longleftrightarrow> (\<exists>n. GetShortFlagLine columns (replicate n (CHR '' '')) (snd r) \<in> set ls \<or>
     (\<exists>l \<in> set ls. GetLongFlagLine columns (replicate n (CHR '' '')) (snd r) = Inr l))"

definition prints :: "(string list \<Rightarrow> flag_ref \<Rightarrow> bool) \<Rightarrow> flag_ref list \<Rightarrow> output_state \<Rightarrow> output_state \<Rightarrow> bool" where
  "prints P rs st st' \<longleftrightarrow> (case st of (remaining, shown, ls) \<Rightarrow> case st' of (remaining', shown', ls') \<Rightarrow>
     (0 \<le> remaining \<longrightarrow> 0 \<le> remaining') \<and> remaining' + int (length ls') = remaining + int (length ls) \<and>
     set ls \<subseteq> set ls' \<and> shown' \<le> shown + length rs \<and>
     (shown' = shown + length rs \<longrightarrow> (\<forall>r \<in> set rs. P ls' r)))"

lemma output_flags_prints:
  assumes "output_flags line rs st = Inr st'" "\<And>r l ls. line (snd r) = Inr l \<Longrightarrow> l \<in> set ls \<Longrightarrow> P ls r"
  shows "prints P rs st st'"
  using assms(1)
proof (induction rs arbitrary: st)
  case Nil
  then show ?case by (simp add: prints_def split: prod.splits)
next
  case (Cons r rs)
  obtain remaining shown ls where st: "st = (remaining, shown, ls)" by (metis prod_cases3)
  show ?case
  proof (cases "remaining > 0")
    case True
    then obtain l where l: "line (snd r) = Inr l" "output_flags line rs (remaining - 1, shown + 1, ls @ [l]) = Inr st'"
      using Cons.prems by (auto simp: st Let_def bnd_eq_Inr)
    from Cons.IH[OF l(2)] show ?thesis
      using True assms(2)[OF l(1)] by (auto simp: prints_def st)
  next
    case False
    then show ?thesis using Cons.prems by (auto simp: st Let_def prints_def)
  qed
qed

lemma shows_flag_mono: "set ls \<subseteq> set ls' \<Longrightarrow> shows_flag columns ls r \<Longrightarrow> shows_flag columns ls' r"
  unfolding shows_flag_def by blast

lemma prints_refl: "rs = [] \<Longrightarrow> prints P rs st st"
  by (auto simp: prints_def split: prod.splits)

text \<open>Lines without a flag before and after: as many as are taken from what may be printed.\<close>

lemma prints_frame:
  assumes "prints (shows_flag columns) rs (rem, shown, ls) (rem', shown', ls')"
    "0 \<le> rem0 \<longrightarrow> 0 \<le> rem" "rem + int (length ls) = rem0 + int (length ls0)" "set ls0 \<subseteq> set ls"
    "0 \<le> rem' \<longrightarrow> 0 \<le> rem1" "rem1 + int (length ls1) = rem' + int (length ls')" "set ls' \<subseteq> set ls1"
  shows "prints (shows_flag columns) rs (rem0, shown, ls0) (rem1, shown', ls1)"
  using assms shows_flag_mono[OF assms(7)] by (auto simp: prints_def)

text \<open>The state after the header of a group, and what the footer does.\<close>

definition after_header :: "nat \<Rightarrow> DisplayInfoGroup \<Rightarrow> output_state \<Rightarrow> output_state" where
  "after_header indent g st = (let (remaining, shown, ls) = st; ind = replicate indent (CHR '' '') in
     if dg_header g = [] then st
     else (remaining - 2, shown, ls @ [ind @ dg_header g, ind @ replicate (length (dg_header g)) (CHR ''-'')]))"

definition add_footer :: "nat \<Rightarrow> DisplayInfoGroup \<Rightarrow> output_state \<Rightarrow> output_state" where
  "add_footer indent g st = (let (remaining, shown, ls) = st in
     if dg_footer g = [] \<or> remaining < 1 then st
     else (remaining - 1, shown, ls @ [replicate indent (CHR '' '') @ dg_footer g]))"

definition flag_line_of :: "int \<Rightarrow> nat \<Rightarrow> bool \<Rightarrow> flag_info \<Rightarrow> string result" where
  "flag_line_of columns indent long info = (if long then GetLongFlagLine columns (replicate indent (CHR '' '')) info
     else Inr (GetShortFlagLine columns (replicate indent (CHR '' '')) info))"

lemma group_unfold:
  "OutputSingleGroupWithLimit columns indent long g st =
    (if dg_group g = [] \<or> dg_header g \<noteq> [] \<and> fst st < 2 then Inr st
     else bnd (output_flags (flag_line_of columns indent long) (dg_group g) (after_header indent g st))
       (\<lambda>st. Inr (add_footer indent g st)))"
proof -
  obtain remaining shown ls where st: "st = (remaining, shown, ls)" by (metis prod_cases3)
  have "(\<lambda>(remaining, shown, completions). if dg_footer g = [] then Inr (remaining, shown, completions)
              else if remaining < 1 then Inr (remaining, shown, completions)
              else Inr (remaining - 1, shown, completions @ [replicate indent (CHR '' '') @ dg_footer g])) =
      (\<lambda>st. Inr (add_footer indent g st) :: output_state result)"
    by (auto simp: add_footer_def)
  then show ?thesis
    by (simp add: OutputSingleGroupWithLimit_def st Let_def after_header_def flag_line_of_def[abs_def])
qed

lemma group_prints:
  assumes "OutputSingleGroupWithLimit columns indent long g st = Inr st'"
  shows "prints (shows_flag columns) (dg_group g) st st'"
proof (cases "dg_group g = [] \<or> dg_header g \<noteq> [] \<and> fst st < 2")
  case True
  then have "st' = st" using assms by (simp add: group_unfold)
  then show ?thesis using True by (auto simp: prints_def split: prod.splits)
next
  case False
  have "bnd (output_flags (flag_line_of columns indent long) (dg_group g) (after_header indent g st))
       (\<lambda>st. Inr (add_footer indent g st)) = Inr st'"
    using assms unfolding group_unfold if_not_P[OF False] .
  then obtain st2 where out: "output_flags (flag_line_of columns indent long) (dg_group g) (after_header indent g st) = Inr st2"
    and st': "st' = add_footer indent g st2" by (auto simp only: bnd_eq_Inr sum.inject)
  have p: "prints (shows_flag columns) (dg_group g) (after_header indent g st) st2"
    by (rule output_flags_prints[OF out]) (auto simp: shows_flag_def flag_line_of_def split: if_splits)
  obtain r0 s0 l0 r1 s1 l1 r2 s2 l2 r3 s3 l3 where eqs: "st = (r0, s0, l0)" "after_header indent g st = (r1, s1, l1)"
    "st2 = (r2, s2, l2)" "st' = (r3, s3, l3)" by (metis prod_cases3)
  have "s1 = s0 \<and> (0 \<le> r0 \<longrightarrow> 0 \<le> r1) \<and> r1 + int (length l1) = r0 + int (length l0) \<and> set l0 \<subseteq> set l1"
    using False eqs(1,2) by (auto simp: after_header_def Let_def split: if_splits)
  moreover have "s3 = s2 \<and> (0 \<le> r2 \<longrightarrow> 0 \<le> r3) \<and> r3 + int (length l3) = r2 + int (length l2) \<and> set l2 \<subseteq> set l3"
    using st' eqs(3,4) by (auto simp: add_footer_def split: if_splits)
  moreover have "prints (shows_flag columns) (dg_group g) (r1, s1, l1) (r2, s2, l2)" using p eqs(2,3) by simp
  ultimately show ?thesis
    using prints_frame[of columns "dg_group g" r1 s0 l1 r2 s2 l2 r0 l0 r3 l3] unfolding eqs(1,4) by blast
qed

lemma prints_append:
  assumes "prints (shows_flag columns) rs st st1" "prints (shows_flag columns) rs' st1 st2"
  shows "prints (shows_flag columns) (rs @ rs') st st2"
proof -
  obtain r0 s0 l0 r1 s1 l1 r2 s2 l2 where st: "st = (r0, s0, l0)" "st1 = (r1, s1, l1)" "st2 = (r2, s2, l2)"
    by (metis prod_cases3)
  show ?thesis using assms shows_flag_mono[of l1 l2] by (auto simp: prints_def st)
qed

lemma groups_print:
  "output_groups columns long gs st = Inr st' \<Longrightarrow> prints (shows_flag columns) (concat (map dg_group gs)) st st'"
proof (induction gs arbitrary: long st)
  case (Cons g gs)
  then obtain st1 where g: "OutputSingleGroupWithLimit columns (length gs) long g st = Inr st1"
    "output_groups columns False gs st1 = Inr st'" by (auto simp: bnd_eq_Inr)
  show ?case using prints_append[OF group_prints[OF g(1)] Cons.IH[OF g(2)]] by simp
qed (simp add: prints_refl)

section \<open>Every flag in one group\<close>

definition category :: "string \<Rightarrow> string \<Rightarrow> string \<Rightarrow> flag_ref \<Rightarrow> nat" where
  "category token module package_dir r =
     (let file = fi_filename (snd r) in
      if fi_name (snd r) = token then 1
      else if module \<noteq> [] \<and> file = module then 2
      else if package_dir = [] then 0
      else (case find_from package_dir file 0 of None \<Rightarrow> 0
        | Some p \<Rightarrow> if find_from ''/'' file (p + length package_dir + 1) = None then 3 else 4))"

lemma categorize_step_category:
  "categorize_step token module package_dir r N = (let c = category token module package_dir r in
     if c = 1 then N\<lparr>perfect_match_flag := perfect_match_flag N @ [r]\<rparr>
     else if c = 2 then N\<lparr>module_flags := module_flags N @ [r]\<rparr>
     else if c = 3 then N\<lparr>package_flags := package_flags N @ [r]\<rparr>
     else if c = 4 then N\<lparr>subpackage_flags := subpackage_flags N @ [r]\<rparr> else N)"
  by (simp add: categorize_step_def category_def Let_def split: option.split)

abbreviation of_category :: "(flag_ref \<Rightarrow> nat) \<Rightarrow> nat \<Rightarrow> flag_ref list \<Rightarrow> flag_ref list" where
  "of_category c k ms \<equiv> filter (\<lambda>r. c r = k) ms"

lemma categorize_filter:
  "CategorizeAllMatchingFlags ms token module package_dir = (let c = category token module package_dir in
    \<lparr>perfect_match_flag = of_category c 1 ms, module_flags = of_category c 2 ms,
     package_flags = of_category c 3 ms, most_common_flags = [], subpackage_flags = of_category c 4 ms\<rparr>)"
  unfolding CategorizeAllMatchingFlags_def Let_def
proof (induction ms rule: rev_induct)
  case (snoc r ms)
  show ?case unfolding fold_append comp_apply snoc.IH
    by (simp add: categorize_step_category Let_def)
qed simp

lemma partition_categories:
  "mset ms = mset (of_category c 1 ms) + mset (of_category c 2 ms) + mset (of_category c 3 ms) +
    mset (of_category c 4 ms) + mset (filter (\<lambda>r. c r \<noteq> 1 \<and> c r \<noteq> 2 \<and> c r \<noteq> 3 \<and> c r \<noteq> 4) ms)"
proof (induction ms)
  case (Cons r ms)
  consider "c r = 1" | "c r = 2" | "c r = 3" | "c r = 4" | "c r \<noteq> 1 \<and> c r \<noteq> 2 \<and> c r \<noteq> 3 \<and> c r \<noteq> 4" by blast
  then show ?case using Cons by cases (simp_all add: union_assoc)
qed simp

lemma take_groups_mset:
  "mset (concat (map dg_group (snd (fold (take_group m) gs st)))) \<subseteq>#
     mset (concat (map dg_group (snd st))) + mset (concat (map dg_group gs))"
proof (induction gs arbitrary: st)
  case (Cons g gs)
  have "mset (concat (map dg_group (snd (take_group m g st)))) \<subseteq># mset (concat (map dg_group (snd st))) + mset (dg_group g)"
    by (cases st) (simp add: take_group_def)
  then have "mset (concat (map dg_group (snd (take_group m g st)))) + mset (concat (map dg_group gs)) \<subseteq>#
      mset (concat (map dg_group (snd st))) + mset (dg_group g) + mset (concat (map dg_group gs))"
    by (rule mset_subset_eq_mono_add) simp
  with Cons.IH[of "take_group m g st"] have "mset (concat (map dg_group (snd (fold (take_group m) gs (take_group m g st))))) \<subseteq>#
      mset (concat (map dg_group (snd st))) + mset (dg_group g) + mset (concat (map dg_group gs))"
    by (rule subset_mset.order_trans)
  then show ?case by (simp add: add.assoc)
qed simp

text \<open>The groups hold no flag twice, and none that did not match.\<close>

lemma chosen_flags:
  assumes "N = CategorizeAllMatchingFlags ms token module package_dir"
  shows "mset (concat (map dg_group (choose_groups m ms N))) \<subseteq># mset ms"
proof -
  define c where "c = category token module package_dir"
  have N: "N = \<lparr>perfect_match_flag = of_category c 1 ms, module_flags = of_category c 2 ms,
     package_flags = of_category c 3 ms, most_common_flags = [], subpackage_flags = of_category c 4 ms\<rparr>"
    unfolding assms categorize_filter c_def Let_def by (rule refl)
  have unused: "RetrieveUnusedFlags ms N = filter (\<lambda>r. c r \<noteq> 1 \<and> c r \<noteq> 2 \<and> c r \<noteq> 3 \<and> c r \<noteq> 4) ms"
    unfolding RetrieveUnusedFlags_def N by (rule filter_cong) auto
  let ?gs = "notable_groups N @ [\<lparr>dg_header = ''-* Other flags *-'', dg_footer = [], dg_group = RetrieveUnusedFlags ms N\<rparr>]"
  have "choose_groups m ms N = snd (fold (take_group m) ?gs (0, []))"
    by (simp add: choose_groups_def Let_def)
  then have "mset (concat (map dg_group (choose_groups m ms N))) \<subseteq># mset (concat (map dg_group ?gs))"
    using take_groups_mset[of m ?gs "(0, [])"] by simp
  also have "mset (concat (map dg_group ?gs)) = mset ms"
    unfolding unused using partition_categories[of ms c] by (simp add: notable_groups_def N add.assoc)
  finally show ?thesis .
qed

text \<open>
  C38. Unless the word at the cursor asks for all flags with a plus, at most 99 completions are printed.
  No matching flag is left out in silence: if a flag has no completion of its own, the last one says
  that flags are hidden.
\<close>

theorem completion_fits_and_hides_nothing_silently:
  assumes "completion_lines columns G flags options token ms = Inr ls"
  shows "(\<not> return_all_matching_flags options \<longrightarrow> length ls \<le> 99) \<and>
    (last ls = hidden_line \<or> (\<forall>r \<in> set ms. shows_flag columns ls r))"
proof -
  obtain module package_dir where dirs: "TryFindModuleAndPackageDir G flags = (module, package_dir)" by (metis surj_pair)
  define N where "N = CategorizeAllMatchingFlags ms token module package_dir"
  define gs where "gs = choose_groups (max_desired_lines options) ms N"
  from assms obtain options' ls' where fin: "FinalizeCompletionOutput columns ms options N = Inr (options', ls')"
    and ls: "ls = (if force_no_update options' then ls' @ [''~''] else ls')"
    by (auto simp: completion_lines_def dirs N_def[symmetric] bnd_eq_Inr)
  from fin obtain rem shown out where
    out: "output_groups columns (perfect_match_flag N \<noteq> []) gs (max_desired_lines options, 0, []) = Inr (rem, shown, out)"
    and ls': "if shown \<noteq> length ms then \<not> force_no_update options' \<and> ls' = out @ [hidden_line]
      else force_no_update options' \<and> ls' = out"
    by (auto simp: FinalizeCompletionOutput_def gs_def[symmetric] Let_def bnd_eq_Inr split: if_splits)
  have p: "0 \<le> rem" "rem + int (length out) = max_desired_lines options" "shown \<le> length (concat (map dg_group gs))"
    "shown = length (concat (map dg_group gs)) \<Longrightarrow> \<forall>r \<in> set (concat (map dg_group gs)). shows_flag columns out r"
    using groups_print[OF out] by (auto simp: prints_def max_desired_lines_def split: if_splits)
  have sub: "mset (concat (map dg_group gs)) \<subseteq># mset ms" unfolding gs_def by (rule chosen_flags[OF N_def])
  have "shows_flag columns ls r" if "shown = length ms" "r \<in> set ms" for r
  proof -
    have "length (concat (map dg_group gs)) \<le> length ms" using size_mset_mono[OF sub] by simp
    then have all: "shown = length (concat (map dg_group gs))" using p(3) that(1) by linarith
    then have "mset (concat (map dg_group gs)) = mset ms"
      using sub that(1) by (metis mset_subset_size size_mset subset_mset.le_imp_less_or_eq less_irrefl)
    then have "set (concat (map dg_group gs)) = set ms" by (rule mset_eq_setD)
    then have "shows_flag columns out r" using p(4)[OF all] that(2) by blast
    then show ?thesis using ls ls' that(1) by (auto intro: shows_flag_mono[rotated])
  qed
  moreover have "last ls = hidden_line" if "shown \<noteq> length ms" using ls ls' that by simp
  moreover have "length ls \<le> length out + 1" using ls ls' by (auto split: if_splits)
  ultimately show ?thesis using p(1,2) by (auto simp: max_desired_lines_def split: if_splits)
qed

lemma sample_completion: "completion_lines 80 (new_gflags new_registry) sample_flags no_options ''p'' (tl (flag_refs sample_flags)) =
  Inr [''-* Other flags *-'', ''-----------------'', ''--port [8091] the port'', ''--portal [8091] a door'', ''~'']"
  by code_simp

theorem completion_fits_and_hides_nothing_silently_witness:
  "list_all (shows_flag 80
     [''-* Other flags *-'', ''-----------------'', ''--port [8091] the port'', ''--portal [8091] a door'', ''~''])
     (tl (flag_refs sample_flags))"
  unfolding list_all_iff using completion_fits_and_hides_nothing_silently[OF sample_completion] by (simp add: hidden_line_def)

end
