(* ===== verification/FlagHelp.thy ===== *)
theory FlagHelp
  imports FlagReporting
begin

text \<open>
  The help text of a flag: the loop that wraps it reads no character behind the end of the text, loses
  no word, and keeps every line below 80 characters if no word is too long for that.
\<close>

section \<open>Columns\<close>

text \<open>The column after a text printed from a column on, and whether it stays below \<open>kLineLength\<close>.\<close>

fun column :: "nat \<Rightarrow> string \<Rightarrow> nat" where
  "column n [] = n"
| "column n (c # s) = column (if c = LF then 0 else n + 1) s"

fun lines_fit :: "nat \<Rightarrow> string \<Rightarrow> bool" where
  "lines_fit n [] = (n < kLineLength)"
| "lines_fit n (c # s) = (n < kLineLength \<and> lines_fit (if c = LF then 0 else n + 1) s)"

lemma column_append: "column n (s @ t) = column (column n s) t"
  by (induction n s rule: column.induct) simp_all

lemma lines_fit_column: "lines_fit n s \<Longrightarrow> n < kLineLength \<and> column n s < kLineLength"
  by (induction n s rule: lines_fit.induct) (auto split: if_splits)

lemma lines_fit_append: "lines_fit n (s @ t) \<longleftrightarrow> lines_fit n s \<and> lines_fit (column n s) t"
  by (induction n s rule: lines_fit.induct) (auto dest: lines_fit_column)

lemma column_line: "LF \<notin> set s \<Longrightarrow> column n s = n + length s"
  by (induction s arbitrary: n) auto

lemma lines_fit_line: "LF \<notin> set s \<Longrightarrow> lines_fit n s \<longleftrightarrow> n + length s < kLineLength"
proof (induction s arbitrary: n)
  case (Cons c s)
  then have "lines_fit (n + 1) s \<longleftrightarrow> n + 1 + length s < kLineLength" by simp
  moreover have "c \<noteq> LF" using Cons.prems by auto
  ultimately show ?case by simp linarith
qed simp

lemma wrap_indent_list: "wrap_indent = [LF, CHR '' '', CHR '' '', CHR '' '', CHR '' '', CHR '' '', CHR '' '']"
  by code_simp

lemma column_indent [simp]: "column n wrap_indent = 6"
  by (simp add: wrap_indent_list)

lemma lines_fit_indent [simp]: "lines_fit n wrap_indent \<longleftrightarrow> n < kLineLength"
  by (simp add: wrap_indent_list kLineLength_def)

section \<open>Words\<close>

definition nonblank :: "string \<Rightarrow> string" where
  "nonblank s = filter (\<lambda>c. \<not> is_space c) s"

lemma nonblank_Nil [simp]: "nonblank [] = []"
  by (simp add: nonblank_def)

lemma nonblank_append [simp]: "nonblank (s @ t) = nonblank s @ nonblank t"
  by (simp add: nonblank_def)

lemma nonblank_newline [simp]: "nonblank [LF] = []"
  by (simp add: nonblank_def is_space_def)

lemma nonblank_indent [simp]: "nonblank wrap_indent = []"
  by (simp add: nonblank_def wrap_indent_def is_space_def)

definition short_words :: "string \<Rightarrow> bool" where
  "short_words s \<longleftrightarrow> (\<forall>w. sublist w s \<longrightarrow> nonblank w = w \<longrightarrow> length w \<le> 70)"

lemma short_words_drop: "short_words s \<Longrightarrow> short_words (drop n s)"
  unfolding short_words_def by (meson sublist_drop sublist_order.order_trans)

section \<open>The pointers into the text\<close>

lemma last_space_ok:
  assumes "w \<le> length s"
  shows "\<exists>w'. last_space s w = Inr w' \<and> w' \<le> w \<and> (w' \<noteq> 0 \<longrightarrow> w' < length s \<and> is_space (s ! w')) \<and>
    (\<forall>i. w' < i \<longrightarrow> i \<le> w \<longrightarrow> i < length s \<longrightarrow> \<not> is_space (s ! i))"
  using assms
proof (induction s w rule: last_space.induct)
  case (2 s w)
  have "\<not> is_space (CHR 0x00)" by (simp add: is_space_def)
  then show ?case using 2 by (auto simp: cstr_at_def le_Suc_eq)
qed simp

lemma skip_spaces_ok:
  assumes "w \<le> length s"
  shows "skip_spaces s w = Inr (w + length (takeWhile is_space (drop w s)))"
  using assms
proof (induction s w rule: skip_spaces.induct)
  case (1 s w)
  have nul: "\<not> is_space (CHR 0x00)" by (simp add: is_space_def)
  show ?case
  proof (cases "w < length s")
    case True
    then have "is_space (s ! w) \<Longrightarrow> skip_spaces s (w + 1) = Inr (w + 1 + length (takeWhile is_space (drop (Suc w) s)))"
      using 1(1) True by (simp add: cstr_at_def)
    then show ?thesis
      using True by (simp add: skip_spaces.simps[of s w] cstr_at_def Cons_nth_drop_Suc[symmetric])
  next
    case False
    then show ?thesis using 1(2) nul by (simp add: skip_spaces.simps[of s "length s"] cstr_at_def)
  qed
qed

section \<open>The loop\<close>

text \<open>
  What the loop appends, when it ends normally: the words of the text; and if the text ends with a
  word and has no word too long, the lines fit and the column it returns is not too small.
\<close>

definition describes :: "string \<Rightarrow> nat \<Rightarrow> string \<Rightarrow> (string \<times> nat) result \<Rightarrow> bool" where
  "describes c n out r \<longleftrightarrow> returns r (\<lambda>(s, n'). \<exists>t. s = out @ t \<and> nonblank t = nonblank c \<and>
     (n \<le> 6 \<longrightarrow> short_words c \<longrightarrow> c \<noteq> [] \<longrightarrow> \<not> is_space (last c) \<longrightarrow>
       lines_fit n t \<and> column n t \<le> n' \<and> n' < kLineLength))"

lemma describes_step:
  assumes "describes rest 6 (out @ line @ wrap_indent) r" "LF \<notin> set line"
    "nonblank c = nonblank line @ nonblank rest" "rest = drop k c" "rest \<noteq> []"
    "n \<le> 6 \<Longrightarrow> n + length line < kLineLength"
  shows "describes c n out r"
proof -
  have rest: "last rest = last c" "short_words c \<Longrightarrow> short_words rest"
    using assms(4,5) short_words_drop by auto
  obtain s n' t where r: "r = Inr (s, n')" "s = out @ line @ wrap_indent @ t" "nonblank t = nonblank rest"
    "short_words rest \<Longrightarrow> \<not> is_space (last rest) \<Longrightarrow> lines_fit 6 t \<and> column 6 t \<le> n' \<and> n' < kLineLength"
    using assms(1,5) by (auto simp: describes_def returns_iff)
  have "lines_fit n line" if "n \<le> 6" using assms(2,6) that by (simp add: lines_fit_line)
  then have "lines_fit n (line @ wrap_indent @ t) \<and> column n (line @ wrap_indent @ t) \<le> n' \<and> n' < kLineLength"
    if "n \<le> 6" "short_words c" "\<not> is_space (last c)"
    using that r(4) rest lines_fit_column by (auto simp: lines_fit_append column_append)
  then show ?thesis
    unfolding describes_def r(1,2) using assms(3) r(3) by (auto intro!: exI[of _ "line @ wrap_indent @ t"])
qed

lemma drop_spaces: "drop (w + length (takeWhile P (drop w c))) c = dropWhile P (drop w c)"
  by (metis add.commute drop_drop dropWhile_eq_drop)

lemma nonblank_parts:
  "nonblank (take w c @ drop (w + length (takeWhile is_space (drop w c))) c) = nonblank c"
proof -
  have "nonblank (dropWhile is_space s) = nonblank s" for s
    by (induction s) (simp_all add: nonblank_def)
  moreover have "nonblank (take w c) @ nonblank (drop w c) = nonblank c"
    by (metis append_take_drop_id nonblank_append)
  ultimately show ?thesis by (simp add: drop_spaces)
qed

lemma nonblank_line: "LF \<in> set c \<Longrightarrow>
  nonblank c = nonblank (takeWhile (\<lambda>x. x \<noteq> LF) c) @ nonblank (drop (length (takeWhile (\<lambda>x. x \<noteq> LF) c) + 1) c)"
proof (induction c)
  case (Cons x c)
  have "is_space LF" by (simp add: is_space_def)
  then show ?case using Cons by (auto simp: nonblank_def)
qed simp

lemma takeWhile_shorter: "length (takeWhile (\<lambda>x. x \<noteq> a) s) < length s \<longleftrightarrow> a \<in> set s"
  by (induction s) auto

text \<open>Where the text is broken at white space: the position is in the text, and no newline comes before it.\<close>

lemma break_at_space:
  assumes "last_space c w0 = Inr w" "w \<noteq> 0" "w0 \<le> length c" "LF \<notin> set (take w0 c)"
  obtains next_word where "skip_spaces c w = Inr next_word" "w \<le> w0" "LF \<notin> set (take w c)"
    "nonblank c = nonblank (take w c) @ nonblank (drop next_word c)"
    "drop next_word c = [] \<longrightarrow> is_space (last c)"
proof -
  have w: "w \<le> w0" "w < length c" "is_space (c ! w)"
    using last_space_ok[OF assms(3)] assms(1,2) by auto
  let ?next = "w + length (takeWhile is_space (drop w c))"
  show ?thesis
  proof (rule that[of ?next])
    show "skip_spaces c w = Inr ?next" using w by (intro skip_spaces_ok) simp
    show "LF \<notin> set (take w c)" using assms(4) set_take_subset_set_take[OF w(1), of c] by blast
    show "nonblank c = nonblank (take w c) @ nonblank (drop ?next c)" using nonblank_parts[of w c] by simp
    show "drop ?next c = [] \<longrightarrow> is_space (last c)"
    proof
    assume "drop ?next c = []"
    then have "\<forall>x \<in> set (drop w c). is_space x" by (simp add: drop_spaces dropWhile_eq_Nil_conv)
    moreover have "last c \<in> set (drop w c)" using w(2) by (metis last_drop last_in_set drop_eq_Nil not_le)
    ultimately show "is_space (last c)" by blast
    qed
  qed (rule w)
qed

lemma no_space_long_word:
  assumes "last_space c w0 = Inr 0" "w0 \<le> length c" "w0 < length c" "70 < w0"
  shows "\<not> short_words c"
proof -
  let ?w = "take w0 (drop 1 c)"
  have "\<not> is_space x" if "x \<in> set ?w" for x
  proof -
    obtain i where "i < w0" "x = c ! (i + 1)" "i + 1 < length c"
      using \<open>x \<in> set ?w\<close> assms(3) by (auto simp: in_set_conv_nth)
    then show ?thesis using last_space_ok[OF assms(2)] assms(1) by auto
  qed
  then have "nonblank ?w = ?w" by (simp add: nonblank_def)
  moreover have "length ?w > 70" using assms(3,4) by simp
  moreover have "sublist ?w c" by (meson sublist_take sublist_drop sublist_order.order_trans)
  ultimately show ?thesis by (auto simp: short_words_def)
qed

lemma describe_loop_ok: "describes c n out (describe_loop c n out)"
proof (induction c n out rule: describe_loop.induct)
  case (1 c n out)
  define line where "line = takeWhile (\<lambda>c. c \<noteq> LF) c"
  define w0 where "w0 = kLineLength - n - 1"
  note unfold = describe_loop.simps[of c n out, folded line_def w0_def, unfolded Let_def]
  have newline: "length line < length c \<longleftrightarrow> LF \<in> set c" unfolding line_def by (rule takeWhile_shorter)
  have line: "LF \<notin> set line" unfolding line_def by (auto dest: set_takeWhileD)
  have pre: "line = take (length line) c" unfolding line_def by (metis takeWhile_eq_take)
  consider (fits) "\<not> length line < length c" "n + length c < kLineLength"
    | (near) "length line < length c" "int (length line) < int kLineLength - int n"
    | (space) "\<not> (\<not> length line < length c \<and> n + length c < kLineLength)"
        "\<not> (length line < length c \<and> int (length line) < int kLineLength - int n)"
    by linarith
  then show ?case
  proof cases
    case fits
    then show ?thesis using newline by (auto simp: unfold describes_def lines_fit_line column_line)
  next
    case near
    then have LF: "LF \<in> set c" using newline by simp
    note words = nonblank_line[OF LF, folded line_def]
    show ?thesis
    proof (cases "drop (length line + 1) c = []")
      case True
      then have "c ! length line = LF" "length c = Suc (length line)"
        using near(1) nth_length_takeWhile[of "\<lambda>c. c \<noteq> LF" c] by (simp_all add: line_def)
      then have "last c = LF" by (cases c rule: rev_cases) (simp_all add: nth_append)
      then have "is_space (last c)" by (simp add: is_space_def)
      then show ?thesis using near True words by (auto simp: unfold describes_def)
    next
      case False
      have "describes (drop (length line + 1) c) 6 (out @ line @ wrap_indent)
          (describe_loop (drop (length line + 1) c) 6 (out @ line @ wrap_indent))"
        using 1(1)[OF line_def refl _ _ refl refl False] near by simp
      then have "describes c n out (describe_loop (drop (length line + 1) c) 6 (out @ line @ wrap_indent))"
        by (rule describes_step[OF _ line words refl False]) (use near(2) in simp)
      then show ?thesis using near False by (simp add: unfold)
    qed
  next
    case space
    have w0: "w0 \<le> length c" "n \<le> 6 \<Longrightarrow> w0 < length c \<and> 70 < w0" and no_LF: "LF \<notin> set (take w0 c)"
    proof -
      have "LF \<notin> set (take w0 line)" using line by (meson in_set_takeD)
      moreover have "take w0 c = take w0 line"
      proof (cases "length line < length c")
        case True
        then have "w0 \<le> length line" using space(2) by (simp add: w0_def)
        then show ?thesis by (subst pre) (simp add: min_absorb1)
      next
        case False
        then show ?thesis using pre by (metis not_less take_all)
      qed
      ultimately show "LF \<notin> set (take w0 c)" by simp
      show "w0 \<le> length c" "n \<le> 6 \<Longrightarrow> w0 < length c \<and> 70 < w0"
        using space by (auto simp: w0_def kLineLength_def)
    qed
    obtain w where w: "last_space c w0 = Inr w" using last_space_ok[OF w0(1)] by blast
    show ?thesis
    proof (cases "w = 0")
      case True
      have "\<not> short_words c" if "n \<le> 6" using no_space_long_word w0 that w True by blast
      then show ?thesis using space w True by (auto simp: unfold describes_def)
    next
      case False
      obtain next_word where nw: "skip_spaces c w = Inr next_word" "w \<le> w0" "LF \<notin> set (take w c)"
        "nonblank c = nonblank (take w c) @ nonblank (drop next_word c)"
        "drop next_word c = [] \<longrightarrow> is_space (last c)"
        by (rule break_at_space[OF w False w0(1) no_LF])
      show ?thesis
      proof (cases "drop next_word c = []")
        case True
        then show ?thesis using space w False nw by (auto simp: unfold describes_def)
      next
        case rest: False
        have "describes (drop next_word c) 6 (out @ take w c @ wrap_indent)
            (describe_loop (drop next_word c) 6 (out @ take w c @ wrap_indent))"
          using 1(2)[OF line_def refl space w[unfolded w0_def] False nw(1) refl refl rest] by simp
        then have "describes c n out (describe_loop (drop next_word c) 6 (out @ take w c @ wrap_indent))"
          by (rule describes_step[OF _ nw(3,4) refl rest]) (use nw(2) w0 in \<open>auto simp: w0_def kLineLength_def\<close>)
        then show ?thesis
          unfolding unfold if_not_P[OF space(1)] if_not_P[OF space(2)] w using False nw(1) rest by simp
      qed
    qed
  qed
qed

section \<open>The text of a flag\<close>

lemma AddString_ok:
  assumes "st = (out, n)" "column 0 out \<le> n"
  shows "nonblank (fst (AddString s st)) = nonblank out @ nonblank s"
    and "lines_fit 0 out \<Longrightarrow> LF \<notin> set s \<Longrightarrow> length s \<le> 70 \<Longrightarrow>
      lines_fit 0 (fst (AddString s st)) \<and> column 0 (fst (AddString s st)) \<le> snd (AddString s st)"
  using assms by (auto simp: AddString_def Let_def lines_fit_append column_append lines_fit_line column_line
      nonblank_def is_space_def wrap_indent_list kLineLength_def dest: lines_fit_column)

text \<open>The parts of the text: a flag's name and help, its type, its default, and its value if that differs.\<close>

definition flag_parts :: "flag_info \<Rightarrow> string list" where
  "flag_parts flag = [''type: '' @ fi_type flag, PrintStringFlagsWithQuotes flag ''default'' False] @
     (if fi_is_default flag then [] else [PrintStringFlagsWithQuotes flag ''currently'' True])"

lemma DescribeOneFlag_parts:
  "DescribeOneFlag flag = bnd (describe_loop (flag_main_part flag) 0 [])
     (\<lambda>st. Inr (fst (fold AddString (flag_parts flag) st) @ [LF]))"
  by (simp add: DescribeOneFlag_def flag_parts_def Let_def)

lemma AddStrings_words: "nonblank (fst (fold AddString parts st)) = nonblank (fst st) @ nonblank (concat parts)"
proof (induction parts arbitrary: st)
  case (Cons s parts)
  have "nonblank (fst (AddString s st)) = nonblank (fst st) @ nonblank s"
    by (cases st) (auto simp: AddString_def Let_def nonblank_def is_space_def wrap_indent_list)
  then show ?case using Cons by simp
qed simp

lemma AddStrings_fit:
  assumes "\<forall>s \<in> set parts. LF \<notin> set s \<and> length s \<le> 70" "lines_fit 0 (fst st)" "column 0 (fst st) \<le> snd st"
  shows "lines_fit 0 (fst (fold AddString parts st))"
  using assms
proof (induction parts arbitrary: st)
  case (Cons s parts)
  then show ?case using AddString_ok(2)[of st "fst st" "snd st" s] by simp
qed simp

text \<open>
  C37. The text that describes a flag is built without reading behind the end of its help, whatever
  the help is.  Up to white space it is the flag's name, help, type and values in this order.  If the
  help has no word of more than 70 characters, and the type and the values are one line of at most
  70, then no line of the text has 80 characters.
\<close>

theorem help_text_is_wrapped:
  "\<exists>help. DescribeOneFlag flag = Inr help \<and>
    nonblank help = nonblank (flag_main_part flag @ concat (flag_parts flag)) \<and>
    (short_words (flag_main_part flag) \<and> (\<forall>s \<in> set (flag_parts flag). LF \<notin> set s \<and> length s \<le> 70) \<longrightarrow>
      lines_fit 0 help)"
proof -
  let ?main = "flag_main_part flag"
  obtain t n where t: "describe_loop ?main 0 [] = Inr (t, n)" "nonblank t = nonblank ?main"
    "short_words ?main \<longrightarrow> ?main \<noteq> [] \<longrightarrow> \<not> is_space (last ?main) \<longrightarrow> lines_fit 0 t \<and> column 0 t \<le> n"
    using describe_loop_ok[of ?main 0 "[]"] by (auto simp: describes_def returns_iff)
  have "?main \<noteq> []" "\<not> is_space (last ?main)" by (simp_all add: flag_main_part_def is_space_def)
  then have "lines_fit 0 (fst (fold AddString (flag_parts flag) (t, n)))"
    if "short_words ?main" "\<forall>s \<in> set (flag_parts flag). LF \<notin> set s \<and> length s \<le> 70"
    using t(3) that by (intro AddStrings_fit) auto
  then have "lines_fit 0 (fst (fold AddString (flag_parts flag) (t, n)) @ [LF])"
    if "short_words ?main" "\<forall>s \<in> set (flag_parts flag). LF \<notin> set s \<and> length s \<le> 70"
    using that by (auto simp: lines_fit_append kLineLength_def dest: lines_fit_column)
  then show ?thesis
    using t(2) by (simp add: DescribeOneFlag_parts t(1) AddStrings_words)
qed

lemma short_text: "length s \<le> 70 \<Longrightarrow> short_words s"
  unfolding short_words_def by (meson order_trans sublist_length_le)

theorem help_text_is_wrapped_witness:
  "\<exists>help. DescribeOneFlag \<lparr>fi_name = ''port'', fi_type = ''int32'', fi_description = ''Port to start a server on.'',
      fi_current_value = ''70000'', fi_default_value = ''8091'', fi_filename = ''main.cpp'', fi_is_default = False,
      fi_has_validator = False, fi_ptr = 14\<rparr> = Inr help \<and> lines_fit 0 help"
proof -
  let ?flag = "\<lparr>fi_name = ''port'', fi_type = ''int32'', fi_description = ''Port to start a server on.'',
      fi_current_value = ''70000'', fi_default_value = ''8091'', fi_filename = ''main.cpp'', fi_is_default = False,
      fi_has_validator = False, fi_ptr = 14\<rparr>"
  have "short_words (flag_main_part ?flag)" by (rule short_text) (simp add: flag_main_part_def)
  moreover have "\<forall>s \<in> set (flag_parts ?flag). LF \<notin> set s \<and> length s \<le> 70"
    by (simp add: flag_parts_def PrintStringFlagsWithQuotes_def)
  ultimately show ?thesis using help_text_is_wrapped[of ?flag] by blast
qed

section \<open>XML\<close>

lemma replace_all_chars [simp]:
  "replace_all c s [] = []"
  "x \<noteq> c \<Longrightarrow> replace_all c s (x # u) = x # replace_all c s u"
  "replace_all c s (c # u) = s @ replace_all c s u"
  by (auto simp: replace_all.simps[of c s "[]"] replace_all.simps[of c s "x # u"]
      replace_all.simps[of c s "c # u"] replace_all.simps[of c s u] Let_def)

lemma replace_all_unfold: "replace_all c s u = concat (map (\<lambda>x. if x = c then s else [x]) u)"
  by (induction u) auto

text \<open>Text put between tags has no tag of its own, and different texts stay different.\<close>

fun xml_char :: "char \<Rightarrow> string" where
  "xml_char c = (if c = CHR ''&'' then ''&amp;'' else if c = CHR ''<'' then ''&lt;'' else [c])"

lemma XMLText_chars: "XMLText s = concat (map xml_char s)"
  unfolding XMLText_def replace_all_unfold by (induction s) auto

lemma XMLText_no_tag: "CHR ''<'' \<notin> set (XMLText s)"
  by (auto simp: XMLText_chars split: if_splits)

lemma XMLText_inj: "XMLText s = XMLText t \<Longrightarrow> s = t"
proof (induction s arbitrary: t)
  case Nil
  then show ?case by (cases t) (auto simp: XMLText_chars split: if_splits)
next
  case (Cons c s)
  then obtain d t' where t: "t = d # t'" by (cases t) (auto simp: XMLText_chars split: if_splits)
  have "xml_char c @ XMLText s = xml_char d @ XMLText t'" using Cons.prems by (simp add: t XMLText_chars)
  then have "c = d \<and> XMLText s = XMLText t'" by (auto split: if_splits)
  then show ?case using Cons.IH t by blast
qed

end
