(* ===== verification/FlagExit.thy ===== *)
theory FlagExit
  imports FlagComplete FlagHelp
begin

text \<open>
  The help flags with what they print: the printing never fails, so that the program ends as
  \<open>HandleCommandLineHelpFlags\<close> (theory FlagParser) says.
\<close>

text \<open>\<open>HandleCommandLineHelpFlags\<close> with its output on \<open>stdout\<close>: completion comes first.\<close>

definition HandleCommandLineHelpFlags_out :: "flag_env \<Rightarrow> bool \<Rightarrow> gflags \<Rightarrow> string \<times> unit result" where
  "HandleCommandLineHelpFlags_out env debug G = (case HandleCommandLineCompletions env G of
     (out, Inl e) \<Rightarrow> (out, Inl e)
   | (_, Inr _) \<Rightarrow> (case help_output env debug G of
       Inl e \<Rightarrow> ([], Inl e)
     | Inr (out, G') \<Rightarrow> (out, HandleCommandLineHelpFlags G)))"

section \<open>Words survive the line breaks\<close>

definition no_space :: "string \<Rightarrow> bool" where
  "no_space s \<longleftrightarrow> (\<forall>c \<in> set s. \<not> is_space c)"

lemma word_beside_space:
  assumes "sublist w (a @ s # r)" "is_space s" "no_space w" "w \<noteq> []"
  shows "sublist w a \<or> sublist w r"
proof -
  consider "sublist w a" | "sublist w (s # r)" | u v where "w = u @ v" "suffix u a" "prefix v (s # r)"
    using assms(1) by (auto simp: sublist_append)
  then show ?thesis
  proof cases
    case 2
    then show ?thesis using assms(2-4) by (cases w) (auto simp: sublist_Cons_right no_space_def)
  next
    case 3
    then have "v = []" using assms(2,3) by (cases v) (auto simp: no_space_def)
    then show ?thesis using 3 by simp
  qed simp
qed

lemma word_beside_spaces:
  "sublist w (a @ sp @ r) \<Longrightarrow> sp \<noteq> [] \<Longrightarrow> \<forall>c \<in> set sp. is_space c \<Longrightarrow> no_space w \<Longrightarrow> w \<noteq> [] \<Longrightarrow>
    sublist w a \<or> sublist w r"
proof (induction sp arbitrary: a)
  case (Cons s sp)
  show ?case
  proof (cases "sp = []")
    case True
    then show ?thesis using word_beside_space[of w a s r] Cons.prems by simp
  next
    case False
    have "sublist w a \<or> sublist w ([] @ sp @ r)"
      using word_beside_space[of w a s "sp @ r"] Cons.prems by simp
    then show ?thesis using Cons.IH[of "[]"] False Cons.prems by auto
  qed
qed simp

lemma last_space_found: "last_space s w = Inr w' \<Longrightarrow> w' \<noteq> 0 \<Longrightarrow> w' < length s \<and> is_space (s ! w')"
proof (induction s w rule: last_space.induct)
  case (2 s w)
  have "\<not> is_space (CHR 0x00)" by (simp add: is_space_def)
  then show ?case using 2 by (auto simp: bnd_eq_Inr cstr_at_def split: if_splits)
qed simp

lemma break_word:
  assumes "last_space c w0 = Inr w" "w \<noteq> 0" "skip_spaces c w = Inr k" "sublist v c" "no_space v" "v \<noteq> []"
  shows "sublist v (take w c) \<or> sublist v (drop k c)"
proof -
  have w: "w < length c" "is_space (c ! w)" using last_space_found[OF assms(1,2)] by auto
  let ?sp = "takeWhile is_space (drop w c)"
  have k: "k = w + length ?sp" using skip_spaces_ok[of w c] w assms(3) by simp
  have "c = take w c @ ?sp @ drop k c"
    unfolding k drop_spaces by (simp add: takeWhile_dropWhile_id)
  moreover have "?sp \<noteq> []" using w by (simp add: Cons_nth_drop_Suc[symmetric])
  moreover have "\<forall>x \<in> set ?sp. is_space x" by (auto dest: set_takeWhileD)
  ultimately show ?thesis using word_beside_spaces[of v "take w c" ?sp "drop k c"] assms(4-6) by metis
qed

lemma describe_loop_keeps_word:
  assumes "no_space v" "v \<noteq> []"
  shows "describe_loop c n out = Inr (s, n') \<Longrightarrow> sublist v c \<or> sublist v out \<Longrightarrow> sublist v s"
proof (induction c n out arbitrary: s n' rule: describe_loop.induct)
  case (1 c n out)
  define line where "line = takeWhile (\<lambda>c. c \<noteq> LF) c"
  note unfold = describe_loop.simps[of c n out, folded line_def, unfolded Let_def]
  have into: "sublist v (out @ a @ b)" if "sublist v a \<or> sublist v out" for a b
    using that by (auto intro: sublist_order.order_trans[OF _ sublist_appendI] simp: sublist_append)
  consider (fits) "\<not> length line < length c \<and> n + length c < kLineLength"
    | (near) "\<not> (\<not> length line < length c \<and> n + length c < kLineLength)"
        "length line < length c \<and> int (length line) < int kLineLength - int n"
    | (space) "\<not> (\<not> length line < length c \<and> n + length c < kLineLength)"
        "\<not> (length line < length c \<and> int (length line) < int kLineLength - int n)"
    by blast
  then show ?case
  proof cases
    case fits
    then have "s = out @ c" using 1(3) by (simp add: unfold)
    then show ?thesis using into[of c "[]"] 1(4) by simp
  next
    case near
    let ?rest = "drop (length line + 1) c"
    have "c = line @ [LF] @ ?rest" using near(2) nth_length_takeWhile[of "\<lambda>c. c \<noteq> LF" c]
      unfolding line_def by (metis (no_types, lifting) append_Cons append_Nil append_take_drop_id
          Cons_nth_drop_Suc Suc_eq_plus1 takeWhile_eq_take)
    moreover have "is_space LF" by (simp add: is_space_def)
    ultimately have v: "sublist v line \<or> sublist v ?rest \<or> sublist v out"
      using word_beside_space[of v line LF ?rest] assms 1(4) by auto
    show ?thesis
    proof (cases "?rest = []")
      case True
      then have "s = out @ line" using near 1(3) by (simp add: unfold)
      then show ?thesis using into[of line "[]"] v True assms(2) by auto
    next
      case False
      then have "describe_loop ?rest 6 (out @ line @ wrap_indent) = Inr (s, n')" using near 1(3) by (simp add: unfold)
      then show ?thesis
        using 1(1)[OF line_def refl near refl refl False] v into[of line wrap_indent] by auto
    qed
  next
    case space
    obtain w where w: "last_space c (kLineLength - n - 1) = Inr w"
      "(if w = 0 then Inr (out @ c, kLineLength) else bnd (skip_spaces c w) (\<lambda>k.
         if drop k c = [] then Inr (out @ take w c, n + w)
         else describe_loop (drop k c) 6 ((out @ take w c) @ wrap_indent))) = Inr (s, n')"
      using 1(3) unfolding unfold if_not_P[OF space(1)] if_not_P[OF space(2)] by (auto simp: bnd_eq_Inr)
    show ?thesis
    proof (cases "w = 0")
      case True
      then show ?thesis using w(2) into[of c "[]"] 1(4) by simp
    next
      case False
      then obtain k where k: "skip_spaces c w = Inr k" "(if drop k c = [] then Inr (out @ take w c, n + w)
         else describe_loop (drop k c) 6 ((out @ take w c) @ wrap_indent)) = Inr (s, n')"
        using w(2) by (auto simp: bnd_eq_Inr simp del: drop_eq_Nil)
      have v: "sublist v (take w c) \<or> sublist v (drop k c) \<or> sublist v out"
        using break_word[OF w(1) False k(1) _ assms] 1(4) by blast
      show ?thesis
      proof (cases "drop k c = []")
        case True
        then have "s = out @ take w c" "sublist v (take w c) \<or> sublist v out"
          using k(2) v assms(2) by auto
        then show ?thesis using into[of "take w c" "[]"] by simp
      next
        case rest: False
        then have "describe_loop (drop k c) 6 ((out @ take w c) @ wrap_indent) = Inr (s, n')"
          using k(2) by simp
        then show ?thesis
          using 1(2)[OF line_def refl space w(1) False k(1) refl refl rest] v into[of "take w c" wrap_indent] by auto
      qed
    qed
  qed
qed

section \<open>The lines are made\<close>

lemma find_from_hit: "find_from pat (F @ pat @ R) 0 \<noteq> None \<and> the (find_from pat (F @ pat @ R) 0) \<le> length F"
proof (cases "find_from pat (F @ pat @ R) 0")
  case None
  then have "\<not> prefix pat (drop (length F) (F @ pat @ R))"
    unfolding find_from_def find_None_iff by (auto simp del: upt_Suc drop_append)
  then show ?thesis by simp
next
  case (Some p)
  have "p \<le> length F"
  proof (rule ccontr)
    assume "\<not> p \<le> length F"
    moreover from Some obtain i where "i < length [0..<length (F @ pat @ R) + 1]" "p = [0..<length (F @ pat @ R) + 1] ! i"
      "\<forall>j < i. \<not> prefix pat (drop ([0..<length (F @ pat @ R) + 1] ! j) (F @ pat @ R))"
      unfolding find_from_def find_Some_iff by (auto simp del: upt_Suc drop_append)
    ultimately have "\<not> prefix pat (drop (length F) (F @ pat @ R))"
      by (auto simp del: upt_Suc drop_append)
    then show False by simp
  qed
  then show ?thesis using Some by simp
qed

lemma replace_found:
  assumes "k \<le> length pat"
  shows "\<exists>F'. string_replace (find_from pat (F @ pat @ R) 0) k by (F @ pat @ R) = Inr (F' @ R)"
proof -
  obtain p where p: "find_from pat (F @ pat @ R) 0 = Some p" "p \<le> length F"
    using find_from_hit[of pat F R] by auto
  have "drop (p + k) (F @ pat @ R) = drop (p + k) (F @ pat) @ R" using p(2) assms by simp
  then have "string_replace (find_from pat (F @ pat @ R) 0) k by (F @ pat @ R) =
      Inr ((take p (F @ pat @ R) @ by @ drop (p + k) (F @ pat)) @ R)"
    using p by (simp add: string_replace_def)
  then show ?thesis by blast
qed

lemma pad_newlines_returns: "0 < columns \<Longrightarrow> \<exists>t. pad_newlines columns s = Inr t"
proof (induction columns s rule: pad_newlines.induct)
  case (1 columns s)
  show ?case
    by (subst pad_newlines.simps) (use 1 in \<open>auto simp: Let_def split: option.split\<close>)
qed

lemma AddString_form: "\<exists>u n'. AddString s (out, n) = (out @ u @ '' '' @ s, n')"
proof -
  have "wrap_indent = butlast wrap_indent @ '' ''" by code_simp
  then have "out @ wrap_indent @ s = out @ butlast wrap_indent @ '' '' @ s" by (metis append.assoc)
  then show ?thesis by (cases "n + 1 + length s \<ge> kLineLength") (auto simp: AddString_def intro: exI[of _ "[]"])
qed

text \<open>The name with its dash, the type and the default follow each other in the text of a flag.\<close>

lemma DescribeOneFlag_form:
  assumes "no_space (fi_name flag)"
  obtains A B C D where "DescribeOneFlag flag =
    Inr (A @ (''-'' @ fi_name flag) @ B @ '' type:'' @ C @ '' default:'' @ D)"
proof -
  obtain t n where t: "describe_loop (flag_main_part flag) 0 [] = Inr (t, n)"
    using describe_loop_ok[of "flag_main_part flag" 0 "[]"] by (auto simp: describes_def returns_iff)
  have "sublist (''-'' @ fi_name flag) (flag_main_part flag)"
    unfolding sublist_def flag_main_part_def
    by (intro exI[of _ "''    ''"] exI[of _ "'' ('' @ fi_description flag @ '')''"]) simp
  moreover have "no_space (''-'' @ fi_name flag)" using assms by (auto simp: no_space_def is_space_def)
  ultimately have "sublist (''-'' @ fi_name flag) t" using describe_loop_keeps_word[OF _ _ t] by simp
  then obtain A B where AB: "t = A @ (''-'' @ fi_name flag) @ B" unfolding sublist_def by blast
  obtain u1 n1 where s1: "AddString (''type: '' @ fi_type flag) (t, n) = (t @ u1 @ '' '' @ ''type: '' @ fi_type flag, n1)"
    using AddString_form by blast
  obtain q where q: "PrintStringFlagsWithQuotes flag ''default'' False = ''default:'' @ q"
    by (cases "fi_type flag = ''string''") (simp_all add: PrintStringFlagsWithQuotes_def Let_def)
  obtain u2 n2 where s2: "AddString (''default:'' @ q) (t @ u1 @ '' '' @ ''type: '' @ fi_type flag, n1) =
      ((t @ u1 @ '' '' @ ''type: '' @ fi_type flag) @ u2 @ '' '' @ ''default:'' @ q, n2)"
    using AddString_form by blast
  have "\<exists>e. fst (if \<not> fi_is_default flag then AddString (PrintStringFlagsWithQuotes flag ''currently'' True) (x, n2) else (x, n2))
      = x @ e" for x
    using AddString_form[of "PrintStringFlagsWithQuotes flag ''currently'' True" x n2] by auto
  then obtain e where "DescribeOneFlag flag =
      Inr ((((t @ u1 @ '' '' @ ''type: '' @ fi_type flag) @ u2 @ '' '' @ ''default:'' @ q) @ e) @ [LF])"
    unfolding DescribeOneFlag_def t bnd.simps Let_def s1 q s2 by blast
  then show ?thesis
    using that[of A "B @ u1" "'' '' @ fi_type flag @ u2" "q @ e @ [LF]"] by (simp add: AB)
qed

lemma GetLongFlagLine_returns:
  assumes "no_space (fi_name flag)" "0 < columns"
  shows "\<exists>l. GetLongFlagLine columns line_indentation flag = Inr l"
proof -
  obtain A B C D where d: "DescribeOneFlag flag = Inr (A @ (''-'' @ fi_name flag) @ B @ '' type:'' @ C @ '' default:'' @ D)"
    by (rule DescribeOneFlag_form[OF assms(1)])
  let ?old = "''-'' @ fi_name flag" and ?indent = "LF # replicate 4 (CHR '' '')"
  obtain F where F: "string_replace (find_from ?old (A @ ?old @ B @ '' type:'' @ C @ '' default:'' @ D) 0) (length ?old)
      (''-'' @ ?old) (A @ ?old @ B @ '' type:'' @ C @ '' default:'' @ D) = Inr (F @ B @ '' type:'' @ C @ '' default:'' @ D)"
    using replace_found[of "length ?old" ?old A] by blast
  obtain F' where F': "string_replace (find_from '' type:'' (F @ B @ '' type:'' @ C @ '' default:'' @ D) 0) 1 ?indent
      (F @ B @ '' type:'' @ C @ '' default:'' @ D) = Inr (F' @ C @ '' default:'' @ D)"
    using replace_found[of 1 "'' type:''" "F @ B"] by auto
  obtain F'' where F'': "string_replace (find_from '' default:'' (F' @ C @ '' default:'' @ D) 0) 1 ?indent
      (F' @ C @ '' default:'' @ D) = Inr (F'' @ D)"
    using replace_found[of 1 "'' default:''" "F' @ C"] by auto
  show ?thesis
    unfolding GetLongFlagLine_def Let_def d bnd.simps F F' F'' using assms(2) pad_newlines_returns by simp
qed

section \<open>Completion ends normally\<close>

lemma output_flags_returns:
  "\<forall>r \<in> set rs. \<exists>l. line (snd r) = Inr l \<Longrightarrow> \<exists>st'. output_flags line rs st = Inr st'"
  by (induction rs arbitrary: st) (auto simp: Let_def split: prod.split)

lemma group_returns:
  assumes "\<forall>r \<in> set (dg_group g). no_space (fi_name (snd r))" "0 < columns"
  shows "\<exists>st'. OutputSingleGroupWithLimit columns indent long g st = Inr st'"
proof -
  have "\<forall>r \<in> set (dg_group g). \<exists>l. flag_line_of columns indent long (snd r) = Inr l"
    using assms GetLongFlagLine_returns by (simp add: flag_line_of_def)
  then obtain st' where "output_flags (flag_line_of columns indent long) (dg_group g) (after_header indent g st) = Inr st'"
    using output_flags_returns by blast
  then show ?thesis by (simp add: group_unfold del: split_paired_Ex)
qed

lemma groups_return:
  assumes "\<forall>g \<in> set gs. \<forall>r \<in> set (dg_group g). no_space (fi_name (snd r))" "0 < columns"
  shows "\<exists>st'. output_groups columns long gs st = Inr st'"
  using assms(1)
proof (induction gs arbitrary: long st)
  case (Cons g gs)
  then obtain st1 where "OutputSingleGroupWithLimit columns (length gs) long g st = Inr st1"
    using group_returns[of g columns "length gs" long st] assms(2) by auto
  then show ?case using Cons by (simp del: split_paired_Ex)
qed (simp del: split_paired_Ex)

lemma completion_lines_return:
  assumes "\<forall>r \<in> set ms. no_space (fi_name (snd r))" "0 < columns"
  shows "\<exists>ls. completion_lines columns G flags options token ms = Inr ls"
proof -
  obtain module package_dir where dirs: "TryFindModuleAndPackageDir G flags = (module, package_dir)" by (metis surj_pair)
  define N where "N = CategorizeAllMatchingFlags ms token module package_dir"
  let ?gs = "choose_groups (max_desired_lines options) ms N"
  have "set (concat (map dg_group ?gs)) \<subseteq> set ms"
    using set_mset_mono[OF chosen_flags[OF N_def]] by simp
  then have "\<forall>g \<in> set ?gs. \<forall>r \<in> set (dg_group g). no_space (fi_name (snd r))" using assms(1) by auto
  then obtain rem shown out where
    out: "output_groups columns (perfect_match_flag N \<noteq> []) ?gs (max_desired_lines options, 0, []) = Inr (rem, shown, out)"
    using groups_return[OF _ assms(2), of ?gs "perfect_match_flag N \<noteq> []" "(max_desired_lines options, 0, [])"]
    by (metis prod_cases3)
  show ?thesis
    by (auto simp: completion_lines_def dirs N_def[symmetric] FinalizeCompletionOutput_def Let_def out)
qed

lemma GetAllFlags_names: "fi_name ` set (fst (GetAllFlags env G)) = fl_name ` snd ` set (rg_flags (gf_registry G))"
  by (force simp: GetAllFlags_def Let_def FillCommandLineFlagInfo_def image_iff split: prod.split)

lemma ord_find_map: "ord_find n (map (\<lambda>(n, x). (n, f x)) xs) = map_option f (ord_find n xs)"
  by (induction xs) auto

lemma GetAllFlags_value:
  assumes "GetAllFlags env G = (flags, G')"
  shows "map_option fl_current (find_flag name (gf_registry G')) = map_option fl_current (find_flag name (gf_registry G))"
proof -
  have "rg_flags (gf_registry G') = map (\<lambda>(n, fl). (n, UpdateModifiedBit fl)) (rg_flags (gf_registry G))"
    using assms by (auto simp: GetAllFlags_def Let_def FillCommandLineFlagInfo_def)
  then show ?thesis by (simp add: find_flag_def ord_find_map option.map_comp comp_def)
qed

lemma FLAGS_int32_value: "FLAGS_int32 name R = (case map_option fl_current (find_flag name R) of
    Some (Int32F w) \<Rightarrow> sint w | _ \<Rightarrow> 0)"
  unfolding FLAGS_int32_def by (cases "find_flag name R") simp_all

lemma matching_flags_subset:
  assumes "FindMatchingFlags flags options token = (ms, common)" "r \<in> set ms"
  shows "snd r \<in> set flags"
proof -
  obtain first where "fold (match_step options token) (flag_refs flags) ([], True, []) = (ms, first, common)"
    using assms(1) by (auto simp: FindMatchingFlags_def case_prod_unfold Let_def prod_eq_iff)
  then have "r \<in> set (flag_refs flags)" using match_fold assms(2) by fastforce
  then have "(fst r, snd r) \<in> set (zip [0..<length flags] flags)" by (simp add: flag_refs_def)
  then show ?thesis by (rule set_zip_rightD)
qed

lemma completion_returns:
  assumes "\<forall>(n, fl) \<in> set (rg_flags (gf_registry G)). no_space (fl_name fl)"
    "0 < FLAGS_int32 ''tab_completion_columns'' (gf_registry G)"
  shows "\<exists>s. PrintFlagCompletionInfo env G = Inr s"
proof -
  obtain token options where t: "CanonicalizeCursorWordAndSearchOptions (FLAGS_string ''tab_completion_word'' (gf_registry G)) =
      (token, options)" by (metis surj_pair)
  obtain flags G' where g: "GetAllFlags env G = (flags, G')" by (metis surj_pair)
  obtain ms common where m: "FindMatchingFlags flags options token = (ms, common)" by (metis surj_pair)
  have "fi_name ` set flags = fl_name ` snd ` set (rg_flags (gf_registry G))" using GetAllFlags_names[of env G] g by simp
  moreover have "\<forall>name \<in> fl_name ` snd ` set (rg_flags (gf_registry G)). no_space name" using assms(1) by auto
  ultimately have "\<forall>name \<in> fi_name ` set flags. no_space name" by simp
  then have names: "\<forall>r \<in> set ms. no_space (fi_name (snd r))" using matching_flags_subset[OF m] by blast
  have "FLAGS_int32 ''tab_completion_columns'' (gf_registry G') = FLAGS_int32 ''tab_completion_columns'' (gf_registry G)"
    unfolding FLAGS_int32_value GetAllFlags_value[OF g] by (rule refl)
  then obtain ls where "completion_lines (FLAGS_int32 ''tab_completion_columns'' (gf_registry G')) G' flags options token ms = Inr ls"
    using completion_lines_return[OF names] assms(2) by metis
  then show ?thesis by (simp add: PrintFlagCompletionInfo_def t g m Let_def)
qed

section \<open>Help ends normally\<close>

lemma DescribeOneFlag_returns: "\<exists>htext. DescribeOneFlag flag = Inr htext"
  using describe_loop_ok[of "flag_main_part flag" 0 "[]"] by (auto simp: DescribeOneFlag_parts describes_def returns_iff)

lemma returns_projr: "returns r (\<lambda>_. True) \<Longrightarrow> r = Inr (projr r)"
  by (cases r) simp_all

lemma usage_returns: "\<exists>out. ShowUsageWithFlagsMatching env argv0 substrings G = Inr out"
proof -
  obtain flags G' where g: "GetAllFlags env G = (flags, G')" by (metis surj_pair)
  have "returns (usage_step substrings flag u) (\<lambda>_. True)" for flag u
  proof -
    obtain htext where "DescribeOneFlag flag = Inr htext" using DescribeOneFlag_returns by blast
    then show ?thesis unfolding usage_step_def Let_def by simp
  qed
  then have "returns (foldM (usage_step substrings) flags u) (\<lambda>_. True)" for u
    by (intro returns_foldM) auto
  note ok = returns_projr[OF this]
  show ?thesis unfolding ShowUsageWithFlagsMatching_def g Let_def prod.case by (subst ok) simp
qed

lemma restrict_returns: "\<exists>out. ShowUsageWithFlagsRestrict env argv0 restrict G = Inr out"
  unfolding ShowUsageWithFlagsRestrict_def by (rule usage_returns)

lemma help_output_returns: "\<exists>out. help_output env debug G = Inr out"
proof -
  obtain flags G' where g: "GetAllFlags env G = (flags, G')" by (metis surj_pair)
  have "returns (package_step env progname substrings flag st) (\<lambda>_. True)" for progname substrings flag st
    using restrict_returns[of env progname "Dirname (fi_filename flag) @ ''/''" "snd (snd st)"]
    by (auto simp: package_step_def Let_def split: prod.split)
  then have "returns (foldM (package_step env progname substrings) flags st) (\<lambda>_. True)" for progname substrings st
    by (intro returns_foldM) auto
  note ok = returns_projr[OF this]
  have "\<exists>out. (let (flags, G) = GetAllFlags env G in bnd (foldM (package_step env progname substrings) flags ([], [], G))
      (\<lambda>(_, out, G). Inr (out, G))) = Inr out" for progname substrings
    unfolding g Let_def prod.case by (subst ok) (simp add: case_prod_unfold)
  then show ?thesis
    unfolding help_output_def Let_def using usage_returns restrict_returns by (simp del: split_paired_Ex)
qed

text \<open>
  C36. If the names of the flags have no white space and the number of columns is positive, printing the
  completions or the help of flags never fails: the program ends, or goes on, as the handler without
  its output says, and when it goes on nothing was printed.
\<close>

theorem printing_ends_as_the_flags_say:
  assumes "\<forall>(n, fl) \<in> set (rg_flags (gf_registry G)). no_space (fl_name fl)"
    "0 < FLAGS_int32 ''tab_completion_columns'' (gf_registry G)"
  shows "snd (HandleCommandLineHelpFlags_out env debug G) = HandleCommandLineHelpFlags G \<and>
    (HandleCommandLineHelpFlags G = Inr () \<longrightarrow> fst (HandleCommandLineHelpFlags_out env debug G) = [])"
proof (cases "FLAGS_string ''tab_completion_word'' (gf_registry G) = []")
  case True
  obtain out G' where "help_output env debug G = Inr (out, G')" using help_output_returns by (metis surj_pair)
  moreover have "HandleCommandLineHelpFlags G = Inr () \<Longrightarrow> help_output env debug G = Inr ([], G)"
    using True by (simp add: HandleCommandLineHelpFlags_def help_output_def Let_def split: if_splits)
  ultimately show ?thesis
    using True by (auto simp: HandleCommandLineHelpFlags_out_def HandleCommandLineCompletions_def)
next
  case False
  obtain s where "PrintFlagCompletionInfo env G = Inr s" using completion_returns[OF assms] by blast
  then show ?thesis
    using False by (simp add: HandleCommandLineHelpFlags_out_def HandleCommandLineCompletions_def HandleCommandLineHelpFlags_def)
qed

text \<open>The program's own flags, with a word to complete.\<close>

definition completing :: gflags where
  "completing = new_gflags (put_flag (CommandLineFlag ''tab_completion_word'' [] ''gflags_completions.cc'' 6
     (StringF ''po'') (StringF [])) program_flags)"

theorem printing_ends_as_the_flags_say_witness:
  "\<forall>env debug. snd (HandleCommandLineHelpFlags_out env debug completing) = Inl (ExitWith 0)"
proof -
  have "list_all (\<lambda>(n, fl). list_all (\<lambda>c. \<not> is_space c) (fl_name fl)) (rg_flags (gf_registry completing))"
    by code_simp
  then have "\<forall>(n, fl) \<in> set (rg_flags (gf_registry completing)). no_space (fl_name fl)"
    by (auto simp: list_all_iff no_space_def)
  moreover have "0 < FLAGS_int32 ''tab_completion_columns'' (gf_registry completing)" by code_simp
  moreover have "FLAGS_string ''tab_completion_word'' (gf_registry completing) \<noteq> []" by code_simp
  then have "HandleCommandLineHelpFlags completing = Inl (ExitWith 0)"
    by (simp add: HandleCommandLineHelpFlags_def)
  ultimately show ?thesis using printing_ends_as_the_flags_say[of completing] by simp
qed

end
