(* ===== verification/CsvWriter.thy ===== *)
theory CsvWriter
  imports JsonAccess
begin

text \<open>
  Writing a JSON value as CSV (jsoncons_ext/csv/csv_serializer.hpp): an array of arrays, or an array of
  objects whose names become the header.  The serializer handles the events of \<open>to_stream\<close>; the header
  goes to the output while the first object is on the way, the first object's values to a stream of
  their own.  Begin and end come in pairs.
\<close>

section \<open>The serializer\<close>

datatype quote_style = Quote_all | Quote_minimal | Quote_none | Quote_nonnumeric

record csv_item =
  ci_is_object :: bool
  ci_count :: nat
  ci_skip :: bool

record csv_serializer =
  cs_os :: string
  cs_format :: output_format
  cs_stack :: "csv_item list"        \<comment> \<open>the back of the vector is the last\<close>
  cs_quote_char :: char
  cs_quote_escape_char :: char
  cs_field_delimiter :: char
  cs_quote_style :: quote_style
  cs_header_os :: string
  cs_line_delimiter :: string
  cs_header :: "(string, nat) ordmap"

definition new_csv_item :: "bool \<Rightarrow> csv_item" where
  "new_csv_item isobj = \<lparr>ci_is_object = isobj, ci_count = 0, ci_skip = False\<rparr>"

definition new_csv_serializer :: csv_serializer where
  "new_csv_serializer = \<lparr>cs_os = [], cs_format = default_output_format, cs_stack = [], cs_quote_char = CHR 0x22,
     cs_quote_escape_char = CHR 0x22, cs_field_delimiter = CHR '','', cs_quote_style = Quote_minimal,
     cs_header_os = [], cs_line_delimiter = [LF], cs_header = []\<rparr>"

text \<open>The last name is spelt as in the code.\<close>

definition quote_style_of :: "string \<Rightarrow> quote_style result" where
  "quote_style_of s = (if s = ''all'' then Inr Quote_all
     else if s = ''minimal'' then Inr Quote_minimal
     else if s = ''none'' then Inr Quote_none
     else if s = ''nonumeric'' then Inr Quote_nonnumeric
     else Inl (JsonException ''Unrecognized quote style.''))"

definition char_param :: "json \<Rightarrow> string \<Rightarrow> string \<Rightarrow> char result" where
  "char_param params name dflt = bnd (json_get_default name (JString dflt) params) as_char"

definition csv_serializer_of :: "stdio \<Rightarrow> json \<Rightarrow> csv_serializer result" where
  "csv_serializer_of io params =
     bnd (char_param params ''quote_char'' [CHR 0x22]) (\<lambda>quote_char.
     bnd (char_param params ''quote_escape_char'' [CHR 0x22]) (\<lambda>quote_escape_char.
     bnd (char_param params ''field_delimiter'' '','') (\<lambda>field_delimiter.
     bnd (bnd (json_get_default ''line_delimiter'' (JString [LF]) params) (as_string io)) (\<lambda>line_delimiter.
     bnd (bnd (json_get_default ''quote_style'' (JString ''minimal'') params) (as_string io)) (\<lambda>style.
     bnd (quote_style_of style) (\<lambda>style.
       Inr (new_csv_serializer\<lparr>cs_quote_char := quote_char, cs_quote_escape_char := quote_escape_char,
         cs_field_delimiter := field_delimiter, cs_line_delimiter := line_delimiter,
         cs_quote_style := style\<rparr>)))))))"

section \<open>Cells\<close>

definition csv_escape_string :: "char \<Rightarrow> char \<Rightarrow> string \<Rightarrow> string" where
  "csv_escape_string quote_char quote_escape_char s =
     concat (map (\<lambda>c. if c = quote_char then [quote_escape_char, quote_char] else [c]) s)"

definition csv_quotes :: "csv_serializer \<Rightarrow> string \<Rightarrow> bool" where
  "csv_quotes z s \<longleftrightarrow> cs_quote_style z = Quote_all \<or> cs_quote_style z = Quote_nonnumeric \<or>
     cs_quote_style z = Quote_minimal \<and> cs_field_delimiter z \<in> set s"

definition csv_field :: "csv_serializer \<Rightarrow> string \<Rightarrow> string" where
  "csv_field z s = (let quote = (if csv_quotes z s then [cs_quote_char z] else []) in
     quote @ csv_escape_string (cs_quote_char z) (cs_quote_escape_char z) s @ quote)"

text \<open>Output to \<open>header_os_\<close> or to \<open>os_\<close>.\<close>

definition csv_put :: "bool \<Rightarrow> string \<Rightarrow> csv_serializer \<Rightarrow> csv_serializer" where
  "csv_put to_header s z = (if to_header then z\<lparr>cs_header_os := cs_header_os z @ s\<rparr> else z\<lparr>cs_os := cs_os z @ s\<rparr>)"

definition csv_begin_value :: "bool \<Rightarrow> csv_serializer \<Rightarrow> csv_serializer" where
  "csv_begin_value to_header z =
     (if cs_stack z \<noteq> [] \<and> ci_count (last (cs_stack z)) > 0 then csv_put to_header [cs_field_delimiter z] z else z)"

definition on_last :: "('a \<Rightarrow> 'a) \<Rightarrow> 'a list \<Rightarrow> 'a list" where
  "on_last f xs = (if xs = [] then [] else butlast xs @ [f (last xs)])"

definition csv_end_value :: "csv_serializer \<Rightarrow> csv_serializer" where
  "csv_end_value z = z\<lparr>cs_stack := on_last (\<lambda>i. i\<lparr>ci_count := ci_count i + 1\<rparr>) (cs_stack z)\<rparr>"

text \<open>A value inside a row: nothing is written at another depth, or below a name that is not in the header.\<close>

definition csv_value :: "string \<Rightarrow> csv_serializer \<Rightarrow> csv_serializer" where
  "csv_value s z =
     (if length (cs_stack z) = 2 \<and> \<not> ci_skip (last (cs_stack z)) then
        let to_header = ci_is_object (last (cs_stack z)) \<and> ci_count (cs_stack z ! 0) = 0 in
        csv_end_value (csv_put to_header s (csv_begin_value to_header z))
      else z)"

definition csv_null_value :: "csv_serializer \<Rightarrow> csv_serializer" where
  "csv_null_value = csv_value ''null''"

definition csv_string_value :: "string \<Rightarrow> csv_serializer \<Rightarrow> csv_serializer" where
  "csv_string_value s z = csv_value (csv_field z s) z"

definition csv_double_value :: "stdio \<Rightarrow> double \<Rightarrow> csv_serializer \<Rightarrow> csv_serializer" where
  "csv_double_value io d z = csv_value (double_text io (cs_format z) d) z"

definition csv_longlong_value :: "64 word \<Rightarrow> csv_serializer \<Rightarrow> csv_serializer" where
  "csv_longlong_value w = csv_value (int_to_string (sint w))"

definition csv_ulonglong_value :: "64 word \<Rightarrow> csv_serializer \<Rightarrow> csv_serializer" where
  "csv_ulonglong_value w = csv_value (nat_to_string (unat w))"

definition csv_bool_value :: "bool \<Rightarrow> csv_serializer \<Rightarrow> csv_serializer" where
  "csv_bool_value b = csv_value (if b then ''true'' else ''false'')"

section \<open>Rows\<close>

definition csv_begin_object :: "csv_serializer \<Rightarrow> csv_serializer" where
  "csv_begin_object z = z\<lparr>cs_stack := cs_stack z @ [new_csv_item True]\<rparr>"

definition csv_begin_array :: "csv_serializer \<Rightarrow> csv_serializer" where
  "csv_begin_array z = z\<lparr>cs_stack := cs_stack z @ [new_csv_item False]\<rparr>"

definition csv_pop :: "csv_serializer \<Rightarrow> csv_serializer" where
  "csv_pop z = csv_end_value (z\<lparr>cs_stack := butlast (cs_stack z)\<rparr>)"

definition csv_end_object :: "csv_serializer \<Rightarrow> csv_serializer" where
  "csv_end_object z = csv_pop
     (if length (cs_stack z) = 2 then
        let z = csv_put False (cs_line_delimiter z) z in
        if ci_count (cs_stack z ! 0) = 0 then csv_put False (cs_header_os z @ cs_line_delimiter z) z else z
      else z)"

definition csv_end_array :: "csv_serializer \<Rightarrow> csv_serializer" where
  "csv_end_array z = csv_pop (if length (cs_stack z) = 2 then csv_put False (cs_line_delimiter z) z else z)"

text \<open>
  A name: in the first object it is written to the header.  Later it says where its value goes: the
  columns before it that have no value are left empty.
\<close>

definition csv_name :: "string \<Rightarrow> csv_serializer \<Rightarrow> csv_serializer" where
  "csv_name name z =
     (if length (cs_stack z) \<noteq> 2 then z
      else let item = last (cs_stack z) in
        if ci_count (cs_stack z ! 0) = 0 then
          let z = (if ci_count item > 0 then csv_put False [cs_field_delimiter z] z else z);
              z = csv_put False (csv_field z name) z
          in z\<lparr>cs_header := ord_set name (ci_count item) (cs_header z)\<rparr>
        else (case ord_find name (cs_header z) of
          None \<Rightarrow> z\<lparr>cs_stack := on_last (\<lambda>i. i\<lparr>ci_skip := True\<rparr>) (cs_stack z)\<rparr>
        | Some column \<Rightarrow>
            let z = csv_put False (replicate (column - ci_count item) (cs_field_delimiter z)) z in
            z\<lparr>cs_stack := on_last (\<lambda>i. i\<lparr>ci_skip := False, ci_count := max (ci_count i) column\<rparr>) (cs_stack z)\<rparr>))"

section \<open>A value\<close>

text \<open>\<open>basic_json::to_stream\<close> with this handler.\<close>

fun csv_to_stream :: "stdio \<Rightarrow> json \<Rightarrow> csv_serializer \<Rightarrow> csv_serializer"
and csv_members_to_stream :: "stdio \<Rightarrow> members \<Rightarrow> csv_serializer \<Rightarrow> csv_serializer"
and csv_elements_to_stream :: "stdio \<Rightarrow> json list \<Rightarrow> csv_serializer \<Rightarrow> csv_serializer" where
  "csv_to_stream io (JString s) z = csv_string_value s z"
| "csv_to_stream io (JDouble d) z = csv_double_value io d z"
| "csv_to_stream io (JLongLong w) z = csv_longlong_value w z"
| "csv_to_stream io (JULongLong w) z = csv_ulonglong_value w z"
| "csv_to_stream io (JBool b) z = csv_bool_value b z"
| "csv_to_stream io JNull z = csv_null_value z"
| "csv_to_stream io EmptyObject z = csv_end_object (csv_begin_object z)"
| "csv_to_stream io (JObject ms) z = csv_end_object (csv_members_to_stream io ms (csv_begin_object z))"
| "csv_to_stream io (JArray xs) z = csv_end_array (csv_elements_to_stream io xs (csv_begin_array z))"
| "csv_members_to_stream io [] z = z"
| "csv_members_to_stream io ((n, v) # ms) z = csv_members_to_stream io ms (csv_to_stream io v (csv_name n z))"
| "csv_elements_to_stream io [] z = z"
| "csv_elements_to_stream io (v # xs) z = csv_elements_to_stream io xs (csv_to_stream io v z)"

definition write_csv :: "stdio \<Rightarrow> json \<Rightarrow> string" where
  "write_csv io v = cs_os (csv_to_stream io v new_csv_serializer)"

end
