(* ===== verification/CsvReader.thy ===== *)
theory CsvReader
  imports JsonReader CsvWriter
begin

text \<open>
  Reading CSV text (jsoncons_ext/csv/csv_reader.hpp): the lines as arrays, or as objects with the names
  of the first line.  The text comes through a buffer that is filled from a stream; the reader reads
  a zero at the end and looks at \<open>eof()\<close>.  A loop that does not end has no value.
\<close>

section \<open>The handler\<close>

text \<open>The virtual functions of \<open>basic_json_input_handler\<close> that the reader calls.\<close>

record 'h input_handler =
  ih_begin_object :: "'h \<Rightarrow> 'h result"
  ih_end_object :: "'h \<Rightarrow> 'h result"
  ih_begin_array :: "'h \<Rightarrow> 'h result"
  ih_end_array :: "'h \<Rightarrow> 'h result"
  ih_name :: "string \<Rightarrow> 'h \<Rightarrow> 'h result"
  ih_string :: "string \<Rightarrow> 'h \<Rightarrow> 'h result"

definition deserializer_handler :: "deserializer input_handler" where
  "deserializer_handler = \<lparr>ih_begin_object = (\<lambda>d. Inr (d_begin_object d)), ih_end_object = d_end_object,
     ih_begin_array = (\<lambda>d. Inr (d_begin_array d)), ih_end_array = d_end_array, ih_name = d_set_name,
     ih_string = (\<lambda>s. d_value (JString s))\<rparr>"

section \<open>The reader\<close>

text \<open>
  \<open>cr_buffer\<close> is what the buffer holds of the last read, \<open>buffer_length_\<close> characters.  The error handler
  is the default one, which throws.
\<close>

record 'h csv_reader =
  cr_column :: nat
  cr_line :: nat
  cr_string_buffer :: string
  cr_stack :: "bool list"            \<comment> \<open>\<open>array_begun_\<close>; the back of the vector is the head\<close>
  cr_input :: string                 \<comment> \<open>what is left of the stream\<close>
  cr_input_eof :: bool               \<comment> \<open>the stream's eof flag\<close>
  cr_buffer :: string
  cr_capacity :: nat
  cr_position :: nat
  cr_handler :: 'h
  cr_assume_header :: bool
  cr_field_delimiter :: char
  cr_quote_char :: char
  cr_quote_escape_char :: char
  cr_comment_symbol :: char

definition csv_init :: "json \<Rightarrow> 'h csv_reader \<Rightarrow> 'h csv_reader result" where
  "csv_init params st =
     bnd (char_param params ''field_delimiter'' '','') (\<lambda>field_delimiter.
     bnd (bnd (json_get_default ''has_header'' (JBool False) params) as_bool) (\<lambda>assume_header.
     bnd (char_param params ''quote_char'' [CHR 0x22]) (\<lambda>quote_char.
     bnd (char_param params ''quote_escape_char'' [CHR 0x22]) (\<lambda>quote_escape_char.
     bnd (char_param params ''comment_symbol'' []) (\<lambda>comment_symbol.
       Inr (st\<lparr>cr_assume_header := assume_header, cr_field_delimiter := field_delimiter, cr_quote_char := quote_char,
         cr_quote_escape_char := quote_escape_char, cr_comment_symbol := comment_symbol\<rparr>))))))"

definition new_csv_reader :: "string \<Rightarrow> 'h \<Rightarrow> json \<Rightarrow> 'h csv_reader result" where
  "new_csv_reader s h params = csv_init params
     \<lparr>cr_column = 0, cr_line = 0, cr_string_buffer = [], cr_stack = [], cr_input = s, cr_input_eof = False,
      cr_buffer = [], cr_capacity = default_max_buffer_length, cr_position = 0, cr_handler = h,
      cr_assume_header = False, cr_field_delimiter = CHR 0x00, cr_quote_char = CHR 0x00,
      cr_quote_escape_char = CHR 0x00, cr_comment_symbol = CHR 0x00\<rparr>"

definition csv_buffer_capacity :: "nat \<Rightarrow> 'h csv_reader \<Rightarrow> 'h csv_reader" where
  "csv_buffer_capacity n st = st\<lparr>cr_capacity := n\<rparr>"

definition csv_eof :: "'h csv_reader \<Rightarrow> bool" where
  "csv_eof st \<longleftrightarrow> cr_position st > length (cr_buffer st) \<and> cr_input_eof st"

definition csv_read_some :: "'h csv_reader \<Rightarrow> 'h csv_reader" where
  "csv_read_some st = (let st = st\<lparr>cr_position := 0\<rparr> in
     if \<not> cr_input_eof st then
       st\<lparr>cr_buffer := take (cr_capacity st) (cr_input st), cr_input := drop (cr_capacity st) (cr_input st),
         cr_input_eof := length (cr_input st) < cr_capacity st\<rparr>
     else st\<lparr>cr_buffer := []\<rparr>)"

definition csv_fill :: "'h csv_reader \<Rightarrow> 'h csv_reader" where
  "csv_fill st = (if cr_position st \<ge> length (cr_buffer st) then csv_read_some st else st)"

definition csv_char :: "'h csv_reader \<Rightarrow> char" where
  "csv_char st = (if cr_position st < length (cr_buffer st) then cr_buffer st ! cr_position st else CHR 0x00)"

definition csv_read_ch :: "'h csv_reader \<Rightarrow> char \<times> 'h csv_reader" where
  "csv_read_ch st = (let st = csv_fill st in
     (csv_char st, st\<lparr>cr_position := cr_position st + 1, cr_column := cr_column st + 1\<rparr>))"

definition csv_peek :: "'h csv_reader \<Rightarrow> char \<times> 'h csv_reader" where
  "csv_peek st = (let st = csv_fill st in (csv_char st, st))"

definition csv_skip_ch :: "'h csv_reader \<Rightarrow> 'h csv_reader" where
  "csv_skip_ch st = snd (csv_read_ch st)"

text \<open>Nothing is put back if the buffer has just been filled.\<close>

definition csv_unread_last_ch :: "'h csv_reader \<Rightarrow> 'h csv_reader" where
  "csv_unread_last_ch st =
     (if cr_position st > 0 then st\<lparr>cr_position := cr_position st - 1, cr_column := cr_column st - 1\<rparr> else st)"

text \<open>\<open>c == a && peek() == b\<close>: the second character is looked at only if the first is the one.\<close>

definition csv_pair :: "char \<Rightarrow> char \<Rightarrow> char \<Rightarrow> 'h csv_reader \<Rightarrow> bool \<times> 'h csv_reader" where
  "csv_pair a b c st = (if c = a then (let (next, st) = csv_peek st in (next = b, st)) else (False, st))"

section \<open>Fields\<close>

text \<open>The end of a field: a newline or a delimiter, which is put back.\<close>

definition csv_field_end :: "char \<Rightarrow> 'h csv_reader \<Rightarrow> bool \<times> 'h csv_reader" where
  "csv_field_end c st = (let (crlf, st) = csv_pair CR LF c st in
     if crlf then (True, csv_unread_last_ch st)
     else if c = LF \<or> c = CR then (True, csv_unread_last_ch st)
     else if c = cr_field_delimiter st then (True, csv_unread_last_ch st)
     else (False, st))"

definition csv_push :: "char \<Rightarrow> 'h csv_reader \<Rightarrow> 'h csv_reader" where
  "csv_push c st = st\<lparr>cr_string_buffer := cr_string_buffer st @ [c]\<rparr>"

partial_function (option) csv_string_loop :: "'h csv_reader \<Rightarrow> 'h csv_reader option" where
  "csv_string_loop st = (let (c, st) = csv_read_ch st; at_eof = csv_eof st; (field_end, st) = csv_field_end c st in
     if field_end then Some st
     else if at_eof then Some (csv_push c st)
     else csv_string_loop (csv_push c st))"

definition csv_parse_string :: "'h csv_reader \<Rightarrow> 'h csv_reader option" where
  "csv_parse_string st = csv_string_loop (st\<lparr>cr_string_buffer := []\<rparr>)"

text \<open>Skip to the end of a field or of the text.\<close>

partial_function (option) csv_skip_loop :: "'h csv_reader \<Rightarrow> 'h csv_reader option" where
  "csv_skip_loop st = (let (c, st) = csv_read_ch st; at_eof = csv_eof st; (field_end, st) = csv_field_end c st in
     if field_end \<or> at_eof then Some st else csv_skip_loop st)"

definition csv_ignore_single_line_comment :: "'h csv_reader \<Rightarrow> 'h csv_reader option" where
  "csv_ignore_single_line_comment = csv_skip_loop"

partial_function (option) csv_quoted_loop :: "'h csv_reader \<Rightarrow> 'h csv_reader result option" where
  "csv_quoted_loop st = (let (c, st) = csv_read_ch st in
     if csv_eof st then Some (Inl (JsonParseException ''EOF, expected quote character''))
     else let (escaped, st) = csv_pair (cr_quote_escape_char st) (cr_quote_char st) c st in
       if escaped then csv_quoted_loop (csv_skip_ch (csv_push (cr_quote_char st) st))
       else if c = cr_quote_char st then Some (Inr st)
       else csv_quoted_loop (csv_push c st))"

definition csv_parse_quoted_string :: "'h csv_reader \<Rightarrow> 'h csv_reader result option" where
  "csv_parse_quoted_string st = obind (csv_quoted_loop (st\<lparr>cr_string_buffer := []\<rparr>))
     (\<lambda>st. map_option Inr (csv_skip_loop st))"

section \<open>Lines\<close>

definition csv_on_handler :: "('h \<Rightarrow> 'h result) \<Rightarrow> 'h csv_reader \<Rightarrow> 'h csv_reader result" where
  "csv_on_handler f st = bnd (f (cr_handler st)) (\<lambda>h. Inr (st\<lparr>cr_handler := h\<rparr>))"

text \<open>What both readers do with a character first: a new line, and the character behind a delimiter is skipped.\<close>

definition csv_newline :: "char \<Rightarrow> 'h csv_reader \<Rightarrow> 'h csv_reader" where
  "csv_newline c st = (let (crlf, st) = csv_pair CR LF c st;
       st = (if crlf then (csv_skip_ch st)\<lparr>cr_line := cr_line st + 1, cr_column := 0\<rparr>
             else if c = LF \<or> c = CR then st\<lparr>cr_line := cr_line st + 1, cr_column := 0\<rparr> else st)
     in if c = cr_field_delimiter st then csv_skip_ch st else st)"

definition csv_begun :: "'h csv_reader \<Rightarrow> bool" where
  "csv_begun st = hd (cr_stack st)"

text \<open>The line ends: its structure is closed and a new item pushed.\<close>

definition csv_end_line :: "('h \<Rightarrow> 'h result) \<Rightarrow> 'h csv_reader \<Rightarrow> 'h csv_reader result" where
  "csv_end_line close st =
     bnd (if csv_begun st then csv_on_handler close st else Inr st) (\<lambda>st.
       Inr (st\<lparr>cr_stack := False # tl (cr_stack st)\<rparr>))"

text \<open>The structure of a line is opened with its first field.\<close>

definition csv_begin_line :: "('h \<Rightarrow> 'h result) \<Rightarrow> 'h csv_reader \<Rightarrow> 'h csv_reader result" where
  "csv_begin_line begin_line st =
     (if csv_begun st then Inr st
      else bnd (csv_on_handler begin_line st) (\<lambda>st. Inr (st\<lparr>cr_stack := True # tl (cr_stack st)\<rparr>)))"

definition csv_array_value :: "'h input_handler \<Rightarrow> 'h csv_reader \<Rightarrow> 'h csv_reader result" where
  "csv_array_value h st = bnd (csv_begin_line (ih_begin_array h) st) (\<lambda>st.
     csv_on_handler (ih_string h (cr_string_buffer st)) st)"

definition csv_array_step :: "'h input_handler \<Rightarrow> char \<Rightarrow> 'h csv_reader \<Rightarrow> 'h csv_reader result option" where
  "csv_array_step h c st = (let st = csv_newline c st in
     if cr_column st = 0 then Some (csv_end_line (ih_end_array h) st)
     else if cr_column st = 1 \<and> c = cr_comment_symbol st then
       (let st = csv_skip_ch st in
        if csv_eof st then Some (Inl (JsonParseException ''Unexpected EOF''))
        else map_option Inr (csv_ignore_single_line_comment st))
     else if c = cr_quote_char st then obind (csv_parse_quoted_string st) (\<lambda>st. Some (csv_array_value h st))
     else obind (map_option Inr (csv_parse_string (csv_unread_last_ch st))) (\<lambda>st. Some (csv_array_value h st)))"

partial_function (option) csv_array_loop :: "'h input_handler \<Rightarrow> 'h csv_reader \<Rightarrow> 'h csv_reader result option" where
  "csv_array_loop h st =
     (if csv_eof st then Some (Inr st)
      else let (c, st) = csv_read_ch st in
        if csv_eof st then Some (Inr st)
        else (case csv_array_step h c st of
            None \<Rightarrow> None
          | Some (Inl e) \<Rightarrow> Some (Inl e)
          | Some (Inr st) \<Rightarrow> csv_array_loop h st))"

definition csv_close_line :: "('h \<Rightarrow> 'h result) \<Rightarrow> 'h csv_reader \<Rightarrow> 'h csv_reader result" where
  "csv_close_line close st = (if length (cr_stack st) > 1 then
       bnd (if csv_begun st then csv_on_handler close st else Inr st) (\<lambda>st. Inr (st\<lparr>cr_stack := tl (cr_stack st)\<rparr>))
     else Inr st)"

definition csv_read_array_of_arrays :: "'h input_handler \<Rightarrow> 'h csv_reader \<Rightarrow> 'h csv_reader result option" where
  "csv_read_array_of_arrays h st = obind (csv_array_loop h (st\<lparr>cr_stack := False # cr_stack st\<rparr>))
     (\<lambda>st. Some (csv_close_line (ih_end_array h) st))"

text \<open>With a header: the names, the number of the line and of the column.\<close>

record csv_columns =
  cc_header :: "string list"
  cc_row_index :: nat
  cc_column_index :: nat

definition csv_object_value :: "'h input_handler \<Rightarrow> csv_columns \<Rightarrow> 'h csv_reader \<Rightarrow> 'h csv_reader result" where
  "csv_object_value h cols st = bnd (csv_begin_line (ih_begin_object h) st) (\<lambda>st.
     if cc_column_index cols < length (cc_header cols) then
       bnd (csv_on_handler (ih_name h (cc_header cols ! cc_column_index cols)) st)
         (\<lambda>st. csv_on_handler (ih_string h (cr_string_buffer st)) st)
     else Inr st)"

definition next_column :: "csv_columns \<Rightarrow> csv_columns" where
  "next_column cols = cols\<lparr>cc_column_index := cc_column_index cols + 1\<rparr>"

definition csv_object_step ::
  "'h input_handler \<Rightarrow> char \<Rightarrow> csv_columns \<Rightarrow> 'h csv_reader \<Rightarrow> (csv_columns \<times> 'h csv_reader) result option" where
  "csv_object_step h c cols st = (let st = csv_newline c st in
     if cr_column st = 0 then Some (bnd (csv_end_line (ih_end_object h) st) (\<lambda>st.
       Inr (cols\<lparr>cc_row_index := cc_row_index cols + 1, cc_column_index := 0\<rparr>, st)))
     else if c = cr_quote_char st then obind (csv_parse_quoted_string st) (\<lambda>st.
       Some (bnd (csv_object_value h cols st) (\<lambda>st. Inr (next_column cols, st))))
     else obind (map_option Inr (csv_parse_string (csv_unread_last_ch st))) (\<lambda>st.
       if cc_row_index cols = 0 then
         Some (Inr (next_column (cols\<lparr>cc_header := cc_header cols @ [cr_string_buffer st]\<rparr>), st))
       else Some (bnd (csv_object_value h cols st) (\<lambda>st. Inr (next_column cols, st)))))"

partial_function (option) csv_object_loop ::
  "'h input_handler \<Rightarrow> csv_columns \<Rightarrow> 'h csv_reader \<Rightarrow> 'h csv_reader result option" where
  "csv_object_loop h cols st =
     (if csv_eof st then Some (Inr st)
      else let (c, st) = csv_read_ch st in
        if csv_eof st then Some (Inr st)
        else (case csv_object_step h c cols st of
            None \<Rightarrow> None
          | Some (Inl e) \<Rightarrow> Some (Inl e)
          | Some (Inr (cols, st)) \<Rightarrow> csv_object_loop h cols st))"

definition csv_read_array_of_objects :: "'h input_handler \<Rightarrow> 'h csv_reader \<Rightarrow> 'h csv_reader result option" where
  "csv_read_array_of_objects h st =
     obind (csv_object_loop h \<lparr>cc_header = [], cc_row_index = 0, cc_column_index = 0\<rparr> (st\<lparr>cr_stack := False # cr_stack st\<rparr>))
     (\<lambda>st. Some (csv_close_line (ih_end_object h) st))"

text \<open>\<open>read(is)\<close>\<close>

definition csv_read :: "'h input_handler \<Rightarrow> 'h csv_reader \<Rightarrow> 'h csv_reader result option" where
  "csv_read h st = (let st = st\<lparr>cr_position := 0, cr_buffer := [], cr_line := 1, cr_column := 0,
       cr_stack := False # cr_stack st\<rparr> in
     obind (Some (csv_on_handler (ih_begin_array h) st)) (\<lambda>st.
     let st = st\<lparr>cr_stack := True # tl (cr_stack st)\<rparr> in
     obind (if cr_assume_header st then csv_read_array_of_objects h st else csv_read_array_of_arrays h st) (\<lambda>st.
     Some (bnd (csv_on_handler (ih_end_array h) st) (\<lambda>st. Inr (st\<lparr>cr_stack := tl (cr_stack st)\<rparr>))))))"

text \<open>The value read with a deserializer.\<close>

definition read_csv :: "json \<Rightarrow> string \<Rightarrow> json result option" where
  "read_csv params s = obind (Some (new_csv_reader s new_deserializer params)) (\<lambda>st.
     obind (csv_read deserializer_handler st) (\<lambda>st. Some (Inr (d_root (cr_handler st)))))"

declare csv_string_loop.simps [code] csv_skip_loop.simps [code] csv_quoted_loop.simps [code]
  csv_array_loop.simps [code] csv_object_loop.simps [code]

end
