(* ===== verification/CsvTotal.thy ===== *)
theory CsvTotal
  imports CsvReader
begin

text \<open>
  The CSV reader ends on every input, with an event handler that keeps its contract: it returns, or
  throws \<open>json_parse_exception\<close>.
\<close>

section \<open>The text that is left\<close>

definition pending :: "'h csv_reader \<Rightarrow> string" where
  "pending st = drop (cr_position st) (cr_buffer st) @ cr_input st"

definition csv_ok :: "'h csv_reader \<Rightarrow> bool" where
  "csv_ok st \<longleftrightarrow> 0 < cr_capacity st \<and> (cr_input_eof st \<longrightarrow> cr_input st = [])"

text \<open>Everything but the buffer and the stream.\<close>

definition csv_rest :: "'h csv_reader \<Rightarrow> 'h csv_reader" where
  "csv_rest st = st\<lparr>cr_position := 0, cr_buffer := [], cr_input := [], cr_input_eof := False\<rparr>"

lemma csv_rest_simps [simp]:
  "cr_column (csv_rest st) = cr_column st" "cr_line (csv_rest st) = cr_line st"
  "cr_string_buffer (csv_rest st) = cr_string_buffer st" "cr_stack (csv_rest st) = cr_stack st"
  "cr_capacity (csv_rest st) = cr_capacity st" "cr_handler (csv_rest st) = cr_handler st"
  "cr_field_delimiter (csv_rest st) = cr_field_delimiter st" "cr_quote_char (csv_rest st) = cr_quote_char st"
  "cr_quote_escape_char (csv_rest st) = cr_quote_escape_char st"
  "cr_comment_symbol (csv_rest st) = cr_comment_symbol st"
  by (simp_all add: csv_rest_def)

lemma csv_rest_update [simp]:
  "csv_rest (st\<lparr>cr_column := n\<rparr>) = (csv_rest st)\<lparr>cr_column := n\<rparr>"
  "csv_rest (st\<lparr>cr_line := l\<rparr>) = (csv_rest st)\<lparr>cr_line := l\<rparr>"
  "csv_rest (st\<lparr>cr_string_buffer := s\<rparr>) = (csv_rest st)\<lparr>cr_string_buffer := s\<rparr>"
  "csv_rest (st\<lparr>cr_stack := x\<rparr>) = (csv_rest st)\<lparr>cr_stack := x\<rparr>"
  "csv_rest (st\<lparr>cr_handler := h\<rparr>) = (csv_rest st)\<lparr>cr_handler := h\<rparr>"
  "csv_rest (st\<lparr>cr_position := p\<rparr>) = csv_rest st"
  by (simp_all add: csv_rest_def)

lemma csv_update [simp]:
  "pending (st\<lparr>cr_column := n\<rparr>) = pending st" "pending (st\<lparr>cr_line := l\<rparr>) = pending st"
  "pending (st\<lparr>cr_string_buffer := s\<rparr>) = pending st" "pending (st\<lparr>cr_stack := x\<rparr>) = pending st"
  "pending (st\<lparr>cr_handler := h\<rparr>) = pending st"
  "csv_ok (st\<lparr>cr_column := n\<rparr>) = csv_ok st" "csv_ok (st\<lparr>cr_line := l\<rparr>) = csv_ok st"
  "csv_ok (st\<lparr>cr_string_buffer := s\<rparr>) = csv_ok st" "csv_ok (st\<lparr>cr_stack := x\<rparr>) = csv_ok st"
  "csv_ok (st\<lparr>cr_handler := h\<rparr>) = csv_ok st" "csv_ok (st\<lparr>cr_position := p\<rparr>) = csv_ok st"
  "csv_eof (st\<lparr>cr_column := n\<rparr>) = csv_eof st" "csv_eof (st\<lparr>cr_line := l\<rparr>) = csv_eof st"
  "csv_eof (st\<lparr>cr_string_buffer := s\<rparr>) = csv_eof st" "csv_eof (st\<lparr>cr_stack := x\<rparr>) = csv_eof st"
  "csv_eof (st\<lparr>cr_handler := h\<rparr>) = csv_eof st"
  by (simp_all add: pending_def csv_ok_def csv_eof_def)

lemma csv_push_simps [simp]:
  "pending (csv_push c st) = pending st" "csv_ok (csv_push c st) = csv_ok st" "csv_eof (csv_push c st) = csv_eof st"
  "csv_rest (csv_push c st) = csv_push c (csv_rest st)"
  by (simp_all add: csv_push_def)

section \<open>Reading a character\<close>

lemma csv_fill_ok:
  assumes "csv_ok st"
  shows "csv_ok (csv_fill st) \<and> pending (csv_fill st) = pending st \<and> csv_rest (csv_fill st) = csv_rest st \<and>
    (if pending st = [] then cr_position (csv_fill st) = 0 \<and> cr_buffer (csv_fill st) = [] \<and> cr_input_eof (csv_fill st)
     else cr_position (csv_fill st) < length (cr_buffer (csv_fill st)) \<and> csv_char (csv_fill st) = hd (pending st))"
proof (cases "cr_position st < length (cr_buffer st)")
  case True
  then show ?thesis using assms
    by (auto simp: csv_fill_def pending_def csv_char_def hd_append hd_drop_conv_nth)
next
  case False
  then have "take (cr_capacity st) (cr_input st) \<noteq> []" if "cr_input st \<noteq> []"
    using assms that by (simp add: csv_ok_def)
  then show ?thesis using assms False
    by (cases "cr_input st")
      (auto simp: csv_fill_def csv_read_some_def pending_def csv_char_def csv_ok_def Let_def csv_rest_def hd_conv_nth)
qed

text \<open>The character just read is still in the buffer.\<close>

definition took :: "char \<Rightarrow> 'h csv_reader \<Rightarrow> bool" where
  "took c st \<longleftrightarrow> 0 < cr_position st \<and> cr_position st \<le> length (cr_buffer st) \<and> cr_buffer st ! (cr_position st - 1) = c"

lemma csv_read_ch_Nil:
  assumes "csv_ok st" "pending st = []"
  obtains st' where "csv_read_ch st = (CHR 0x00, st')" "csv_ok st'" "pending st' = []" "csv_eof st'"
    "csv_rest st' = (csv_rest st)\<lparr>cr_column := cr_column st + 1\<rparr>"
proof -
  let ?st' = "(csv_fill st)\<lparr>cr_position := cr_position (csv_fill st) + 1, cr_column := cr_column (csv_fill st) + 1\<rparr>"
  have fill: "csv_ok (csv_fill st)" "csv_rest (csv_fill st) = csv_rest st" "pending (csv_fill st) = []"
    "cr_position (csv_fill st) = 0" "cr_buffer (csv_fill st) = []" "cr_input_eof (csv_fill st)"
    using csv_fill_ok[OF assms(1)] assms(2) by simp_all
  have col: "cr_column (csv_fill st) = cr_column st" using fill(2) by (metis csv_rest_simps(1))
  show ?thesis
  proof (rule that[of ?st'])
    show "csv_read_ch st = (CHR 0x00, ?st')" using fill by (simp add: csv_read_ch_def Let_def csv_char_def)
    show "csv_ok ?st'" using fill by simp
    show "pending ?st' = []" using fill(3-5) by (simp add: pending_def)
    show "csv_eof ?st'" using fill by (simp add: csv_eof_def)
    show "csv_rest ?st' = (csv_rest st)\<lparr>cr_column := cr_column st + 1\<rparr>" using fill(2) col by simp
  qed
qed

lemma csv_read_ch_Cons:
  assumes "csv_ok st" "pending st = c # t"
  obtains st' where "csv_read_ch st = (c, st')" "csv_ok st'" "pending st' = t" "\<not> csv_eof st'" "took c st'"
    "csv_rest st' = (csv_rest st)\<lparr>cr_column := cr_column st + 1\<rparr>"
proof -
  let ?f = "csv_fill st"
  let ?st' = "?f\<lparr>cr_position := cr_position ?f + 1, cr_column := cr_column ?f + 1\<rparr>"
  have fill: "csv_ok ?f" "csv_rest ?f = csv_rest st" "pending ?f = c # t"
    "cr_position ?f < length (cr_buffer ?f)" "csv_char ?f = c"
    using csv_fill_ok[OF assms(1)] assms(2) by simp_all
  have col: "cr_column ?f = cr_column st" using fill(2) by (metis csv_rest_simps(1))
  show ?thesis
  proof (rule that[of ?st'])
    show "csv_read_ch st = (c, ?st')" using fill by (simp add: csv_read_ch_def Let_def)
    show "csv_ok ?st'" using fill by simp
    show "pending ?st' = t" using fill(3,4) by (simp add: pending_def Cons_nth_drop_Suc[symmetric])
    show "\<not> csv_eof ?st'" using fill(4) by (simp add: csv_eof_def)
    show "took c ?st'" using fill(4,5) by (simp add: took_def csv_char_def)
    show "csv_rest ?st' = (csv_rest st)\<lparr>cr_column := cr_column st + 1\<rparr>" using fill(2) col by simp
  qed
qed

lemma csv_unread_took:
  assumes "took c st" "csv_ok st"
  shows "pending (csv_unread_last_ch st) = c # pending st" "csv_ok (csv_unread_last_ch st)"
    "\<not> csv_eof (csv_unread_last_ch st)"
    "csv_rest (csv_unread_last_ch st) = (csv_rest st)\<lparr>cr_column := cr_column st - 1\<rparr>"
proof -
  have "drop (cr_position st - 1) (cr_buffer st) = c # drop (cr_position st) (cr_buffer st)"
    using assms(1) unfolding took_def
    by (metis Cons_nth_drop_Suc One_nat_def Suc_pred diff_less less_le_trans zero_less_one)
  then show "pending (csv_unread_last_ch st) = c # pending st" "csv_ok (csv_unread_last_ch st)"
    "\<not> csv_eof (csv_unread_last_ch st)"
    "csv_rest (csv_unread_last_ch st) = (csv_rest st)\<lparr>cr_column := cr_column st - 1\<rparr>"
    using assms by (auto simp: csv_unread_last_ch_def pending_def took_def csv_eof_def)
qed

text \<open>Putting back never gives more than one character, and never breaks the state.\<close>

lemma csv_unread_ok:
  assumes "csv_ok st"
  shows "csv_ok (csv_unread_last_ch st)" "length (pending (csv_unread_last_ch st)) \<le> length (pending st) + 1"
    "csv_rest (csv_unread_last_ch st) = (csv_rest st)\<lparr>cr_column := cr_column (csv_unread_last_ch st)\<rparr>"
  using assms by (auto simp: csv_unread_last_ch_def pending_def csv_rest_def)

lemma csv_pair_ok:
  assumes "csv_ok st" "csv_pair a b c st = (p, st')"
  shows "csv_ok st' \<and> pending st' = pending st \<and> csv_rest st' = csv_rest st \<and> (c \<noteq> a \<longrightarrow> \<not> p \<and> st' = st)"
  using assms csv_fill_ok[OF assms(1)]
  by (auto simp: csv_pair_def csv_peek_def Let_def split: if_splits)

section \<open>Fields\<close>

text \<open>Reading moves the column and changes the string buffer, nothing else.\<close>

definition csv_frame :: "'h csv_reader \<Rightarrow> 'h csv_reader \<Rightarrow> bool" where
  "csv_frame st st' \<longleftrightarrow> csv_rest st' =
     (csv_rest st)\<lparr>cr_column := cr_column st', cr_string_buffer := cr_string_buffer st'\<rparr>"

lemma csv_frameD:
  assumes "csv_frame st st'"
  shows "cr_line st' = cr_line st" "cr_stack st' = cr_stack st" "cr_handler st' = cr_handler st"
    "cr_field_delimiter st' = cr_field_delimiter st" "cr_quote_char st' = cr_quote_char st"
    "cr_quote_escape_char st' = cr_quote_escape_char st" "cr_comment_symbol st' = cr_comment_symbol st"
proof -
  let ?r = "(csv_rest st)\<lparr>cr_column := cr_column st', cr_string_buffer := cr_string_buffer st'\<rparr>"
  have eq: "csv_rest st' = ?r" using assms by (simp add: csv_frame_def)
  show "cr_line st' = cr_line st" using arg_cong[OF eq, of cr_line] by simp
  show "cr_stack st' = cr_stack st" using arg_cong[OF eq, of cr_stack] by simp
  show "cr_handler st' = cr_handler st" using arg_cong[OF eq, of cr_handler] by simp
  show "cr_field_delimiter st' = cr_field_delimiter st" using arg_cong[OF eq, of cr_field_delimiter] by simp
  show "cr_quote_char st' = cr_quote_char st" using arg_cong[OF eq, of cr_quote_char] by simp
  show "cr_quote_escape_char st' = cr_quote_escape_char st" using arg_cong[OF eq, of cr_quote_escape_char] by simp
  show "cr_comment_symbol st' = cr_comment_symbol st" using arg_cong[OF eq, of cr_comment_symbol] by simp
qed

lemma csv_frame_trans: "csv_frame st st' \<Longrightarrow> csv_frame st' st'' \<Longrightarrow> csv_frame st st''"
  by (simp add: csv_frame_def)

lemma csv_frame_column: "csv_rest st' = (csv_rest st)\<lparr>cr_column := n\<rparr> \<Longrightarrow> csv_frame st st'"
proof -
  assume eq: "csv_rest st' = (csv_rest st)\<lparr>cr_column := n\<rparr>"
  have "cr_column st' = n" "cr_string_buffer st' = cr_string_buffer st"
    using arg_cong[OF eq, of cr_column] arg_cong[OF eq, of cr_string_buffer] by simp_all
  then show ?thesis using eq by (simp add: csv_frame_def csv_rest_def)
qed

lemma csv_frame_eq: "csv_rest st' = csv_rest st \<Longrightarrow> csv_frame st st'"
  by (rule csv_frame_column[where n = "cr_column st"]) (simp add: csv_rest_def)

lemma csv_frame_buffer [simp]: "csv_frame st (st\<lparr>cr_string_buffer := s\<rparr>)"
  by (simp add: csv_frame_def csv_rest_def)

lemma csv_frame_push [simp]: "csv_frame st (csv_push c st)"
  by (simp add: csv_push_def)

lemma csv_frame_unread: "csv_ok st \<Longrightarrow> csv_frame st (csv_unread_last_ch st)"
  using csv_unread_ok(3) csv_frame_column by blast

lemma csv_read_ch_ok:
  assumes "csv_ok st"
  obtains c st' where "csv_read_ch st = (c, st')" "csv_ok st'" "csv_frame st st'"
    "csv_eof st' \<longleftrightarrow> pending st = []" "pending st \<noteq> [] \<Longrightarrow> pending st = c # pending st' \<and> took c st'"
    "pending st = [] \<Longrightarrow> c = CHR 0x00 \<and> pending st' = []"
proof (cases "pending st")
  case Nil
  obtain st' where "csv_read_ch st = (CHR 0x00, st')" "csv_ok st'" "pending st' = []" "csv_eof st'"
    "csv_rest st' = (csv_rest st)\<lparr>cr_column := cr_column st + 1\<rparr>"
    by (rule csv_read_ch_Nil[OF assms Nil])
  then show ?thesis using that[of "CHR 0x00" st', OF _ _ csv_frame_column] Nil by simp
next
  case (Cons c t)
  obtain st' where "csv_read_ch st = (c, st')" "csv_ok st'" "pending st' = t" "\<not> csv_eof st'" "took c st'"
    "csv_rest st' = (csv_rest st)\<lparr>cr_column := cr_column st + 1\<rparr>"
    by (rule csv_read_ch_Cons[OF assms Cons])
  then show ?thesis using that[of c st', OF _ _ csv_frame_column] Cons by simp
qed

lemma csv_skip_ch_ok:
  assumes "csv_ok st"
  shows "csv_ok (csv_skip_ch st)" "csv_frame st (csv_skip_ch st)" "length (pending (csv_skip_ch st)) = length (pending st) - 1"
proof -
  obtain c st' where r: "csv_read_ch st = (c, st')" "csv_ok st'" "csv_frame st st'"
    "pending st \<noteq> [] \<Longrightarrow> pending st = c # pending st'" "pending st = [] \<Longrightarrow> pending st' = []"
    using csv_read_ch_ok[OF assms] by metis
  then show "csv_ok (csv_skip_ch st)" "csv_frame st (csv_skip_ch st)"
    "length (pending (csv_skip_ch st)) = length (pending st) - 1"
    by (cases "pending st"; simp add: csv_skip_ch_def)+
qed

lemma csv_field_end_ok:
  assumes "csv_ok st" "csv_field_end c st = (e, st')"
  shows "csv_ok st' \<and> csv_frame st st' \<and> (e \<longleftrightarrow> c = LF \<or> c = CR \<or> c = cr_field_delimiter st) \<and>
    (if e then length (pending st') \<le> length (pending st) + 1 else pending st' = pending st) \<and>
    (csv_eof st \<and> c = CHR 0x00 \<longrightarrow> pending st' = [])"
proof -
  obtain p st1 where p: "csv_pair CR LF c st = (p, st1)" by (metis surj_pair)
  have st1: "csv_ok st1" "pending st1 = pending st" "csv_frame st st1" "p \<longrightarrow> c = CR"
    using csv_pair_ok[OF assms(1) p] csv_frame_eq by auto
  note delim = csv_frameD(4)[OF st1(3)]
  have un: "csv_ok (csv_unread_last_ch st1)" "csv_frame st (csv_unread_last_ch st1)"
    "length (pending (csv_unread_last_ch st1)) \<le> length (pending st) + 1"
    using csv_unread_ok[OF st1(1)] csv_frame_unread[OF st1(1)] csv_frame_trans[OF st1(3)] st1(2) by auto
  have "pending (csv_unread_last_ch st1) = [] \<and> pending st1 = []" if "csv_eof st" "c = CHR 0x00"
  proof -
    have "st1 = st" using csv_pair_ok[OF assms(1) p] that(2) by simp
    then show ?thesis using assms(1) that(1) by (auto simp: csv_unread_last_ch_def pending_def csv_eof_def csv_ok_def)
  qed
  then show ?thesis using assms(2) p st1 un delim
    by (auto simp: csv_field_end_def split: if_splits)
qed

text \<open>Where the field is not over, its first character is taken.\<close>

lemma csv_string_loop_ends:
  assumes "csv_ok st"
  shows "\<exists>st'. csv_string_loop st = Some st' \<and> csv_ok st' \<and> csv_frame st st' \<and>
    length (pending st') \<le> length (pending st) \<and>
    (\<forall>c t. pending st = c # t \<longrightarrow> c \<noteq> LF \<longrightarrow> c \<noteq> CR \<longrightarrow> c \<noteq> cr_field_delimiter st \<longrightarrow> length (pending st') \<le> length t)"
  using assms
proof (induction "length (pending st)" arbitrary: st rule: less_induct)
  case less
  obtain c st1 where r: "csv_read_ch st = (c, st1)" "csv_ok st1" "csv_frame st st1" "csv_eof st1 \<longleftrightarrow> pending st = []"
    "pending st \<noteq> [] \<Longrightarrow> pending st = c # pending st1" "pending st = [] \<Longrightarrow> c = CHR 0x00 \<and> pending st1 = []"
    using csv_read_ch_ok[OF less.prems] by metis
  obtain e st2 where e: "csv_field_end c st1 = (e, st2)" by (metis surj_pair)
  note st2 = csv_field_end_ok[OF r(2) e]
  have unfold: "csv_string_loop st = (if e then Some st2 else if csv_eof st1 then Some (csv_push c st2)
      else csv_string_loop (csv_push c st2))"
    by (subst csv_string_loop.simps) (simp add: r(1) e)
  have frame: "csv_frame st st2" "csv_frame st (csv_push c st2)"
    using csv_frame_trans[OF r(3)] st2 csv_frame_trans[OF _ csv_frame_push] by blast+
  show ?case
  proof (cases "e \<or> csv_eof st1")
    case True
    show ?thesis
      using True unfold st2 frame r(4-6) csv_frameD(4)[OF r(3)]
      by (cases "pending st"; cases e) auto
  next
    case False
    then have nonempty: "pending st \<noteq> []" using r(4) by simp
    have "length (pending (csv_push c st2)) < length (pending st)" "csv_ok (csv_push c st2)"
      using False st2 r(5)[OF nonempty] by auto
    then obtain st' where st': "csv_string_loop (csv_push c st2) = Some st'" "csv_ok st'" "csv_frame (csv_push c st2) st'"
      "length (pending st') \<le> length (pending st2)"
      using less.hyps[of "csv_push c st2"] by auto
    then show ?thesis
      using False unfold st2 frame csv_frame_trans[OF frame(2) st'(3)] r(5)[OF nonempty] by auto
  qed
qed

lemma csv_skip_loop_ends:
  assumes "csv_ok st"
  shows "\<exists>st'. csv_skip_loop st = Some st' \<and> csv_ok st' \<and> csv_frame st st' \<and> length (pending st') \<le> length (pending st)"
  using assms
proof (induction "length (pending st)" arbitrary: st rule: less_induct)
  case less
  obtain c st1 where r: "csv_read_ch st = (c, st1)" "csv_ok st1" "csv_frame st st1" "csv_eof st1 \<longleftrightarrow> pending st = []"
    "pending st \<noteq> [] \<Longrightarrow> pending st = c # pending st1" "pending st = [] \<Longrightarrow> c = CHR 0x00 \<and> pending st1 = []"
    using csv_read_ch_ok[OF less.prems] by metis
  obtain e st2 where e: "csv_field_end c st1 = (e, st2)" by (metis surj_pair)
  note st2 = csv_field_end_ok[OF r(2) e]
  have unfold: "csv_skip_loop st = (if e \<or> csv_eof st1 then Some st2 else csv_skip_loop st2)"
    by (subst csv_skip_loop.simps) (simp add: r(1) e)
  have frame: "csv_frame st st2" using csv_frame_trans[OF r(3)] st2 by blast
  show ?case
  proof (cases "pending st = []")
    case True
    then show ?thesis using unfold st2 frame r(4,6) by auto
  next
    case nonempty: False
    show ?thesis
    proof (cases e)
      case True
      then show ?thesis using unfold st2 frame r(5)[OF nonempty] by auto
    next
      case False
      then have "length (pending st2) < length (pending st)" using st2 r(5)[OF nonempty] by auto
      then obtain st' where "csv_skip_loop st2 = Some st'" "csv_ok st'" "csv_frame st2 st'"
        "length (pending st') \<le> length (pending st2)"
        using less.hyps[of st2] st2 by auto
      then show ?thesis
        using False nonempty unfold r(4) st2 csv_frame_trans[OF frame] r(5)[OF nonempty] by auto
    qed
  qed
qed

text \<open>A computation ends with a result, or with the exception of the parser.\<close>

definition csv_ends :: "'a result option \<Rightarrow> ('a \<Rightarrow> bool) \<Rightarrow> bool" where
  "csv_ends r Q = (case r of None \<Rightarrow> False | Some (Inl e) \<Rightarrow> (\<exists>msg. e = JsonParseException msg) | Some (Inr x) \<Rightarrow> Q x)"

lemma csv_ends_simps [simp]:
  "csv_ends (Some (Inr x)) Q = Q x" "csv_ends (Some (Inl (JsonParseException msg))) Q"
  by (simp_all add: csv_ends_def)

lemma csv_ends_obind: "csv_ends r P \<Longrightarrow> (\<And>x. P x \<Longrightarrow> csv_ends (f x) Q) \<Longrightarrow> csv_ends (obind r f) Q"
  by (cases "(r, f)" rule: obind.cases) (auto simp: csv_ends_def)

lemma csv_ends_mono: "csv_ends r P \<Longrightarrow> (\<And>x. P x \<Longrightarrow> Q x) \<Longrightarrow> csv_ends r Q"
  by (auto simp: csv_ends_def split: option.splits sum.splits)

lemma csv_ends_returns: "returns r Q \<Longrightarrow> csv_ends (Some r) Q"
  by (auto simp: returns_iff)

lemma csv_quoted_loop_ends:
  assumes "csv_ok st"
  shows "csv_ends (csv_quoted_loop st) (\<lambda>st'. csv_ok st' \<and> csv_frame st st' \<and> length (pending st') \<le> length (pending st))"
  using assms
proof (induction "length (pending st)" arbitrary: st rule: less_induct)
  case less
  obtain c st1 where r: "csv_read_ch st = (c, st1)" "csv_ok st1" "csv_frame st st1" "csv_eof st1 \<longleftrightarrow> pending st = []"
    "pending st \<noteq> [] \<Longrightarrow> pending st = c # pending st1"
    using csv_read_ch_ok[OF less.prems] by metis
  obtain esc st2 where p: "csv_pair (cr_quote_escape_char st1) (cr_quote_char st1) c st1 = (esc, st2)" by (metis surj_pair)
  have st2: "csv_ok st2" "pending st2 = pending st1" "csv_frame st st2"
    using csv_pair_ok[OF r(2) p] csv_frame_trans[OF r(3) csv_frame_eq] by auto
  have unfold: "csv_quoted_loop st = (if csv_eof st1 then Some (Inl (JsonParseException ''EOF, expected quote character''))
      else if esc then csv_quoted_loop (csv_skip_ch (csv_push (cr_quote_char st2) st2))
      else if c = cr_quote_char st2 then Some (Inr st2) else csv_quoted_loop (csv_push c st2))"
    by (subst csv_quoted_loop.simps) (simp add: r(1) p)
  show ?case
  proof (cases "pending st = []")
    case True
    then show ?thesis using unfold r(4) by simp
  next
    case False
    then have len: "length (pending st2) < length (pending st)" using r(5) st2(2) by simp
    have next_char: "csv_ends (csv_quoted_loop st3) (\<lambda>st'. csv_ok st' \<and> csv_frame st st' \<and> length (pending st') \<le> length (pending st))"
      if "csv_ok st3" "csv_frame st2 st3" "length (pending st3) \<le> length (pending st2)" for st3
      using less.hyps[of st3] that len csv_frame_trans[OF st2(3)] csv_frame_trans[of st2 st3]
      by (auto elim!: csv_ends_mono)
    let ?q = "csv_push (cr_quote_char st2) st2"
    have "csv_ok ?q" using st2(1) by simp
    note skip = csv_skip_ch_ok[OF this]
    show ?thesis
      using unfold False r(4) st2 len next_char[of "csv_push c st2"] next_char[of "csv_skip_ch ?q"]
        skip(1,3) csv_frame_trans[OF csv_frame_push skip(2)] by auto
  qed
qed

lemma csv_parse_quoted_ends:
  assumes "csv_ok st"
  shows "csv_ends (csv_parse_quoted_string st)
    (\<lambda>st'. csv_ok st' \<and> csv_frame st st' \<and> length (pending st') \<le> length (pending st))"
  unfolding csv_parse_quoted_string_def
proof (rule csv_ends_obind)
  show "csv_ends (csv_quoted_loop (st\<lparr>cr_string_buffer := []\<rparr>))
      (\<lambda>st1. csv_ok st1 \<and> csv_frame st st1 \<and> length (pending st1) \<le> length (pending st))"
    using csv_quoted_loop_ends[of "st\<lparr>cr_string_buffer := []\<rparr>"] assms csv_frame_trans[OF csv_frame_buffer]
    by (auto elim!: csv_ends_mono)
  fix st1 assume st1: "csv_ok st1 \<and> csv_frame st st1 \<and> length (pending st1) \<le> length (pending st)"
  then obtain st2 where "csv_skip_loop st1 = Some st2" "csv_ok st2" "csv_frame st1 st2" "length (pending st2) \<le> length (pending st1)"
    using csv_skip_loop_ends[of st1] by blast
  then show "csv_ends (map_option Inr (csv_skip_loop st1))
      (\<lambda>st'. csv_ok st' \<and> csv_frame st st' \<and> length (pending st') \<le> length (pending st))"
    using st1 csv_frame_trans[of st st1 st2] by auto
qed

section \<open>One step\<close>

lemma csv_unread_skip:
  assumes "csv_ok st"
  shows "length (pending (csv_unread_last_ch (csv_skip_ch st))) \<le> length (pending st)"
proof -
  obtain c st1 where r: "csv_read_ch st = (c, st1)" "csv_ok st1" "csv_eof st1 \<longleftrightarrow> pending st = []"
    "pending st \<noteq> [] \<Longrightarrow> pending st = c # pending st1 \<and> took c st1"
    using csv_read_ch_ok[OF assms] by metis
  show ?thesis
  proof (cases "pending st = []")
    case True
    then show ?thesis using r by (auto simp: csv_skip_ch_def csv_unread_last_ch_def pending_def csv_eof_def csv_ok_def)
  next
    case False
    then show ?thesis using r csv_unread_took(1)[of c st1] by (simp add: csv_skip_ch_def)
  qed
qed

text \<open>The line changes; the stack and the handler do not.\<close>

definition csv_same :: "'h csv_reader \<Rightarrow> 'h csv_reader \<Rightarrow> bool" where
  "csv_same st st' \<longleftrightarrow> cr_stack st' = cr_stack st \<and> cr_handler st' = cr_handler st \<and>
     cr_field_delimiter st' = cr_field_delimiter st"

lemma csv_same_frame: "csv_frame st st' \<Longrightarrow> csv_same st st'"
  by (simp add: csv_same_def csv_frameD)

lemma csv_newline_ok:
  assumes "csv_ok st" "st' = csv_newline c st"
  shows "csv_ok st' \<and> csv_same st st' \<and> length (pending st') \<le> length (pending st) \<and>
    (c \<noteq> LF \<and> c \<noteq> CR \<and> c \<noteq> cr_field_delimiter st \<longrightarrow> st' = st) \<and>
    ((c = LF \<or> c = CR) \<and> c \<noteq> cr_field_delimiter st \<longrightarrow> cr_column st' = 0) \<and>
    (c = cr_field_delimiter st \<longrightarrow> length (pending (csv_unread_last_ch st')) \<le> length (pending st))"
proof -
  obtain p st1 where p: "csv_pair CR LF c st = (p, st1)" by (metis surj_pair)
  have st1: "csv_ok st1" "pending st1 = pending st" "csv_same st st1" "c \<noteq> CR \<longrightarrow> \<not> p \<and> st1 = st"
    using csv_pair_ok[OF assms(1) p] csv_same_frame[OF csv_frame_eq] by auto
  define st2 where "st2 = (if p then (csv_skip_ch st1)\<lparr>cr_line := cr_line st1 + 1, cr_column := 0\<rparr>
             else if c = LF \<or> c = CR then st1\<lparr>cr_line := cr_line st1 + 1, cr_column := 0\<rparr> else st1)"
  have "csv_same st1 (csv_skip_ch st1)" using csv_same_frame[OF csv_skip_ch_ok(2)[OF st1(1)]] .
  then have st2: "csv_ok st2" "csv_same st st2" "length (pending st2) \<le> length (pending st)"
    using st1 csv_skip_ch_ok[OF st1(1)] by (auto simp: st2_def csv_same_def)
  have col: "c = LF \<or> c = CR \<Longrightarrow> cr_column st2 = 0" "c \<noteq> LF \<Longrightarrow> c \<noteq> CR \<Longrightarrow> st2 = st"
    using st1(4) by (auto simp: st2_def)
  have st': "st' = (if c = cr_field_delimiter st then csv_skip_ch st2 else st2)"
    using st2(2) by (simp add: assms(2) csv_newline_def p Let_def st2_def csv_same_def)
  have "csv_same st2 (csv_skip_ch st2)" using csv_same_frame[OF csv_skip_ch_ok(2)[OF st2(1)]] .
  then show ?thesis
    using st2 col csv_skip_ch_ok[OF st2(1)] csv_unread_skip[OF st2(1)] by (auto simp: st' csv_same_def)
qed

text \<open>What is read as a field after a character leaves no more text than there was after the character.\<close>

lemma csv_parse_field_ends:
  assumes "csv_ok st" "took c st" "st1 = csv_newline c st" "cr_column st1 \<noteq> 0"
  shows "\<exists>st'. csv_parse_string (csv_unread_last_ch st1) = Some st' \<and> csv_ok st' \<and> csv_same st st' \<and>
    length (pending st') \<le> length (pending st)"
proof -
  note st1 = csv_newline_ok[OF assms(1,3)]
  let ?u = "(csv_unread_last_ch st1)\<lparr>cr_string_buffer := []\<rparr>"
  have u: "csv_ok ?u" "csv_frame st1 ?u"
    using st1 csv_unread_ok(1) csv_frame_trans[OF csv_frame_unread csv_frame_buffer] by auto
  obtain st' where st': "csv_string_loop ?u = Some st'" "csv_ok st'" "csv_frame ?u st'"
    "length (pending st') \<le> length (pending ?u)"
    "\<forall>c t. pending ?u = c # t \<longrightarrow> c \<noteq> LF \<longrightarrow> c \<noteq> CR \<longrightarrow> c \<noteq> cr_field_delimiter ?u \<longrightarrow> length (pending st') \<le> length t"
    using csv_string_loop_ends[OF u(1)] by blast
  have "csv_same st st'"
    using st1 csv_same_frame[OF csv_frame_trans[OF u(2) st'(3)]] by (auto simp: csv_same_def)
  moreover have "length (pending st') \<le> length (pending st)"
  proof (cases "c = cr_field_delimiter st")
    case True
    then show ?thesis using st1 st'(4) by simp
  next
    case False
    then have "c \<noteq> LF" "c \<noteq> CR" "st1 = st" using st1 assms(4) by auto
    moreover have "pending ?u = c # pending st" using csv_unread_took(1)[OF assms(2,1)] \<open>st1 = st\<close> by simp
    moreover have "cr_field_delimiter ?u = cr_field_delimiter st" using csv_frameD(4)[OF u(2)] \<open>st1 = st\<close> by simp
    ultimately show ?thesis using st'(5) False by simp
  qed
  ultimately show ?thesis using st'(1,2) by (simp add: csv_parse_string_def)
qed

section \<open>Any handler\<close>

lemma ex_bool [simp]: "\<exists>b. b" "\<exists>b. \<not> b"
  by blast+

text \<open>
  What the reader asks of a handler: structures can be opened at any depth, and named, filled and
  closed as long as one is open.
\<close>

locale event_handler =
  fixes h :: "'h input_handler" and depth :: "'h \<Rightarrow> nat"
  assumes begin_object: "returns (ih_begin_object h s) (\<lambda>s'. depth s' = depth s + 1)"
    and begin_array: "returns (ih_begin_array h s) (\<lambda>s'. depth s' = depth s + 1)"
    and end_object: "0 < depth s \<Longrightarrow> returns (ih_end_object h s) (\<lambda>s'. depth s' = depth s - 1)"
    and end_array: "0 < depth s \<Longrightarrow> returns (ih_end_array h s) (\<lambda>s'. depth s' = depth s - 1)"
    and set_name: "0 < depth s \<Longrightarrow> returns (ih_name h n s) (\<lambda>s'. depth s' = depth s)"
    and string_value: "0 < depth s \<Longrightarrow> returns (ih_string h v s) (\<lambda>s'. depth s' = depth s)"
begin

definition in_line :: "'h csv_reader \<Rightarrow> bool" where
  "in_line st \<longleftrightarrow> csv_ok st \<and> (\<exists>b. cr_stack st = [b, True] \<and> depth (cr_handler st) = (if b then 2 else 1))"

definition goes_on :: "'h csv_reader \<Rightarrow> 'h csv_reader \<Rightarrow> bool" where
  "goes_on st st' \<longleftrightarrow> in_line st' \<and> length (pending st') \<le> length (pending st)"

lemma in_line_same: "in_line st \<Longrightarrow> csv_same st st' \<Longrightarrow> csv_ok st' \<Longrightarrow> in_line st'"
  by (simp add: in_line_def csv_same_def)

lemma on_handler_returns:
  "returns (f (cr_handler st)) Q \<Longrightarrow>
    returns (csv_on_handler f st) (\<lambda>st'. \<exists>s. st' = st\<lparr>cr_handler := s\<rparr> \<and> Q s)"
  by (auto simp: csv_on_handler_def returns_iff)

lemma end_line_returns:
  assumes "in_line st" "\<And>s. 0 < depth s \<Longrightarrow> returns (close s) (\<lambda>s'. depth s' = depth s - 1)"
  shows "returns (csv_end_line close st) (goes_on st)"
proof -
  obtain b where b: "cr_stack st = [b, True]" "depth (cr_handler st) = (if b then 2 else 1)" "csv_ok st"
    using assms(1) by (auto simp: in_line_def)
  show ?thesis
  proof (cases b)
    case True
    have "returns (csv_on_handler close st) (\<lambda>st'. \<exists>s. st' = st\<lparr>cr_handler := s\<rparr> \<and> depth s = 1)"
      using on_handler_returns[where f = close and st = st and Q = "\<lambda>s. depth s = 1"] assms(2)[of "cr_handler st"] b True by simp
    then show ?thesis
      using b True by (auto simp: csv_end_line_def csv_begun_def returns_iff goes_on_def in_line_def)
  next
    case False
    then show ?thesis using b by (auto simp: csv_end_line_def csv_begun_def goes_on_def in_line_def)
  qed
qed

lemma begin_line_returns:
  assumes "in_line st" "\<And>s. returns (op s) (\<lambda>s'. depth s' = depth s + 1)"
  shows "returns (csv_begin_line op st) (\<lambda>st'. goes_on st st' \<and> depth (cr_handler st') = 2)"
proof -
  obtain b where b: "cr_stack st = [b, True]" "depth (cr_handler st) = (if b then 2 else 1)" "csv_ok st"
    using assms(1) by (auto simp: in_line_def)
  show ?thesis
  proof (cases b)
    case True
    then have "in_line st" "csv_begin_line op st = Inr st" "depth (cr_handler st) = 2"
      using assms(1) b by (simp_all add: csv_begin_line_def csv_begun_def)
    then show ?thesis by (simp add: goes_on_def)
  next
    case False
    have "returns (csv_on_handler op st) (\<lambda>st'. \<exists>s. st' = st\<lparr>cr_handler := s\<rparr> \<and> depth s = 2)"
      using on_handler_returns[where f = op and st = st and Q = "\<lambda>s. depth s = 2"] assms(2)[of "cr_handler st"] b False by (simp add: numeral_2_eq_2)
    then show ?thesis
      using b False by (auto simp: csv_begin_line_def csv_begun_def returns_iff goes_on_def in_line_def)
  qed
qed

lemma on_value_returns:
  assumes "goes_on st0 st" "0 < depth (cr_handler st)"
    "\<And>s. 0 < depth s \<Longrightarrow> returns (f s) (\<lambda>s'. depth s' = depth s)"
  shows "returns (csv_on_handler f st) (\<lambda>st'. goes_on st0 st' \<and> depth (cr_handler st') = depth (cr_handler st))"
  using on_handler_returns[where f = f and st = st, OF assms(3)[OF assms(2)]] assms(1)
  by (auto simp: returns_iff goes_on_def in_line_def)

lemma array_value_returns: "in_line st \<Longrightarrow> returns (csv_array_value h st) (goes_on st)"
  unfolding csv_array_value_def
  by (rule returns_bndI[OF begin_line_returns[OF _ begin_array]])
    (auto intro: returns_mono[OF on_value_returns[OF _ _ string_value]])

lemma object_value_returns:
  assumes "in_line st"
  shows "returns (csv_object_value h cols st) (goes_on st)"
  unfolding csv_object_value_def
proof (rule returns_bndI[OF begin_line_returns[OF assms begin_object]])
  fix st1 assume st1: "goes_on st st1 \<and> depth (cr_handler st1) = 2"
  have "returns (bnd (csv_on_handler (ih_name h n) st1) (\<lambda>st. csv_on_handler (ih_string h (cr_string_buffer st)) st)) (goes_on st)"
    for n
    by (rule returns_bndI[OF on_value_returns[OF conjunct1[OF st1] _ set_name]])
      (use st1 in \<open>auto intro: returns_mono[OF on_value_returns[OF _ _ string_value]]\<close>)
  then show "returns (if cc_column_index cols < length (cc_header cols) then
       bnd (csv_on_handler (ih_name h (cc_header cols ! cc_column_index cols)) st1)
         (\<lambda>st. csv_on_handler (ih_string h (cr_string_buffer st)) st)
     else Inr st1) (goes_on st)"
    using st1 by simp
qed

lemma goes_on_refl: "in_line st \<Longrightarrow> goes_on st st"
  by (simp add: goes_on_def)

lemma goes_on_trans:
  "csv_same st st1 \<Longrightarrow> length (pending st1) \<le> length (pending st) \<Longrightarrow> goes_on st1 st2 \<Longrightarrow> goes_on st st2"
  by (simp add: goes_on_def)

text \<open>A field in quotes or without, and what is done with it.\<close>

lemma quoted_ends:
  assumes "in_line st" "\<And>st. in_line st \<Longrightarrow> csv_ends (f st) (\<lambda>x. Q x \<and> goes_on st (g x))"
  shows "csv_ends (obind (csv_parse_quoted_string st) f) (\<lambda>x. goes_on st (g x))"
proof (rule csv_ends_obind[OF csv_parse_quoted_ends])
  show "csv_ok st" using assms(1) by (simp add: in_line_def)
  fix st1 assume st1: "csv_ok st1 \<and> csv_frame st st1 \<and> length (pending st1) \<le> length (pending st)"
  have "in_line st1" using in_line_same[OF assms(1) csv_same_frame] st1 by blast
  from assms(2)[OF this] show "csv_ends (f st1) (\<lambda>x. goes_on st (g x))"
    by (rule csv_ends_mono) (use st1 in \<open>auto simp: goes_on_def\<close>)
qed

lemma unquoted_ends:
  assumes "in_line st" "took c st" "st1 = csv_newline c st" "cr_column st1 \<noteq> 0"
    "\<And>st. in_line st \<Longrightarrow> csv_ends (f st) (\<lambda>x. Q x \<and> goes_on st (g x))"
  shows "csv_ends (obind (map_option Inr (csv_parse_string (csv_unread_last_ch st1))) f) (\<lambda>x. goes_on st (g x))"
proof -
  have "csv_ok st" using assms(1) by (simp add: in_line_def)
  then obtain st2 where st2: "csv_parse_string (csv_unread_last_ch st1) = Some st2" "csv_ok st2" "csv_same st st2"
    "length (pending st2) \<le> length (pending st)"
    using csv_parse_field_ends[OF _ assms(2-4)] by blast
  from assms(5)[OF in_line_same[OF assms(1) st2(3,2)]] have "csv_ends (f st2) (\<lambda>x. goes_on st (g x))"
    by (rule csv_ends_mono) (use st2(4) in \<open>auto simp: goes_on_def\<close>)
  then show ?thesis by (simp add: st2(1))
qed

lemma array_step_ends:
  assumes "in_line st" "took c st"
  shows "csv_ends (csv_array_step h c st) (goes_on st)"
proof -
  define st1 where "st1 = csv_newline c st"
  have ok: "csv_ok st" using assms(1) by (simp add: in_line_def)
  note newline = csv_newline_ok[OF ok st1_def]
  have st1: "in_line st1" "csv_same st st1" "length (pending st1) \<le> length (pending st)"
    using newline in_line_same[OF assms(1)] by blast+
  note unfold = csv_array_step_def[of h c st, folded st1_def, unfolded Let_def]
  consider (line) "cr_column st1 = 0" | (remark) "cr_column st1 = 1" "c = cr_comment_symbol st1"
    | (quoted) "cr_column st1 \<noteq> 0" "\<not> (cr_column st1 = 1 \<and> c = cr_comment_symbol st1)" "c = cr_quote_char st1"
    | (plain) "cr_column st1 \<noteq> 0" "\<not> (cr_column st1 = 1 \<and> c = cr_comment_symbol st1)" "c \<noteq> cr_quote_char st1"
    by blast
  then show ?thesis
  proof cases
    case line
    then show ?thesis
      using csv_ends_returns[OF end_line_returns[OF st1(1) end_array]] goes_on_trans[OF st1(2,3)]
      by (auto simp: unfold elim: csv_ends_mono)
  next
    case remark
    let ?s = "csv_skip_ch st1"
    have s: "csv_ok ?s" "csv_frame st1 ?s" "length (pending ?s) \<le> length (pending st1)"
      using csv_skip_ch_ok[of st1] st1(1) by (auto simp: in_line_def)
    obtain st2 where st2: "csv_skip_loop ?s = Some st2" "csv_ok st2" "csv_frame ?s st2" "length (pending st2) \<le> length (pending ?s)"
      using csv_skip_loop_ends[OF s(1)] by blast
    have "in_line st2" using in_line_same[OF st1(1) csv_same_frame[OF csv_frame_trans[OF s(2) st2(3)]] st2(2)] .
    then show ?thesis
      unfolding unfold using remark s(3) st1(3) st2(1,4) by (simp add: csv_ignore_single_line_comment_def goes_on_def)
  next
    case quoted
    have "csv_ends (obind (csv_parse_quoted_string st1) (\<lambda>st. Some (csv_array_value h st))) (\<lambda>x. goes_on st1 x)"
      by (rule quoted_ends[OF st1(1), where Q = "\<lambda>_. True"]) (auto intro: csv_ends_returns array_value_returns)
    then show ?thesis unfolding unfold if_not_P[OF quoted(1)] if_not_P[OF quoted(2)] if_P[OF quoted(3)]
      by (rule csv_ends_mono) (rule goes_on_trans[OF st1(2,3)])
  next
    case plain
    have "csv_ends (obind (map_option Inr (csv_parse_string (csv_unread_last_ch st1))) (\<lambda>st. Some (csv_array_value h st)))
        (\<lambda>x. goes_on st x)"
      by (rule unquoted_ends[OF assms st1_def plain(1), where Q = "\<lambda>_. True"]) (auto intro: csv_ends_returns array_value_returns)
    then show ?thesis using plain by (auto simp: unfold)
  qed
qed

lemma object_field_returns:
  "in_line st \<Longrightarrow> returns (bnd (csv_object_value h cols st) (\<lambda>st. Inr (next_column cols, st))) (\<lambda>x. goes_on st (snd x))"
  by (rule returns_bndI[OF object_value_returns]) simp_all

lemma object_step_ends:
  assumes "in_line st" "took c st"
  shows "csv_ends (csv_object_step h c cols st) (\<lambda>x. goes_on st (snd x))"
proof -
  define st1 where "st1 = csv_newline c st"
  have ok: "csv_ok st" using assms(1) by (simp add: in_line_def)
  note newline = csv_newline_ok[OF ok st1_def]
  have st1: "in_line st1" "csv_same st st1" "length (pending st1) \<le> length (pending st)"
    using newline in_line_same[OF assms(1)] by blast+
  note unfold = csv_object_step_def[of h c cols st, folded st1_def, unfolded Let_def]
  consider (line) "cr_column st1 = 0" | (quoted) "cr_column st1 \<noteq> 0" "c = cr_quote_char st1"
    | (plain) "cr_column st1 \<noteq> 0" "c \<noteq> cr_quote_char st1" by blast
  then show ?thesis
  proof cases
    case line
    have "returns (bnd (csv_end_line (ih_end_object h) st1) (\<lambda>st.
       Inr (cols\<lparr>cc_row_index := cc_row_index cols + 1, cc_column_index := 0\<rparr>, st))) (\<lambda>x. goes_on st1 (snd x))"
      by (rule returns_bndI[OF end_line_returns[OF st1(1) end_object]]) simp_all
    from csv_ends_returns[OF this] show ?thesis
      unfolding unfold if_P[OF line] by (rule csv_ends_mono) (rule goes_on_trans[OF st1(2,3)])
  next
    case quoted
    have "csv_ends (obind (csv_parse_quoted_string st1) (\<lambda>st.
       Some (bnd (csv_object_value h cols st) (\<lambda>st. Inr (next_column cols, st))))) (\<lambda>x. goes_on st1 (snd x))"
      by (rule quoted_ends[OF st1(1), where Q = "\<lambda>_. True"]) (auto intro: csv_ends_returns object_field_returns)
    then show ?thesis unfolding unfold if_not_P[OF quoted(1)] if_P[OF quoted(2)]
      by (rule csv_ends_mono) (rule goes_on_trans[OF st1(2,3)])
  next
    case plain
    have "csv_ends (obind (map_option Inr (csv_parse_string (csv_unread_last_ch st1))) (\<lambda>st.
       if cc_row_index cols = 0 then
         Some (Inr (next_column (cols\<lparr>cc_header := cc_header cols @ [cr_string_buffer st]\<rparr>), st))
       else Some (bnd (csv_object_value h cols st) (\<lambda>st. Inr (next_column cols, st))))) (\<lambda>x. goes_on st (snd x))"
      by (rule unquoted_ends[OF assms st1_def plain(1), where Q = "\<lambda>_. True"])
        (auto intro: csv_ends_returns object_field_returns goes_on_refl)
    then show ?thesis using plain by (auto simp: unfold)
  qed
qed

section \<open>The loops\<close>

lemma array_loop_ends: "in_line st \<Longrightarrow> csv_ends (csv_array_loop h st) in_line"
proof (induction "length (pending st)" arbitrary: st rule: less_induct)
  case less
  have ok: "csv_ok st" using less.prems by (simp add: in_line_def)
  obtain c st1 where r: "csv_read_ch st = (c, st1)" "csv_ok st1" "csv_frame st st1" "csv_eof st1 \<longleftrightarrow> pending st = []"
    "pending st \<noteq> [] \<Longrightarrow> pending st = c # pending st1 \<and> took c st1"
    using csv_read_ch_ok[OF ok] by metis
  have st1: "in_line st1" using in_line_same[OF less.prems csv_same_frame[OF r(3)] r(2)] .
  note unfold = csv_array_loop.simps[of h st, unfolded r(1) Let_def prod.case]
  show ?case
  proof (cases "csv_eof st \<or> csv_eof st1")
    case True
    then show ?thesis using less.prems st1 by (auto simp: unfold)
  next
    case False
    then have took: "took c st1" "pending st = c # pending st1" using r(4,5) by blast+
    have "csv_ends (csv_array_step h c st1) (goes_on st1)" by (rule array_step_ends[OF st1 took(1)])
    then consider (err) msg where "csv_array_step h c st1 = Some (Inl (JsonParseException msg))"
      | (ok) st2 where "csv_array_step h c st1 = Some (Inr st2)" "goes_on st1 st2"
      by (auto simp: csv_ends_def split: option.splits sum.splits)
    then show ?thesis
    proof cases
      case err
      then show ?thesis using False by (simp add: unfold)
    next
      case ok
      then have "csv_ends (csv_array_loop h st2) in_line"
        using less.hyps[of st2] took(2) by (auto simp: goes_on_def)
      then show ?thesis using False ok(1) by (simp add: unfold)
    qed
  qed
qed

lemma object_loop_ends: "in_line st \<Longrightarrow> csv_ends (csv_object_loop h cols st) in_line"
proof (induction "length (pending st)" arbitrary: cols st rule: less_induct)
  case less
  have ok: "csv_ok st" using less.prems by (simp add: in_line_def)
  obtain c st1 where r: "csv_read_ch st = (c, st1)" "csv_ok st1" "csv_frame st st1" "csv_eof st1 \<longleftrightarrow> pending st = []"
    "pending st \<noteq> [] \<Longrightarrow> pending st = c # pending st1 \<and> took c st1"
    using csv_read_ch_ok[OF ok] by metis
  have st1: "in_line st1" using in_line_same[OF less.prems csv_same_frame[OF r(3)] r(2)] .
  note unfold = csv_object_loop.simps[of h cols st, unfolded r(1) Let_def prod.case]
  show ?case
  proof (cases "csv_eof st \<or> csv_eof st1")
    case True
    then show ?thesis using less.prems st1 by (auto simp: unfold)
  next
    case False
    then have took: "took c st1" "pending st = c # pending st1" using r(4,5) by blast+
    have "csv_ends (csv_object_step h c cols st1) (\<lambda>x. goes_on st1 (snd x))" by (rule object_step_ends[OF st1 took(1)])
    then consider (err) msg where "csv_object_step h c cols st1 = Some (Inl (JsonParseException msg))"
      | (ok) cols2 st2 where "csv_object_step h c cols st1 = Some (Inr (cols2, st2))" "goes_on st1 st2"
      by (auto simp: csv_ends_def split: option.splits sum.splits)
    then show ?thesis
    proof cases
      case err
      then show ?thesis using False by (simp add: unfold)
    next
      case ok
      then have "csv_ends (csv_object_loop h cols2 st2) in_line"
        using less.hyps[of st2] took(2) by (auto simp: goes_on_def)
      then show ?thesis using False ok(1) by (simp add: unfold)
    qed
  qed
qed

lemma close_line_returns:
  assumes "in_line st" "\<And>s. 0 < depth s \<Longrightarrow> returns (close s) (\<lambda>s'. depth s' = depth s - 1)"
  shows "returns (csv_close_line close st) (\<lambda>st'. cr_stack st' = [True] \<and> depth (cr_handler st') = 1)"
proof -
  obtain b where b: "cr_stack st = [b, True]" "depth (cr_handler st) = (if b then 2 else 1)" "csv_ok st"
    using assms(1) by (auto simp: in_line_def)
  show ?thesis
  proof (cases b)
    case True
    have "returns (csv_on_handler close st) (\<lambda>st'. \<exists>s. st' = st\<lparr>cr_handler := s\<rparr> \<and> depth s = 1)"
      using on_handler_returns[where f = close and st = st and Q = "\<lambda>s. depth s = 1"] assms(2)[of "cr_handler st"] b True by simp
    then show ?thesis using b True by (auto simp: csv_close_line_def csv_begun_def returns_iff)
  next
    case False
    then show ?thesis using b by (simp add: csv_close_line_def csv_begun_def)
  qed
qed

text \<open>The whole text: the reader ends at the depth at which it began.\<close>

lemma read_ends:
  assumes "csv_ok st" "cr_stack st = []" "depth (cr_handler st) = 0"
  shows "csv_ends (csv_read h st) (\<lambda>st'. cr_stack st' = [] \<and> depth (cr_handler st') = 0)"
proof -
  let ?st = "st\<lparr>cr_position := 0, cr_buffer := [], cr_line := 1, cr_column := 0, cr_stack := False # cr_stack st\<rparr>"
  have "csv_ok ?st" using assms(1) by (simp add: csv_ok_def)
  obtain s where s: "ih_begin_array h (cr_handler st) = Inr s" "depth s = 1"
    using begin_array[of "cr_handler st"] assms(3) by (auto simp: returns_iff)
  define st1 where "st1 = ?st\<lparr>cr_handler := s, cr_stack := [True]\<rparr>"
  have first: "obind (Some (csv_on_handler (ih_begin_array h) ?st)) f = f (?st\<lparr>cr_handler := s\<rparr>)" for f :: "'h csv_reader \<Rightarrow> 'h csv_reader result option"
    by (simp add: csv_on_handler_def s(1))
  have st1_eq: "(?st\<lparr>cr_handler := s\<rparr>)\<lparr>cr_stack := True # tl (cr_stack (?st\<lparr>cr_handler := s\<rparr>))\<rparr> = st1"
    using assms(2) by (simp add: st1_def)
  have line: "in_line (st1\<lparr>cr_stack := False # cr_stack st1\<rparr>)" using assms s(2) by (simp add: in_line_def csv_ok_def st1_def)
  have "csv_ends (csv_read_array_of_arrays h st1) (\<lambda>st'. cr_stack st' = [True] \<and> depth (cr_handler st') = 1)"
    unfolding csv_read_array_of_arrays_def
    by (rule csv_ends_obind[OF array_loop_ends[OF line]]) (rule csv_ends_returns[OF close_line_returns[OF _ end_array]])
  moreover have "csv_ends (csv_read_array_of_objects h st1) (\<lambda>st'. cr_stack st' = [True] \<and> depth (cr_handler st') = 1)"
    unfolding csv_read_array_of_objects_def
    by (rule csv_ends_obind[OF object_loop_ends[OF line]]) (rule csv_ends_returns[OF close_line_returns[OF _ end_object]])
  ultimately have "csv_ends (if cr_assume_header st1 then csv_read_array_of_objects h st1 else csv_read_array_of_arrays h st1)
      (\<lambda>st'. cr_stack st' = [True] \<and> depth (cr_handler st') = 1)" by simp
  moreover have "csv_ends (Some (bnd (csv_on_handler (ih_end_array h) st2) (\<lambda>st. Inr (st\<lparr>cr_stack := tl (cr_stack st)\<rparr>))))
      (\<lambda>st'. cr_stack st' = [] \<and> depth (cr_handler st') = 0)"
    if "cr_stack st2 = [True] \<and> depth (cr_handler st2) = 1" for st2
    using end_array[of "cr_handler st2"] that by (auto simp: csv_on_handler_def returns_iff)
  ultimately show ?thesis
    unfolding csv_read_def Let_def first st1_eq by (rule csv_ends_obind)
qed

end

section \<open>The deserializer\<close>

interpretation des: event_handler deserializer_handler "\<lambda>d. length (d_stack d)"
proof
  fix d :: deserializer and name v :: string
  show "returns (ih_begin_object deserializer_handler d) (\<lambda>d'. length (d_stack d') = length (d_stack d) + 1)"
    "returns (ih_begin_array deserializer_handler d) (\<lambda>d'. length (d_stack d') = length (d_stack d) + 1)"
    by (simp_all add: deserializer_handler_def d_begin_object_def d_begin_array_def d_push_def)
  assume d: "0 < length (d_stack d)"
  show "returns (ih_end_object deserializer_handler d) (\<lambda>d'. length (d_stack d') = length (d_stack d) - 1)"
    "returns (ih_end_array deserializer_handler d) (\<lambda>d'. length (d_stack d') = length (d_stack d) - 1)"
    using d by (auto simp: deserializer_handler_def d_end_object_def d_end_array_def d_close_def d_value_def Let_def
        split: list.split)
  show "returns (ih_name deserializer_handler name d) (\<lambda>d'. length (d_stack d') = length (d_stack d))"
    "returns (ih_string deserializer_handler v d) (\<lambda>d'. length (d_stack d') = length (d_stack d))"
    using d by (auto simp: deserializer_handler_def d_set_name_def d_value_def split: list.split)
qed

lemma new_csv_reader_ok:
  assumes "new_csv_reader s d params = Inr st"
  shows "csv_ok st \<and> cr_stack st = [] \<and> cr_handler st = d \<and> cr_input st = s"
  using assms by (auto simp: new_csv_reader_def csv_init_def bnd_eq_Inr csv_ok_def default_max_buffer_length_def)

text \<open>
  C40. With parameters that are accepted the CSV reader ends on every text: with a value, or with
  \<open>json_parse_exception\<close>.  No event reaches the deserializer when its stack is empty, and the stack is
  empty at the end.
\<close>

theorem csv_reading_ends:
  assumes "new_csv_reader s new_deserializer params = Inr st"
  shows "\<exists>r. csv_read deserializer_handler st = Some r \<and> (case r of
     Inl e \<Rightarrow> \<exists>msg. e = JsonParseException msg
   | Inr st' \<Rightarrow> cr_stack st' = [] \<and> d_stack (cr_handler st') = [])"
proof -
  have "csv_ends (csv_read deserializer_handler st) (\<lambda>st'. cr_stack st' = [] \<and> length (d_stack (cr_handler st')) = 0)"
    using new_csv_reader_ok[OF assms] by (intro des.read_ends) (simp_all add: new_deserializer_def)
  then show ?thesis by (auto simp: csv_ends_def split: option.splits sum.splits)
qed

theorem csv_reading_ends_witness:
  "\<exists>r. csv_read deserializer_handler (projr (new_csv_reader ([CHR 0x22] @ ''never closed'') new_deserializer an_object)) = Some r"
proof -
  have "new_csv_reader s new_deserializer an_object = Inr (projr (new_csv_reader s new_deserializer an_object))" for s
    by (simp add: new_csv_reader_def csv_init_def char_param_def an_object_def)
  from csv_reading_ends[OF this] show ?thesis by blast
qed

end
