(* ===== verification/CsvRound.thy ===== *)
theory CsvRound
  imports CsvTotal
begin

text \<open>
  CSV text written from lines of strings reads back.  Quotes work in the first column only, and a field
  is put into quotes only if it has a comma; the first field of a line may not be empty.
\<close>

section \<open>What is written\<close>

definition plain_field :: "string \<Rightarrow> bool" where
  "plain_field f \<longleftrightarrow> CHR '','' \<notin> set f \<and> CHR 0x22 \<notin> set f \<and> LF \<notin> set f \<and> CR \<notin> set f"

definition first_field :: "string \<Rightarrow> bool" where
  "first_field f \<longleftrightarrow> CHR '','' \<in> set f \<or> plain_field f \<and> f \<noteq> [] \<and> hd f \<noteq> CHR 0x00"

fun csv_line :: "string list \<Rightarrow> bool" where
  "csv_line [] = False"
| "csv_line (f # fs) = (first_field f \<and> list_all plain_field fs)"

definition field_text :: "string \<Rightarrow> string" where
  "field_text f = csv_field new_csv_serializer f"

fun line_text :: "string list \<Rightarrow> string" where
  "line_text [] = []"
| "line_text (f # fs) = field_text f @ concat (map (\<lambda>f. CHR '','' # field_text f) fs)"

definition string_lines :: "string list list \<Rightarrow> json" where
  "string_lines rows = JArray (map (\<lambda>r. JArray (map JString r)) rows)"

lemma escape_plain: "CHR 0x22 \<notin> set f \<Longrightarrow> csv_escape_string (CHR 0x22) (CHR 0x22) f = f"
  unfolding csv_escape_string_def by (induction f) auto

lemma field_text_plain: "plain_field f \<Longrightarrow> field_text f = f"
  by (simp add: field_text_def csv_field_def csv_quotes_def new_csv_serializer_def plain_field_def escape_plain)

lemma field_text_quoted: "CHR '','' \<in> set f \<Longrightarrow>
  field_text f = CHR 0x22 # csv_escape_string (CHR 0x22) (CHR 0x22) f @ [CHR 0x22]"
  by (simp add: field_text_def csv_field_def csv_quotes_def new_csv_serializer_def)

definition csv_writing :: "string \<Rightarrow> csv_item list \<Rightarrow> csv_serializer" where
  "csv_writing s items = new_csv_serializer\<lparr>cs_os := s, cs_stack := items\<rparr>"

lemma write_field:
  "csv_string_value f (csv_writing s [out, \<lparr>ci_is_object = False, ci_count = n, ci_skip = False\<rparr>]) =
    csv_writing (s @ (if n = 0 then [] else '','') @ field_text f) [out, \<lparr>ci_is_object = False, ci_count = n + 1, ci_skip = False\<rparr>]"
  by (simp add: csv_string_value_def csv_value_def csv_writing_def csv_begin_value_def csv_put_def csv_end_value_def
      on_last_def new_csv_serializer_def field_text_def csv_field_def csv_quotes_def Let_def)

lemma write_fields:
  "csv_elements_to_stream io (map JString fs) (csv_writing s [out, \<lparr>ci_is_object = False, ci_count = n, ci_skip = False\<rparr>]) =
    csv_writing (s @ (if n = 0 then line_text fs else concat (map (\<lambda>f. CHR '','' # field_text f) fs)))
      [out, \<lparr>ci_is_object = False, ci_count = n + length fs, ci_skip = False\<rparr>]"
proof (induction fs arbitrary: s n)
  case (Cons f fs)
  show ?case by (simp add: write_field Cons.IH)
qed simp

lemma write_lines:
  "csv_elements_to_stream io (map (\<lambda>r. JArray (map JString r)) rows)
     (csv_writing s [\<lparr>ci_is_object = False, ci_count = n, ci_skip = False\<rparr>]) =
    csv_writing (s @ concat (map (\<lambda>r. line_text r @ [LF]) rows)) [\<lparr>ci_is_object = False, ci_count = n + length rows, ci_skip = False\<rparr>]"
proof (induction rows arbitrary: s n)
  case (Cons r rows)
  let ?out = "\<lparr>ci_is_object = False, ci_count = n, ci_skip = False\<rparr>"
  have "csv_begin_array (csv_writing s [?out]) = csv_writing s [?out, \<lparr>ci_is_object = False, ci_count = 0, ci_skip = False\<rparr>]"
    by (simp add: csv_begin_array_def csv_writing_def new_csv_item_def)
  moreover have "csv_end_array (csv_writing t [?out, i]) =
      csv_writing (t @ [LF]) [\<lparr>ci_is_object = False, ci_count = n + 1, ci_skip = False\<rparr>]" for t i
    by (simp add: csv_end_array_def csv_writing_def csv_pop_def csv_put_def csv_end_value_def on_last_def new_csv_serializer_def)
  ultimately show ?case by (simp add: write_fields Cons.IH)
qed simp

lemma write_csv_lines: "write_csv io (string_lines rows) = concat (map (\<lambda>r. line_text r @ [LF]) rows)"
proof -
  have begin_doc: "csv_begin_array new_csv_serializer = csv_writing [] [\<lparr>ci_is_object = False, ci_count = 0, ci_skip = False\<rparr>]"
    by (simp add: csv_begin_array_def csv_writing_def new_csv_item_def new_csv_serializer_def)
  show ?thesis
    unfolding write_csv_def string_lines_def csv_to_stream.simps begin_doc write_lines
    by (simp add: csv_end_array_def csv_writing_def csv_pop_def csv_put_def csv_end_value_def)
qed

section \<open>Reading a field\<close>

lemma column_of: "csv_rest st' = (csv_rest st)\<lparr>cr_column := n\<rparr> \<Longrightarrow> cr_column st' = n \<and> cr_string_buffer st' = cr_string_buffer st"
proof -
  assume eq: "csv_rest st' = (csv_rest st)\<lparr>cr_column := n\<rparr>"
  show ?thesis using arg_cong[OF eq, of cr_column] arg_cong[OF eq, of cr_string_buffer] by simp
qed

lemma read_char:
  assumes "csv_ok st" "pending st = c # t"
  obtains st' where "csv_read_ch st = (c, st')" "csv_ok st'" "pending st' = t" "\<not> csv_eof st'" "took c st'" "csv_frame st st'"
    "cr_column st' = cr_column st + 1" "cr_string_buffer st' = cr_string_buffer st"
proof -
  obtain st' where "csv_read_ch st = (c, st')" "csv_ok st'" "pending st' = t" "\<not> csv_eof st'" "took c st'"
    "csv_rest st' = (csv_rest st)\<lparr>cr_column := cr_column st + 1\<rparr>"
    by (rule csv_read_ch_Cons[OF assms])
  then show ?thesis using that[of st'] column_of csv_frame_column by blast
qed

lemma unread_char:
  assumes "csv_ok st" "took c st"
  shows "csv_ok (csv_unread_last_ch st) \<and> pending (csv_unread_last_ch st) = c # pending st \<and>
    csv_frame st (csv_unread_last_ch st) \<and> cr_column (csv_unread_last_ch st) = cr_column st - 1 \<and>
    cr_string_buffer (csv_unread_last_ch st) = cr_string_buffer st"
  using csv_unread_took[OF assms(2,1)] column_of csv_frame_unread[OF assms(1)] by blast

lemma field_end_char:
  assumes "c \<noteq> CR"
  shows "csv_field_end c st = (if c = LF \<or> c = cr_field_delimiter st then (True, csv_unread_last_ch st) else (False, st))"
  using assms by (simp add: csv_field_end_def csv_pair_def)

lemma string_loop_reads:
  assumes "csv_ok st" "pending st = f @ d # t" "LF \<notin> set f" "CR \<notin> set f" "cr_field_delimiter st \<notin> set f"
    "d = LF \<or> d = cr_field_delimiter st" "d \<noteq> CR"
  shows "\<exists>st'. csv_string_loop st = Some st' \<and> csv_ok st' \<and> csv_frame st st' \<and> pending st' = d # t \<and>
    cr_string_buffer st' = cr_string_buffer st @ f \<and> cr_column st' = cr_column st + length f"
  using assms
proof (induction f arbitrary: st)
  case Nil
  obtain st1 where r: "csv_read_ch st = (d, st1)" "csv_ok st1" "pending st1 = t" "took d st1" "csv_frame st st1"
    "cr_column st1 = cr_column st + 1" "cr_string_buffer st1 = cr_string_buffer st"
    using read_char[OF Nil(1), of d t] Nil(2) by auto
  have "csv_field_end d st1 = (True, csv_unread_last_ch st1)"
    using Nil(6,7) csv_frameD(4)[OF r(5)] by (auto simp: field_end_char)
  then have "csv_string_loop st = Some (csv_unread_last_ch st1)" by (subst csv_string_loop.simps) (simp add: r(1))
  then show ?case using unread_char[OF r(2,4)] csv_frame_trans[OF r(5)] r by auto
next
  case (Cons c f)
  obtain st1 where r: "csv_read_ch st = (c, st1)" "csv_ok st1" "pending st1 = f @ d # t" "\<not> csv_eof st1" "csv_frame st st1"
    "cr_column st1 = cr_column st + 1" "cr_string_buffer st1 = cr_string_buffer st"
    using read_char[OF Cons.prems(1), of c "f @ d # t"] Cons.prems(2) by auto
  have delim: "cr_field_delimiter st1 = cr_field_delimiter st" using csv_frameD(4)[OF r(5)] .
  have "csv_field_end c st1 = (False, st1)"
    using Cons.prems(3-5) delim by (auto simp: field_end_char)
  then have unfold: "csv_string_loop st = csv_string_loop (csv_push c st1)"
    by (subst csv_string_loop.simps) (simp add: r(1,4))
  have "cr_field_delimiter (csv_push c st1) = cr_field_delimiter st" using delim by (simp add: csv_push_def)
  then obtain st' where "csv_string_loop (csv_push c st1) = Some st'" "csv_ok st'" "csv_frame (csv_push c st1) st'"
    "pending st' = d # t" "cr_string_buffer st' = cr_string_buffer (csv_push c st1) @ f"
    "cr_column st' = cr_column (csv_push c st1) + length f"
    using Cons.IH[of "csv_push c st1"] Cons.prems r(2,3) by auto
  then show ?case
    using unfold r(6,7) csv_frame_trans[OF r(5) csv_frame_trans[OF csv_frame_push]] by (auto simp: csv_push_def)
qed

lemma skip_loop_reads:
  assumes "csv_ok st" "pending st = d # t" "d = LF \<or> d = cr_field_delimiter st" "d \<noteq> CR"
  shows "\<exists>st'. csv_skip_loop st = Some st' \<and> csv_ok st' \<and> csv_frame st st' \<and> pending st' = d # t \<and>
    cr_string_buffer st' = cr_string_buffer st \<and> cr_column st' = cr_column st"
proof -
  obtain st1 where r: "csv_read_ch st = (d, st1)" "csv_ok st1" "pending st1 = t" "took d st1" "csv_frame st st1"
    "cr_column st1 = cr_column st + 1" "cr_string_buffer st1 = cr_string_buffer st"
    using read_char[OF assms(1,2)] by metis
  have "csv_field_end d st1 = (True, csv_unread_last_ch st1)"
    using assms(3,4) csv_frameD(4)[OF r(5)] by (auto simp: field_end_char)
  then have "csv_skip_loop st = Some (csv_unread_last_ch st1)" by (subst csv_skip_loop.simps) (simp add: r(1))
  then show ?thesis using unread_char[OF r(2,4)] csv_frame_trans[OF r(5)] r by auto
qed

lemma pair_peeks:
  assumes "csv_ok st" "pending st = c # t"
  shows "\<exists>st'. csv_pair a b a st = (c = b, st') \<and> csv_ok st' \<and> pending st' = c # t \<and> csv_frame st st' \<and>
    cr_column st' = cr_column st \<and> cr_string_buffer st' = cr_string_buffer st"
proof -
  have f: "csv_ok (csv_fill st)" "pending (csv_fill st) = c # t" "csv_rest (csv_fill st) = csv_rest st" "csv_char (csv_fill st) = c"
    using csv_fill_ok[OF assms(1)] assms(2) by simp_all
  have "cr_column (csv_fill st) = cr_column st" "cr_string_buffer (csv_fill st) = cr_string_buffer st"
    using arg_cong[OF f(3), of cr_column] arg_cong[OF f(3), of cr_string_buffer] by simp_all
  then show ?thesis using f csv_frame_eq[OF f(3)] by (auto simp: csv_pair_def csv_peek_def Let_def)
qed

lemma escape_simps:
  "csv_escape_string q e [] = []"
  "csv_escape_string q e (c # f) = (if c = q then [e, q] else [c]) @ csv_escape_string q e f"
  by (simp_all add: csv_escape_string_def)

lemma quoted_loop_reads:
  assumes "csv_ok st" "pending st = csv_escape_string q q f @ q # d # t" "cr_quote_char st = q" "cr_quote_escape_char st = q" "d \<noteq> q"
  shows "\<exists>st'. csv_quoted_loop st = Some (Inr st') \<and> csv_ok st' \<and> csv_frame st st' \<and> pending st' = d # t \<and>
    cr_string_buffer st' = cr_string_buffer st @ f \<and> cr_column st \<le> cr_column st'"
  using assms(1-4)
proof (induction f arbitrary: st)
  case Nil
  have "pending st = q # d # t" using Nil(2) by (simp add: escape_simps)
  then obtain st1 where r: "csv_read_ch st = (q, st1)" "csv_ok st1" "pending st1 = d # t" "\<not> csv_eof st1" "csv_frame st st1"
    "cr_column st1 = cr_column st + 1" "cr_string_buffer st1 = cr_string_buffer st"
    using read_char[OF Nil(1)] by metis
  obtain st2 where p: "csv_pair q q q st1 = (False, st2)" "csv_ok st2" "pending st2 = d # t" "csv_frame st1 st2"
    "cr_column st2 = cr_column st1" "cr_string_buffer st2 = cr_string_buffer st1"
    using pair_peeks[OF r(2,3), of q q] assms(5) by auto
  have "csv_quoted_loop st = Some (Inr st2)"
    using Nil(3,4) csv_frameD(5,6)[OF r(5)] csv_frameD(5)[OF p(4)]
    by (subst csv_quoted_loop.simps) (simp add: r(1,4) p(1))
  then show ?case using p r csv_frame_trans[OF r(5) p(4)] by auto
next
  case (Cons c f)
  let ?t = "csv_escape_string q q f @ q # d # t"
  show ?case
  proof (cases "c = q")
    case True
    have "pending st = q # q # ?t" using Cons.prems(2) True by (simp add: escape_simps)
    then obtain st1 where r: "csv_read_ch st = (q, st1)" "csv_ok st1" "pending st1 = q # ?t" "\<not> csv_eof st1" "csv_frame st st1"
      "cr_column st1 = cr_column st + 1" "cr_string_buffer st1 = cr_string_buffer st"
      using read_char[OF Cons.prems(1)] by metis
    obtain st2 where p: "csv_pair q q q st1 = (True, st2)" "csv_ok st2" "pending st2 = q # ?t" "csv_frame st1 st2"
      "cr_column st2 = cr_column st1" "cr_string_buffer st2 = cr_string_buffer st1"
      using pair_peeks[OF r(2,3), of q q] by auto
    have push: "csv_ok (csv_push q st2)" "pending (csv_push q st2) = q # ?t" "cr_column (csv_push q st2) = cr_column st2"
      "cr_string_buffer (csv_push q st2) = cr_string_buffer st2 @ [q]"
      using p(2,3) by (simp_all add: csv_push_def)
    obtain st3 where read: "csv_read_ch (csv_push q st2) = (q, st3)" and s: "csv_ok st3" "pending st3 = ?t"
      "csv_frame (csv_push q st2) st3" "cr_column st3 = cr_column (csv_push q st2) + 1"
      "cr_string_buffer st3 = cr_string_buffer (csv_push q st2)"
      using read_char[OF push(1,2)] by metis
    have skip: "csv_skip_ch (csv_push q st2) = st3" by (simp add: csv_skip_ch_def read)
    have frame: "csv_frame st st3"
      using csv_frame_trans[OF r(5) csv_frame_trans[OF p(4) csv_frame_trans[OF csv_frame_push s(3)]]] .
    have unfold: "csv_quoted_loop st = csv_quoted_loop st3"
      using Cons.prems(3,4) csv_frameD(5,6)[OF r(5)] csv_frameD(5)[OF p(4)]
      by (subst csv_quoted_loop.simps) (simp add: r(1,4) p(1) skip)
    have quotes: "cr_quote_char st3 = q" "cr_quote_escape_char st3 = q"
      using csv_frameD(5,6)[OF frame] Cons.prems(3,4) by simp_all
    obtain st' where "csv_quoted_loop st3 = Some (Inr st')" "csv_ok st'" "csv_frame st3 st'"
      "pending st' = d # t" "cr_string_buffer st' = cr_string_buffer st3 @ f" "cr_column st3 \<le> cr_column st'"
      using Cons.IH[OF s(1,2) quotes] by blast
    then show ?thesis
      using unfold s(4,5) push(3,4) p(5,6) r(6,7) True csv_frame_trans[OF frame] by auto
  next
    case False
    have "pending st = c # ?t" using Cons.prems(2) False by (simp add: escape_simps)
    then obtain st1 where r: "csv_read_ch st = (c, st1)" "csv_ok st1" "pending st1 = ?t" "\<not> csv_eof st1" "csv_frame st st1"
      "cr_column st1 = cr_column st + 1" "cr_string_buffer st1 = cr_string_buffer st"
      using read_char[OF Cons.prems(1)] by metis
    have frame: "csv_frame st (csv_push c st1)" using csv_frame_trans[OF r(5) csv_frame_push] .
    have unfold: "csv_quoted_loop st = csv_quoted_loop (csv_push c st1)"
      using Cons.prems(3,4) csv_frameD(5,6)[OF r(5)] False
      by (subst csv_quoted_loop.simps) (simp add: r(1,4) csv_pair_def)
    obtain st' where "csv_quoted_loop (csv_push c st1) = Some (Inr st')" "csv_ok st'" "csv_frame (csv_push c st1) st'"
      "pending st' = d # t" "cr_string_buffer st' = cr_string_buffer (csv_push c st1) @ f"
      "cr_column (csv_push c st1) \<le> cr_column st'"
      using Cons.IH[of "csv_push c st1"] r(2,3) Cons.prems(3,4) csv_frameD(5,6)[OF frame] by auto
    then show ?thesis
      using unfold r(6,7) csv_frame_trans[OF frame] by (auto simp: csv_push_def)
  qed
qed

section \<open>Reading lines\<close>

definition open_array :: "json list \<Rightarrow> ditem" where
  "open_array xs = \<lparr>d_name = [], d_is_object = False, d_object = [], d_array = xs\<rparr>"

abbreviation string_line :: "string list \<Rightarrow> json" where
  "string_line r \<equiv> JArray (map JString r)"

text \<open>The state between two fields: the text that is left, the fields of the line if it has begun, the lines before.\<close>

definition csv_at :: "deserializer csv_reader \<Rightarrow> string \<Rightarrow> string list option \<Rightarrow> string list list \<Rightarrow> bool" where
  "csv_at st p line rows \<longleftrightarrow> csv_ok st \<and> pending st = p \<and> cr_field_delimiter st = CHR '','' \<and>
     cr_quote_char st = CHR 0x22 \<and> cr_quote_escape_char st = CHR 0x22 \<and> cr_comment_symbol st = CHR 0x00 \<and>
     cr_stack st = [line \<noteq> None, True] \<and> (line = None \<longleftrightarrow> cr_column st = 0) \<and>
     d_stack (cr_handler st) = (case line of None \<Rightarrow> [] | Some xs \<Rightarrow> [open_array (map JString xs)]) @
       [open_array (map string_line rows)]"

lemma csv_at_frame:
  assumes "csv_at st p line rows" "csv_frame st st'" "csv_ok st'"
  shows "csv_frame st st'" "cr_field_delimiter st' = CHR '',''" "cr_quote_char st' = CHR 0x22" "cr_quote_escape_char st' = CHR 0x22"
    "cr_comment_symbol st' = CHR 0x00" "cr_stack st' = [line \<noteq> None, True]" "d_stack (cr_handler st') = d_stack (cr_handler st)"
proof -
  have at: "cr_field_delimiter st = CHR '',''" "cr_quote_char st = CHR 0x22" "cr_quote_escape_char st = CHR 0x22"
    "cr_comment_symbol st = CHR 0x00" "cr_stack st = [line \<noteq> None, True]"
    using assms(1) unfolding csv_at_def by blast+
  show "csv_frame st st'" by (rule assms(2))
  show "cr_field_delimiter st' = CHR '',''" "cr_quote_char st' = CHR 0x22" "cr_quote_escape_char st' = CHR 0x22"
    "cr_comment_symbol st' = CHR 0x00" "cr_stack st' = [line \<noteq> None, True]"
    "d_stack (cr_handler st') = d_stack (cr_handler st)"
    using csv_frameD[OF assms(2)] at by simp_all
qed

lemma loop_step:
  assumes "csv_ok st" "pending st \<noteq> []" "csv_read_ch st = (c, st1)" "\<not> csv_eof st1" "csv_array_step h c st1 = Some (Inr st2)"
  shows "csv_array_loop h st = csv_array_loop h st2"
proof -
  have "\<not> csv_eof st" using assms(1,2) by (auto simp: csv_eof_def csv_ok_def pending_def)
  then show ?thesis by (subst csv_array_loop.simps) (simp add: assms(3-5))
qed

text \<open>The field in the string buffer is added to the line.\<close>

lemma array_value_reads:
  assumes "csv_ok st'" "csv_at st p line rows" "csv_frame st st'" "cr_column st' > 0"
  shows "\<exists>st2. csv_array_value deserializer_handler st' = Inr st2 \<and>
    csv_at st2 (pending st') (Some ((case line of None \<Rightarrow> [] | Some xs \<Rightarrow> xs) @ [cr_string_buffer st'])) rows"
proof -
  note at = csv_at_frame[OF assms(2,3,1)]
  have stack: "d_stack (cr_handler st') = (case line of None \<Rightarrow> [] | Some xs \<Rightarrow> [open_array (map JString xs)]) @
       [open_array (map string_line rows)]"
    using at(7) assms(2) by (simp add: csv_at_def)
  show ?thesis
  proof (cases line)
    case None
    then show ?thesis using at(2-6) stack assms(1,4)
      by (simp add: csv_array_value_def csv_begin_line_def csv_begun_def csv_on_handler_def deserializer_handler_def
          d_begin_array_def d_push_def d_value_def csv_at_def open_array_def)
  next
    case (Some xs)
    then show ?thesis using at(2-6) stack assms(1,4)
      by (simp add: csv_array_value_def csv_begin_line_def csv_begun_def csv_on_handler_def deserializer_handler_def
          d_value_def csv_at_def open_array_def)
  qed
qed

lemma first_field_reads:
  assumes "csv_at st (field_text f @ d # t) None rows" "first_field f" "d = LF \<or> d = CHR '',''"
  shows "\<exists>st'. csv_array_loop deserializer_handler st = csv_array_loop deserializer_handler st' \<and>
    csv_at st' (d # t) (Some [f]) rows"
proof -
  have ok: "csv_ok st" "cr_column st = 0" "pending st = field_text f @ d # t" using assms(1) by (simp_all add: csv_at_def)
  have d: "d \<noteq> CR" "d \<noteq> CHR 0x22" using assms(3) by auto
  show ?thesis
  proof (cases "CHR '','' \<in> set f")
    case True
    have "pending st = CHR 0x22 # csv_escape_string (CHR 0x22) (CHR 0x22) f @ CHR 0x22 # d # t"
      using ok(3) field_text_quoted[OF True] by simp
    then obtain st1 where r: "csv_read_ch st = (CHR 0x22, st1)" "csv_ok st1"
      "pending st1 = csv_escape_string (CHR 0x22) (CHR 0x22) f @ CHR 0x22 # d # t" "\<not> csv_eof st1" "csv_frame st st1" "cr_column st1 = 1"
      using read_char[OF ok(1)] ok(2) by (metis add_0)
    note at1 = csv_at_frame[OF assms(1) r(5,2)]
    let ?b = "st1\<lparr>cr_string_buffer := []\<rparr>"
    obtain st2 where q: "csv_quoted_loop ?b = Some (Inr st2)" "csv_ok st2" "csv_frame ?b st2" "pending st2 = d # t"
      "cr_string_buffer st2 = f" "1 \<le> cr_column st2"
      using quoted_loop_reads[of ?b "CHR 0x22" f d t] r(2,3,6) at1 d(2) by auto
    have frame2: "csv_frame st st2" using csv_frame_trans[OF r(5) csv_frame_trans[OF csv_frame_buffer q(3)]] .
    obtain st3 where s: "csv_skip_loop st2 = Some st3" "csv_ok st3" "csv_frame st2 st3" "pending st3 = d # t"
      "cr_string_buffer st3 = f" "1 \<le> cr_column st3"
      using skip_loop_reads[OF q(2,4)] assms(3) d(1) csv_at_frame(2)[OF assms(1) frame2 q(2)] q(5,6) by auto
    have parse: "csv_parse_quoted_string st1 = Some (Inr st3)" by (simp add: csv_parse_quoted_string_def q(1) s(1))
    obtain st4 where v: "csv_array_value deserializer_handler st3 = Inr st4" "csv_at st4 (d # t) (Some [f]) rows"
      using array_value_reads[OF s(2) assms(1) csv_frame_trans[OF frame2 s(3)]] s(4-6) by auto
    have "csv_newline (CHR 0x22) st1 = st1" using at1(2) by (simp add: csv_newline_def csv_pair_def)
    then have "csv_array_step deserializer_handler (CHR 0x22) st1 = Some (Inr st4)"
      using r(6) at1(3,5) by (simp add: csv_array_step_def parse v(1))
    then show ?thesis using loop_step[OF ok(1) _ r(1,4)] ok(3) v(2) by auto
  next
    case False
    then have f: "plain_field f" "f \<noteq> []" "hd f \<noteq> CHR 0x00" using assms(2) by (auto simp: first_field_def)
    then obtain c f' where cf: "f = c # f'" by (cases f) auto
    have c: "c \<noteq> LF" "c \<noteq> CR" "c \<noteq> CHR '',''" "c \<noteq> CHR 0x22" "c \<noteq> CHR 0x00"
      using f cf by (auto simp: plain_field_def)
    have "pending st = c # f' @ d # t" using ok(3) field_text_plain[OF f(1)] cf by simp
    then obtain st1 where r: "csv_read_ch st = (c, st1)" "csv_ok st1" "pending st1 = f' @ d # t" "\<not> csv_eof st1"
      "took c st1" "csv_frame st st1" "cr_column st1 = 1"
      using read_char[OF ok(1)] ok(2) by (metis add_0)
    note at1 = csv_at_frame[OF assms(1) r(6,2)]
    let ?u = "(csv_unread_last_ch st1)\<lparr>cr_string_buffer := []\<rparr>"
    have u: "csv_ok ?u" "pending ?u = f @ d # t" "csv_frame st ?u" "cr_column ?u = 0"
      using unread_char[OF r(2,5)] r(3,7) cf csv_frame_trans[OF r(6) csv_frame_trans[OF _ csv_frame_buffer]] by auto
    obtain st2 where p: "csv_string_loop ?u = Some st2" "csv_ok st2" "csv_frame ?u st2" "pending st2 = d # t"
      "cr_string_buffer st2 = f" "cr_column st2 = length f"
      using string_loop_reads[OF u(1,2)] f(1) assms(3) d(1) csv_at_frame(2)[OF assms(1) u(3,1)] u(4)
      by (auto simp: plain_field_def)
    obtain st3 where v: "csv_array_value deserializer_handler st2 = Inr st3" "csv_at st3 (d # t) (Some [f]) rows"
      using array_value_reads[OF p(2) assms(1) csv_frame_trans[OF u(3) p(3)]] p(4-6) f(2) by auto
    have "csv_newline c st1 = st1" using at1(2) c by (simp add: csv_newline_def csv_pair_def)
    then have "csv_array_step deserializer_handler c st1 = Some (Inr st3)"
      using r(7) at1(3,5) c by (simp add: csv_array_step_def csv_parse_string_def p(1) v(1))
    then show ?thesis using loop_step[OF ok(1) _ r(1,4)] ok(3) v(2) by auto
  qed
qed

lemma next_field_reads:
  assumes "csv_at st (CHR '','' # f @ d # t) (Some xs) rows" "plain_field f" "d = LF \<or> d = CHR '',''"
  shows "\<exists>st'. csv_array_loop deserializer_handler st = csv_array_loop deserializer_handler st' \<and>
    csv_at st' (d # t) (Some (xs @ [f])) rows"
proof -
  have ok: "csv_ok st" "pending st = CHR '','' # f @ d # t" "0 < cr_column st" using assms(1) by (simp_all add: csv_at_def)
  have d: "d \<noteq> CR" using assms(3) by auto
  obtain st1 where r: "csv_read_ch st = (CHR '','', st1)" "csv_ok st1" "pending st1 = f @ d # t" "\<not> csv_eof st1"
    "csv_frame st st1" "cr_column st1 = cr_column st + 1"
    using read_char[OF ok(1,2)] by metis
  note at1 = csv_at_frame[OF assms(1) r(5,2)]
  obtain x y where xy: "f @ d # t = x # y" by (cases f) auto
  have "pending st1 = x # y" using r(3) xy by simp
  then obtain st2 where s: "csv_read_ch st1 = (x, st2)" "csv_ok st2" "pending st2 = y" "took x st2" "csv_frame st1 st2"
    "cr_column st2 = cr_column st1 + 1"
    using read_char[OF r(2)] by metis
  have newline: "csv_newline (CHR '','') st1 = st2" using at1(2) by (simp add: csv_newline_def csv_pair_def csv_skip_ch_def s(1))
  have frame2: "csv_frame st st2" using csv_frame_trans[OF r(5) s(5)] .
  note at2 = csv_at_frame[OF assms(1) frame2 s(2)]
  let ?u = "(csv_unread_last_ch st2)\<lparr>cr_string_buffer := []\<rparr>"
  have u: "csv_ok ?u" "pending ?u = f @ d # t" "csv_frame st ?u" "0 < cr_column ?u"
    using unread_char[OF s(2,4)] s(3,6) r(6) xy csv_frame_trans[OF frame2 csv_frame_trans[OF _ csv_frame_buffer]] by auto
  obtain st3 where p: "csv_string_loop ?u = Some st3" "csv_ok st3" "csv_frame ?u st3" "pending st3 = d # t"
    "cr_string_buffer st3 = f" "0 < cr_column st3"
    using string_loop_reads[OF u(1,2)] assms(2,3) d csv_at_frame(2)[OF assms(1) u(3,1)] u(4)
    by (auto simp: plain_field_def)
  obtain st4 where v: "csv_array_value deserializer_handler st3 = Inr st4" "csv_at st4 (d # t) (Some (xs @ [f])) rows"
    using array_value_reads[OF p(2) assms(1) csv_frame_trans[OF u(3) p(3)]] p(4-6) by auto
  have "csv_array_step deserializer_handler (CHR '','') st1 = Some (Inr st4)"
    using s(6) r(6) ok(3) at2(3,5) by (simp add: csv_array_step_def newline csv_parse_string_def p(1) v(1))
  then show ?thesis using loop_step[OF ok(1) _ r(1,4)] ok(2) v(2) by auto
qed

lemma line_end_reads:
  assumes "csv_at st (LF # t) (Some xs) rows"
  shows "\<exists>st'. csv_array_loop deserializer_handler st = csv_array_loop deserializer_handler st' \<and>
    csv_at st' t None (rows @ [xs])"
proof -
  have ok: "csv_ok st" "pending st = LF # t" using assms(1) by (simp_all add: csv_at_def)
  obtain st1 where r: "csv_read_ch st = (LF, st1)" "csv_ok st1" "pending st1 = t" "\<not> csv_eof st1" "csv_frame st st1"
    using read_char[OF ok] by metis
  note at1 = csv_at_frame[OF assms r(5,2)]
  have stack: "d_stack (cr_handler st1) = [open_array (map JString xs), open_array (map string_line rows)]"
    using at1(7) assms by (simp add: csv_at_def)
  let ?n = "st1\<lparr>cr_line := cr_line st1 + 1, cr_column := 0\<rparr>"
  have newline: "csv_newline LF st1 = ?n" using at1(2) by (simp add: csv_newline_def csv_pair_def)
  obtain st2 where v: "csv_end_line (ih_end_array deserializer_handler) ?n = Inr st2" "csv_at st2 t None (rows @ [xs])"
    using at1(2-6) stack r(2,3)
    by (simp add: csv_end_line_def csv_begun_def csv_on_handler_def deserializer_handler_def d_end_array_def d_close_def
        d_value_def csv_at_def open_array_def)
  have "csv_array_step deserializer_handler LF st1 = Some (Inr st2)"
    unfolding csv_array_step_def newline Let_def v(1) by simp
  then show ?thesis using loop_step[OF ok(1) _ r(1,4)] ok(2) v(2) by auto
qed

lemma fields_read:
  assumes "csv_at st (concat (map (\<lambda>f. CHR '','' # field_text f) fs) @ LF # t) (Some xs) rows" "list_all plain_field fs"
  shows "\<exists>st'. csv_array_loop deserializer_handler st = csv_array_loop deserializer_handler st' \<and>
    csv_at st' t None (rows @ [xs @ fs])"
  using assms
proof (induction fs arbitrary: st xs)
  case Nil
  then show ?case using line_end_reads by simp
next
  case (Cons f fs)
  let ?rest = "concat (map (\<lambda>f. CHR '','' # field_text f) fs) @ LF # t"
  obtain d u where du: "?rest = d # u" "d = LF \<or> d = CHR '',''" by (cases fs) auto
  have "csv_at st (CHR '','' # f @ d # u) (Some xs) rows"
    using Cons.prems field_text_plain[of f] du(1) by simp
  then obtain st1 where st1: "csv_array_loop deserializer_handler st = csv_array_loop deserializer_handler st1"
    "csv_at st1 (d # u) (Some (xs @ [f])) rows"
    using next_field_reads[of st f d u xs rows] Cons.prems(2) du(2) by auto
  show ?case using Cons.IH[of st1 "xs @ [f]"] st1 du(1) Cons.prems(2) by auto
qed

lemma line_reads:
  assumes "csv_at st (line_text r @ LF # t) None rows" "csv_line r"
  shows "\<exists>st'. csv_array_loop deserializer_handler st = csv_array_loop deserializer_handler st' \<and>
    csv_at st' t None (rows @ [r])"
proof -
  obtain f fs where r: "r = f # fs" "first_field f" "list_all plain_field fs" using assms(2) by (cases r) auto
  let ?rest = "concat (map (\<lambda>f. CHR '','' # field_text f) fs) @ LF # t"
  obtain d u where du: "?rest = d # u" "d = LF \<or> d = CHR '',''" by (cases fs) auto
  have "csv_at st (field_text f @ d # u) None rows" using assms(1) du(1) by (simp add: r(1))
  then obtain st1 where st1: "csv_array_loop deserializer_handler st = csv_array_loop deserializer_handler st1"
    "csv_at st1 (d # u) (Some [f]) rows"
    using first_field_reads[of st f d u rows] r(2) du(2) by auto
  then show ?thesis using fields_read[of st1 fs t "[f]" rows] r(1,3) du(1) by auto
qed

lemma lines_read:
  assumes "csv_at st (concat (map (\<lambda>r. line_text r @ [LF]) todo)) None rows" "list_all csv_line todo"
  shows "\<exists>st'. csv_array_loop deserializer_handler st = csv_array_loop deserializer_handler st' \<and>
    csv_at st' [] None (rows @ todo)"
  using assms
proof (induction todo arbitrary: st rows)
  case (Cons r todo)
  obtain st1 where st1: "csv_array_loop deserializer_handler st = csv_array_loop deserializer_handler st1"
    "csv_at st1 (concat (map (\<lambda>r. line_text r @ [LF]) todo)) None (rows @ [r])"
    using line_reads[of st r _ rows] Cons.prems by auto
  show ?case using Cons.IH[OF st1(2)] Cons.prems(2) st1(1) by auto
qed auto

lemma loop_at_end:
  assumes "csv_at st [] None rows"
  shows "\<exists>st'. csv_array_loop deserializer_handler st = Some (Inr st') \<and> cr_stack st' = [False, True] \<and>
    d_stack (cr_handler st') = [open_array (map string_line rows)]"
proof -
  have st: "csv_ok st" "pending st = []" "cr_stack st = [False, True]" "d_stack (cr_handler st) = [open_array (map string_line rows)]"
    using assms by (simp_all add: csv_at_def)
  obtain st1 where r: "csv_read_ch st = (CHR 0x00, st1)" "csv_eof st1" "csv_frame st st1"
    using csv_read_ch_Nil[OF st(1,2)] csv_frame_column by metis
  show ?thesis
    using st csv_frameD(2,3)[OF r(3)] by (subst csv_array_loop.simps) (simp add: r(1,2))
qed

lemma read_csv_lines:
  assumes "list_all csv_line rows"
  shows "read_csv an_object (concat (map (\<lambda>r. line_text r @ [LF]) rows)) = Some (Inr (string_lines rows))"
proof -
  let ?s = "concat (map (\<lambda>r. line_text r @ [LF]) rows)"
  define d where "d = d_begin_array new_deserializer"
  define st where "st = \<lparr>cr_column = 0, cr_line = 1, cr_string_buffer = [], cr_stack = [True], cr_input = ?s,
    cr_input_eof = False, cr_buffer = [], cr_capacity = default_max_buffer_length, cr_position = 0, cr_handler = d,
    cr_assume_header = False, cr_field_delimiter = CHR '','', cr_quote_char = CHR 0x22,
    cr_quote_escape_char = CHR 0x22, cr_comment_symbol = CHR 0x00\<rparr>"
  have "csv_at (st\<lparr>cr_stack := False # cr_stack st\<rparr>) ?s None []"
    by (simp add: csv_at_def st_def d_def csv_ok_def pending_def default_max_buffer_length_def d_begin_array_def d_push_def
        new_deserializer_def open_array_def)
  then obtain st1 where "csv_array_loop deserializer_handler (st\<lparr>cr_stack := False # cr_stack st\<rparr>) =
      csv_array_loop deserializer_handler st1" "csv_at st1 [] None rows"
    using lines_read[OF _ assms] by fastforce
  then obtain st2 where loop: "csv_array_loop deserializer_handler (st\<lparr>cr_stack := False # cr_stack st\<rparr>) = Some (Inr st2)"
    and st2: "cr_stack st2 = [False, True]" "d_stack (cr_handler st2) = [open_array (map string_line rows)]"
    using loop_at_end by metis
  have "csv_read_array_of_arrays deserializer_handler st = Some (Inr (st2\<lparr>cr_stack := [True]\<rparr>))"
    by (simp add: csv_read_array_of_arrays_def loop csv_close_line_def st2(1) csv_begun_def)
  moreover have "new_csv_reader ?s new_deserializer an_object = Inr (st\<lparr>cr_line := 0, cr_stack := [], cr_handler := new_deserializer\<rparr>)"
    by (simp add: new_csv_reader_def csv_init_def char_param_def an_object_def st_def)
  moreover have "ih_begin_array deserializer_handler new_deserializer = Inr d"
    by (simp add: deserializer_handler_def d_def)
  moreover have "ih_end_array deserializer_handler (cr_handler st2) =
      Inr ((cr_handler st2)\<lparr>d_stack := [], d_root := string_lines rows\<rparr>)"
    by (simp add: deserializer_handler_def d_end_array_def d_close_def st2(2) open_array_def string_lines_def)
  ultimately show ?thesis
    by (simp add: read_csv_def csv_read_def csv_on_handler_def st_def)
qed

text \<open>
  C39. An array of lines of strings that is written as CSV reads back as it was, if no line is empty, the
  first field of a line has a comma or is a plain text that is not empty, and the other fields are
  plain: no comma, quote or newline or carriage return.
\<close>

theorem csv_written_lines_read_back:
  assumes "list_all csv_line rows"
  shows "read_csv an_object (write_csv io (string_lines rows)) = Some (Inr (string_lines rows))"
  unfolding write_csv_lines by (rule read_csv_lines[OF assms])

theorem csv_written_lines_read_back_witness:
  "\<forall>io. read_csv an_object (write_csv io (string_lines [[''say '' @ [CHR 0x22] @ ''a,b'' @ [CHR 0x22, LF], [], ''x''], [''y'']])) =
    Some (Inr (string_lines [[''say '' @ [CHR 0x22] @ ''a,b'' @ [CHR 0x22, LF], [], ''x''], [''y'']]))"
  by (intro allI csv_written_lines_read_back) (simp add: first_field_def plain_field_def)

end
