(* ===== verification/Spec2Isabelle.thy ===== *)
theory Spec2Isabelle
  imports SnakeProperties ServerProperties JsonProperties RedisProperties WireProperties FlagStore FlagExit CsvRound
begin

text \<open>
  SnakeServer: a verification development.

  The program is a server for a turn based snake game.  \<open>main\<close> (src/main.cpp) creates a
  \<open>Server\<close> that accepts TCP connections and hands each to a \<open>SequentialLobby\<close>.  The lobby reads
  JSON lines from a waiting connection until one is a join request, seats the player in an open
  match of the requested size or in a new one, and starts a full match in a thread.  The match
  plays rounds: it waits up to a timeout for a move of every player, makes the turn on the
  board, logs and broadcasts the status.  Logs go to Redis through the vendored cpp_redis,
  JSON is read and written by the vendored jsoncons, the command line is read by the vendored gflags.

  \<^bold>\<open>Theories and sources.\<close>  Definitions have the names of the code's functions and types; a name that
  is taken gets a suffix.  The paths below are under src/.

  \<^item> Prelude: exceptions and undefined behaviour as \<open>Inl\<close> of a sum (\<open>cpp_error\<close>), \<open>bnd\<close> and \<open>foldM\<close> for
    sequences of calls, \<open>returns\<close> for total correctness, and \<open>std::map\<close> as an ordered list.
  \<^item> Grid: common/grid.h, points and the board with its unchecked access.
  \<^item> JsonValue, JsonAccess, JsonProxy: jsoncons/src/jsoncons/json1.hpp, json2.hpp and
    json_structures.hpp, the tagged union, its constructors, conversions and operations, and proxies.
    JsonWriter: json_serializer.hpp and output_format.hpp.  JsonReader: json_reader.hpp and
    json_deserializer.hpp, a state machine over a buffer of 16384 characters that is refilled.
    JsonEstimate: the estimates of capacity in the reader.
  \<^item> CsvWriter, CsvReader: jsoncons/src/jsoncons_ext/csv, JSON values from and to CSV, which the
    server does not use.  The reader is a loop over a buffer of its own and drives any handler of events.
  \<^item> Message, Connection: communication/message.cpp, tcp_connection.cpp.  A callback that a method
    would run is returned to the caller, who runs it.
  \<^item> RoundPlayer, RoundMatch: games/round_based/player.cpp and match.cpp, games/match.cpp.  Promises
    and futures are states of a store; the time at which network input arrives is a schedule, that is
    a list of inputs for each wait.
  \<^item> SnakeMatch: games/snake/match.cpp.  Broadcasts and logs throw when the peer or Redis is gone; the
    environment of a game says when.
  \<^item> Lobby: games/lobby.cpp.  Every step of a match's thread is an event: the start of its game, each
    turn, the end, and then \<open>MatchFinished\<close> player by player, which holds \<open>matches_mutex_\<close> and waits in
    the destructors of the connections.  A handler that finds the mutex held by a thread that cannot
    return without the io thread is \<open>Deadlock\<close>.
  \<^item> Server: communication/server.cpp and the loop of main.cpp, with what becomes of the program after an
    exception from a handler, an exception on a match's thread, or a deadlock (\<open>main_outcome\<close>).  FlagApi
    has \<open>main\<close> up to the loop.
  \<^item> RedisReply, RedisBuilder, RedisNet, RedisClient: cpp_redis/sources (reply.cpp and replies,
    builders, network, redis_client.cpp and redis_subscriber.cpp) and communication/game_logger.cpp.
    The write buffer has a capacity: a \<open>send\<close> that moves its storage under an outstanding write is
    noted.  A caller that waits on a condition variable of its own stack is a relation of steps, with
    spurious wakeups and the notification that comes after the variable is gone.
  \<^item> FlagValue, FlagRegistry, FlagParser, FlagApi: gflags/gflags.cc.  FlagReporting:
    gflags/gflags_reporting.cc.  FlagCompletion: gflags/gflags_completions.cc.

  \<^bold>\<open>What the lemmas show.\<close>

  \<^item> SnakeTurn, SnakeGame and SnakeProperties: the loops of a turn over the mutable board equal a pure
    specification of it; spawning establishes an invariant that every turn keeps, so that no access is
    out of range; a game ends after at most forty turns.
  \<^item> LobbyInv, MatchThreads and ServerProperties: the lobby's events end normally and keep its
    invariant, but for one deadlock, which is characterised; a match's thread plays its game in at most
    42 steps; the main loop keeps accepting; connections deliver in order, and a wait collects the
    first answers.
  \<^item> JsonTotal, JsonSafe, JsonRound and JsonProperties: the reader ends on every input, without
    undefined behaviour; what was written reads back; assignment, typed access and proxies.
  \<^item> CsvTotal and CsvRound: the CSV reader ends on every input with any handler that keeps its contract;
    lines of strings that were written read back.
  \<^item> WireProperties: writer, reader, connection and lobby together, from the bytes of a line on:
    seating a player, a line that ends the server, and a run of the server into the deadlock.
  \<^item> RedisParse and RedisProperties: the incremental parser does not depend on how the text is cut
    into reads, the round trip of replies, callbacks in order, and what happens after errors.
  \<^item> FlagProperties and FlagStore: the loop that permutes \<open>argv\<close> while it runs equals one pass from
    left to right; the port of the server; flags written and read back, and restored after a failure.
  \<^item> FlagHelp, FlagComplete and FlagExit: the wrapped help text, the lines of completions, and that
    printing never fails, so that the model of the parser may leave it out.

  \<^bold>\<open>Interfaces.\<close>  \<open>finite_map\<close> (Prelude) is the contract of \<open>std::map\<close>, \<open>board_store\<close> (Grid) of the
  board, \<open>mailbox\<close> (Connection) of a queue with waiting observers, \<open>reference\<close> (JsonProxy) of a path to a
  member, \<open>incremental_parser\<close> (RedisParse) of a parser fed in pieces, \<open>event_handler\<close> (CsvTotal) of what a
  reader sends its events to.  Each is interpreted in the
  theory that declares it on the definitions that model the code.

  \<^bold>\<open>Loops and bounds.\<close>  The loops of the JSON and CSV readers are partial functions; the theories JsonTotal
  and CsvTotal prove that they have a result on every input.  \<open>ProcessSingleOptionLocked\<close> has fuel, which bounds the depth to
  which flag files and the environment name each other: \<open>None\<close> means that it was too small.  No fuel is
  enough for a flag file that includes itself, which is a property of the program.  All other loops
  recur on their data, or on a measure given with their definition.  Integers are words of their
  width where the code can overflow them; sizes of containers are natural numbers.

  \<^bold>\<open>Parameters.\<close>  What Boost.Asio reports (bytes read and written, errors), the input that
  arrives before a wait times out, the digits of a double, \<open>fnmatch\<close>, the environment, and the files
  that can be read are arguments of the definitions that use them.

  \<^bold>\<open>Threads.\<close>  Events are atomic: a handler of the io thread, or a step of a match's thread.  A turn of
  a match touches only that match, and its input from the io thread is part of the turn's environment, so
  that turns of different matches and handlers commute.  One data race is outside the model: a match's
  thread looks up its match in \<open>matches_\<close> without the mutex while a join request may insert another.

  \<^bold>\<open>Not modelled.\<close>  References to JSON members that are kept across an insertion, which moves the members
  (the proxies of JsonProxy are used where they are made).  The test libraries gtest and gmock and the tests of the lobby, which are no part
  of the server; the BSON reader and serializer of jsoncons_ext, which nothing includes and which do not
  fit the interface of the handlers any more; custom data in JSON values; the capacities of vectors; the locks of the flag registry, as the program has
  one thread when it parses its command line; what is printed on \<open>stderr\<close>.  Texts of flags are taken to
  have no zero byte.  \<open>isspace\<close> and its relatives are those of the C locale.  Flags are ordered by the address of
  their variable where the code does so; these addresses are numbers in the order of definition.
  The file names in \<open>flag_definitions\<close> are base names, as \<open>__FILE__\<close> depends on the build.
\<close>

end
